(* ===== verification/Prelude.thy ===== *)
theory Prelude
  imports Main "HOL-Library.Word"
begin

text \<open>
  Shared vocabulary of the development: the result type of fallible Rust code and its
  combinators, unsigned machine integers, the integer square root of the standard library,
  and ordered key-value tables. The ordered tables stand both for \<open>redb\<close> tables (iterated in
  key order) and for the \<open>HashMap\<close>s of the source whose iteration order does not matter.
\<close>

unbundle bit_operations_syntax

named_theorems result_simps \<open>evaluation of the result combinators\<close>
named_theorems table_simps \<open>lookup and key laws of ordered tables\<close>

section \<open>Machine integers\<close>

type_synonym byte = "8 word"
type_synonym u32 = "32 word"
type_synonym u64 = "64 word"
type_synonym u128 = "128 word"
type_synonym b256 = "256 word"

text \<open>Rust's \<open>saturating_sub\<close> and \<open>div_ceil\<close> on unsigned integers.\<close>

definition saturating_sub :: "'a::len word \<Rightarrow> 'a word \<Rightarrow> 'a word" where
  "saturating_sub a b = (if b \<le> a then a - b else 0)"

definition checked_sub :: "'a::len word \<Rightarrow> 'a word \<Rightarrow> 'a word option" where
  "checked_sub a b = (if b \<le> a then Some (a - b) else None)"

definition div_ceil :: "'a::len word \<Rightarrow> 'a word \<Rightarrow> 'a word" where
  "div_ceil a b = (if a mod b = 0 then a div b else a div b + 1)"

text \<open>
  Subtraction on \<open>usize\<close> lengths in a release build: it wraps modulo $2^{64}$. Lengths are
  naturals below $2^{64}$ in the model.
\<close>

definition usize_sub :: "nat \<Rightarrow> nat \<Rightarrow> nat" where
  "usize_sub a b = (if b \<le> a then a - b else 2 ^ 64 + a - b)"

lemma unat_bound: "unat (x :: 'a::len word) < 2 ^ LENGTH('a)"
  by simp

lemma unat_of_nat_small: "n < 2 ^ LENGTH('a) \<Longrightarrow> unat (of_nat n :: 'a::len word) = n"
  by (simp add: unat_of_nat)

lemma unat_saturating_sub: "unat (saturating_sub a b) = unat a - unat b"
  by (simp add: saturating_sub_def unat_sub word_le_nat_alt)

lemma saturating_sub_le: "saturating_sub a b \<le> a"
  by (simp add: word_le_nat_alt unat_saturating_sub)

lemma usize_sub_exact [simp]: "b \<le> a \<Longrightarrow> usize_sub a b = a - b"
  by (simp add: usize_sub_def)

text \<open>The half-open range \<open>a..b\<close> of 64-bit integers, in increasing order.\<close>

definition u64_range :: "u64 \<Rightarrow> u64 \<Rightarrow> u64 list" where
  "u64_range a b = map of_nat [unat a..<unat b]"

lemma set_u64_range: "x \<in> set (u64_range a b) \<longleftrightarrow> a \<le> x \<and> x < b"
proof
  assume "x \<in> set (u64_range a b)"
  then obtain n where n: "unat a \<le> n" "n < unat b" "x = of_nat n"
    by (auto simp: u64_range_def)
  from n(2) have "n < 2 ^ 64"
    using unat_bound [of b] by simp
  with n(3) have "unat x = n"
    by (simp add: unat_of_nat_small)
  with n show "a \<le> x \<and> x < b"
    by (simp add: word_le_nat_alt word_less_nat_alt)
next
  assume "a \<le> x \<and> x < b"
  then have "unat x \<in> set [unat a..<unat b]"
    by (simp add: word_le_nat_alt word_less_nat_alt)
  then show "x \<in> set (u64_range a b)"
    unfolding u64_range_def by force
qed

lemma unat_add_one: "x < y \<Longrightarrow> unat (x + 1) = unat x + 1" for x y :: u64
  by unat_arith

lemma unat_less_u64: "unat (x :: u64) < 18446744073709551616"
  using unat_bound [of x] by simp

section \<open>Integer square root\<close>

text \<open>\<open>u64::isqrt\<close> and \<open>u128::isqrt\<close>: the largest integer whose square does not exceed the
  argument, computed two bits at a time.\<close>

fun isqrt_nat :: "nat \<Rightarrow> nat" where
  "isqrt_nat n =
     (if n = 0 then 0
      else let r = 2 * isqrt_nat (n div 4)
           in if (r + 1) * (r + 1) \<le> n then r + 1 else r)"

declare isqrt_nat.simps [simp del]

lemma isqrt_nat_bounds:
  "isqrt_nat n * isqrt_nat n \<le> n \<and> n < (isqrt_nat n + 1) * (isqrt_nat n + 1)"
proof (induction n rule: isqrt_nat.induct)
  case (1 n)
  show ?case
  proof (cases "n = 0")
    case True
    then show ?thesis by (simp add: isqrt_nat.simps)
  next
    case False
    define q where "q = isqrt_nat (n div 4)"
    from 1 [OF False] have q: "q * q \<le> n div 4" "n div 4 < (q + 1) * (q + 1)"
      by (auto simp: q_def)
    from q(1) have lo: "(2 * q) * (2 * q) \<le> n"
      by simp
    from q(2) have "n div 4 + 1 \<le> (q + 1) * (q + 1)"
      by simp
    then have "4 * (n div 4) + 4 \<le> 4 * ((q + 1) * (q + 1))"
      by linarith
    then have "n < 4 * ((q + 1) * (q + 1))"
      using mod_less_divisor [of 4 n] div_mult_mod_eq [of n 4] by linarith
    then have hi: "n < (2 * q + 1 + 1) * (2 * q + 1 + 1)"
      by (simp add: algebra_simps)
    show ?thesis
      using False lo hi by (subst (1 2 3 4) isqrt_nat.simps) (auto simp: Let_def q_def)
  qed
qed

lemma isqrt_nat_unique:
  assumes "r * r \<le> n" and "n < (r + 1) * (r + 1)"
  shows "isqrt_nat n = r"
proof (rule ccontr)
  assume "isqrt_nat n \<noteq> r"
  then consider "isqrt_nat n + 1 \<le> r" | "r + 1 \<le> isqrt_nat n" by linarith
  then show False
  proof cases
    case 1
    then have "(isqrt_nat n + 1) * (isqrt_nat n + 1) \<le> r * r" by (intro mult_le_mono)
    with assms isqrt_nat_bounds [of n] show False by linarith
  next
    case 2
    then have "(r + 1) * (r + 1) \<le> isqrt_nat n * isqrt_nat n" by (intro mult_le_mono)
    with assms isqrt_nat_bounds [of n] show False by linarith
  qed
qed

lemma isqrt_nat_square [simp]: "isqrt_nat (k * k) = k"
  by (rule isqrt_nat_unique) auto

lemma isqrt_nat_square_iff: "isqrt_nat n * isqrt_nat n = n \<longleftrightarrow> (\<exists>k. n = k * k)"
  by (metis isqrt_nat_square)

definition isqrt :: "'a::len word \<Rightarrow> 'a word" where
  "isqrt x = of_nat (isqrt_nat (unat x))"

lemma isqrt_nat_le: "isqrt_nat n \<le> n"
proof (cases "isqrt_nat n = 0")
  case False
  then have "isqrt_nat n \<le> isqrt_nat n * isqrt_nat n" by simp
  also have "\<dots> \<le> n" using isqrt_nat_bounds [of n] by blast
  finally show ?thesis .
qed simp

lemma unat_isqrt: "unat (isqrt x) = isqrt_nat (unat x)"
  unfolding isqrt_def
  by (rule unat_of_nat_small) (rule le_less_trans [OF isqrt_nat_le unat_bound])

section \<open>Results\<close>

text \<open>
  \<open>Result<T, E>\<close> is \<open>'e + 'a\<close> with the error on the left. \<open>and_then\<close> is the \<open>?\<close> operator,
  \<open>ensure\<close> the macro of \<open>anyhow\<close>, \<open>ok_or\<close> the method of \<open>Option\<close>, \<open>try_fold\<close> a \<open>for\<close> loop
  whose body may return early with an error, \<open>try_map\<close> collecting an iterator of results.
\<close>

definition and_then :: "'e + 'a \<Rightarrow> ('a \<Rightarrow> 'e + 'b) \<Rightarrow> 'e + 'b" where
  "and_then r f = (case r of Inl e \<Rightarrow> Inl e | Inr x \<Rightarrow> f x)"

definition ensure :: "bool \<Rightarrow> 'e \<Rightarrow> 'e + unit" where
  "ensure b e = (if b then Inr () else Inl e)"

definition ok_or :: "'a option \<Rightarrow> 'e \<Rightarrow> 'e + 'a" where
  "ok_or m e = (case m of None \<Rightarrow> Inl e | Some x \<Rightarrow> Inr x)"

definition map_err :: "('e \<Rightarrow> 'f) \<Rightarrow> 'e + 'a \<Rightarrow> 'f + 'a" where
  "map_err f r = (case r of Inl e \<Rightarrow> Inl (f e) | Inr x \<Rightarrow> Inr x)"

text \<open>\<open>slice.get(index)\<close>\<close>

definition list_get :: "'a list \<Rightarrow> nat \<Rightarrow> 'a option" where
  "list_get xs i = (if i < length xs then Some (xs ! i) else None)"

fun try_fold :: "('s \<Rightarrow> 'x \<Rightarrow> 'e + 's) \<Rightarrow> 's \<Rightarrow> 'x list \<Rightarrow> 'e + 's" where
  "try_fold f s [] = Inr s"
| "try_fold f s (x # xs) = and_then (f s x) (\<lambda>s'. try_fold f s' xs)"

fun try_map :: "('x \<Rightarrow> 'e + 'y) \<Rightarrow> 'x list \<Rightarrow> 'e + 'y list" where
  "try_map f [] = Inr []"
| "try_map f (x # xs) = and_then (f x) (\<lambda>y. and_then (try_map f xs) (\<lambda>ys. Inr (y # ys)))"

lemma and_then_Inl [simp]: "and_then (Inl e) f = Inl e"
  by (simp add: and_then_def)

lemma and_then_Inr [simp]: "and_then (Inr x) f = f x"
  by (simp add: and_then_def)

lemma and_then_eq_Inr [result_simps]:
  "and_then r f = Inr y \<longleftrightarrow> (\<exists>x. r = Inr x \<and> f x = Inr y)"
  by (auto simp: and_then_def split: sum.splits)

lemma and_then_eq_Inl [result_simps]:
  "and_then r f = Inl e \<longleftrightarrow> r = Inl e \<or> (\<exists>x. r = Inr x \<and> f x = Inl e)"
  by (auto simp: and_then_def split: sum.splits)

lemma and_then_cong [fundef_cong]:
  "r = r' \<Longrightarrow> (\<And>x. r' = Inr x \<Longrightarrow> f x = g x) \<Longrightarrow> and_then r f = and_then r' g"
  by (auto simp: and_then_def split: sum.splits)

lemma ensure_True [simp]: "ensure True e = Inr ()"
  by (simp add: ensure_def)

lemma ensure_False [simp]: "ensure False e = Inl e"
  by (simp add: ensure_def)

lemma ensure_eq_Inr [result_simps]: "ensure b e = Inr u \<longleftrightarrow> b"
  by (simp add: ensure_def)

lemma ensure_eq_Inl [result_simps]: "ensure b e = Inl e' \<longleftrightarrow> \<not> b \<and> e' = e"
  by (auto simp: ensure_def)

lemma ok_or_Some [simp]: "ok_or (Some x) e = Inr x"
  by (simp add: ok_or_def)

lemma ok_or_None [simp]: "ok_or None e = Inl e"
  by (simp add: ok_or_def)

lemma ok_or_eq_Inr [result_simps]: "ok_or m e = Inr x \<longleftrightarrow> m = Some x"
  by (simp add: ok_or_def split: option.splits)

lemma ok_or_eq_Inl [result_simps]: "ok_or m e = Inl e' \<longleftrightarrow> m = None \<and> e' = e"
  by (auto simp: ok_or_def split: option.splits)

lemma map_err_Inr [simp]: "map_err f (Inr x) = Inr x"
  by (simp add: map_err_def)

lemma map_err_Inl [simp]: "map_err f (Inl e) = Inl (f e)"
  by (simp add: map_err_def)

lemma map_err_eq_Inr [result_simps]: "map_err f r = Inr x \<longleftrightarrow> r = Inr x"
  by (cases r) simp_all

lemma map_err_eq_Inl [result_simps]: "map_err f r = Inl e \<longleftrightarrow> (\<exists>e'. r = Inl e' \<and> e = f e')"
  by (cases r) auto

lemma list_get_Some: "list_get xs i = Some x \<longleftrightarrow> i < length xs \<and> x = xs ! i"
  by (auto simp: list_get_def)

lemma try_fold_append:
  "try_fold f s (xs @ ys) = and_then (try_fold f s xs) (\<lambda>s'. try_fold f s' ys)"
  by (induction xs arbitrary: s) (auto simp: and_then_def split: sum.splits)

lemma try_fold_cong_set:
  "(\<And>s x. x \<in> set xs \<Longrightarrow> f s x = g s x) \<Longrightarrow> try_fold f s xs = try_fold g s xs"
  by (induction xs arbitrary: s) auto

lemma try_fold_Inr_fold:
  "(\<And>s x. x \<in> set xs \<Longrightarrow> f s x = Inr (g s x)) \<Longrightarrow> try_fold f s xs = Inr (foldl g s xs)"
  by (induction xs arbitrary: s) auto

lemma try_map_eq_Inr:
  "try_map f xs = Inr ys \<longleftrightarrow> list_all2 (\<lambda>x y. f x = Inr y) xs ys"
  by (induction xs arbitrary: ys) (auto simp: result_simps list_all2_Cons1)

lemma try_map_length: "try_map f xs = Inr ys \<Longrightarrow> length ys = length xs"
  by (auto simp: try_map_eq_Inr dest: list_all2_lengthD)

text \<open>
  A loop whose body keeps an invariant keeps it as a whole: the contract of every \<open>for\<close> loop
  with early returns.
\<close>

locale fallible_loop =
  fixes step :: "'s \<Rightarrow> 'x \<Rightarrow> 'e + 's"
    and inv :: "'s \<Rightarrow> bool"
    and rel :: "'s \<Rightarrow> 's \<Rightarrow> bool"
  assumes step_inv: "inv s \<Longrightarrow> step s x = Inr s' \<Longrightarrow> inv s'"
    and step_rel: "inv s \<Longrightarrow> step s x = Inr s' \<Longrightarrow> rel s s'"
    and rel_refl: "rel s s"
    and rel_trans: "rel s t \<Longrightarrow> rel t u \<Longrightarrow> rel s u"
begin

lemma fold_inv: "inv s \<Longrightarrow> try_fold step s xs = Inr s' \<Longrightarrow> inv s'"
  by (induction xs arbitrary: s) (auto simp: result_simps dest: step_inv)

lemma fold_rel: "inv s \<Longrightarrow> try_fold step s xs = Inr s' \<Longrightarrow> rel s s'"
proof (induction xs arbitrary: s)
  case Nil
  then show ?case by (simp add: rel_refl)
next
  case (Cons x xs)
  then obtain t where t: "step s x = Inr t" "try_fold step t xs = Inr s'"
    by (auto simp: result_simps)
  with Cons show ?case
    by (blast intro: rel_trans step_rel step_inv)
qed

end

section \<open>Programs over a mutable store\<close>

text \<open>
  A method that may fail and also writes to a shared store returns its result together with
  the store it leaves behind: what was written before an early return stays written.
\<close>

type_synonym ('s, 'e, 'a) prog = "'s \<Rightarrow> ('e + 'a) \<times> 's"

definition pbind :: "('s, 'e, 'a) prog \<Rightarrow> ('a \<Rightarrow> ('s, 'e, 'b) prog) \<Rightarrow> ('s, 'e, 'b) prog" where
  "pbind m f s = (case m s of (Inl e, s') \<Rightarrow> (Inl e, s') | (Inr x, s') \<Rightarrow> f x s')"

definition preturn :: "'a \<Rightarrow> ('s, 'e, 'a) prog" where
  "preturn x s = (Inr x, s)"

definition plift :: "'e + 'a \<Rightarrow> ('s, 'e, 'a) prog" where
  "plift r s = (r, s)"

definition pread :: "('s \<Rightarrow> 'e + 'a) \<Rightarrow> ('s, 'e, 'a) prog" where
  "pread f s = (f s, s)"

definition pmodify :: "('s \<Rightarrow> 's) \<Rightarrow> ('s, 'e, unit) prog" where
  "pmodify f s = (Inr (), f s)"

fun pforeach :: "('x \<Rightarrow> ('s, 'e, unit) prog) \<Rightarrow> 'x list \<Rightarrow> ('s, 'e, unit) prog" where
  "pforeach f [] = preturn ()"
| "pforeach f (x # xs) = pbind (f x) (\<lambda>_. pforeach f xs)"

lemma pbind_eq_Inr [result_simps]:
  "pbind m f s = (Inr y, s') \<longleftrightarrow> (\<exists>x t. m s = (Inr x, t) \<and> f x t = (Inr y, s'))"
  by (auto simp: pbind_def split: prod.splits sum.splits)

lemma pbind_eq_Inl [result_simps]:
  "pbind m f s = (Inl e, s') \<longleftrightarrow>
     m s = (Inl e, s') \<or> (\<exists>x t. m s = (Inr x, t) \<and> f x t = (Inl e, s'))"
  by (auto simp: pbind_def split: prod.splits sum.splits)

lemma preturn_eq [result_simps]: "preturn x s = (r, s') \<longleftrightarrow> r = Inr x \<and> s' = s"
  by (auto simp: preturn_def)

lemma plift_eq [result_simps]: "plift q s = (r, s') \<longleftrightarrow> r = q \<and> s' = s"
  by (auto simp: plift_def)

lemma pread_eq [result_simps]: "pread f s = (r, s') \<longleftrightarrow> r = f s \<and> s' = s"
  by (auto simp: pread_def)

lemma pmodify_eq [result_simps]: "pmodify f s = (r, s') \<longleftrightarrow> r = Inr () \<and> s' = f s"
  by (auto simp: pmodify_def)

text \<open>What a program does to the store, whether it returns or fails: sequencing and loops
  keep any reflexive and transitive relation that their parts keep.\<close>

definition keeps :: "('s \<Rightarrow> 's \<Rightarrow> bool) \<Rightarrow> ('s, 'e, 'a) prog \<Rightarrow> bool" where
  "keeps R m \<longleftrightarrow> (\<forall>s. R s (snd (m s)))"

lemma keepsD: "keeps R m \<Longrightarrow> m s = (r, s') \<Longrightarrow> R s s'"
  unfolding keeps_def by (metis snd_conv)

locale store_frame =
  fixes R :: "'s \<Rightarrow> 's \<Rightarrow> bool"
  assumes refl: "R s s"
    and trans: "R s t \<Longrightarrow> R t u \<Longrightarrow> R s u"
begin

lemma keeps_preturn: "keeps R (preturn x)"
  by (simp add: keeps_def preturn_def refl)

lemma keeps_plift: "keeps R (plift x)"
  by (simp add: keeps_def plift_def refl)

lemma keeps_pread: "keeps R (pread f)"
  by (simp add: keeps_def pread_def refl)

lemma keeps_pbind: "keeps R m \<Longrightarrow> (\<And>x. keeps R (f x)) \<Longrightarrow> keeps R (pbind m f)"
  unfolding keeps_def pbind_def by (auto split: prod.splits sum.splits) (metis trans snd_conv)+

lemma keeps_pmodify: "(\<And>s. R s (f s)) \<Longrightarrow> keeps R (pmodify f)"
  by (simp add: keeps_def pmodify_def)

lemma keeps_pforeach: "(\<And>x. x \<in> set xs \<Longrightarrow> keeps R (f x)) \<Longrightarrow> keeps R (pforeach f xs)"
  by (induction xs) (auto intro: keeps_preturn keeps_pbind)

lemma keeps_if: "keeps R m \<Longrightarrow> keeps R n \<Longrightarrow> keeps R (if b then m else n)"
  by simp

lemmas keeps_intros = keeps_preturn keeps_plift keeps_pread keeps_pbind keeps_pmodify
  keeps_pforeach keeps_if

end

section \<open>Ordered tables\<close>

type_synonym ('k, 'v) table = "('k \<times> 'v) list"

abbreviation tbl_get :: "('k, 'v) table \<Rightarrow> 'k \<Rightarrow> 'v option" where
  "tbl_get \<equiv> map_of"

abbreviation tbl_keys :: "('k, 'v) table \<Rightarrow> 'k list" where
  "tbl_keys \<equiv> map fst"

definition tbl_wf :: "('k::linorder, 'v) table \<Rightarrow> bool" where
  "tbl_wf t \<longleftrightarrow> sorted_wrt (<) (map fst t)"

fun tbl_insert :: "'k::linorder \<Rightarrow> 'v \<Rightarrow> ('k, 'v) table \<Rightarrow> ('k, 'v) table" where
  "tbl_insert k v [] = [(k, v)]"
| "tbl_insert k v ((k', v') # t) =
     (if k = k' then (k, v) # t
      else if k < k' then (k, v) # (k', v') # t
      else (k', v') # tbl_insert k v t)"

definition tbl_retain :: "('k \<Rightarrow> 'v \<Rightarrow> bool) \<Rightarrow> ('k, 'v) table \<Rightarrow> ('k, 'v) table" where
  "tbl_retain P t = filter (\<lambda>(k, v). P k v) t"

definition tbl_remove :: "'k \<Rightarrow> ('k, 'v) table \<Rightarrow> ('k, 'v) table" where
  "tbl_remove k t = tbl_retain (\<lambda>k' _. k' \<noteq> k) t"

lemma tbl_wf_Nil [simp]: "tbl_wf []"
  by (simp add: tbl_wf_def)

lemma tbl_wf_Cons:
  "tbl_wf ((k, v) # t) \<longleftrightarrow> (\<forall>k' \<in> fst ` set t. k < k') \<and> tbl_wf t"
  by (auto simp: tbl_wf_def)

lemma tbl_wf_distinct: "tbl_wf t \<Longrightarrow> distinct (map fst t)"
  unfolding tbl_wf_def by (simp add: strict_sorted_iff)

lemma tbl_insert_keys [table_simps]: "fst ` set (tbl_insert k v t) = insert k (fst ` set t)"
  by (induction t) (force split: if_splits)+

lemma tbl_get_insert [table_simps]: "tbl_get (tbl_insert k v t) = (tbl_get t)(k \<mapsto> v)"
  by (induction t) auto

lemma tbl_wf_insert [simp]: "tbl_wf t \<Longrightarrow> tbl_wf (tbl_insert k v t)"
proof (induction t)
  case (Cons p t)
  then show ?case by (cases p) (force simp: tbl_wf_Cons tbl_insert_keys)
qed (simp add: tbl_wf_Cons)

lemma tbl_get_retain [table_simps]:
  "distinct (map fst t) \<Longrightarrow>
   tbl_get (tbl_retain P t) k =
     (case tbl_get t k of None \<Rightarrow> None | Some v \<Rightarrow> if P k v then Some v else None)"
  by (induction t)
    (auto simp: tbl_retain_def split: option.splits if_splits dest: map_of_SomeD intro: rev_image_eqI)

lemma tbl_wf_retain [simp]: "tbl_wf t \<Longrightarrow> tbl_wf (tbl_retain P t)"
  unfolding tbl_wf_def tbl_retain_def
  by (induction t) auto

lemma tbl_get_remove [table_simps]: "tbl_get (tbl_remove k t) = (tbl_get t)(k := None)"
  by (induction t) (auto simp: tbl_remove_def tbl_retain_def)

lemma tbl_wf_remove [simp]: "tbl_wf t \<Longrightarrow> tbl_wf (tbl_remove k t)"
  by (simp add: tbl_remove_def)

lemma tbl_retain_keys: "fst ` set (tbl_retain P t) \<subseteq> fst ` set t"
  by (auto simp: tbl_retain_def)

lemma tbl_get_keys: "(tbl_get t k \<noteq> None) \<longleftrightarrow> k \<in> fst ` set t"
  by (simp add: map_of_eq_None_iff)

lemma tbl_insert_last:
  "(\<And>k'. k' \<in> set (tbl_keys t) \<Longrightarrow> k' < k) \<Longrightarrow> tbl_insert k v t = t @ [(k, v)]"
proof (induction t)
  case (Cons p t)
  obtain k' v' where [simp]: "p = (k', v')" by force
  from Cons.prems [of k'] have "k' < k" by simp
  then have "k \<noteq> k'" "\<not> k < k'" by auto
  then show ?case using Cons.IH Cons.prems by simp
qed simp

lemma tbl_wf_snoc: "tbl_wf (t @ [(k, v)]) \<longleftrightarrow> tbl_wf t \<and> (\<forall>k' \<in> fst ` set t. k' < k)"
  by (auto simp: tbl_wf_def sorted_wrt_append)

text \<open>Inserting the entries of a well-formed table in order rebuilds it.\<close>

lemma fold_tbl_insert: "tbl_wf t \<Longrightarrow> fold (\<lambda>(k, v). tbl_insert k v) t [] = t"
proof (induction t rule: rev_induct)
  case (snoc p t)
  then show ?case by (cases p) (auto simp: tbl_wf_snoc intro!: tbl_insert_last)
qed simp

text \<open>A well-formed table is determined by its lookups.\<close>

lemma tbl_eqI:
  "tbl_wf t \<Longrightarrow> tbl_wf u \<Longrightarrow> tbl_get t = tbl_get u \<Longrightarrow> t = u"
proof (induction t arbitrary: u)
  case Nil
  then show ?case by (cases u) (auto simp: fun_eq_iff split: if_splits)
next
  case (Cons p t)
  obtain k v where p: "p = (k, v)" by (cases p)
  have kt: "\<forall>k' \<in> fst ` set t. k < k'" and wt: "tbl_wf t"
    using Cons.prems(1) by (auto simp: p tbl_wf_Cons)
  have eq: "tbl_get ((k, v) # t) x = tbl_get u x" for x
    using fun_cong [OF Cons.prems(3), of x] by (simp add: p)
  from eq [of k] have uk: "tbl_get u k = Some v" by simp
  then obtain k0 v0 u0 where u: "u = (k0, v0) # u0" by (cases u) auto
  have ku: "\<forall>k' \<in> fst ` set u0. k0 < k'" and wu: "tbl_wf u0"
    using Cons.prems(2) by (auto simp: u tbl_wf_Cons)
  have "k0 \<in> fst ` set ((k, v) # t)"
    using eq [of k0] by (auto simp: u split: if_splits simp flip: tbl_get_keys)
  with kt have le: "k \<le> k0" by auto
  have "k \<in> fst ` set ((k0, v0) # u0)"
    using uk by (auto simp: u split: if_splits simp flip: tbl_get_keys)
  with ku le have k0: "k0 = k" by auto
  with uk have v0: "v0 = v" by (simp add: u)
  have "tbl_get t = tbl_get u0"
  proof
    fix x
    show "tbl_get t x = tbl_get u0 x"
    proof (cases "x = k")
      case True
      then have "x \<notin> fst ` set t" "x \<notin> fst ` set u0"
        using kt ku k0 by auto
      then show ?thesis by (simp flip: map_of_eq_None_iff)
    next
      case False
      with eq [of x] k0 show ?thesis by (simp add: u)
    qed
  qed
  with Cons.IH wt wu have "t = u0" by blast
  with p u k0 v0 show ?case by simp
qed

text \<open>
  The contract of a key-value table: what a lookup returns after each operation, that every
  operation keeps the invariant, and that lookups determine a table.
\<close>

locale kv_table =
  fixes get :: "'t \<Rightarrow> 'k \<Rightarrow> 'v option"
    and insert :: "'k \<Rightarrow> 'v \<Rightarrow> 't \<Rightarrow> 't"
    and remove :: "'k \<Rightarrow> 't \<Rightarrow> 't"
    and retain :: "('k \<Rightarrow> 'v \<Rightarrow> bool) \<Rightarrow> 't \<Rightarrow> 't"
    and wf :: "'t \<Rightarrow> bool"
  assumes get_insert: "wf t \<Longrightarrow> get (insert k v t) = (get t)(k \<mapsto> v)"
    and get_remove: "wf t \<Longrightarrow> get (remove k t) = (get t)(k := None)"
    and get_retain: "wf t \<Longrightarrow> get (retain P t) k =
      (case get t k of None \<Rightarrow> None | Some v \<Rightarrow> if P k v then Some v else None)"
    and wf_insert: "wf t \<Longrightarrow> wf (insert k v t)"
    and wf_remove: "wf t \<Longrightarrow> wf (remove k t)"
    and wf_retain: "wf t \<Longrightarrow> wf (retain P t)"
    and ext: "wf t \<Longrightarrow> wf u \<Longrightarrow> get t = get u \<Longrightarrow> t = u"
begin

lemma insert_commute:
  "wf t \<Longrightarrow> k \<noteq> k' \<Longrightarrow> insert k v (insert k' v' t) = insert k' v' (insert k v t)"
  by (rule ext) (auto simp: get_insert wf_insert fun_upd_twist)

lemma insert_same: "wf t \<Longrightarrow> get t k = Some v \<Longrightarrow> insert k v t = t"
  by (rule ext) (auto simp: get_insert wf_insert)

lemma retain_retain:
  "wf t \<Longrightarrow> retain P (retain Q t) = retain (\<lambda>k v. P k v \<and> Q k v) t"
  by (rule ext) (auto simp: get_retain wf_retain fun_eq_iff split: option.splits)

lemma retain_all: "wf t \<Longrightarrow> (\<And>k v. get t k = Some v \<Longrightarrow> P k v) \<Longrightarrow> retain P t = t"
  by (rule ext) (auto simp: get_retain wf_retain fun_eq_iff split: option.splits)

lemma wf_inserts: "wf t \<Longrightarrow> wf (fold (\<lambda>(k, v). insert k v) kvs t)"
  by (induction kvs arbitrary: t) (auto intro: wf_insert)

lemma get_inserts:
  "wf t \<Longrightarrow> distinct (map fst kvs) \<Longrightarrow>
   get (fold (\<lambda>(k, v). insert k v) kvs t) k =
     (case map_of kvs k of Some v \<Rightarrow> Some v | None \<Rightarrow> get t k)"
proof (induction kvs arbitrary: t)
  case Nil
  then show ?case by simp
next
  case (Cons p kvs)
  obtain k0 v0 where p: "p = (k0, v0)" by (cases p)
  have "map_of kvs k0 = None"
    using Cons.prems by (simp add: p map_of_eq_None_iff)
  then show ?case
    using Cons by (auto simp: p wf_insert get_insert split: option.splits)
qed

text \<open>The order in which entries with distinct keys are inserted does not matter.\<close>

lemma inserts_perm:
  assumes "wf t" and "distinct (map fst kvs)" and "set kvs = set kvs'" and "distinct (map fst kvs')"
  shows "fold (\<lambda>(k, v). insert k v) kvs t = fold (\<lambda>(k, v). insert k v) kvs' t"
proof (rule ext)
  have "map_of kvs = map_of kvs'"
    using assms by (metis map_of_inject_set)
  then show "get (fold (\<lambda>(k, v). insert k v) kvs t) = get (fold (\<lambda>(k, v). insert k v) kvs' t)"
    using assms by (auto simp: get_inserts)
qed (use assms in \<open>auto intro: wf_inserts\<close>)

end

interpretation tbl: kv_table tbl_get tbl_insert tbl_remove tbl_retain tbl_wf
  by unfold_locales
    (auto simp: table_simps tbl_wf_distinct intro: tbl_eqI)

end
