(* ===== verification/Lean_Slot.thy ===== *)
theory Lean_Slot
  imports Prelude
begin

text \<open>
  Slot arithmetic of the Lean chain (\<open>consensus/lean/src/slot.rs\<close>): which slots may be
  justified after a finalized slot, and where a slot's bit lives in the justified-slots window
  that starts right after the finalized slot. Also the proposer rotation
  (\<open>consensus/lean/src/validator.rs\<close>).
\<close>

section \<open>Definitions\<close>

definition is_justifiable_after :: "u64 \<Rightarrow> u64 \<Rightarrow> bool" where
  "is_justifiable_after candidate_slot finalized_slot =
     (if candidate_slot < finalized_slot then False
      else
        (let delta = candidate_slot - finalized_slot;
             pronic_discriminant = (4 * ucast delta + 1 :: u128);
             discriminant_root = isqrt pronic_discriminant
         in delta \<le> 5
            \<or> (isqrt delta) ^ 2 = delta
            \<or> (discriminant_root ^ 2 = pronic_discriminant \<and> discriminant_root mod 2 = 1)))"

definition justified_index_after :: "u64 \<Rightarrow> u64 \<Rightarrow> u64 option" where
  "justified_index_after candidate_slot finalized_slot =
     (if candidate_slot \<le> finalized_slot then None
      else Some (candidate_slot - finalized_slot - 1))"

text \<open>Rust's \<open>%\<close> panics on a zero divisor; \<open>None\<close> is that panic.\<close>

definition is_proposer :: "u64 \<Rightarrow> u64 \<Rightarrow> u64 \<Rightarrow> bool option" where
  "is_proposer validator_index slot validator_count =
     (if validator_count = 0 then None else Some (slot mod validator_count = validator_index))"

section \<open>Justifiable slots\<close>

text \<open>The 3SF-mini rule over the naturals: a distance of at most five, a square or a pronic
  number.\<close>

definition justifiable_distance :: "nat \<Rightarrow> bool" where
  "justifiable_distance d \<longleftrightarrow> d \<le> 5 \<or> (\<exists>k. d = k * k) \<or> (\<exists>k. d = k * (k + 1))"

lemma isqrt_square_word: "(isqrt x) ^ 2 = x \<longleftrightarrow> (\<exists>k. unat x = k * k)" for x :: "'a::len word"
proof -
  have bound: "isqrt_nat (unat x) * isqrt_nat (unat x) < 2 ^ LENGTH('a)"
    using isqrt_nat_bounds [of "unat x"] unat_bound [of x] by linarith
  have "unat ((isqrt x) ^ 2) = isqrt_nat (unat x) * isqrt_nat (unat x)"
    using bound by (simp add: power2_eq_square unat_word_ariths unat_isqrt)
  then have "(isqrt x) ^ 2 = x \<longleftrightarrow> isqrt_nat (unat x) * isqrt_nat (unat x) = unat x"
    by (metis word_unat_eq_iff)
  then show ?thesis by (simp add: isqrt_nat_square_iff)
qed

lemma odd_square_pronic:
  fixes d r :: nat
  assumes "4 * d + 1 = r * r"
  shows "\<exists>k. d = k * (k + 1)"
proof -
  have "odd (r * r)" by (simp flip: assms)
  then have "odd r" by simp
  then obtain k where "r = 2 * k + 1" by (elim oddE)
  with assms have "4 * d = 4 * (k * (k + 1))" by (simp add: algebra_simps)
  then have "d = k * (k + 1)" by linarith
  then show ?thesis by blast
qed

lemma unat_discriminant: "unat (4 * ucast (delta :: u64) + 1 :: u128) = 4 * unat delta + 1"
proof -
  have "unat (ucast delta :: u128) = unat delta"
    by (simp add: unsigned_ucast_eq take_bit_nat_eq_self_iff
      less_trans [OF unat_less_u64])
  moreover have "4 * unat delta + 1 < 2 ^ 128"
    using unat_less_u64 [of delta] by simp
  ultimately show ?thesis
    by (simp add: unat_word_ariths)
qed

lemma discriminant_iff:
  fixes delta :: u64
  defines "pd \<equiv> (4 * ucast delta + 1 :: u128)"
  shows "(isqrt pd) ^ 2 = pd \<and> isqrt pd mod 2 = 1 \<longleftrightarrow> (\<exists>k. unat delta = k * (k + 1))"
proof
  assume "(isqrt pd) ^ 2 = pd \<and> isqrt pd mod 2 = 1"
  then obtain r where "unat pd = r * r"
    by (auto simp: isqrt_square_word)
  then show "\<exists>k. unat delta = k * (k + 1)"
    by (metis odd_square_pronic unat_discriminant pd_def)
next
  assume "\<exists>k. unat delta = k * (k + 1)"
  then obtain k where k: "unat delta = k * (k + 1)" by blast
  have sq: "unat pd = (2 * k + 1) * (2 * k + 1)"
    using unat_discriminant [of delta] k by (simp add: pd_def algebra_simps)
  then have "unat (isqrt pd) = 2 * k + 1"
    by (simp only: unat_isqrt isqrt_nat_square)
  then have "unat (isqrt pd mod 2) = unat (1 :: u128)"
    by (simp add: unat_mod)
  then have "isqrt pd mod 2 = 1"
    by (simp only: word_unat_eq_iff)
  moreover have "(isqrt pd) ^ 2 = pd"
    unfolding isqrt_square_word using sq by blast
  ultimately show "(isqrt pd) ^ 2 = pd \<and> isqrt pd mod 2 = 1"
    by blast
qed

lemma is_justifiable_after_iff:
  "is_justifiable_after c f \<longleftrightarrow> f \<le> c \<and> justifiable_distance (unat c - unat f)"
proof (cases "c < f")
  case True
  then show ?thesis by (auto simp: is_justifiable_after_def)
next
  case False
  then have fc: "f \<le> c" by simp
  then have d: "unat (c - f) = unat c - unat f"
    by (rule unat_sub)
  have "c - f \<le> 5 \<longleftrightarrow> unat (c - f) \<le> 5"
    by (simp add: word_le_nat_alt)
  then show ?thesis
    using False fc
    by (simp only: is_justifiable_after_def Let_def justifiable_distance_def discriminant_iff
      isqrt_square_word [of "c - f"] d if_False simp_thms)
qed

lemma justifiable_distance_gap:
  "d \<le> k * k \<Longrightarrow> \<exists>d'. d \<le> d' \<and> d' \<le> k * k \<and> justifiable_distance d'"
  unfolding justifiable_distance_def by blast

section \<open>The justified-slots window\<close>

lemma justified_index_after_None [simp]:
  "justified_index_after c f = None \<longleftrightarrow> c \<le> f"
  by (simp add: justified_index_after_def)

lemma justified_index_after_Some:
  "justified_index_after c f = Some i \<longleftrightarrow> f < c \<and> unat i = unat c - unat f - 1"
proof (cases "c \<le> f")
  case True
  then show ?thesis by (auto simp: justified_index_after_def)
next
  case False
  then have lt: "f < c" by simp
  then have sub: "unat (c - f) = unat c - unat f" and pos: "1 \<le> c - f"
    by (auto simp: unat_sub word_le_nat_alt word_less_nat_alt)
  then have idx: "unat (c - f - 1) = unat c - unat f - 1"
    by (simp add: unat_sub)
  have "c - f - 1 = i \<longleftrightarrow> unat i = unat (c - f - 1)"
    by (metis word_unat_eq_iff)
  with False lt idx show ?thesis
    by (simp add: justified_index_after_def)
qed

lemma justified_index_after_unat:
  "f < c \<Longrightarrow> \<exists>i. justified_index_after c f = Some i \<and> unat i = unat c - unat f - 1"
  by (metis justified_index_after_None justified_index_after_Some not_Some_eq not_le)

text \<open>Re-basing the window on a later finalized slot shifts every index by the distance between
  the two finalized slots.\<close>

lemma justified_index_after_rebase:
  assumes "justified_index_after c f' = Some j" and "f \<le> f'"
  shows "\<exists>i. justified_index_after c f = Some i \<and> unat i = unat j + (unat f' - unat f)"
proof -
  from assms have c: "f' < c" and j: "unat j = unat c - unat f' - 1"
    by (auto simp: justified_index_after_Some)
  from c assms(2) have "f < c" by (rule le_less_trans [rotated])
  then obtain i where "justified_index_after c f = Some i" "unat i = unat c - unat f - 1"
    using justified_index_after_unat by blast
  with j c assms(2) show ?thesis
    by (auto simp: word_less_nat_alt word_le_nat_alt)
qed

section \<open>Properties\<close>

text \<open>
  C1. A slot is justifiable after a finalized slot exactly when it is not before it and their
  distance is at most five, a perfect square or a pronic number: the 64-bit and 128-bit
  integer arithmetic of the code (square roots, the discriminant \<open>4 * delta + 1\<close>) never
  overflows and decides the 3SF-mini rule for all 64-bit slots.
\<close>

theorem is_justifiable_after_correct:
  "is_justifiable_after candidate finalized \<longleftrightarrow>
     finalized \<le> candidate \<and>
     (let d = unat candidate - unat finalized
      in d \<le> 5 \<or> (\<exists>k. d = k * k) \<or> (\<exists>k. d = k * (k + 1)))"
  by (simp add: is_justifiable_after_iff justifiable_distance_def Let_def)

end
