(* ===== verification/Lean_Types.thy ===== *)
theory Lean_Types
  imports Lean_Slot
begin

text \<open>
  The containers of the Lean chain (\<open>checkpoint.rs\<close>, \<open>config.rs\<close>, \<open>validator.rs\<close>,
  \<open>attestation.rs\<close>, \<open>block.rs\<close> and the state of \<open>state.rs\<close> under \<open>consensus/lean/src\<close>), one
  record per struct with the fields in the source's order, and the environment of third-party
  code the consensus code calls: Merkle roots (\<open>tree_hash\<close>) and the bounded SSZ containers
  (\<open>ssz_types\<close>). A \<open>BitList<N>\<close> value is the list of its bits, a \<open>VariableList<T, N>\<close> value the
  list of its elements; the operations that enforce the bound \<open>N\<close> are parameters.
\<close>

section \<open>Containers\<close>

type_synonym public_key = "416 word"
type_synonym signature = "byte list"
type_synonym bit_list = "bool list"

record checkpoint =
  cp_root :: b256
  cp_slot :: u64

record config =
  genesis_time :: u64

record validator =
  attestation_public_key :: public_key
  proposal_public_key :: public_key
  val_index :: u64

datatype signature_key = SignatureKey (validator_id: u64) (data_root: b256)

record single_message_aggregate =
  participants :: bit_list
  sma_proof :: "byte list"

record multi_message_aggregate =
  mma_proof :: "byte list"

record attestation_data =
  ad_slot :: u64
  ad_head :: checkpoint
  ad_target :: checkpoint
  ad_source :: checkpoint

record aggregated_attestations =
  ags_validator_id :: u64
  ags_data :: attestation_data

record signed_attestation =
  sa_validator_id :: u64
  sa_message :: attestation_data
  sa_signature :: signature

record aggregated_attestation =
  aggregation_bits :: bit_list
  aa_message :: attestation_data

record signed_aggregated_attestation =
  saa_data :: attestation_data
  saa_proof :: single_message_aggregate

record block_body =
  attestations :: "aggregated_attestation list"

record block =
  blk_slot :: u64
  blk_proposer_index :: u64
  blk_parent_root :: b256
  blk_state_root :: b256
  blk_body :: block_body

record block_header =
  hdr_slot :: u64
  hdr_proposer_index :: u64
  hdr_parent_root :: b256
  hdr_state_root :: b256
  hdr_body_root :: b256

record signed_block =
  sb_block :: block
  sb_proof :: multi_message_aggregate

record block_with_signatures =
  bws_block :: block
  bws_signatures :: "single_message_aggregate list"
  bws_attestation_public_keys :: "public_key list list"

record lean_state =
  st_config :: config
  st_slot :: u64
  latest_block_header :: block_header
  latest_justified :: checkpoint
  latest_finalized :: checkpoint
  historical_block_hashes :: "b256 list"
  justified_slots :: bit_list
  validators :: "validator list"
  justifications_roots :: "b256 list"
  justifications_validators :: bit_list

text \<open>Capacities of the bounded containers and constants of \<open>constants/lean.rs\<close>.\<close>

abbreviation HISTORICAL_ROOTS_LIMIT :: nat where
  "HISTORICAL_ROOTS_LIMIT \<equiv> 262144"

abbreviation VALIDATOR_REGISTRY_LIMIT :: nat where
  "VALIDATOR_REGISTRY_LIMIT \<equiv> 4096"

abbreviation JUSTIFICATION_VALIDATORS_LIMIT :: nat where
  "JUSTIFICATION_VALIDATORS_LIMIT \<equiv> 1073741824"

definition MAX_ATTESTATIONS_DATA :: u64 where "MAX_ATTESTATIONS_DATA = 8"
definition MAX_HISTORICAL_BLOCK_HASHES :: u64 where "MAX_HISTORICAL_BLOCK_HASHES = 262144"
definition INTERVALS_PER_SLOT :: u64 where "INTERVALS_PER_SLOT = 5"
definition GOSSIP_DISPARITY_INTERVALS :: u64 where "GOSSIP_DISPARITY_INTERVALS = 1"
definition JUSTIFICATION_LOOKBACK_SLOTS :: nat where "JUSTIFICATION_LOOKBACK_SLOTS = 3"
definition ATTESTATION_RETENTION_SLOTS :: u64 where "ATTESTATION_RETENTION_SLOTS = 1024"

section \<open>Third-party code\<close>

record lean_env =
  hash_attestation_data :: "attestation_data \<Rightarrow> b256"
  hash_block_body :: "block_body \<Rightarrow> b256"
  hash_block_header :: "block_header \<Rightarrow> b256"
  hash_block :: "block \<Rightarrow> b256"
  hash_state :: "lean_state \<Rightarrow> b256"
  bl_with_capacity :: "nat \<Rightarrow> nat \<Rightarrow> bit_list option"
  bl_get :: "bit_list \<Rightarrow> nat \<Rightarrow> bool option"
  bl_set :: "bit_list \<Rightarrow> nat \<Rightarrow> bool \<Rightarrow> bit_list option"
  bl_union :: "bit_list \<Rightarrow> bit_list \<Rightarrow> bit_list"
  vl_fits :: "nat \<Rightarrow> nat \<Rightarrow> bool"

text \<open>
  What \<open>ssz_types\<close> documents of its containers: a fresh bit list of a length within the
  capacity has all bits clear, reads and writes are bounds-checked, the union of two bit lists
  has the longer length, and a variable list accepts any length up to its capacity.
\<close>

definition ssz_ok :: "lean_env \<Rightarrow> bool" where
  "ssz_ok E \<longleftrightarrow>
     (\<forall>cap n. bl_with_capacity E cap n = (if n \<le> cap then Some (replicate n False) else None)) \<and>
     (\<forall>b i. bl_get E b i = (if i < length b then Some (b ! i) else None)) \<and>
     (\<forall>b i v. bl_set E b i v = (if i < length b then Some (b[i := v]) else None)) \<and>
     (\<forall>a b. length (bl_union E a b) = max (length a) (length b)) \<and>
     (\<forall>a b i. i < max (length a) (length b) \<longrightarrow>
        bl_union E a b ! i = ((i < length a \<and> a ! i) \<or> (i < length b \<and> b ! i))) \<and>
     (\<forall>cap n. vl_fits E cap n \<longleftrightarrow> n \<le> cap)"

definition vl_push :: "lean_env \<Rightarrow> nat \<Rightarrow> 'a list \<Rightarrow> 'a \<Rightarrow> 'a list option" where
  "vl_push E cap xs x = (if vl_fits E cap (length xs + 1) then Some (xs @ [x]) else None)"

definition vl_new :: "lean_env \<Rightarrow> nat \<Rightarrow> 'a list \<Rightarrow> 'a list option" where
  "vl_new E cap xs = (if vl_fits E cap (length xs) then Some xs else None)"

section \<open>Operations of the containers\<close>

definition signature_key_new :: "lean_env \<Rightarrow> u64 \<Rightarrow> attestation_data \<Rightarrow> signature_key" where
  "signature_key_new E vid d = SignatureKey vid (hash_attestation_data E d)"

text \<open>The positions of the set bits of a bit list, in increasing order
  (\<open>iter().enumerate().filter(..)\<close>).\<close>

definition bits_indices :: "bit_list \<Rightarrow> nat list" where
  "bits_indices bits = map fst (filter snd (List.enumerate 0 bits))"

definition to_validator_indices :: "single_message_aggregate \<Rightarrow> u64 list" where
  "to_validator_indices p = map of_nat (bits_indices (participants p))"

definition att_head :: "aggregated_attestation \<Rightarrow> checkpoint" where
  "att_head a = ad_head (aa_message a)"

definition att_target :: "aggregated_attestation \<Rightarrow> checkpoint" where
  "att_target a = ad_target (aa_message a)"

definition att_source :: "aggregated_attestation \<Rightarrow> checkpoint" where
  "att_source a = ad_source (aa_message a)"

definition header_of_block :: "lean_env \<Rightarrow> block \<Rightarrow> block_header" where
  "header_of_block E b =
     \<lparr> hdr_slot = blk_slot b, hdr_proposer_index = blk_proposer_index b,
       hdr_parent_root = blk_parent_root b, hdr_state_root = blk_state_root b,
       hdr_body_root = hash_block_body E (blk_body b) \<rparr>"

definition num_set_bits :: "bit_list \<Rightarrow> nat" where
  "num_set_bits b = length (filter id b)"

section \<open>Signature keys are ordered\<close>

text \<open>\<open>#[derive(PartialOrd, Ord)]\<close>: lexicographic in the order of the fields.\<close>

instantiation signature_key :: linorder
begin

definition less_eq_signature_key :: "signature_key \<Rightarrow> signature_key \<Rightarrow> bool" where
  "less_eq_signature_key a b \<longleftrightarrow>
     validator_id a < validator_id b \<or> (validator_id a = validator_id b \<and> data_root a \<le> data_root b)"

definition less_signature_key :: "signature_key \<Rightarrow> signature_key \<Rightarrow> bool" where
  "less_signature_key a b \<longleftrightarrow>
     validator_id a < validator_id b \<or> (validator_id a = validator_id b \<and> data_root a < data_root b)"

instance
  by standard
    (auto simp: less_eq_signature_key_def less_signature_key_def intro: signature_key.expand)

end

section \<open>Laws of the bounded containers\<close>

lemma ssz_with_capacity:
  "ssz_ok E \<Longrightarrow> bl_with_capacity E cap n = (if n \<le> cap then Some (replicate n False) else None)"
  by (simp add: ssz_ok_def)

lemma ssz_get: "ssz_ok E \<Longrightarrow> bl_get E b i = (if i < length b then Some (b ! i) else None)"
  by (simp add: ssz_ok_def)

lemma ssz_set: "ssz_ok E \<Longrightarrow> bl_set E b i v = (if i < length b then Some (b[i := v]) else None)"
  by (simp add: ssz_ok_def)

lemma ssz_length_union: "ssz_ok E \<Longrightarrow> length (bl_union E a b) = max (length a) (length b)"
  by (simp add: ssz_ok_def)

lemma ssz_nth_union:
  "ssz_ok E \<Longrightarrow> i < max (length a) (length b) \<Longrightarrow>
   bl_union E a b ! i = ((i < length a \<and> a ! i) \<or> (i < length b \<and> b ! i))"
  by (simp add: ssz_ok_def)

lemma ssz_fits: "ssz_ok E \<Longrightarrow> vl_fits E cap n \<longleftrightarrow> n \<le> cap"
  by (simp add: ssz_ok_def)

lemmas ssz_laws = ssz_with_capacity ssz_get ssz_set ssz_length_union ssz_fits

text \<open>Extending a bit list with clear bits to a longer length: the union of a fresh longer bit
  list and the old one.\<close>

lemma ssz_extend:
  assumes "ssz_ok E" and "length b \<le> n"
  shows "bl_union E (replicate n False) b = b @ replicate (n - length b) False"
proof (rule nth_equalityI)
  show "length (bl_union E (replicate n False) b) = length (b @ replicate (n - length b) False)"
    using assms by (simp add: ssz_length_union)
next
  fix i
  assume "i < length (bl_union E (replicate n False) b)"
  with assms have "i < n" by (simp add: ssz_length_union)
  with assms show "bl_union E (replicate n False) b ! i = (b @ replicate (n - length b) False) ! i"
    by (simp add: ssz_nth_union nth_append)
qed

lemma vl_push_Some: "ssz_ok E \<Longrightarrow> vl_push E cap xs x = Some ys \<longleftrightarrow> length xs < cap \<and> ys = xs @ [x]"
  by (auto simp: vl_push_def ssz_fits)

lemma vl_new_Some: "ssz_ok E \<Longrightarrow> vl_new E cap xs = Some ys \<longleftrightarrow> length xs \<le> cap \<and> ys = xs"
  by (auto simp: vl_new_def ssz_fits)

section \<open>Bit lists\<close>

lemma set_bits_indices: "set (bits_indices b) = {i. i < length b \<and> b ! i}"
  by (force simp: bits_indices_def in_set_enumerate_eq image_iff)

lemma distinct_bits_indices [simp]: "distinct (bits_indices b)"
  unfolding bits_indices_def
  by (rule distinct_map_filter [of fst "List.enumerate 0 b", simplified])

lemma num_set_bits_card: "num_set_bits b = card {i. i < length b \<and> b ! i}"
  by (simp add: num_set_bits_def length_filter_conv_card)

lemma num_set_bits_le: "num_set_bits b \<le> length b"
  by (simp add: num_set_bits_def)

lemma length_bits_indices: "length (bits_indices b) = num_set_bits b"
  using distinct_card [OF distinct_bits_indices [of b]]
  by (simp add: set_bits_indices num_set_bits_card)

end
