(* ===== verification/Lean_State.thy ===== *)
theory Lean_State
  imports Lean_Types
begin

text \<open>
  The state transition function of the Lean chain (\<open>consensus/lean/src/state.rs\<close>): slots,
  block headers, and the justification and finalization of checkpoints by the attestations of
  a block. Every early return of the source is a value of \<open>state_error\<close>; \<open>Panic\<close> marks the
  places where the source would panic. Metrics and logging are left out. The methods mutate
  \<open>self\<close>; no caller of the source keeps a state after an error, so the model returns the new
  state only on success.
\<close>

section \<open>Errors\<close>

datatype state_error =
    SignaturesNotValid
  | TargetSlotNotInFuture
  | BlockSlotMismatch
  | BlockOlderThanHeader
  | WrongProposer
  | ParentRootMismatch
  | HistoricalHashesFull
  | BitListCapacity
  | JustifiedSlotOutOfBounds
  | TooManyAttestationData
  | NoValidators
  | VotesLengthMismatch
  | ZeroJustificationRoot
  | VotesTooShort
  | ValidatorBitOutOfBounds
  | VoteListLength
  | RootsListFull
  | InvalidStateRoot
  | ValidatorsOverLimit
  | Panic

section \<open>Genesis\<close>

text \<open>\<open>VariableList::try_from(..).expect(..)\<close> panics on more validators than the registry
  holds.\<close>

definition generate_genesis :: "lean_env \<Rightarrow> u64 \<Rightarrow> validator list option \<Rightarrow> state_error + lean_state" where
  "generate_genesis E time vals =
     and_then (ok_or (vl_new E VALIDATOR_REGISTRY_LIMIT (case vals of None \<Rightarrow> [] | Some vs \<Rightarrow> vs)) Panic)
       (\<lambda>vs. Inr
         \<lparr> st_config = \<lparr> genesis_time = time \<rparr>,
           st_slot = 0,
           latest_block_header =
             \<lparr> hdr_slot = 0, hdr_proposer_index = 0, hdr_parent_root = 0, hdr_state_root = 0,
               hdr_body_root = hash_block_body E \<lparr> attestations = [] \<rparr> \<rparr>,
           latest_justified = \<lparr> cp_root = 0, cp_slot = 0 \<rparr>,
           latest_finalized = \<lparr> cp_root = 0, cp_slot = 0 \<rparr>,
           historical_block_hashes = [],
           justified_slots = [],
           validators = vs,
           justifications_roots = [],
           justifications_validators = [] \<rparr>)"

section \<open>Slots\<close>

definition process_slot :: "lean_env \<Rightarrow> lean_state \<Rightarrow> lean_state" where
  "process_slot E s =
     (let s1 = (if hdr_state_root (latest_block_header s) = 0
                then s\<lparr> latest_block_header :=
                         (latest_block_header s)\<lparr> hdr_state_root := hash_state E s \<rparr> \<rparr>
                else s)
      in s1\<lparr> st_slot := st_slot s1 + 1 \<rparr>)"

function process_slots_loop :: "lean_env \<Rightarrow> u64 \<Rightarrow> lean_state \<Rightarrow> lean_state" where
  "process_slots_loop E target s =
     (if st_slot s < target then process_slots_loop E target (process_slot E s) else s)"
  by pat_completeness auto
termination
proof (relation "measure (\<lambda>(E, target, s). unat target - unat (st_slot s))")
  fix E :: lean_env and target :: u64 and s :: lean_state
  assume lt: "st_slot s < target"
  have "st_slot (process_slot E s) = st_slot s + 1"
    by (simp add: process_slot_def Let_def)
  with lt show "((E, target, process_slot E s), E, target, s) \<in>
      measure (\<lambda>(E, target, s). unat target - unat (st_slot s))"
    by (simp add: unat_add_one [OF lt]) (simp add: word_less_nat_alt)
qed simp

declare process_slots_loop.simps [simp del]

definition process_slots :: "lean_env \<Rightarrow> u64 \<Rightarrow> lean_state \<Rightarrow> state_error + lean_state" where
  "process_slots E target s =
     and_then (ensure (st_slot s < target) TargetSlotNotInFuture)
       (\<lambda>_. Inr (process_slots_loop E target s))"

section \<open>Block header\<close>

definition is_proposer_state :: "lean_state \<Rightarrow> u64 \<Rightarrow> bool option" where
  "is_proposer_state s validator_index =
     is_proposer validator_index (st_slot s) (of_nat (length (validators s)))"

fun push_empty_slots :: "lean_env \<Rightarrow> nat \<Rightarrow> b256 list \<Rightarrow> state_error + b256 list" where
  "push_empty_slots E 0 hashes = Inr hashes"
| "push_empty_slots E (Suc n) hashes =
     and_then (ok_or (vl_push E HISTORICAL_ROOTS_LIMIT hashes 0) HistoricalHashesFull)
       (\<lambda>hashes'. push_empty_slots E n hashes')"

definition extend_justified_slots :: "lean_env \<Rightarrow> u64 \<Rightarrow> lean_state \<Rightarrow> state_error + bit_list" where
  "extend_justified_slots E block_slot s =
     (case justified_index_after (block_slot - 1) (cp_slot (latest_finalized s)) of
        None \<Rightarrow> Inr (justified_slots s)
      | Some target_index \<Rightarrow>
          (let len = unat (target_index + 1) in
           and_then
             (if length (justified_slots s) < len
              then and_then (ok_or (bl_with_capacity E HISTORICAL_ROOTS_LIMIT len) BitListCapacity)
                     (\<lambda>new_bitlist. Inr (bl_union E new_bitlist (justified_slots s)))
              else Inr (justified_slots s))
             (\<lambda>js.
                if hdr_slot (latest_block_header s) = 0
                then (case justified_index_after (hdr_slot (latest_block_header s))
                             (cp_slot (latest_finalized s)) of
                        None \<Rightarrow> Inr js
                      | Some parent_ids \<Rightarrow>
                          ok_or (bl_set E js (unat parent_ids) True) JustifiedSlotOutOfBounds)
                else Inr js)))"

definition process_block_header :: "lean_env \<Rightarrow> block \<Rightarrow> lean_state \<Rightarrow> state_error + lean_state" where
  "process_block_header E b s =
     and_then (ensure (blk_slot b = st_slot s) BlockSlotMismatch) (\<lambda>_.
     and_then (ensure (hdr_slot (latest_block_header s) < blk_slot b) BlockOlderThanHeader) (\<lambda>_.
     and_then (ok_or (is_proposer_state s (blk_proposer_index b)) Panic) (\<lambda>expected.
     and_then (ensure expected WrongProposer) (\<lambda>_.
     and_then (ensure (blk_parent_root b = hash_block_header E (latest_block_header s))
                 ParentRootMismatch) (\<lambda>_.
     let s1 = (if hdr_slot (latest_block_header s) = 0
               then s\<lparr> latest_justified := (latest_justified s)\<lparr> cp_root := blk_parent_root b \<rparr>,
                      latest_finalized := (latest_finalized s)\<lparr> cp_root := blk_parent_root b \<rparr> \<rparr>
               else s)
     in
     and_then (ok_or (vl_push E HISTORICAL_ROOTS_LIMIT (historical_block_hashes s1)
                        (blk_parent_root b)) HistoricalHashesFull) (\<lambda>hashes.
     and_then (push_empty_slots E (unat (blk_slot b - hdr_slot (latest_block_header s) - 1)) hashes)
       (\<lambda>hashes'.
     and_then (extend_justified_slots E (blk_slot b) s1) (\<lambda>js.
     Inr (s1\<lparr> historical_block_hashes := hashes',
             justified_slots := js,
             latest_block_header :=
               \<lparr> hdr_slot = blk_slot b, hdr_proposer_index = blk_proposer_index b,
                 hdr_parent_root = blk_parent_root b, hdr_state_root = 0,
                 hdr_body_root = hash_block_body E (blk_body b) \<rparr> \<rparr>)))))))))"

section \<open>Attestations\<close>

type_synonym tallies = "(b256, bit_list) table"

definition check_attestation_data_limit ::
  "lean_env \<Rightarrow> aggregated_attestation list \<Rightarrow> state_error + unit" where
  "check_attestation_data_limit E atts =
     ensure (of_nat (length (remdups (map (\<lambda>a. hash_attestation_data E (aa_message a)) atts)))
              \<le> MAX_ATTESTATIONS_DATA) TooManyAttestationData"

text \<open>\<open>slice.get(start..end)\<close>\<close>

definition slice_get :: "'a list \<Rightarrow> nat \<Rightarrow> nat \<Rightarrow> 'a list option" where
  "slice_get xs i j = (if i \<le> j \<and> j \<le> length xs then Some (take (j - i) (drop i xs)) else None)"

definition copy_votes :: "lean_env \<Rightarrow> nat \<Rightarrow> bit_list \<Rightarrow> state_error + bit_list" where
  "copy_votes E validator_count vote_slice =
     and_then (ok_or (bl_with_capacity E JUSTIFICATION_VALIDATORS_LIMIT validator_count)
                 BitListCapacity)
       (\<lambda>new_bitlist.
          try_fold (\<lambda>bl (validator_index, bit).
                      ok_or (bl_set E bl validator_index bit) ValidatorBitOutOfBounds)
            new_bitlist (List.enumerate 0 vote_slice))"

definition load_justifications :: "lean_env \<Rightarrow> lean_state \<Rightarrow> state_error + tallies" where
  "load_justifications E s =
     (let validator_count = length (validators s) in
      and_then (ensure (0 < validator_count) NoValidators) (\<lambda>_.
      and_then (ensure (length (justifications_validators s) =
                        length (justifications_roots s) * validator_count) VotesLengthMismatch) (\<lambda>_.
      and_then (ensure (0 \<notin> set (justifications_roots s)) ZeroJustificationRoot) (\<lambda>_.
      try_fold
        (\<lambda>m (i, root).
           and_then (ok_or (slice_get (justifications_validators s) (i * validator_count)
                              (i * validator_count + validator_count)) VotesTooShort)
             (\<lambda>vote_slice.
                and_then (copy_votes E validator_count vote_slice)
                  (\<lambda>new_bitlist. Inr (tbl_insert root new_bitlist m))))
        [] (List.enumerate 0 (justifications_roots s))))))"

text \<open>\<open>root_to_slot\<close>: the blocks after the finalized slot; a later slot overwrites an earlier
  one with the same hash.\<close>

definition build_root_to_slot :: "lean_state \<Rightarrow> (b256, u64) table" where
  "build_root_to_slot s =
     fold (\<lambda>index m.
             if unat index < length (historical_block_hashes s)
             then tbl_insert (historical_block_hashes s ! unat index) index m else m)
       (u64_range (cp_slot (latest_finalized s) + 1) (of_nat (length (historical_block_hashes s)))) []"

definition slot_is_justified :: "lean_env \<Rightarrow> lean_state \<Rightarrow> u64 \<Rightarrow> state_error + bool" where
  "slot_is_justified E s slot =
     (case justified_index_after slot (cp_slot (latest_finalized s)) of
        Some index \<Rightarrow> ok_or (bl_get E (justified_slots s) (unat index)) JustifiedSlotOutOfBounds
      | None \<Rightarrow> Inr True)"

text \<open>The source returns \<open>Ok\<close> of this boolean on every path.\<close>

definition attestation_data_matches_chain :: "b256 list \<Rightarrow> attestation_data \<Rightarrow> bool" where
  "attestation_data_matches_chain hashes d =
     (if cp_root (ad_source d) = 0 \<or> cp_root (ad_target d) = 0 \<or> cp_root (ad_head d) = 0
      then False
      else
        (let source_slot = unat (cp_slot (ad_source d));
             target_slot = unat (cp_slot (ad_target d));
             head_slot = unat (cp_slot (ad_head d))
         in if length hashes \<le> source_slot \<or> length hashes \<le> target_slot \<or> length hashes \<le> head_slot
            then False
            else cp_root (ad_source d) = hashes ! source_slot
               \<and> cp_root (ad_target d) = hashes ! target_slot
               \<and> cp_root (ad_head d) = hashes ! head_slot))"

text \<open>The \<open>continue\<close> guards at the head of the attestation loop; \<open>Inr True\<close> skips the
  attestation.\<close>

definition skip_attestation ::
  "lean_env \<Rightarrow> lean_state \<Rightarrow> aggregated_attestation \<Rightarrow> state_error + bool" where
  "skip_attestation E s a =
     and_then (slot_is_justified E s (cp_slot (att_source a))) (\<lambda>is_source_justified.
     if cp_root (att_source a) = 0 \<or> cp_root (att_target a) = 0 then Inr True
     else if \<not> is_source_justified then Inr True
     else
       and_then (slot_is_justified E s (cp_slot (att_target a))) (\<lambda>is_target_already_justified.
       Inr (is_target_already_justified
            \<or> \<not> attestation_data_matches_chain (historical_block_hashes s) (aa_message a)
            \<or> cp_slot (att_target a) \<le> cp_slot (att_source a)
            \<or> \<not> is_justifiable_after (cp_slot (att_target a)) (cp_slot (latest_finalized s)))))"

definition add_votes :: "lean_env \<Rightarrow> bit_list \<Rightarrow> bit_list \<Rightarrow> state_error + bit_list" where
  "add_votes E bits votes =
     try_fold (\<lambda>v (validator_id, signed).
                 if signed \<and> \<not> (case bl_get E v validator_id of Some b \<Rightarrow> b | None \<Rightarrow> False)
                 then ok_or (bl_set E v validator_id True) ValidatorBitOutOfBounds
                 else Inr v)
       votes (List.enumerate 0 bits)"

text \<open>\<open>entry(root).or_insert(..)\<close> followed by the loop over the aggregation bits. The argument of
  \<open>or_insert\<close> is evaluated even when the entry exists.\<close>

definition tally_votes ::
  "lean_env \<Rightarrow> lean_state \<Rightarrow> aggregated_attestation \<Rightarrow> tallies \<Rightarrow> state_error + (bit_list \<times> tallies)" where
  "tally_votes E s a m =
     and_then (ok_or (bl_with_capacity E JUSTIFICATION_VALIDATORS_LIMIT (length (validators s)))
                 BitListCapacity) (\<lambda>fresh.
     let votes = (case tbl_get m (cp_root (att_target a)) of Some v \<Rightarrow> v | None \<Rightarrow> fresh) in
     and_then (add_votes E (aggregation_bits a) votes) (\<lambda>votes'.
     Inr (votes', tbl_insert (cp_root (att_target a)) votes' m)))"

definition justify_target ::
  "lean_env \<Rightarrow> aggregated_attestation \<Rightarrow> lean_state \<Rightarrow> tallies \<Rightarrow> state_error + (lean_state \<times> tallies)" where
  "justify_target E a s m =
     (let s1 = (if cp_slot (latest_justified s) < cp_slot (att_target a)
                then s\<lparr> latest_justified := att_target a \<rparr> else s)
      in and_then
           (case justified_index_after (cp_slot (att_target a)) (cp_slot (latest_finalized s1)) of
              Some index \<Rightarrow>
                and_then (ok_or (bl_set E (justified_slots s1) (unat index) True)
                            JustifiedSlotOutOfBounds)
                  (\<lambda>js. Inr (s1\<lparr> justified_slots := js \<rparr>))
            | None \<Rightarrow> Inr s1)
           (\<lambda>s2. Inr (s2, tbl_remove (cp_root (att_target a)) m)))"

definition shift_justified_slots :: "lean_env \<Rightarrow> nat \<Rightarrow> bit_list \<Rightarrow> state_error + bit_list" where
  "shift_justified_slots E delta js =
     and_then (ok_or (bl_with_capacity E HISTORICAL_ROOTS_LIMIT (usize_sub (length js) delta))
                 BitListCapacity) (\<lambda>new_bitlist.
     try_fold (\<lambda>nb index.
                 if (case bl_get E js index of Some b \<Rightarrow> b | None \<Rightarrow> False)
                 then ok_or (bl_set E nb (index - delta) True) JustifiedSlotOutOfBounds
                 else Inr nb)
       new_bitlist [delta..<length js])"

definition is_target_next_valid_justifiable_slot :: "aggregated_attestation \<Rightarrow> lean_state \<Rightarrow> bool" where
  "is_target_next_valid_justifiable_slot a s \<longleftrightarrow>
     cp_slot (latest_finalized s) < cp_slot (att_source a) \<and>
     \<not> list_ex (\<lambda>slot. is_justifiable_after slot (cp_slot (latest_finalized s)))
         (u64_range (cp_slot (att_source a) + 1) (cp_slot (att_target a)))"

definition finalize_source ::
  "lean_env \<Rightarrow> (b256, u64) table \<Rightarrow> aggregated_attestation \<Rightarrow> lean_state \<Rightarrow> tallies \<Rightarrow>
   state_error + (lean_state \<times> tallies)" where
  "finalize_source E root_to_slot a s m =
     (let delta = unat (cp_slot (att_source a) - cp_slot (latest_finalized s)) in
      and_then
        (if 0 < delta
         then and_then (shift_justified_slots E delta (justified_slots s))
                (\<lambda>js. Inr (s\<lparr> justified_slots := js \<rparr>,
                           tbl_retain (\<lambda>root _. case tbl_get root_to_slot root of
                                                  Some slot \<Rightarrow> cp_slot (att_source a) < slot
                                                | None \<Rightarrow> False) m))
         else Inr (s, m))
        (\<lambda>(s1, m1). Inr (s1\<lparr> latest_finalized := att_source a \<rparr>, m1)))"

definition process_attestation ::
  "lean_env \<Rightarrow> (b256, u64) table \<Rightarrow> lean_state \<times> tallies \<Rightarrow> aggregated_attestation \<Rightarrow>
   state_error + (lean_state \<times> tallies)" where
  "process_attestation E root_to_slot = (\<lambda>(s, m) a.
     and_then (skip_attestation E s a) (\<lambda>skip.
     if skip then Inr (s, m)
     else
       and_then (tally_votes E s a m) (\<lambda>(votes, m1).
       if 2 * length (validators s) \<le> 3 * num_set_bits votes
       then
         and_then (justify_target E a s m1) (\<lambda>(s2, m2).
         if is_target_next_valid_justifiable_slot a s2
         then finalize_source E root_to_slot a s2 m2
         else Inr (s2, m2))
       else Inr (s, m1))))"

text \<open>The tallies are flattened in the order of their sorted roots.\<close>

definition push_tally ::
  "lean_env \<Rightarrow> nat \<Rightarrow> b256 list \<times> bit_list \<Rightarrow> b256 \<times> bit_list \<Rightarrow>
   state_error + (b256 list \<times> bit_list)" where
  "push_tally E validator_count = (\<lambda>(roots_list, votes_list) (root, votes).
     and_then (ensure (length votes = validator_count) VoteListLength) (\<lambda>_.
     and_then (ok_or (vl_push E HISTORICAL_ROOTS_LIMIT roots_list root) RootsListFull) (\<lambda>rs.
     Inr (rs, votes_list @ votes))))"

definition store_justifications :: "lean_env \<Rightarrow> lean_state \<Rightarrow> tallies \<Rightarrow> state_error + lean_state" where
  "store_justifications E s m =
     and_then (try_fold (push_tally E (length (validators s))) ([], []) m)
       (\<lambda>(roots_list, votes_list).
     and_then (ok_or (bl_with_capacity E JUSTIFICATION_VALIDATORS_LIMIT
                        (length m * length (validators s))) BitListCapacity) (\<lambda>fresh.
     and_then (try_fold (\<lambda>bl (index, justification).
                           ok_or (bl_set E bl index justification) ValidatorBitOutOfBounds)
                 fresh (List.enumerate 0 votes_list)) (\<lambda>justification_bits.
     Inr (s\<lparr> justifications_roots := roots_list,
            justifications_validators := justification_bits \<rparr>))))"

definition process_attestations ::
  "lean_env \<Rightarrow> aggregated_attestation list \<Rightarrow> lean_state \<Rightarrow> state_error + lean_state" where
  "process_attestations E atts s =
     and_then (check_attestation_data_limit E atts) (\<lambda>_.
     and_then (load_justifications E s) (\<lambda>m.
     and_then (try_fold (process_attestation E (build_root_to_slot s)) (s, m) atts) (\<lambda>(s1, m1).
     store_justifications E s1 m1)))"

section \<open>Blocks and the transition\<close>

definition process_block :: "lean_env \<Rightarrow> block \<Rightarrow> lean_state \<Rightarrow> state_error + lean_state" where
  "process_block E b s =
     and_then (process_block_header E b s)
       (\<lambda>s1. process_attestations E (attestations (blk_body b)) s1)"

definition state_transition :: "lean_env \<Rightarrow> block \<Rightarrow> bool \<Rightarrow> lean_state \<Rightarrow> state_error + lean_state" where
  "state_transition E b valid_signatures s =
     and_then (ensure valid_signatures SignaturesNotValid) (\<lambda>_.
     and_then (process_slots E (blk_slot b) s) (\<lambda>s1.
     and_then (process_block E b s1) (\<lambda>s2.
     and_then (ensure (blk_state_root b = hash_state E s2) InvalidStateRoot) (\<lambda>_.
     Inr s2))))"

section \<open>Greedy proof selection\<close>

definition swap_remove :: "'a list \<Rightarrow> nat \<Rightarrow> 'a list" where
  "swap_remove xs i = (if i = length xs - 1 then butlast xs else (butlast xs)[i := last xs])"

definition new_coverage :: "u64 set \<Rightarrow> single_message_aggregate \<Rightarrow> nat" where
  "new_coverage covered p =
     length (filter (\<lambda>i. of_nat i \<notin> covered) (bits_indices (participants p)))"

text \<open>\<open>max_by_key\<close> over the enumerated pool: the last index of maximal coverage.\<close>

fun best_proof_from ::
  "u64 set \<Rightarrow> nat \<Rightarrow> single_message_aggregate list \<Rightarrow> (nat \<times> nat) option \<Rightarrow> (nat \<times> nat) option" where
  "best_proof_from covered i [] best = best"
| "best_proof_from covered i (p # ps) best =
     (let c = new_coverage covered p in
      best_proof_from covered (Suc i) ps
        (case best of None \<Rightarrow> Some (i, c)
         | Some (bi, bc) \<Rightarrow> if bc \<le> c then Some (i, c) else Some (bi, bc)))"

definition best_proof :: "u64 set \<Rightarrow> single_message_aggregate list \<Rightarrow> (nat \<times> nat) option" where
  "best_proof covered remaining = best_proof_from covered 0 remaining None"

lemma best_proof_from_bound:
  "best_proof_from covered i ps best = Some (bi, bc) \<Longrightarrow>
   (case best of None \<Rightarrow> True | Some (b, _) \<Rightarrow> b < i) \<Longrightarrow> bi < i + length ps"
proof (induction covered i ps best rule: best_proof_from.induct)
  case (2 covered i p ps best)
  let ?best' = "case best of None \<Rightarrow> Some (i, new_coverage covered p)
     | Some (b, c) \<Rightarrow> if c \<le> new_coverage covered p then Some (i, new_coverage covered p) else Some (b, c)"
  have "case ?best' of None \<Rightarrow> True | Some (b, _) \<Rightarrow> b < Suc i"
    using 2(3) by (auto split: option.splits)
  with 2 show ?case by (simp add: Let_def)
qed simp

lemma best_proof_bound: "best_proof covered ps = Some (bi, bc) \<Longrightarrow> bi < length ps"
  using best_proof_from_bound [of covered 0 ps None bi bc] by (simp add: best_proof_def)

lemma length_swap_remove: "xs \<noteq> [] \<Longrightarrow> length (swap_remove xs i) < length xs"
  by (simp add: swap_remove_def)

function greedy_loop ::
  "single_message_aggregate list \<Rightarrow> single_message_aggregate list \<Rightarrow> u64 set \<Rightarrow>
   single_message_aggregate list \<times> u64 set" where
  "greedy_loop remaining selected covered =
     (case best_proof covered remaining of
        None \<Rightarrow> (selected, covered)
      | Some (best_index, count) \<Rightarrow>
          if count = 0 then (selected, covered)
          else
            (let best = remaining ! best_index in
             greedy_loop (swap_remove remaining best_index) (selected @ [best])
               (covered \<union> set (to_validator_indices best))))"
  by pat_completeness auto
termination
proof (relation "measure (\<lambda>(remaining, _, _). length remaining)", goal_cases)
  case (2 remaining selected covered x best_index count best)
  then have "best_index < length remaining" by (metis best_proof_bound)
  then show ?case by (auto intro: length_swap_remove)
qed simp

declare greedy_loop.simps [simp del]

definition extend_proofs_greedily ::
  "single_message_aggregate list option \<Rightarrow> single_message_aggregate list \<Rightarrow> u64 set \<Rightarrow>
   single_message_aggregate list \<times> u64 set" where
  "extend_proofs_greedily proofs selected covered =
     (case proofs of None \<Rightarrow> (selected, covered)
      | Some remaining \<Rightarrow> greedy_loop remaining selected covered)"

end
