(* ===== verification/Lean_State_Lemmas.thy ===== *)
theory Lean_State_Lemmas
  imports Lean_State
begin

text \<open>
  What each step of the Lean state transition computes, under the documented behaviour of the
  SSZ containers (\<open>ssz_ok\<close>): the loops over bit lists and hashes as closed list expressions.
\<close>

section \<open>Slots\<close>

text \<open>Two states agree on everything the slot loop leaves alone: all but the slot and the state
  root cached in the latest block header.\<close>

definition same_chain :: "lean_state \<Rightarrow> lean_state \<Rightarrow> bool" where
  "same_chain s t \<longleftrightarrow>
     st_config t = st_config s \<and>
     hdr_slot (latest_block_header t) = hdr_slot (latest_block_header s) \<and>
     hdr_proposer_index (latest_block_header t) = hdr_proposer_index (latest_block_header s) \<and>
     hdr_parent_root (latest_block_header t) = hdr_parent_root (latest_block_header s) \<and>
     hdr_body_root (latest_block_header t) = hdr_body_root (latest_block_header s) \<and>
     latest_justified t = latest_justified s \<and>
     latest_finalized t = latest_finalized s \<and>
     historical_block_hashes t = historical_block_hashes s \<and>
     justified_slots t = justified_slots s \<and>
     validators t = validators s \<and>
     justifications_roots t = justifications_roots s \<and>
     justifications_validators t = justifications_validators s"

lemma same_chain_refl [simp]: "same_chain s s"
  by (simp add: same_chain_def)

lemma same_chain_trans: "same_chain s t \<Longrightarrow> same_chain t u \<Longrightarrow> same_chain s u"
  by (simp add: same_chain_def)

lemma process_slot_same_chain: "same_chain s (process_slot E s)"
  by (simp add: same_chain_def process_slot_def Let_def)

lemma st_slot_process_slot [simp]: "st_slot (process_slot E s) = st_slot s + 1"
  by (simp add: process_slot_def Let_def)

lemma process_slots_loop_stop [simp]:
  "\<not> st_slot s < target \<Longrightarrow> process_slots_loop E target s = s"
  by (subst process_slots_loop.simps) simp

lemma process_slots_loop_step:
  "st_slot s < target \<Longrightarrow> process_slots_loop E target s = process_slots_loop E target (process_slot E s)"
  by (subst process_slots_loop.simps) simp

lemma process_slots_loop_same_chain: "same_chain s (process_slots_loop E target s)"
proof (induction E target s rule: process_slots_loop.induct)
  case (1 E target s)
  then show ?case
    by (cases "st_slot s < target")
      (auto simp: process_slots_loop_step intro: same_chain_trans process_slot_same_chain)
qed

lemma process_slots_loop_slot:
  "st_slot s \<le> target \<Longrightarrow> st_slot (process_slots_loop E target s) = target"
proof (induction E target s rule: process_slots_loop.induct)
  case (1 E target s)
  show ?case
  proof (cases "st_slot s < target")
    case True
    then have "st_slot (process_slot E s) \<le> target"
      by (simp add: inc_le)
    with 1 True show ?thesis by (simp add: process_slots_loop_step)
  next
    case False
    with "1.prems" show ?thesis by simp
  qed
qed

text \<open>Once the header caches a state root, the remaining slots only count.\<close>

lemma process_slots_loop_cached:
  assumes "hdr_state_root (latest_block_header s) \<noteq> 0" and "st_slot s \<le> target"
  shows "process_slots_loop E target s = s\<lparr> st_slot := target \<rparr>"
  using assms
proof (induction E target s rule: process_slots_loop.induct)
  case (1 E target s)
  show ?case
  proof (cases "st_slot s < target")
    case True
    have ps: "process_slot E s = s\<lparr> st_slot := st_slot s + 1 \<rparr>"
      using "1.prems" by (simp add: process_slot_def)
    have "st_slot s + 1 \<le> target"
      using True by (rule inc_le)
    with 1 True show ?thesis by (simp add: process_slots_loop_step ps)
  next
    case False
    with "1.prems" show ?thesis by simp
  qed
qed

lemma process_slots_Inr:
  "process_slots E target s = Inr s' \<longleftrightarrow> st_slot s < target \<and> s' = process_slots_loop E target s"
  by (auto simp: process_slots_def result_simps)

section \<open>Bit-list loops\<close>

lemma try_fold_bl_set:
  assumes "ssz_ok E" and "k + length xs \<le> length bl"
  shows "try_fold (\<lambda>bl (i, b). ok_or (bl_set E bl i b) e) bl (List.enumerate k xs) =
    Inr (take k bl @ xs @ drop (k + length xs) bl)"
  using assms(2)
proof (induction xs arbitrary: k bl)
  case Nil
  then show ?case by simp
next
  case (Cons x xs)
  then have k: "k < length bl" by simp
  have "take (Suc k) (bl[k := x]) = take k bl @ [x]"
    using k by (simp add: take_Suc_conv_app_nth)
  then show ?case
    using Cons k assms(1) by (simp add: ssz_set)
qed

lemma copy_votes_eq:
  assumes "ssz_ok E" and "length vs = n" and "n \<le> JUSTIFICATION_VALIDATORS_LIMIT"
  shows "copy_votes E n vs = Inr vs"
  unfolding copy_votes_def
  using assms try_fold_bl_set [of E 0 vs "replicate n False" ValidatorBitOutOfBounds]
  by (simp add: ssz_with_capacity)

lemma push_empty_slots_eq:
  assumes "ssz_ok E"
  shows "push_empty_slots E n xs = Inr ys \<longleftrightarrow>
    (n = 0 \<or> length xs + n \<le> HISTORICAL_ROOTS_LIMIT) \<and> ys = xs @ replicate n 0"
proof (induction n arbitrary: xs)
  case 0
  show ?case by auto
next
  case (Suc n)
  have "push_empty_slots E (Suc n) xs = Inr ys \<longleftrightarrow>
      length xs < HISTORICAL_ROOTS_LIMIT \<and> push_empty_slots E n (xs @ [0]) = Inr ys"
    using assms by (auto simp: result_simps vl_push_Some)
  also have "\<dots> \<longleftrightarrow> length xs < HISTORICAL_ROOTS_LIMIT \<and>
      (n = 0 \<or> length (xs @ [0 :: b256]) + n \<le> HISTORICAL_ROOTS_LIMIT) \<and>
      ys = (xs @ [0]) @ replicate n 0"
    by (simp only: Suc.IH)
  also have "\<dots> \<longleftrightarrow> (Suc n = 0 \<or> length xs + Suc n \<le> HISTORICAL_ROOTS_LIMIT) \<and>
      ys = xs @ replicate (Suc n) 0"
    by auto
  finally show ?case .
qed

lemma shift_justified_slots_loop:
  assumes "ssz_ok E" and "delta \<le> k" and "k \<le> length js"
    and "length nb = length js - delta"
    and "\<And>i. i < length nb \<Longrightarrow> nb ! i = (i + delta < k \<and> js ! (i + delta))"
  shows "try_fold (\<lambda>nb index.
           if (case bl_get E js index of Some b \<Rightarrow> b | None \<Rightarrow> False)
           then ok_or (bl_set E nb (index - delta) True) JustifiedSlotOutOfBounds
           else Inr nb) nb [k..<length js] = Inr (drop delta js)"
  using assms(2-)
proof (induction "length js - k" arbitrary: k nb)
  case 0
  then have k: "k = length js" by simp
  have "nb = drop delta js"
    by (rule nth_equalityI) (use 0 k in \<open>auto simp: add.commute\<close>)
  with k show ?case by simp
next
  case (Suc n)
  then have k: "k < length js" by simp
  then have range: "[k..<length js] = k # [Suc k..<length js]" by (simp add: upt_conv_Cons)
  let ?nb = "if js ! k then nb[k - delta := True] else nb"
  have kd: "k - delta < length nb" using Suc k by simp
  have nb': "?nb ! i = (i + delta < Suc k \<and> js ! (i + delta))" if "i < length nb" for i
    using Suc.prems(4) [OF that] that kd Suc.prems(1)
    by (cases "i = k - delta") (auto simp: nth_list_update)
  have step: "(if (case bl_get E js k of Some b \<Rightarrow> b | None \<Rightarrow> False)
      then ok_or (bl_set E nb (k - delta) True) JustifiedSlotOutOfBounds else Inr nb) = Inr ?nb"
    using assms(1) k kd by (simp add: ssz_get ssz_set)
  have "try_fold (\<lambda>nb index.
           if (case bl_get E js index of Some b \<Rightarrow> b | None \<Rightarrow> False)
           then ok_or (bl_set E nb (index - delta) True) JustifiedSlotOutOfBounds
           else Inr nb) ?nb [Suc k..<length js] = Inr (drop delta js)"
  proof (rule Suc(1))
    show "n = length js - Suc k" using Suc(2) by simp
    show "delta \<le> Suc k" "Suc k \<le> length js" "length ?nb = length js - delta"
      using Suc.prems(1,3) k by simp_all
    show "?nb ! i = (i + delta < Suc k \<and> js ! (i + delta))" if "i < length ?nb" for i
      using nb' that by (simp split: if_splits)
  qed
  then show ?case
    by (simp only: range try_fold.simps step and_then_Inr)
qed

lemma shift_justified_slots_eq:
  assumes "ssz_ok E" and "delta \<le> length js" and "length js - delta \<le> HISTORICAL_ROOTS_LIMIT"
  shows "shift_justified_slots E delta js = Inr (drop delta js)"
  unfolding shift_justified_slots_def
  using assms shift_justified_slots_loop [of E delta delta js "replicate (length js - delta) False"]
  by (simp add: ssz_with_capacity)

lemma add_votes_loop:
  assumes "ssz_ok E"
    and "try_fold (\<lambda>v (validator_id, signed).
           if signed \<and> \<not> (case bl_get E v validator_id of Some b \<Rightarrow> b | None \<Rightarrow> False)
           then ok_or (bl_set E v validator_id True) ValidatorBitOutOfBounds
           else Inr v) votes (List.enumerate k bits) = Inr votes'"
  shows "length votes' = length votes \<and>
    (\<forall>i < length votes. votes' ! i = (votes ! i \<or> (k \<le> i \<and> i < k + length bits \<and> bits ! (i - k))))"
  using assms(2)
proof (induction bits arbitrary: k votes)
  case Nil
  then show ?case by auto
next
  case (Cons b bits)
  let ?v = "if b \<and> k < length votes then votes[k := True] else votes"
  have upd: "votes[k := True] = votes" if "votes ! k"
    using that by (metis (full_types) list_update_id)
  have step: "try_fold (\<lambda>v (validator_id, signed).
           if signed \<and> \<not> (case bl_get E v validator_id of Some b \<Rightarrow> b | None \<Rightarrow> False)
           then ok_or (bl_set E v validator_id True) ValidatorBitOutOfBounds
           else Inr v) ?v (List.enumerate (Suc k) bits) = Inr votes'"
    using Cons.prems assms(1)
    by (auto simp: ssz_get ssz_set upd result_simps split: if_splits)
  note IH = Cons.IH [OF step]
  have len: "length ?v = length votes" by simp
  have "votes' ! i = (votes ! i \<or> (k \<le> i \<and> i < k + length (b # bits) \<and> (b # bits) ! (i - k)))"
    if i: "i < length votes" for i
  proof -
    have IHi: "votes' ! i = (?v ! i \<or> (Suc k \<le> i \<and> i < Suc k + length bits \<and> bits ! (i - Suc k)))"
      using IH i len by simp
    consider "i < k" | "i = k" | j where "i = Suc (k + j)"
      by (metis less_iff_Suc_add nat_neq_iff)
    then show ?thesis
      by cases (use IHi i in \<open>auto simp: nth_list_update\<close>)
  qed
  with IH len show ?case by simp
qed

lemma add_votes_nth:
  assumes "ssz_ok E" and "add_votes E bits votes = Inr votes'"
  shows "length votes' = length votes"
    and "i < length votes \<Longrightarrow> votes' ! i = (votes ! i \<or> (i < length bits \<and> bits ! i))"
  using add_votes_loop [OF assms(1), of votes 0 bits votes'] assms(2)
  by (simp_all add: add_votes_def)

end
