(* ===== verification/Lean_Invariant.thy ===== *)
theory Lean_Invariant
  imports Lean_State_Lemmas
begin

text \<open>
  The well-formedness invariant of Lean states and what a single attestation does to a
  well-formed state.
\<close>

section \<open>The invariant\<close>

definition on_chain :: "b256 list \<Rightarrow> checkpoint \<Rightarrow> bool" where
  "on_chain hashes c \<longleftrightarrow> unat (cp_slot c) < length hashes \<and> hashes ! unat (cp_slot c) = cp_root c"

text \<open>A slot counts as justified when it is not after the finalized slot or its bit is set in the
  window after it.\<close>

definition justified_at :: "lean_state \<Rightarrow> u64 \<Rightarrow> bool" where
  "justified_at s slot \<longleftrightarrow>
     slot \<le> cp_slot (latest_finalized s) \<or>
     (let i = unat slot - unat (cp_slot (latest_finalized s)) - 1
      in i < length (justified_slots s) \<and> justified_slots s ! i)"

text \<open>What holds of the chain part of a state once a block has been applied: the hashes cover
  every slot before the block, the checkpoints are on that chain and in order, and the
  justified-slots window covers exactly the slots between the finalized slot and the block.\<close>

definition chain_ok :: "lean_state \<Rightarrow> bool" where
  "chain_ok s \<longleftrightarrow>
     length (historical_block_hashes s) = unat (hdr_slot (latest_block_header s)) \<and>
     length (historical_block_hashes s) \<le> HISTORICAL_ROOTS_LIMIT \<and>
     length (validators s) \<le> VALIDATOR_REGISTRY_LIMIT \<and>
     cp_slot (latest_finalized s) \<le> cp_slot (latest_justified s) \<and>
     on_chain (historical_block_hashes s) (latest_justified s) \<and>
     on_chain (historical_block_hashes s) (latest_finalized s) \<and>
     length (justified_slots s) =
       unat (hdr_slot (latest_block_header s)) - 1 - unat (cp_slot (latest_finalized s))"

definition tallies_ok :: "lean_state \<Rightarrow> tallies \<Rightarrow> bool" where
  "tallies_ok s m \<longleftrightarrow>
     tbl_wf m \<and> (\<forall>r v. tbl_get m r = Some v \<longrightarrow> r \<noteq> 0 \<and> length v = length (validators s))"

definition votes_ok :: "lean_state \<Rightarrow> bool" where
  "votes_ok s \<longleftrightarrow>
     length (justifications_validators s) = length (justifications_roots s) * length (validators s) \<and>
     0 \<notin> set (justifications_roots s) \<and>
     sorted_wrt (<) (justifications_roots s)"

text \<open>Before the first block there is no chain yet: both checkpoints are at slot zero.\<close>

definition state_ok :: "lean_state \<Rightarrow> bool" where
  "state_ok s \<longleftrightarrow>
     hdr_slot (latest_block_header s) \<le> st_slot s \<and>
     (if hdr_slot (latest_block_header s) = 0
      then historical_block_hashes s = [] \<and> justified_slots s = [] \<and>
           cp_slot (latest_justified s) = 0 \<and> cp_slot (latest_finalized s) = 0 \<and>
           length (validators s) \<le> VALIDATOR_REGISTRY_LIMIT
      else chain_ok s) \<and>
     votes_ok s"

text \<open>An attestation that the loop does not skip.\<close>

definition eligible :: "lean_state \<Rightarrow> aggregated_attestation \<Rightarrow> bool" where
  "eligible s a \<longleftrightarrow>
     justified_at s (cp_slot (att_source a)) \<and>
     cp_root (att_source a) \<noteq> 0 \<and> cp_root (att_target a) \<noteq> 0 \<and>
     \<not> justified_at s (cp_slot (att_target a)) \<and>
     attestation_data_matches_chain (historical_block_hashes s) (aa_message a) \<and>
     cp_slot (att_source a) < cp_slot (att_target a) \<and>
     is_justifiable_after (cp_slot (att_target a)) (cp_slot (latest_finalized s))"

definition quorum :: "lean_state \<Rightarrow> bit_list \<Rightarrow> bool" where
  "quorum s votes \<longleftrightarrow> 2 * length (validators s) \<le> 3 * num_set_bits votes"

definition window_index :: "lean_state \<Rightarrow> u64 \<Rightarrow> nat" where
  "window_index s slot = unat slot - unat (cp_slot (latest_finalized s)) - 1"

definition with_target_justified :: "aggregated_attestation \<Rightarrow> lean_state \<Rightarrow> lean_state" where
  "with_target_justified a s =
     s\<lparr> latest_justified :=
          (if cp_slot (latest_justified s) < cp_slot (att_target a) then att_target a
           else latest_justified s),
        justified_slots := (justified_slots s)[window_index s (cp_slot (att_target a)) := True] \<rparr>"

definition with_source_finalized :: "aggregated_attestation \<Rightarrow> lean_state \<Rightarrow> lean_state" where
  "with_source_finalized a s =
     s\<lparr> justified_slots :=
          drop (unat (cp_slot (att_source a)) - unat (cp_slot (latest_finalized s))) (justified_slots s),
        latest_finalized := att_source a \<rparr>"

section \<open>Reading the window\<close>

lemma slot_is_justified_Inr:
  assumes "ssz_ok E" and "slot_is_justified E s slot = Inr b"
  shows "b \<longleftrightarrow> justified_at s slot"
proof (cases "slot \<le> cp_slot (latest_finalized s)")
  case True
  then show ?thesis
    using assms by (simp add: slot_is_justified_def justified_index_after_def justified_at_def)
next
  case False
  then obtain i where i: "justified_index_after slot (cp_slot (latest_finalized s)) = Some i"
    and u: "unat i = unat slot - unat (cp_slot (latest_finalized s)) - 1"
    by (metis justified_index_after_None justified_index_after_Some not_Some_eq)
  from assms i have "unat i < length (justified_slots s)" "b = justified_slots s ! unat i"
    by (auto simp: slot_is_justified_def result_simps ssz_get split: if_splits)
  with False u show ?thesis by (simp add: justified_at_def Let_def)
qed

lemma skip_attestation_Inr:
  assumes "ssz_ok E" and "skip_attestation E s a = Inr b"
  shows "b \<longleftrightarrow> \<not> eligible s a"
proof -
  from assms(2) obtain sj where sj: "slot_is_justified E s (cp_slot (att_source a)) = Inr sj"
    by (auto simp: skip_attestation_def result_simps)
  note src = slot_is_justified_Inr [OF assms(1) sj]
  show ?thesis
  proof (cases "cp_root (att_source a) = 0 \<or> cp_root (att_target a) = 0 \<or> \<not> sj")
    case True
    then show ?thesis
      using assms(2) sj src by (auto simp: skip_attestation_def eligible_def split: if_splits)
  next
    case False
    with assms(2) sj obtain tj where tj: "slot_is_justified E s (cp_slot (att_target a)) = Inr tj"
      by (auto simp: skip_attestation_def result_simps)
    show ?thesis
      using assms(2) False sj tj src slot_is_justified_Inr [OF assms(1) tj]
      by (auto simp: skip_attestation_def eligible_def not_le)
  qed
qed

lemma matches_chain_on_chain:
  assumes "attestation_data_matches_chain hs d"
  shows "on_chain hs (ad_source d)" "on_chain hs (ad_target d)" "on_chain hs (ad_head d)"
  using assms by (auto simp: attestation_data_matches_chain_def on_chain_def Let_def split: if_splits)

lemma eligible_on_chain:
  assumes "eligible s a"
  shows "on_chain (historical_block_hashes s) (att_source a)"
    "on_chain (historical_block_hashes s) (att_target a)"
  using assms matches_chain_on_chain [of "historical_block_hashes s" "aa_message a"]
  by (auto simp: eligible_def att_source_def att_target_def)

lemma eligible_target_window:
  assumes "chain_ok s" and "eligible s a"
  shows "cp_slot (latest_finalized s) < cp_slot (att_target a)"
    and "window_index s (cp_slot (att_target a)) < length (justified_slots s)"
proof -
  show lt: "cp_slot (latest_finalized s) < cp_slot (att_target a)"
    using assms(2) by (auto simp: eligible_def justified_at_def)
  have "unat (cp_slot (att_target a)) < length (historical_block_hashes s)"
    using eligible_on_chain [OF assms(2)] by (simp add: on_chain_def)
  with lt assms(1) show "window_index s (cp_slot (att_target a)) < length (justified_slots s)"
    by (simp add: chain_ok_def window_index_def word_less_nat_alt)
qed

section \<open>The steps of an attestation\<close>

lemma tally_votes_Inr:
  assumes "ssz_ok E" and "tally_votes E s a m = Inr (votes, m1)" and "tallies_ok s m"
  shows "length votes = length (validators s)"
    and "i < length votes \<Longrightarrow>
      votes ! i = ((case tbl_get m (cp_root (att_target a)) of Some v \<Rightarrow> v ! i | None \<Rightarrow> False) \<or>
                   (i < length (aggregation_bits a) \<and> aggregation_bits a ! i))"
    and "m1 = tbl_insert (cp_root (att_target a)) votes m"
proof -
  let ?old = "case tbl_get m (cp_root (att_target a)) of Some v \<Rightarrow> v
    | None \<Rightarrow> replicate (length (validators s)) False"
  have add: "add_votes E (aggregation_bits a) ?old = Inr votes"
    and m1: "m1 = tbl_insert (cp_root (att_target a)) votes m"
    using assms(1,2) by (auto simp: tally_votes_def result_simps ssz_with_capacity Let_def split: if_splits)
  show "m1 = tbl_insert (cp_root (att_target a)) votes m" by (rule m1)
  have old: "length ?old = length (validators s)"
    using assms(3) by (auto simp: tallies_ok_def split: option.splits)
  show len: "length votes = length (validators s)"
    using add_votes_nth(1) [OF assms(1) add] old by simp
  show "votes ! i = ((case tbl_get m (cp_root (att_target a)) of Some v \<Rightarrow> v ! i | None \<Rightarrow> False) \<or>
                   (i < length (aggregation_bits a) \<and> aggregation_bits a ! i))"
    if "i < length votes"
    using add_votes_nth(2) [OF assms(1) add, of i] old len that by (simp split: option.splits)
qed

lemma justify_target_Inr:
  assumes "ssz_ok E" and "chain_ok s" and "eligible s a"
  shows "justify_target E a s m =
    Inr (with_target_justified a s, tbl_remove (cp_root (att_target a)) m)"
proof -
  note win = eligible_target_window [OF assms(2,3)]
  obtain i where i: "justified_index_after (cp_slot (att_target a)) (cp_slot (latest_finalized s)) = Some i"
    and u: "unat i = window_index s (cp_slot (att_target a))"
    using justified_index_after_unat [OF win(1)] by (auto simp: window_index_def)
  show ?thesis
    using assms(1) i u win(2)
    by (simp add: justify_target_def Let_def ssz_set with_target_justified_def)
qed

text \<open>The finalizing branch is reached only when the source is after the finalized slot; the
  window then always covers the distance, so the length never underflows.\<close>

lemma finalize_source_Inr:
  assumes "ssz_ok E" and "chain_ok s" and "on_chain (historical_block_hashes s) (att_source a)"
    and "cp_slot (latest_finalized s) < cp_slot (att_source a)"
  shows "finalize_source E rts a s m =
    Inr (with_source_finalized a s,
         tbl_retain (\<lambda>root _. case tbl_get rts root of
                                Some slot \<Rightarrow> cp_slot (att_source a) < slot | None \<Rightarrow> False) m)"
proof -
  let ?d = "unat (cp_slot (att_source a)) - unat (cp_slot (latest_finalized s))"
  have d: "unat (cp_slot (att_source a) - cp_slot (latest_finalized s)) = ?d"
    using assms(4) by (simp add: unat_sub)
  have pos: "0 < ?d" using assms(4) by (simp add: word_less_nat_alt)
  have "unat (cp_slot (att_source a)) < unat (hdr_slot (latest_block_header s))"
    using assms(2,3) by (simp add: on_chain_def chain_ok_def)
  then have le: "?d \<le> length (justified_slots s)"
    using assms(2) by (simp add: chain_ok_def)
  have "length (justified_slots s) - ?d \<le> HISTORICAL_ROOTS_LIMIT"
    using assms(2) unfolding chain_ok_def by linarith
  then show ?thesis
    using shift_justified_slots_eq [OF assms(1) le] pos
    by (simp add: finalize_source_def Let_def d with_source_finalized_def)
qed

lemma with_target_justified_simps [simp]:
  "st_config (with_target_justified a s) = st_config s"
  "st_slot (with_target_justified a s) = st_slot s"
  "latest_block_header (with_target_justified a s) = latest_block_header s"
  "latest_finalized (with_target_justified a s) = latest_finalized s"
  "historical_block_hashes (with_target_justified a s) = historical_block_hashes s"
  "length (justified_slots (with_target_justified a s)) = length (justified_slots s)"
  "validators (with_target_justified a s) = validators s"
  "justifications_roots (with_target_justified a s) = justifications_roots s"
  "justifications_validators (with_target_justified a s) = justifications_validators s"
  by (simp_all add: with_target_justified_def)

lemma with_source_finalized_simps [simp]:
  "st_config (with_source_finalized a s) = st_config s"
  "st_slot (with_source_finalized a s) = st_slot s"
  "latest_block_header (with_source_finalized a s) = latest_block_header s"
  "latest_justified (with_source_finalized a s) = latest_justified s"
  "latest_finalized (with_source_finalized a s) = att_source a"
  "historical_block_hashes (with_source_finalized a s) = historical_block_hashes s"
  "validators (with_source_finalized a s) = validators s"
  "justifications_roots (with_source_finalized a s) = justifications_roots s"
  "justifications_validators (with_source_finalized a s) = justifications_validators s"
  by (simp_all add: with_source_finalized_def)

lemma chain_ok_with_target_justified:
  assumes "chain_ok s" and "eligible s a"
  shows "chain_ok (with_target_justified a s)"
  using assms eligible_on_chain [OF assms(2)] eligible_target_window(1) [OF assms]
  by (auto simp: chain_ok_def with_target_justified_def)

lemma chain_ok_with_source_finalized:
  assumes "chain_ok s" and "on_chain (historical_block_hashes s) (att_source a)"
    and "cp_slot (att_source a) \<le> cp_slot (latest_justified s)"
    and "cp_slot (latest_finalized s) < cp_slot (att_source a)"
  shows "chain_ok (with_source_finalized a s)"
  using assms by (auto simp: chain_ok_def with_source_finalized_def word_less_nat_alt)

text \<open>All four outcomes of one attestation on a well-formed state.\<close>

lemma process_attestation_cases:
  assumes E: "ssz_ok E" and chain: "chain_ok s" and tallies: "tallies_ok s m"
    and step: "process_attestation E rts (s, m) a = Inr (s', m')"
  obtains (skip) "\<not> eligible s a" "s' = s" "m' = m"
  | (vote) votes where "eligible s a" "tally_votes E s a m = Inr (votes, m')" "\<not> quorum s votes" "s' = s"
  | (justify) votes m1 where "eligible s a" "tally_votes E s a m = Inr (votes, m1)" "quorum s votes"
      "\<not> is_target_next_valid_justifiable_slot a s" "s' = with_target_justified a s"
      "m' = tbl_remove (cp_root (att_target a)) m1"
  | (finalize) votes m1 where "eligible s a" "tally_votes E s a m = Inr (votes, m1)" "quorum s votes"
      "is_target_next_valid_justifiable_slot a s"
      "s' = with_source_finalized a (with_target_justified a s)"
      "m' = tbl_retain (\<lambda>root _. case tbl_get rts root of
                           Some slot \<Rightarrow> cp_slot (att_source a) < slot | None \<Rightarrow> False)
              (tbl_remove (cp_root (att_target a)) m1)"
proof -
  from step obtain sk where sk: "skip_attestation E s a = Inr sk"
    by (auto simp: process_attestation_def result_simps)
  have el: "sk \<longleftrightarrow> \<not> eligible s a" by (rule skip_attestation_Inr [OF E sk])
  show ?thesis
  proof (cases "eligible s a")
    case False
    with step sk el show ?thesis by (intro skip) (auto simp: process_attestation_def)
  next
    case True
    with step sk el obtain votes m1 where tv: "tally_votes E s a m = Inr (votes, m1)"
      by (auto simp: process_attestation_def result_simps)
    let ?s2 = "with_target_justified a s" and ?m2 = "tbl_remove (cp_root (att_target a)) m1"
    have next_eq: "is_target_next_valid_justifiable_slot a ?s2 = is_target_next_valid_justifiable_slot a s"
      by (simp add: is_target_next_valid_justifiable_slot_def)
    have jt: "justify_target E a s m1 = Inr (?s2, ?m2)"
      by (rule justify_target_Inr [OF E chain True])
    have fs: "finalize_source E rts a ?s2 ?m2 =
        Inr (with_source_finalized a ?s2,
             tbl_retain (\<lambda>root _. case tbl_get rts root of
                           Some slot \<Rightarrow> cp_slot (att_source a) < slot | None \<Rightarrow> False) ?m2)"
      if "is_target_next_valid_justifiable_slot a s"
      using that E chain_ok_with_target_justified [OF chain True] eligible_on_chain [OF True]
      by (intro finalize_source_Inr) (auto simp: is_target_next_valid_justifiable_slot_def)
    consider "\<not> quorum s votes" | "quorum s votes" "\<not> is_target_next_valid_justifiable_slot a s"
      | "quorum s votes" "is_target_next_valid_justifiable_slot a s" by blast
    then show ?thesis
    proof cases
      case 1
      with step sk el True tv show ?thesis
        by (intro vote [of votes]) (auto simp: process_attestation_def quorum_def)
    next
      case 2
      with step sk el True tv jt next_eq show ?thesis
        by (intro justify [of votes m1]) (auto simp: process_attestation_def quorum_def)
    next
      case 3
      with step sk el True tv jt next_eq fs show ?thesis
        by (intro finalize [of votes m1]) (auto simp: process_attestation_def quorum_def)
    qed
  qed
qed

section \<open>Preservation\<close>

lemma tallies_ok_insert:
  "tallies_ok s m \<Longrightarrow> r \<noteq> 0 \<Longrightarrow> length v = length (validators s) \<Longrightarrow> tallies_ok s (tbl_insert r v m)"
  by (auto simp: tallies_ok_def table_simps)

lemma tallies_ok_remove: "tallies_ok s m \<Longrightarrow> tallies_ok s (tbl_remove r m)"
  by (auto simp: tallies_ok_def table_simps)

lemma tallies_ok_retain: "tallies_ok s m \<Longrightarrow> tallies_ok s (tbl_retain P m)"
  by (auto simp: tallies_ok_def table_simps tbl_wf_distinct split: option.splits if_splits)

lemma tallies_ok_validators: "validators s' = validators s \<Longrightarrow> tallies_ok s' m = tallies_ok s m"
  by (simp add: tallies_ok_def)

lemma justified_at_target:
  assumes "chain_ok s" and "eligible s a"
  shows "justified_at (with_target_justified a s) slot \<longleftrightarrow>
    justified_at s slot \<or> slot = cp_slot (att_target a)"
proof (cases "slot \<le> cp_slot (latest_finalized s)")
  case True
  then show ?thesis by (simp add: justified_at_def)
next
  case False
  note win = eligible_target_window [OF assms]
  have "unat slot - unat (cp_slot (latest_finalized s)) - 1 = window_index s (cp_slot (att_target a))
      \<longleftrightarrow> slot = cp_slot (att_target a)"
    using False win(1) by (auto simp: window_index_def word_unat_eq_iff word_le_nat_alt word_less_nat_alt)
  with False win show ?thesis
    by (auto simp: justified_at_def with_target_justified_def Let_def nth_list_update)
qed

lemma drop_bit_set:
  "(j < length xs - d \<and> drop d xs ! j) \<longleftrightarrow> (d + j < length xs \<and> xs ! (d + j))"
  by (cases "d \<le> length xs") auto

lemma justified_at_source:
  assumes "cp_slot (latest_finalized s) < cp_slot (att_source a)"
  shows "justified_at (with_source_finalized a s) slot \<longleftrightarrow>
    justified_at s slot \<or> slot \<le> cp_slot (att_source a)"
proof (cases "slot \<le> cp_slot (att_source a)")
  case True
  then show ?thesis by (simp add: justified_at_def)
next
  case False
  let ?d = "unat (cp_slot (att_source a)) - unat (cp_slot (latest_finalized s))"
  from False assms have nf: "\<not> slot \<le> cp_slot (latest_finalized s)" by auto
  have idx: "unat slot - unat (cp_slot (latest_finalized s)) - 1 =
      ?d + (unat slot - unat (cp_slot (att_source a)) - 1)"
    using False assms by (simp add: word_le_nat_alt word_less_nat_alt)
  show ?thesis
    using False nf
    by (simp only: justified_at_def with_source_finalized_simps Let_def idx simp_thms)
      (simp add: with_source_finalized_def drop_bit_set)
qed

text \<open>What the attestation loop may change, and in which direction.\<close>

definition advances :: "lean_state \<Rightarrow> lean_state \<Rightarrow> bool" where
  "advances s t \<longleftrightarrow>
     st_config t = st_config s \<and> st_slot t = st_slot s \<and>
     latest_block_header t = latest_block_header s \<and>
     historical_block_hashes t = historical_block_hashes s \<and>
     validators t = validators s \<and>
     justifications_roots t = justifications_roots s \<and>
     justifications_validators t = justifications_validators s \<and>
     cp_slot (latest_justified s) \<le> cp_slot (latest_justified t) \<and>
     cp_slot (latest_finalized s) \<le> cp_slot (latest_finalized t) \<and>
     (\<forall>slot. justified_at s slot \<longrightarrow> justified_at t slot)"

lemma advances_refl: "advances s s"
  by (simp add: advances_def)

lemma advances_trans: "advances s t \<Longrightarrow> advances t u \<Longrightarrow> advances s u"
  unfolding advances_def by (metis order_trans)

definition attestation_inv :: "lean_env \<Rightarrow> lean_state \<times> tallies \<Rightarrow> bool" where
  "attestation_inv E = (\<lambda>(s, m). ssz_ok E \<and> chain_ok s \<and> tallies_ok s m)"

lemma latest_justified_target:
  "cp_slot (latest_justified s) \<le> cp_slot (latest_justified (with_target_justified a s))"
  by (auto simp: with_target_justified_def)

lemma source_before_justified:
  assumes "chain_ok s" and "eligible s a"
  shows "cp_slot (att_source a) \<le> cp_slot (latest_justified (with_target_justified a s))"
  using assms(2) by (auto simp: with_target_justified_def eligible_def)

lemma process_attestation_inv:
  assumes inv: "attestation_inv E (s, m)" and step: "process_attestation E rts (s, m) a = Inr (s', m')"
  shows "attestation_inv E (s', m') \<and> advances s s'"
proof -
  from inv have E: "ssz_ok E" and chain: "chain_ok s" and tallies: "tallies_ok s m"
    by (auto simp: attestation_inv_def)
  from E chain tallies step show ?thesis
  proof (cases rule: process_attestation_cases)
    case skip
    with inv show ?thesis by (simp add: advances_refl)
  next
    case (vote votes)
    from tally_votes_Inr [OF E vote(2) tallies] vote(1) have "tallies_ok s m'"
      by (auto simp: eligible_def intro: tallies_ok_insert [OF tallies])
    with E chain vote(4) show ?thesis by (simp add: attestation_inv_def advances_refl)
  next
    case (justify votes m1)
    let ?t = "with_target_justified a s"
    from tally_votes_Inr [OF E justify(2) tallies] justify(1) have "tallies_ok s m1"
      by (auto simp: eligible_def intro: tallies_ok_insert [OF tallies])
    then have "tallies_ok ?t m'"
      by (simp add: justify tallies_ok_remove tallies_ok_validators [of ?t s])
    moreover have "advances s ?t"
      using justified_at_target [OF chain justify(1)]
      by (simp add: advances_def latest_justified_target)
    ultimately show ?thesis
      using E chain_ok_with_target_justified [OF chain justify(1)]
      by (simp add: attestation_inv_def justify)
  next
    case (finalize votes m1)
    let ?t = "with_target_justified a s"
    let ?u = "with_source_finalized a ?t"
    have lt: "cp_slot (latest_finalized ?t) < cp_slot (att_source a)"
      using finalize(4) by (simp add: is_target_next_valid_justifiable_slot_def)
    from tally_votes_Inr [OF E finalize(2) tallies] finalize(1) have "tallies_ok s m1"
      by (auto simp: eligible_def intro: tallies_ok_insert [OF tallies])
    then have "tallies_ok ?u m'"
      by (simp add: finalize tallies_ok_remove tallies_ok_retain tallies_ok_validators [of ?u s])
    moreover have "chain_ok ?u"
      using chain_ok_with_target_justified [OF chain finalize(1)] eligible_on_chain [OF finalize(1)]
        source_before_justified [OF chain finalize(1)] lt
      by (intro chain_ok_with_source_finalized) simp_all
    moreover have "advances s ?u"
      using justified_at_target [OF chain finalize(1)] justified_at_source [OF lt] lt
      by (simp add: advances_def latest_justified_target)
    ultimately show ?thesis
      using E by (simp add: attestation_inv_def finalize)
  qed
qed

text \<open>The attestation loop is a fallible loop that keeps the invariant and only advances.\<close>

interpretation att_loop: fallible_loop "process_attestation E rts" "attestation_inv E"
  "\<lambda>x y. advances (fst x) (fst y)" for E rts
proof (unfold_locales, goal_cases)
  case (1 s x s')
  then show ?case by (cases s; cases s') (auto dest: process_attestation_inv)
next
  case (2 s x s')
  then show ?case by (cases s; cases s') (auto dest: process_attestation_inv)
next
  case (3 s)
  then show ?case by (rule advances_refl)
next
  case (4 s t u)
  then show ?case by (rule advances_trans)
qed

end
