(* ===== verification/Lean_Transition.thy ===== *)
theory Lean_Transition
  imports Lean_Invariant
begin

text \<open>
  Block-level facts of the Lean state transition: the block header step, loading and storing
  the pending tallies, preservation of the state invariant by whole blocks, and the states
  reachable from genesis.
\<close>

section \<open>Block header\<close>

lemma unat_pred: "0 < x \<Longrightarrow> unat (x - 1) = unat x - 1" for x :: u64
  by (simp add: unat_sub word_le_nat_alt word_less_nat_alt)

lemma extend_justified_slots_Inr:
  assumes E: "ssz_ok E" and pos: "0 < blk" and ok: "extend_justified_slots E blk s = Inr js"
  shows "js = justified_slots s @
    replicate (unat blk - 1 - unat (cp_slot (latest_finalized s)) - length (justified_slots s)) False"
proof (cases "blk - 1 \<le> cp_slot (latest_finalized s)")
  case True
  then show ?thesis
    using ok by (simp add: extend_justified_slots_def justified_index_after_def word_le_nat_alt
      unat_pred [OF pos])
next
  case False
  let ?len = "unat blk - 1 - unat (cp_slot (latest_finalized s))"
  obtain i where i: "justified_index_after (blk - 1) (cp_slot (latest_finalized s)) = Some i"
    and u: "unat i = ?len - 1"
    using False by (metis justified_index_after_unat not_le unat_pred [OF pos])
  have pl: "0 < ?len"
    using False by (simp add: word_le_nat_alt unat_pred [OF pos])
  then have len: "unat (i + 1) = ?len"
    using u unat_less_u64 [of blk] by (simp add: unat_word_ariths)
  have gen: "justified_index_after 0 (cp_slot (latest_finalized s)) = None"
    by (simp add: justified_index_after_def)
  show ?thesis
    using ok i E
    by (auto simp: gen extend_justified_slots_def Let_def len ssz_with_capacity result_simps
      ssz_extend split: if_splits option.splits)
qed

text \<open>The checks of the header step and the state it returns.\<close>

lemma process_block_header_Inr:
  assumes E: "ssz_ok E" and ok: "process_block_header E b s = Inr s'"
  shows "blk_slot b = st_slot s"
    and "hdr_slot (latest_block_header s) < blk_slot b"
    and "blk_parent_root b = hash_block_header E (latest_block_header s)"
    and "of_nat (length (validators s)) \<noteq> (0 :: u64)"
    and "blk_slot b mod of_nat (length (validators s)) = blk_proposer_index b"
    and "length (historical_block_hashes s') \<le> HISTORICAL_ROOTS_LIMIT"
    and "s' = s\<lparr>
      latest_justified := (if hdr_slot (latest_block_header s) = 0
        then (latest_justified s)\<lparr> cp_root := blk_parent_root b \<rparr> else latest_justified s),
      latest_finalized := (if hdr_slot (latest_block_header s) = 0
        then (latest_finalized s)\<lparr> cp_root := blk_parent_root b \<rparr> else latest_finalized s),
      historical_block_hashes := historical_block_hashes s @ blk_parent_root b #
        replicate (unat (blk_slot b) - unat (hdr_slot (latest_block_header s)) - 1) 0,
      justified_slots := justified_slots s @
        replicate (unat (blk_slot b) - 1 - unat (cp_slot (latest_finalized s))
          - length (justified_slots s)) False,
      latest_block_header :=
        \<lparr> hdr_slot = blk_slot b, hdr_proposer_index = blk_proposer_index b,
          hdr_parent_root = blk_parent_root b, hdr_state_root = 0,
          hdr_body_root = hash_block_body E (blk_body b) \<rparr> \<rparr>"
proof -
  let ?hdr = "latest_block_header s"
  let ?s1 = "if hdr_slot ?hdr = 0
    then s\<lparr> latest_justified := (latest_justified s)\<lparr> cp_root := blk_parent_root b \<rparr>,
           latest_finalized := (latest_finalized s)\<lparr> cp_root := blk_parent_root b \<rparr> \<rparr>
    else s"
  from ok show slot: "blk_slot b = st_slot s" and lt: "hdr_slot ?hdr < blk_slot b"
    and "blk_parent_root b = hash_block_header E ?hdr"
    by (auto simp: process_block_header_def result_simps Let_def)
  from ok obtain p where p: "is_proposer_state s (blk_proposer_index b) = Some p" "p"
    by (auto simp: process_block_header_def result_simps Let_def)
  then show "of_nat (length (validators s)) \<noteq> (0 :: u64)"
    and "blk_slot b mod of_nat (length (validators s)) = blk_proposer_index b"
    by (auto simp: is_proposer_state_def is_proposer_def slot split: if_splits)
  from ok obtain h1 h2 js where
    h1: "vl_push E HISTORICAL_ROOTS_LIMIT (historical_block_hashes ?s1) (blk_parent_root b) = Some h1"
    and h2: "push_empty_slots E (unat (blk_slot b - hdr_slot ?hdr - 1)) h1 = Inr h2"
    and js: "extend_justified_slots E (blk_slot b) ?s1 = Inr js"
    and s': "s' = ?s1\<lparr> historical_block_hashes := h2, justified_slots := js,
             latest_block_header :=
               \<lparr> hdr_slot = blk_slot b, hdr_proposer_index = blk_proposer_index b,
                 hdr_parent_root = blk_parent_root b, hdr_state_root = 0,
                 hdr_body_root = hash_block_body E (blk_body b) \<rparr> \<rparr>"
    by (auto simp: process_block_header_def result_simps Let_def)
  have gap: "unat (blk_slot b - hdr_slot ?hdr - 1) = unat (blk_slot b) - unat (hdr_slot ?hdr) - 1"
    using lt by (metis justified_index_after_Some justified_index_after_def not_le)
  have h1': "h1 = historical_block_hashes s @ [blk_parent_root b]"
    "length (historical_block_hashes s) < HISTORICAL_ROOTS_LIMIT"
    using h1 E by (auto simp: vl_push_Some split: if_splits)
  have h2': "h2 = historical_block_hashes s @ blk_parent_root b #
      replicate (unat (blk_slot b) - unat (hdr_slot ?hdr) - 1) 0"
    "length h2 \<le> HISTORICAL_ROOTS_LIMIT"
    using h2 h1' by (auto simp: push_empty_slots_eq [OF E] gap)
  from s' h2' show "length (historical_block_hashes s') \<le> HISTORICAL_ROOTS_LIMIT" by simp
  have "js = justified_slots s @ replicate (unat (blk_slot b) - 1 - unat (cp_slot (latest_finalized s))
          - length (justified_slots s)) False"
    using extend_justified_slots_Inr [OF E _ js] lt
    by (auto split: if_splits simp: word_less_nat_alt)
  with s' h2' show "s' = s\<lparr>
      latest_justified := (if hdr_slot (latest_block_header s) = 0
        then (latest_justified s)\<lparr> cp_root := blk_parent_root b \<rparr> else latest_justified s),
      latest_finalized := (if hdr_slot (latest_block_header s) = 0
        then (latest_finalized s)\<lparr> cp_root := blk_parent_root b \<rparr> else latest_finalized s),
      historical_block_hashes := historical_block_hashes s @ blk_parent_root b #
        replicate (unat (blk_slot b) - unat (hdr_slot (latest_block_header s)) - 1) 0,
      justified_slots := justified_slots s @
        replicate (unat (blk_slot b) - 1 - unat (cp_slot (latest_finalized s))
          - length (justified_slots s)) False,
      latest_block_header :=
        \<lparr> hdr_slot = blk_slot b, hdr_proposer_index = blk_proposer_index b,
          hdr_parent_root = blk_parent_root b, hdr_state_root = 0,
          hdr_body_root = hash_block_body E (blk_body b) \<rparr> \<rparr>"
    by (cases "hdr_slot ?hdr = 0") simp_all
qed

lemma on_chain_append: "on_chain hs c \<Longrightarrow> on_chain (hs @ xs) c"
  by (simp add: on_chain_def nth_append)

lemma process_block_header_chain_ok:
  assumes E: "ssz_ok E" and inv: "state_ok s" and ok: "process_block_header E b s = Inr s'"
  shows "chain_ok s'"
proof -
  note h = process_block_header_Inr [OF E ok]
  have lt: "unat (hdr_slot (latest_block_header s)) < unat (blk_slot b)"
    using h(2) by (simp add: word_less_nat_alt)
  show ?thesis
  proof (cases "hdr_slot (latest_block_header s) = 0")
    case True
    with inv h(6) lt show ?thesis
      by (simp add: h(7) chain_ok_def state_ok_def on_chain_def)
  next
    case False
    with inv have chain: "chain_ok s" by (simp add: state_ok_def)
    with False h(6) lt show ?thesis
      by (auto simp: h(7) chain_ok_def on_chain_append)
  qed
qed


section \<open>Loading and storing the tallies\<close>

text \<open>The tallies written in the state, as the table they stand for.\<close>

definition stored_tallies :: "lean_state \<Rightarrow> tallies" where
  "stored_tallies s =
     map (\<lambda>(i, root). (root, take (length (validators s))
            (drop (i * length (validators s)) (justifications_validators s))))
       (List.enumerate 0 (justifications_roots s))"

lemma keys_stored_tallies: "tbl_keys (stored_tallies s) = justifications_roots s"
  by (simp add: stored_tallies_def comp_def case_prod_beta')

lemma load_justifications_eq:
  assumes E: "ssz_ok E" and ok: "votes_ok s" and n: "0 < length (validators s)"
    and lim: "length (validators s) \<le> VALIDATOR_REGISTRY_LIMIT"
  shows "load_justifications E s = Inr (stored_tallies s)"
proof -
  let ?n = "length (validators s)" and ?jv = "justifications_validators s"
  let ?step = "\<lambda>m (i, root).
           and_then (ok_or (slice_get ?jv (i * ?n) (i * ?n + ?n)) VotesTooShort)
             (\<lambda>vote_slice. and_then (copy_votes E ?n vote_slice)
                  (\<lambda>new_bitlist. Inr (tbl_insert root new_bitlist m)))"
  let ?entry = "\<lambda>(i, root). (root, take ?n (drop (i * ?n) ?jv))"
  have entries: "try_fold ?step [] (List.enumerate 0 rs) = Inr (map ?entry (List.enumerate 0 rs))"
    if "sorted_wrt (<) rs" "length rs * ?n \<le> length ?jv" for rs :: "b256 list"
    using that
  proof (induction rs rule: rev_induct)
    case (snoc r rs)
    let ?i = "length rs"
    have len: "?i * ?n + ?n \<le> length ?jv"
      using snoc.prems(2) by simp
    have IH: "try_fold ?step [] (List.enumerate 0 rs) = Inr (map ?entry (List.enumerate 0 rs))"
    proof (rule snoc.IH)
      show "sorted_wrt (<) rs" using snoc.prems(1) by (simp add: sorted_wrt_append)
      show "?i * ?n \<le> length ?jv" using len by linarith
    qed
    have slice: "slice_get ?jv (?i * ?n) (?i * ?n + ?n) = Some (take ?n (drop (?i * ?n) ?jv))"
      using len by (simp add: slice_get_def)
    have copy: "copy_votes E ?n (take ?n (drop (?i * ?n) ?jv)) = Inr (take ?n (drop (?i * ?n) ?jv))"
      using E lim len by (intro copy_votes_eq) simp_all
    have keys: "tbl_keys (map ?entry (List.enumerate 0 rs)) = rs"
      by (simp add: comp_def case_prod_beta')
    have "\<And>k. k \<in> set (tbl_keys (map ?entry (List.enumerate 0 rs))) \<Longrightarrow> k < r"
      using snoc.prems(1) by (simp only: keys) (simp add: sorted_wrt_append)
    then have last: "tbl_insert r v (map ?entry (List.enumerate 0 rs)) =
        map ?entry (List.enumerate 0 rs) @ [(r, v)]" for v
      by (rule tbl_insert_last)
    from IH slice copy show ?case
      by (simp add: enumerate_append_eq try_fold_append last)
  qed simp
  have fold: "try_fold ?step [] (List.enumerate 0 (justifications_roots s)) = Inr (stored_tallies s)"
    unfolding stored_tallies_def using ok by (intro entries) (simp_all only: votes_ok_def order_refl)
  have "length ?jv = length (justifications_roots s) * ?n" "0 \<notin> set (justifications_roots s)"
    using ok by (simp_all add: votes_ok_def)
  then show ?thesis
    using n unfolding load_justifications_def Let_def fold by simp
qed


lemma push_tally_Inr:
  "ssz_ok E \<Longrightarrow> push_tally E n (rs, vs) (r, v) = Inr x \<longleftrightarrow>
    length v = n \<and> length rs < HISTORICAL_ROOTS_LIMIT \<and> x = (rs @ [r], vs @ v)"
  by (auto simp: push_tally_def result_simps vl_push_Some)

lemma try_fold_push_tally:
  assumes E: "ssz_ok E"
  shows "try_fold (push_tally E n) (rs, vs) m = Inr x \<longleftrightarrow>
    (\<forall>p \<in> set m. length (snd p) = n) \<and>
    (m = [] \<or> length rs + length m \<le> HISTORICAL_ROOTS_LIMIT) \<and>
    x = (rs @ map fst m, vs @ concat (map snd m))"
proof (induction m arbitrary: rs vs)
  case (Cons p m)
  obtain r v where p: "p = (r, v)" by force
  show ?case
    by (simp add: p and_then_eq_Inr push_tally_Inr [OF E] Cons.IH) (auto)
qed auto

lemma concat_same_length:
  "\<forall>p \<in> set m. length (snd p) = n \<Longrightarrow> length (concat (map snd m)) = length m * n"
  by (induction m) auto

lemma tallies_ok_lengths: "tallies_ok s m \<Longrightarrow> \<forall>p \<in> set m. length (snd p) = length (validators s)"
  by (auto simp: tallies_ok_def tbl_wf_distinct)

text \<open>Storing well-formed tallies succeeds exactly when they fit the lists of the state.\<close>

lemma store_justifications_eq:
  assumes E: "ssz_ok E" and ok: "tallies_ok s m"
  shows "store_justifications E s m = Inr s' \<longleftrightarrow>
    length m \<le> HISTORICAL_ROOTS_LIMIT \<and>
    length m * length (validators s) \<le> JUSTIFICATION_VALIDATORS_LIMIT \<and>
    s' = s\<lparr> justifications_roots := map fst m, justifications_validators := concat (map snd m) \<rparr>"
proof -
  let ?n = "length m * length (validators s)"
  have "try_fold (\<lambda>bl (i, b). ok_or (bl_set E bl i b) ValidatorBitOutOfBounds)
     (replicate ?n False) (List.enumerate 0 (concat (map snd m))) = Inr (concat (map snd m))"
    using try_fold_bl_set [OF E, of 0 "concat (map snd m)" "replicate ?n False"
      ValidatorBitOutOfBounds] concat_same_length [OF tallies_ok_lengths [OF ok]] by simp
  then show ?thesis
    using tallies_ok_lengths [OF ok]
    by (auto simp: store_justifications_def and_then_eq_Inr try_fold_push_tally [OF E]
      ssz_with_capacity [OF E] split: if_splits)
qed


lemma length_stored_tallies [simp]: "length (stored_tallies s) = length (justifications_roots s)"
  by (simp add: stored_tallies_def)

lemma concat_chunks:
  "k * n \<le> length xs \<Longrightarrow> concat (map (\<lambda>i. take n (drop (i * n) xs)) [0..<k]) = take (k * n) xs"
proof (induction k)
  case (Suc k)
  moreover have "take (k * n) xs @ take n (drop (k * n) xs) = take (k * n + n) xs"
    by (simp add: take_add)
  ultimately show ?case by (simp add: add.commute)
qed simp

lemma stored_tallies_ok:
  assumes "votes_ok s"
  shows "tallies_ok s (stored_tallies s)"
    and "concat (map snd (stored_tallies s)) = justifications_validators s"
proof -
  let ?n = "length (validators s)" and ?jv = "justifications_validators s"
  let ?k = "length (justifications_roots s)"
  have len: "length ?jv = ?k * ?n" and nz: "0 \<notin> set (justifications_roots s)"
    and srt: "sorted_wrt (<) (justifications_roots s)"
    using assms by (simp_all add: votes_ok_def)
  have chunk: "length (take ?n (drop (i * ?n) ?jv)) = ?n" if "i < ?k" for i
  proof -
    have "Suc i * ?n \<le> ?k * ?n" using that by (intro mult_le_mono1) simp
    then show ?thesis using len by simp
  qed
  have wf: "tbl_wf (stored_tallies s)"
    using srt by (simp add: tbl_wf_def keys_stored_tallies)
  have entry: "r \<noteq> 0 \<and> length v = ?n" if "(r, v) \<in> set (stored_tallies s)" for r v
  proof -
    from that obtain i where "i < ?k" "r = justifications_roots s ! i"
      "v = take ?n (drop (i * ?n) ?jv)"
      by (auto simp: stored_tallies_def in_set_enumerate_eq)
    with nz chunk show ?thesis by (metis nth_mem)
  qed
  show "tallies_ok s (stored_tallies s)"
    unfolding tallies_ok_def using wf entry by (blast dest: map_of_SomeD)
  have "map snd (stored_tallies s) = map (\<lambda>i. take ?n (drop (i * ?n) ?jv)) [0..<?k]"
    by (rule nth_equalityI) (simp_all add: stored_tallies_def nth_enumerate_eq)
  then show "concat (map snd (stored_tallies s)) = ?jv"
    using concat_chunks [of ?k ?n ?jv] len by simp
qed

text \<open>A state whose tallies fit the limits of the state type.\<close>

definition votes_fit :: "lean_state \<Rightarrow> bool" where
  "votes_fit s \<longleftrightarrow>
     length (justifications_roots s) \<le> HISTORICAL_ROOTS_LIMIT \<and>
     length (justifications_validators s) \<le> JUSTIFICATION_VALIDATORS_LIMIT"

lemma store_load_id:
  assumes "ssz_ok E" and "votes_ok s" and "votes_fit s"
  shows "store_justifications E s (stored_tallies s) = Inr s"
proof -
  have "length (justifications_roots s) * length (validators s) \<le> JUSTIFICATION_VALIDATORS_LIMIT"
    using assms(2,3) by (simp add: votes_ok_def votes_fit_def)
  then show ?thesis
    using assms(3) stored_tallies_ok [OF assms(2)]
    by (simp add: store_justifications_eq [OF assms(1)] keys_stored_tallies votes_fit_def)
qed

lemma store_justifications_ok:
  assumes E: "ssz_ok E" and ok: "tallies_ok s m" and run: "store_justifications E s m = Inr s'"
  shows "votes_ok s' \<and> votes_fit s'"
proof -
  have wf: "tbl_wf m" and nz: "0 \<notin> fst ` set m"
    using ok by (auto simp: tallies_ok_def tbl_wf_distinct dest: map_of_SomeD)
  have len: "length (concat (map snd m)) = length m * length (validators s)"
    by (rule concat_same_length [OF tallies_ok_lengths [OF ok]])
  show ?thesis
    using run wf nz len
    by (auto simp: store_justifications_eq [OF E ok] votes_ok_def votes_fit_def tbl_wf_def
      simp del: length_concat)
qed


section \<open>Whole blocks\<close>

text \<open>What a block may change of a state: the chain only grows, the checkpoints only move
  forward and a justified slot stays justified.\<close>

definition extends :: "lean_state \<Rightarrow> lean_state \<Rightarrow> bool" where
  "extends s t \<longleftrightarrow>
     st_config t = st_config s \<and>
     validators t = validators s \<and>
     (\<exists>hs. historical_block_hashes t = historical_block_hashes s @ hs) \<and>
     cp_slot (latest_justified s) \<le> cp_slot (latest_justified t) \<and>
     cp_slot (latest_finalized s) \<le> cp_slot (latest_finalized t) \<and>
     (\<forall>slot. justified_at s slot \<longrightarrow> justified_at t slot)"

lemma extends_refl: "extends s s"
  by (simp add: extends_def)

lemma extends_trans:
  assumes "extends s t" and "extends t u"
  shows "extends s u"
  using assms unfolding extends_def by (metis append.assoc order_trans)

lemma advances_extends: "advances s t \<Longrightarrow> extends s t"
  by (simp add: advances_def extends_def)

lemma extends_votes:
  "extends s (t\<lparr> justifications_roots := rs, justifications_validators := vs \<rparr>) = extends s t"
  by (simp add: extends_def justified_at_def)

lemma same_chain_extends: "same_chain s t \<Longrightarrow> extends s t"
  by (simp add: same_chain_def extends_def justified_at_def)

lemma load_justifications_pos:
  "load_justifications E s = Inr m \<Longrightarrow> 0 < length (validators s)"
  by (auto simp: load_justifications_def result_simps Let_def)

lemma process_attestations_Inr:
  assumes E: "ssz_ok E" and chain: "chain_ok s" and votes: "votes_ok s"
    and run: "process_attestations E atts s = Inr s'"
  obtains s1 m1 where
    "try_fold (process_attestation E (build_root_to_slot s)) (s, stored_tallies s) atts = Inr (s1, m1)"
    and "attestation_inv E (s1, m1)" and "advances s s1"
    and "store_justifications E s1 m1 = Inr s'"
    and "s' = s1\<lparr> justifications_roots := map fst m1,
                   justifications_validators := concat (map snd m1) \<rparr>"
proof -
  from run obtain m s1 m1 where m: "load_justifications E s = Inr m"
    and fold: "try_fold (process_attestation E (build_root_to_slot s)) (s, m) atts = Inr (s1, m1)"
    and store: "store_justifications E s1 m1 = Inr s'"
    by (auto simp: process_attestations_def result_simps)
  have "length (validators s) \<le> VALIDATOR_REGISTRY_LIMIT"
    using chain unfolding chain_ok_def by blast
  then have m_eq: "m = stored_tallies s"
    using load_justifications_eq [OF E votes load_justifications_pos [OF m]] m by simp
  have inv: "attestation_inv E (s, m)"
    using E chain stored_tallies_ok [OF votes] by (simp add: attestation_inv_def m_eq)
  have inv': "attestation_inv E (s1, m1)"
    by (rule att_loop.fold_inv [OF inv fold])
  moreover have "advances s s1"
    using att_loop.fold_rel [OF inv fold] by simp
  moreover have "s' = s1\<lparr> justifications_roots := map fst m1,
                   justifications_validators := concat (map snd m1) \<rparr>"
    using store inv' by (simp add: attestation_inv_def store_justifications_eq [OF E])
  ultimately show thesis
    using that fold store m_eq by blast
qed

lemma process_attestations_ok:
  assumes E: "ssz_ok E" and chain: "chain_ok s" and votes: "votes_ok s"
    and run: "process_attestations E atts s = Inr s'"
  shows "chain_ok s'" "votes_ok s'" "extends s s'" "latest_block_header s' = latest_block_header s"
    "st_slot s' = st_slot s"
proof -
  obtain s1 m1 where s1: "attestation_inv E (s1, m1)" "advances s s1"
    "store_justifications E s1 m1 = Inr s'"
    "s' = s1\<lparr> justifications_roots := map fst m1, justifications_validators := concat (map snd m1) \<rparr>"
    using process_attestations_Inr [OF assms] by blast
  show "votes_ok s'"
    using store_justifications_ok [OF E _ s1(3)] s1(1) by (simp add: attestation_inv_def)
  show "chain_ok s'"
    using s1(1) by (simp add: s1(4) attestation_inv_def chain_ok_def)
  show "extends s s'"
    using advances_extends [OF s1(2)] by (simp add: s1(4) extends_votes)
  show "latest_block_header s' = latest_block_header s" "st_slot s' = st_slot s"
    using s1(2) by (simp_all add: s1(4) advances_def)
qed

lemma process_block_header_extends:
  assumes E: "ssz_ok E" and inv: "state_ok s" and ok: "process_block_header E b s = Inr s'"
  shows "extends s s'" "votes_ok s'" "st_slot s' = st_slot s"
    "hdr_slot (latest_block_header s') = st_slot s"
proof -
  note h = process_block_header_Inr [OF E ok]
  show "extends s s'" "votes_ok s'" "st_slot s' = st_slot s"
    "hdr_slot (latest_block_header s') = st_slot s"
    using inv h(1) by (auto simp: h(7) extends_def justified_at_def votes_ok_def state_ok_def
      nth_append Let_def)
qed

lemma process_block_ok:
  assumes E: "ssz_ok E" and inv: "state_ok s" and ok: "process_block E b s = Inr s'"
  shows "chain_ok s'" "state_ok s'" "extends s s'" "hdr_slot (latest_block_header s') = blk_slot b"
    "st_slot s' = blk_slot b"
proof -
  from ok obtain s1 where s1: "process_block_header E b s = Inr s1"
    and att: "process_attestations E (attestations (blk_body b)) s1 = Inr s'"
    by (auto simp: process_block_def result_simps)
  note h = process_block_header_extends [OF E inv s1]
    and slots = process_block_header_Inr(1,2) [OF E s1]
  note a = process_attestations_ok [OF E process_block_header_chain_ok [OF E inv s1] h(2) att]
  show "chain_ok s'" by (rule a)
  show hs: "hdr_slot (latest_block_header s') = blk_slot b" "st_slot s' = blk_slot b"
    using a h slots by simp_all
  show "extends s s'" using h(1) a(3) by (rule extends_trans)
  show "state_ok s'"
    using a(1,2) hs slots by (auto simp: state_ok_def)
qed

lemma same_chain_state_ok:
  assumes "same_chain s t" and "state_ok s" and "st_slot s \<le> st_slot t"
  shows "state_ok t"
  using assms by (auto simp: same_chain_def state_ok_def chain_ok_def votes_ok_def)

lemma process_slots_ok:
  assumes "state_ok s" and "process_slots E target s = Inr s'"
  shows "state_ok s'" "extends s s'" "st_slot s' = target"
  using assms process_slots_loop_same_chain [of s E target] process_slots_loop_slot [of s target E]
  by (auto simp: process_slots_Inr intro: same_chain_state_ok same_chain_extends)

lemma state_transition_Inr:
  "state_transition E b valid s = Inr s' \<longleftrightarrow>
    valid \<and> (\<exists>s1. process_slots E (blk_slot b) s = Inr s1 \<and> process_block E b s1 = Inr s' \<and>
      blk_state_root b = hash_state E s')"
  by (auto simp: state_transition_def result_simps)

lemma state_transition_ok:
  assumes E: "ssz_ok E" and inv: "state_ok s" and ok: "state_transition E b valid s = Inr s'"
  shows "chain_ok s'" "state_ok s'" "extends s s'" "hdr_slot (latest_block_header s') = blk_slot b"
    "st_slot s' = blk_slot b"
proof -
  from ok obtain s1 where s1: "process_slots E (blk_slot b) s = Inr s1"
    and b: "process_block E b s1 = Inr s'"
    by (auto simp: state_transition_Inr)
  note p = process_slots_ok [OF inv s1]
  note q = process_block_ok [OF E p(1) b]
  show "chain_ok s'" "state_ok s'" "hdr_slot (latest_block_header s') = blk_slot b"
    "st_slot s' = blk_slot b"
    by (rule q)+
  show "extends s s'" using p(2) q(3) by (rule extends_trans)
qed

lemma generate_genesis_ok:
  "ssz_ok E \<Longrightarrow> generate_genesis E t vs = Inr s \<Longrightarrow> state_ok s"
  by (auto simp: generate_genesis_def result_simps vl_new_Some state_ok_def votes_ok_def)

section \<open>States reachable from genesis\<close>

inductive chain_state :: "lean_env \<Rightarrow> lean_state \<Rightarrow> bool" for E where
  genesis: "generate_genesis E time vals = Inr s \<Longrightarrow> chain_state E s"
| block: "chain_state E s \<Longrightarrow> state_transition E b True s = Inr s' \<Longrightarrow> chain_state E s'"

lemma chain_state_ok: "ssz_ok E \<Longrightarrow> chain_state E s \<Longrightarrow> state_ok s"
  by (rotate_tac, induction rule: chain_state.induct)
    (auto intro: generate_genesis_ok state_transition_ok)

end
