(* ===== verification/Lean_Abstract.thy ===== *)
theory Lean_Abstract
  imports Lean_Transition
begin

text \<open>
  An abstract account of justification and finality on one chain: sets of justified slots and of
  voters instead of windows, offsets and flattened bit lists. The attestation loop of the state
  transition refines it.
\<close>

section \<open>The abstract machine\<close>

record finality =
  f_justified :: "u64 set"
  f_latest :: checkpoint
  f_finalized :: checkpoint
  f_votes :: "b256 \<Rightarrow> nat set"

record vote =
  v_source :: checkpoint
  v_target :: checkpoint
  v_head :: checkpoint
  v_voters :: "nat set"

text \<open>A checkpoint of the chain: a real block (not an empty slot) at its own slot.\<close>

definition real_block :: "b256 list \<Rightarrow> checkpoint \<Rightarrow> bool" where
  "real_block chain c \<longleftrightarrow> on_chain chain c \<and> cp_root c \<noteq> 0"

definition distance :: "u64 \<Rightarrow> checkpoint \<Rightarrow> nat" where
  "distance slot c = unat slot - unat (cp_slot c)"

definition admissible :: "b256 list \<Rightarrow> finality \<Rightarrow> vote \<Rightarrow> bool" where
  "admissible chain f v \<longleftrightarrow>
     real_block chain (v_source v) \<and> real_block chain (v_target v) \<and> real_block chain (v_head v) \<and>
     cp_slot (v_source v) \<in> f_justified f \<and> cp_slot (v_target v) \<notin> f_justified f \<and>
     cp_slot (v_source v) < cp_slot (v_target v) \<and>
     justifiable_distance (distance (cp_slot (v_target v)) (f_finalized f))"

definition ballots :: "finality \<Rightarrow> vote \<Rightarrow> nat set" where
  "ballots f v = f_votes f (cp_root (v_target v)) \<union> v_voters v"

text \<open>A source after the finalized slot is finalized when no slot strictly between source and
  target could have been justified.\<close>

definition finalizes :: "finality \<Rightarrow> vote \<Rightarrow> bool" where
  "finalizes f v \<longleftrightarrow>
     cp_slot (f_finalized f) < cp_slot (v_source v) \<and>
     (\<forall>slot. cp_slot (v_source v) < slot \<and> slot < cp_slot (v_target v) \<longrightarrow>
        \<not> justifiable_distance (distance slot (f_finalized f)))"

definition justified_by :: "vote \<Rightarrow> finality \<Rightarrow> finality" where
  "justified_by v f =
     f\<lparr> f_justified := insert (cp_slot (v_target v)) (f_justified f),
        f_latest := (if cp_slot (f_latest f) < cp_slot (v_target v) then v_target v else f_latest f),
        f_votes := (f_votes f)(cp_root (v_target v) := {}) \<rparr>"

text \<open>Finalizing drops the ballots of blocks that are not after the source; \<open>slot_of\<close> is the slot
  of a block of the chain.\<close>

definition finalized_by :: "(b256 \<rightharpoonup> u64) \<Rightarrow> vote \<Rightarrow> finality \<Rightarrow> finality" where
  "finalized_by slot_of v f =
     f\<lparr> f_justified := f_justified f \<union> {slot. slot \<le> cp_slot (v_source v)},
        f_finalized := v_source v,
        f_votes := (\<lambda>r. if (\<exists>slot. slot_of r = Some slot \<and> cp_slot (v_source v) < slot)
                        then f_votes f r else {}) \<rparr>"

inductive finality_step ::
  "b256 list \<Rightarrow> (b256 \<rightharpoonup> u64) \<Rightarrow> nat \<Rightarrow> vote \<Rightarrow> finality \<Rightarrow> finality \<Rightarrow> bool"
  for chain slot_of n v where
  ignored: "\<not> admissible chain f v \<Longrightarrow> finality_step chain slot_of n v f f"
| voted: "admissible chain f v \<Longrightarrow> 3 * card (ballots f v) < 2 * n \<Longrightarrow>
    finality_step chain slot_of n v f (f\<lparr> f_votes := (f_votes f)(cp_root (v_target v) := ballots f v) \<rparr>)"
| justified: "admissible chain f v \<Longrightarrow> 2 * n \<le> 3 * card (ballots f v) \<Longrightarrow> \<not> finalizes f v \<Longrightarrow>
    finality_step chain slot_of n v f (justified_by v f)"
| finalized: "admissible chain f v \<Longrightarrow> 2 * n \<le> 3 * card (ballots f v) \<Longrightarrow> finalizes f v \<Longrightarrow>
    finality_step chain slot_of n v f (finalized_by slot_of v (justified_by v f))"

inductive finality_run ::
  "b256 list \<Rightarrow> (b256 \<rightharpoonup> u64) \<Rightarrow> nat \<Rightarrow> vote list \<Rightarrow> finality \<Rightarrow> finality \<Rightarrow> bool"
  for chain slot_of n where
  finished: "finality_run chain slot_of n [] f f"
| step: "finality_step chain slot_of n v f g \<Longrightarrow> finality_run chain slot_of n vs g h \<Longrightarrow>
    finality_run chain slot_of n (v # vs) f h"

inductive_cases finality_run_NilE [elim!]: "finality_run chain slot_of n [] f g"
inductive_cases finality_run_ConsE [elim!]: "finality_run chain slot_of n (v # vs) f g"

section \<open>The abstraction\<close>

definition abs_votes :: "tallies \<Rightarrow> b256 \<Rightarrow> nat set" where
  "abs_votes m r = (case tbl_get m r of None \<Rightarrow> {} | Some v \<Rightarrow> set (bits_indices v))"

definition abs_finality :: "lean_state \<times> tallies \<Rightarrow> finality" where
  "abs_finality = (\<lambda>(s, m).
     \<lparr> f_justified = Collect (justified_at s), f_latest = latest_justified s,
       f_finalized = latest_finalized s, f_votes = abs_votes m \<rparr>)"

definition abs_vote :: "aggregated_attestation \<Rightarrow> vote" where
  "abs_vote a =
     \<lparr> v_source = att_source a, v_target = att_target a, v_head = att_head a,
       v_voters = set (bits_indices (aggregation_bits a)) \<rparr>"

lemma abs_vote_simps [simp]:
  "v_source (abs_vote a) = att_source a" "v_target (abs_vote a) = att_target a"
  "v_head (abs_vote a) = att_head a" "v_voters (abs_vote a) = set (bits_indices (aggregation_bits a))"
  by (simp_all add: abs_vote_def)

lemma abs_finality_simps [simp]:
  "f_justified (abs_finality (s, m)) = Collect (justified_at s)"
  "f_latest (abs_finality (s, m)) = latest_justified s"
  "f_finalized (abs_finality (s, m)) = latest_finalized s"
  "f_votes (abs_finality (s, m)) = abs_votes m"
  by (simp_all add: abs_finality_def)

section \<open>Refinement\<close>

lemma is_justifiable_distance:
  "cp_slot c \<le> slot \<Longrightarrow> is_justifiable_after slot (cp_slot c) \<longleftrightarrow> justifiable_distance (distance slot c)"
  by (simp add: is_justifiable_after_iff distance_def)

lemma admissible_eligible:
  assumes "chain_ok s"
  shows "admissible (historical_block_hashes s) (abs_finality (s, m)) (abs_vote a) \<longleftrightarrow> eligible s a"
proof -
  have "attestation_data_matches_chain (historical_block_hashes s) (aa_message a) \<longleftrightarrow>
      real_block (historical_block_hashes s) (att_source a) \<and>
      real_block (historical_block_hashes s) (att_target a) \<and>
      real_block (historical_block_hashes s) (att_head a)"
    by (auto simp: attestation_data_matches_chain_def real_block_def on_chain_def Let_def
      att_source_def att_target_def att_head_def)
  note matches = this
  show ?thesis
  proof (cases "justified_at s (cp_slot (att_target a))")
    case True
    then show ?thesis by (simp add: admissible_def eligible_def)
  next
    case False
    then have "cp_slot (latest_finalized s) \<le> cp_slot (att_target a)"
      by (auto simp: justified_at_def)
    note is_justifiable_distance [OF this]
    then show ?thesis
      using False by (auto simp: admissible_def eligible_def matches real_block_def)
  qed
qed

lemma finalizes_next_valid:
  assumes "eligible s a"
  shows "finalizes (abs_finality (s, m)) (abs_vote a) \<longleftrightarrow> is_target_next_valid_justifiable_slot a s"
proof -
  have inc: "x \<in> set (u64_range (cp_slot (att_source a) + 1) (cp_slot (att_target a))) \<longleftrightarrow>
      cp_slot (att_source a) < x \<and> x < cp_slot (att_target a)" for x
  proof -
    have "unat (cp_slot (att_source a) + 1) = unat (cp_slot (att_source a)) + 1"
      using assms by (intro unat_add_one [of _ "cp_slot (att_target a)"]) (simp add: eligible_def)
    then show ?thesis
      by (auto simp: set_u64_range word_le_nat_alt word_less_nat_alt)
  qed
  have "is_justifiable_after x (cp_slot (latest_finalized s)) \<longleftrightarrow>
      justifiable_distance (distance x (latest_finalized s))"
    if "cp_slot (latest_finalized s) < cp_slot (att_source a)" "cp_slot (att_source a) < x" for x
    using that by (intro is_justifiable_distance) simp
  then show ?thesis
    by (auto simp: finalizes_def is_target_next_valid_justifiable_slot_def list_ex_iff inc)
qed


text \<open>Votes are recorded only for validators of the registry, so the bit list holds them all.\<close>

lemma add_votes_in_range:
  assumes E: "ssz_ok E"
    and "try_fold (\<lambda>v (validator_id, signed).
           if signed \<and> \<not> (case bl_get E v validator_id of Some b \<Rightarrow> b | None \<Rightarrow> False)
           then ok_or (bl_set E v validator_id True) ValidatorBitOutOfBounds
           else Inr v) votes (List.enumerate k bits) = Inr votes'"
    and "i < length bits" and "bits ! i"
  shows "k + i < length votes"
  using assms(2-)
proof (induction bits arbitrary: k votes i)
  case (Cons b bits)
  show ?case
  proof (cases i)
    case 0
    then show ?thesis
      using Cons.prems E by (auto simp: ssz_get ssz_set result_simps split: if_splits)
  next
    case (Suc j)
    from Cons.prems(1) obtain v1 where
      rest: "try_fold (\<lambda>v (validator_id, signed).
           if signed \<and> \<not> (case bl_get E v validator_id of Some b \<Rightarrow> b | None \<Rightarrow> False)
           then ok_or (bl_set E v validator_id True) ValidatorBitOutOfBounds
           else Inr v) v1 (List.enumerate (Suc k) bits) = Inr votes'"
      and len: "length v1 = length votes"
      using E by (auto simp: ssz_get ssz_set result_simps split: if_splits)
    from Cons.IH [OF rest, of j] Suc Cons.prems(2,3) len show ?thesis by simp
  qed
qed simp

lemma tally_votes_ballots:
  assumes E: "ssz_ok E" and tv: "tally_votes E s a m = Inr (votes, m1)" and ok: "tallies_ok s m"
  shows "set (bits_indices votes) = ballots (abs_finality (s, m)) (abs_vote a)"
proof -
  let ?old = "case tbl_get m (cp_root (att_target a)) of Some v \<Rightarrow> v
    | None \<Rightarrow> replicate (length (validators s)) False"
  have add: "add_votes E (aggregation_bits a) ?old = Inr votes"
    using E tv by (auto simp: tally_votes_def result_simps ssz_with_capacity Let_def split: if_splits)
  have old: "set (bits_indices ?old) = abs_votes m (cp_root (att_target a))"
    by (auto simp: abs_votes_def set_bits_indices split: option.splits)
  have "i < length ?old" if "i < length (aggregation_bits a)" "aggregation_bits a ! i" for i
    using add_votes_in_range [OF E, of ?old 0 "aggregation_bits a" votes i] add that
    by (simp add: add_votes_def)
  then show ?thesis
    using add_votes_nth [OF E add]
    by (auto simp: ballots_def set_bits_indices simp flip: old)
qed

lemma quorum_card: "quorum s votes \<longleftrightarrow> 2 * length (validators s) \<le> 3 * card (set (bits_indices votes))"
  by (simp add: quorum_def num_set_bits_card set_bits_indices)

lemma abs_votes_insert: "abs_votes (tbl_insert r v m) = (abs_votes m)(r := set (bits_indices v))"
  by (rule ext) (simp add: abs_votes_def table_simps)

lemma abs_votes_remove: "tbl_wf m \<Longrightarrow> abs_votes (tbl_remove r m) = (abs_votes m)(r := {})"
  by (rule ext) (simp add: abs_votes_def table_simps)

lemma abs_votes_retain:
  "tbl_wf m \<Longrightarrow> abs_votes (tbl_retain (\<lambda>r _. P r) m) = (\<lambda>r. if P r then abs_votes m r else {})"
  by (rule ext) (simp add: abs_votes_def table_simps tbl_wf_distinct split: option.splits)

lemma abs_target_justified:
  assumes "chain_ok s" and "eligible s a" and "tbl_wf m"
  shows "abs_finality (with_target_justified a s, tbl_remove (cp_root (att_target a))
        (tbl_insert (cp_root (att_target a)) votes m)) = justified_by (abs_vote a) (abs_finality (s, m))"
proof -
  have J: "Collect (justified_at (with_target_justified a s)) =
      insert (cp_slot (att_target a)) (Collect (justified_at s))"
    using justified_at_target [OF assms(1,2)] by auto
  have L: "latest_justified (with_target_justified a s) =
      (if cp_slot (latest_justified s) < cp_slot (att_target a) then att_target a else latest_justified s)"
    by (simp add: with_target_justified_def)
  have V: "abs_votes (tbl_remove (cp_root (att_target a))
        (tbl_insert (cp_root (att_target a)) votes m)) = (abs_votes m)(cp_root (att_target a) := {})"
    using assms(3) by (simp add: abs_votes_remove abs_votes_insert)
  show ?thesis
    by (simp only: abs_finality_def justified_by_def prod.case J L V) simp
qed

lemma abs_source_finalized:
  assumes "cp_slot (latest_finalized s) < cp_slot (att_source a)" and "tbl_wf m"
  shows "abs_finality (with_source_finalized a s,
      tbl_retain (\<lambda>root _. case tbl_get rts root of
        Some slot \<Rightarrow> cp_slot (att_source a) < slot | None \<Rightarrow> False) m) =
    finalized_by (tbl_get rts) (abs_vote a) (abs_finality (s, m))"
proof -
  have J: "Collect (justified_at (with_source_finalized a s)) =
      Collect (justified_at s) \<union> {slot. slot \<le> cp_slot (att_source a)}"
    using justified_at_source [OF assms(1)] by auto
  have V: "abs_votes (tbl_retain (\<lambda>root _. case tbl_get rts root of
        Some slot \<Rightarrow> cp_slot (att_source a) < slot | None \<Rightarrow> False) m) =
      (\<lambda>r. if (\<exists>slot. tbl_get rts r = Some slot \<and> cp_slot (att_source a) < slot)
           then abs_votes m r else {})"
    using assms(2) by (subst abs_votes_retain) (auto simp: fun_eq_iff split: option.splits)
  show ?thesis
    by (simp only: abs_finality_def finalized_by_def prod.case J V) (simp cong: if_cong)
qed

text \<open>One attestation is one abstract step.\<close>

lemma process_attestation_refines:
  assumes E: "ssz_ok E" and chain: "chain_ok s" and tallies: "tallies_ok s m"
    and step: "process_attestation E rts (s, m) a = Inr (s', m')"
  shows "finality_step (historical_block_hashes s) (tbl_get rts) (length (validators s)) (abs_vote a)
    (abs_finality (s, m)) (abs_finality (s', m'))"
proof -
  let ?f = "abs_finality (s, m)" and ?v = "abs_vote a"
  have wf: "tbl_wf m" using tallies by (simp add: tallies_ok_def)
  note adm = admissible_eligible [OF chain, of m a]
  note target = abs_target_justified [OF chain _ wf]
  from E chain tallies step show ?thesis
  proof (cases rule: process_attestation_cases)
    case skip
    then show ?thesis using adm by (auto intro: finality_step.ignored)
  next
    case (vote votes)
    have m': "abs_finality (s, m') = ?f\<lparr> f_votes := (f_votes ?f)(cp_root (v_target ?v) := ballots ?f ?v) \<rparr>"
      using tally_votes_Inr(3) [OF E vote(2) tallies] tally_votes_ballots [OF E vote(2) tallies]
      by (simp add: abs_finality_def abs_votes_insert)
    have "3 * card (ballots ?f ?v) < 2 * length (validators s)"
      using vote(3) tally_votes_ballots [OF E vote(2) tallies] by (simp add: quorum_card)
    with vote(1) adm m' vote(4) show ?thesis
      by (metis finality_step.voted)
  next
    case (justify votes m1)
    have q: "2 * length (validators s) \<le> 3 * card (ballots ?f ?v)"
      using justify(3) tally_votes_ballots [OF E justify(2) tallies] by (simp add: quorum_card)
    have "abs_finality (s', m') = justified_by ?v ?f"
      unfolding justify(5,6) tally_votes_Inr(3) [OF E justify(2) tallies] by (rule target [OF justify(1)])
    then show ?thesis
      using finality_step.justified [OF _ q] adm justify(1,4) finalizes_next_valid [OF justify(1)]
      by simp
  next
    case (finalize votes m1)
    let ?t = "with_target_justified a s"
    have q: "2 * length (validators s) \<le> 3 * card (ballots ?f ?v)"
      using finalize(3) tally_votes_ballots [OF E finalize(2) tallies] by (simp add: quorum_card)
    have m1: "m1 = tbl_insert (cp_root (att_target a)) votes m"
      by (rule tally_votes_Inr(3) [OF E finalize(2) tallies])
    have lt: "cp_slot (latest_finalized ?t) < cp_slot (att_source a)"
      using finalize(4) by (simp add: is_target_next_valid_justifiable_slot_def)
    let ?m2 = "tbl_remove (cp_root (att_target a)) m1"
    have "tbl_wf ?m2" using wf by (simp add: m1)
    then have "abs_finality (s', m') = finalized_by (tbl_get rts) ?v (abs_finality (?t, ?m2))"
      unfolding finalize(5,6) by (rule abs_source_finalized [OF lt])
    also have "abs_finality (?t, ?m2) = justified_by ?v ?f"
      unfolding m1 by (rule target [OF finalize(1)])
    finally show ?thesis
      using finality_step.finalized [OF _ q] adm finalize(1,4) finalizes_next_valid [OF finalize(1)]
      by simp
  qed
qed

section \<open>Whole attestation lists\<close>

lemma attestation_loop_refines:
  assumes "attestation_inv E (s, m)"
    and "try_fold (process_attestation E rts) (s, m) atts = Inr (s', m')"
  shows "finality_run (historical_block_hashes s) (tbl_get rts) (length (validators s))
    (map abs_vote atts) (abs_finality (s, m)) (abs_finality (s', m'))"
  using assms
proof (induction atts arbitrary: s m)
  case Nil
  then show ?case by (auto intro: finality_run.finished)
next
  case (Cons a atts)
  from Cons.prems(2) obtain t k where t: "process_attestation E rts (s, m) a = Inr (t, k)"
    and rest: "try_fold (process_attestation E rts) (t, k) atts = Inr (s', m')"
    by (auto simp: result_simps)
  from Cons.prems(1) have inv: "ssz_ok E" "chain_ok s" "tallies_ok s m"
    by (simp_all add: attestation_inv_def)
  from process_attestation_inv [OF Cons.prems(1) t] have inv': "attestation_inv E (t, k)"
    and eq: "historical_block_hashes t = historical_block_hashes s" "validators t = validators s"
    by (simp_all add: advances_def)
  show ?case
    using process_attestation_refines [OF inv t] Cons.IH [OF inv' rest]
    by (auto simp: eq intro: finality_run.step)
qed

text \<open>Writing the tallies and reading them back gives the same table.\<close>

lemma nth_chunk_concat:
  "\<forall>p \<in> set m. length (snd p) = n \<Longrightarrow> i < length m \<Longrightarrow>
   take n (drop (i * n) (concat (map snd m))) = snd (m ! i)"
proof (induction m arbitrary: i)
  case (Cons p m)
  then show ?case by (cases i) simp_all
qed simp

lemma stored_tallies_store:
  assumes "tallies_ok s m"
  shows "stored_tallies (s\<lparr> justifications_roots := map fst m,
                            justifications_validators := concat (map snd m) \<rparr>) = m"
proof (rule nth_equalityI)
  fix i
  assume "i < length (stored_tallies (s\<lparr> justifications_roots := map fst m,
                            justifications_validators := concat (map snd m) \<rparr>))"
  then have i: "i < length m" by simp
  then show "stored_tallies (s\<lparr> justifications_roots := map fst m,
                            justifications_validators := concat (map snd m) \<rparr>) ! i = m ! i"
    using nth_chunk_concat [OF tallies_ok_lengths [OF assms] i]
    by (simp add: stored_tallies_def nth_enumerate_eq)
qed simp

definition abs_state :: "lean_state \<Rightarrow> finality" where
  "abs_state s = abs_finality (s, stored_tallies s)"

lemma abs_finality_votes:
  "abs_finality (s\<lparr> justifications_roots := rs, justifications_validators := vs \<rparr>, m) = abs_finality (s, m)"
proof -
  have "justified_at (s\<lparr> justifications_roots := rs, justifications_validators := vs \<rparr>) = justified_at s"
    by (simp add: fun_eq_iff justified_at_def)
  then show ?thesis by (simp add: abs_finality_def)
qed

lemma process_attestations_run:
  assumes "ssz_ok E" and "chain_ok s" and "votes_ok s" and "process_attestations E atts s = Inr s'"
  shows "finality_run (historical_block_hashes s) (tbl_get (build_root_to_slot s))
    (length (validators s)) (map abs_vote atts) (abs_state s) (abs_state s')"
proof -
  obtain s1 m1 where
    fold: "try_fold (process_attestation E (build_root_to_slot s)) (s, stored_tallies s) atts = Inr (s1, m1)"
    and inv: "attestation_inv E (s1, m1)"
    and s': "s' = s1\<lparr> justifications_roots := map fst m1,
                   justifications_validators := concat (map snd m1) \<rparr>"
    using process_attestations_Inr [OF assms] by metis
  have "attestation_inv E (s, stored_tallies s)"
    using assms stored_tallies_ok [OF assms(3)] by (simp add: attestation_inv_def)
  from attestation_loop_refines [OF this fold] show ?thesis
    using inv by (simp add: abs_state_def s' stored_tallies_store abs_finality_votes attestation_inv_def)
qed

lemma finality_step_det:
  "finality_step chain slot_of n v f g \<Longrightarrow> finality_step chain slot_of n v f h \<Longrightarrow> g = h"
  by (auto elim!: finality_step.cases)

end
