(* ===== verification/Lean_Greedy.thy ===== *)
theory Lean_Greedy
  imports Lean_Abstract "HOL-Library.Multiset"
begin

text \<open>
  The greedy proof selection of block building (\<open>extend_proofs_greedily\<close>): it terminates, picks
  proofs of the pool at most once, every pick adds a validator, and at the end every validator of
  the pool is covered.
\<close>

lemma new_coverage_zero:
  "new_coverage covered p = 0 \<longleftrightarrow> set (to_validator_indices p) \<subseteq> covered"
  by (auto simp: new_coverage_def to_validator_indices_def filter_empty_conv)

lemma best_proof_from_max:
  assumes "best_proof_from covered i ps best = Some (bi, bc)"
    and "\<And>b c. best = Some (b, c) \<Longrightarrow> P b c"
    and "\<And>j. j < length ps \<Longrightarrow> P (i + j) (new_coverage covered (ps ! j))"
  shows "P bi bc \<and> (\<forall>p \<in> set ps. new_coverage covered p \<le> bc) \<and>
    (\<forall>b c. best = Some (b, c) \<longrightarrow> c \<le> bc)"
  using assms
proof (induction covered i ps best rule: best_proof_from.induct)
  case (2 covered i p ps best)
  let ?c = "new_coverage covered p"
  let ?best = "case best of None \<Rightarrow> Some (i, ?c)
    | Some (b, c) \<Rightarrow> if c \<le> ?c then Some (i, ?c) else Some (b, c)"
  have run: "best_proof_from covered (Suc i) ps ?best = Some (bi, bc)"
    using 2(2) by (simp add: Let_def)
  have P0: "P i ?c" using 2(4) [of 0] by simp
  have "P bi bc \<and> (\<forall>q \<in> set ps. new_coverage covered q \<le> bc) \<and>
      (\<forall>b c. ?best = Some (b, c) \<longrightarrow> c \<le> bc)"
  proof (rule 2(1) [OF refl run])
    show "P b c" if "?best = Some (b, c)" for b c
      using that P0 2(3) by (auto split: option.splits if_splits)
    show "P (Suc i + j) (new_coverage covered (ps ! j))" if "j < length ps" for j
      using 2(4) [of "Suc j"] that by simp
  qed
  then show ?case by (fastforce split: option.splits if_splits)
qed auto

lemma best_proof_Some:
  assumes "best_proof covered ps = Some (bi, bc)"
  shows "bi < length ps" "bc = new_coverage covered (ps ! bi)"
    "\<And>p. p \<in> set ps \<Longrightarrow> new_coverage covered p \<le> bc"
proof -
  have "(bi < length ps \<and> bc = new_coverage covered (ps ! bi)) \<and>
      (\<forall>p \<in> set ps. new_coverage covered p \<le> bc)"
    using best_proof_from_max [OF assms [unfolded best_proof_def],
      of "\<lambda>b c. b < length ps \<and> c = new_coverage covered (ps ! b)"]
    by fastforce
  then show "bi < length ps" "bc = new_coverage covered (ps ! bi)"
    "\<And>p. p \<in> set ps \<Longrightarrow> new_coverage covered p \<le> bc"
    by blast+
qed

lemma best_proof_from_None: "best_proof_from covered i ps best = None \<longleftrightarrow> ps = [] \<and> best = None"
  by (induction covered i ps best rule: best_proof_from.induct) (auto simp: Let_def split: option.splits)

lemma best_proof_None: "best_proof covered ps = None \<longleftrightarrow> ps = []"
  by (simp add: best_proof_def best_proof_from_None)

lemma mset_swap_remove:
  assumes "i < length xs"
  shows "add_mset (xs ! i) (mset (swap_remove xs i)) = mset xs"
proof -
  from assms obtain ys y where xs: "xs = ys @ [y]" by (metis list.size(3) not_less0 rev_exhaust)
  show ?thesis
  proof (cases "i = length ys")
    case True
    then show ?thesis by (simp add: xs swap_remove_def)
  next
    case False
    then have i: "i < length ys" using assms xs by simp
    have "add_mset (ys ! i) (mset (ys[i := y])) = add_mset y (mset ys)"
      using i by (simp add: mset_update)
    then show ?thesis using i False by (simp add: xs swap_remove_def nth_append)
  qed
qed

text \<open>The validators a list of proofs covers, and a selection each member of which adds one.\<close>

definition coverage :: "single_message_aggregate list \<Rightarrow> u64 set" where
  "coverage ps = (\<Union>p \<in> set ps. set (to_validator_indices p))"

fun adds_coverage :: "u64 set \<Rightarrow> single_message_aggregate list \<Rightarrow> bool" where
  "adds_coverage covered [] = True"
| "adds_coverage covered (p # ps) \<longleftrightarrow>
     \<not> set (to_validator_indices p) \<subseteq> covered \<and> adds_coverage (covered \<union> set (to_validator_indices p)) ps"

lemma coverage_simps [simp]:
  "coverage [] = {}" "coverage (p # ps) = set (to_validator_indices p) \<union> coverage ps"
  by (auto simp: coverage_def)

lemma coverage_mset: "mset ps \<subseteq># mset qs \<Longrightarrow> coverage ps \<subseteq> coverage qs"
  using set_mset_mono [of "mset ps" "mset qs"] by (auto simp: coverage_def)

lemma greedy_loop_correct:
  "\<exists>picked. greedy_loop remaining selected covered = (selected @ picked, covered \<union> coverage remaining) \<and>
     mset picked \<subseteq># mset remaining \<and> adds_coverage covered picked \<and>
     covered \<union> coverage picked = covered \<union> coverage remaining"
proof (induction remaining selected covered rule: greedy_loop.induct)
  case (1 remaining selected covered)
  show ?case
  proof (cases "best_proof covered remaining")
    case None
    then have "remaining = []" by (simp add: best_proof_None)
    then show ?thesis using None by (simp add: greedy_loop.simps)
  next
    case (Some bp)
    obtain bi bc where bp: "bp = (bi, bc)" by force
    note best = best_proof_Some [OF Some [unfolded bp]]
    let ?p = "remaining ! bi" and ?rest = "swap_remove remaining bi"
    show ?thesis
    proof (cases "bc = 0")
      case True
      then have "coverage remaining \<subseteq> covered"
        using best(3) by (auto simp: coverage_def new_coverage_zero)
      moreover have "greedy_loop remaining selected covered = (selected, covered)"
        using Some bp True by (simp add: greedy_loop.simps [of remaining])
      ultimately show ?thesis
        by (intro exI [of _ "[]"]) auto
    next
      case False
      let ?cov = "covered \<union> set (to_validator_indices ?p)"
      have run: "greedy_loop remaining selected covered = greedy_loop ?rest (selected @ [?p]) ?cov"
        using Some bp False by (simp add: greedy_loop.simps [of remaining] Let_def)
      from 1 [OF Some bp [symmetric] False refl] obtain picked where
        IH: "greedy_loop ?rest (selected @ [?p]) ?cov = ((selected @ [?p]) @ picked, ?cov \<union> coverage ?rest)"
        "mset picked \<subseteq># mset ?rest" "adds_coverage ?cov picked"
        "?cov \<union> coverage picked = ?cov \<union> coverage ?rest"
        by blast
      have ms: "mset remaining = add_mset ?p (mset ?rest)"
        using mset_swap_remove [OF best(1)] by simp
      have "set remaining = insert ?p (set ?rest)"
        using arg_cong [OF ms, of set_mset] by simp
      then have cov: "coverage remaining = set (to_validator_indices ?p) \<union> coverage ?rest"
        by (simp add: coverage_def)
      have new: "\<not> set (to_validator_indices ?p) \<subseteq> covered"
        using False best(2) by (simp add: new_coverage_zero)
      show ?thesis
        using IH ms new by (intro exI [of _ "?p # picked"]) (auto simp: run cov)
    qed
  qed
qed

lemma adds_coverage_length:
  assumes "finite (coverage picked)" and "finite covered" and "adds_coverage covered picked"
  shows "length picked + card covered \<le> card (covered \<union> coverage picked)"
  using assms
proof (induction picked arbitrary: covered)
  case (Cons p ps)
  let ?cov = "covered \<union> set (to_validator_indices p)"
  have "length ps + card ?cov \<le> card (?cov \<union> coverage ps)"
    using Cons by (intro Cons.IH) auto
  moreover have "card covered < card ?cov"
    using Cons.prems by (intro psubset_card_mono) auto
  ultimately show ?case by (simp add: Un_assoc)
qed simp


lemma finite_coverage [simp]: "finite (coverage ps)"
  by (simp add: coverage_def)

end
