(* ===== verification/Lean_Example.thy ===== *)
theory Lean_Example
  imports Lean_Transition
begin

text \<open>
  A concrete instance of the third-party code and a short chain on it, used to evaluate the
  definitions: three validators, one block per slot, the second block justifies slot one and the
  third one finalizes it.
\<close>

definition demo_env :: lean_env where
  "demo_env =
     \<lparr> hash_attestation_data = (\<lambda>d. 2000 + ucast (ad_slot d) + cp_root (ad_head d)),
       hash_block_body = (\<lambda>b. 3000 + of_nat (length (attestations b))),
       hash_block_header = (\<lambda>h. 1000 + ucast (hdr_slot h)),
       hash_block = (\<lambda>b. 1000 + ucast (blk_slot b)),
       hash_state = (\<lambda>s. 5000 + ucast (st_slot s)),
       bl_with_capacity = (\<lambda>cap n. if n \<le> cap then Some (replicate n False) else None),
       bl_get = (\<lambda>b i. if i < length b then Some (b ! i) else None),
       bl_set = (\<lambda>b i v. if i < length b then Some (b[i := v]) else None),
       bl_union = (\<lambda>a b. map (\<lambda>i. (i < length a \<and> a ! i) \<or> (i < length b \<and> b ! i))
                           [0..<max (length a) (length b)]),
       vl_fits = (\<lambda>cap n. n \<le> cap) \<rparr>"

lemma demo_env_ok: "ssz_ok demo_env"
  by (simp add: ssz_ok_def demo_env_def)

lemma demo_env_simps:
  "hash_attestation_data demo_env d = 2000 + ucast (ad_slot d) + cp_root (ad_head d)"
  "hash_block_body demo_env bd = 3000 + of_nat (length (attestations bd))"
  "hash_block_header demo_env h = 1000 + ucast (hdr_slot h)"
  "hash_block demo_env b = 1000 + ucast (blk_slot b)"
  "hash_state demo_env s = 5000 + ucast (st_slot s)"
  "bl_with_capacity demo_env cap n = (if n \<le> cap then Some (replicate n False) else None)"
  "bl_get demo_env bs i = (if i < length bs then Some (bs ! i) else None)"
  "bl_set demo_env bs i v = (if i < length bs then Some (bs[i := v]) else None)"
  "bl_union demo_env bs cs = map (\<lambda>i. (i < length bs \<and> bs ! i) \<or> (i < length cs \<and> cs ! i))
                           [0..<max (length bs) (length cs)]"
  "vl_fits demo_env cap n \<longleftrightarrow> n \<le> cap"
  by (simp_all add: demo_env_def)

definition demo_validator :: "u64 \<Rightarrow> validator" where
  "demo_validator i = \<lparr> attestation_public_key = 0, proposal_public_key = 0, val_index = i \<rparr>"

definition demo_cp :: "u64 \<Rightarrow> checkpoint" where
  "demo_cp slot = \<lparr> cp_root = 1000 + ucast slot, cp_slot = slot \<rparr>"

definition demo_att :: "u64 \<Rightarrow> bit_list \<Rightarrow> aggregated_attestation" where
  "demo_att target bits =
     \<lparr> aggregation_bits = bits,
       aa_message = \<lparr> ad_slot = target, ad_head = demo_cp target, ad_target = demo_cp target,
                      ad_source = demo_cp (target - 1) \<rparr> \<rparr>"

definition demo_block :: "u64 \<Rightarrow> aggregated_attestation list \<Rightarrow> block" where
  "demo_block slot atts =
     \<lparr> blk_slot = slot, blk_proposer_index = slot mod 3, blk_parent_root = 1000 + ucast (slot - 1),
       blk_state_root = 5000 + ucast slot, blk_body = \<lparr> attestations = atts \<rparr> \<rparr>"

lemmas demo_defs = demo_validator_def demo_cp_def demo_att_def demo_block_def

lemmas demo_eval = demo_env_simps demo_defs generate_genesis_def
  state_transition_def process_slots_def process_slots_loop_step process_slot_def process_block_def
  process_block_header_def is_proposer_state_def is_proposer_def vl_push_def vl_new_def
  extend_justified_slots_def justified_index_after_def checked_sub_def
  process_attestations_def check_attestation_data_limit_def MAX_ATTESTATIONS_DATA_def
  load_justifications_def store_justifications_def push_tally_def copy_votes_def slice_get_def
  build_root_to_slot_def process_attestation_def skip_attestation_def slot_is_justified_def
  attestation_data_matches_chain_def tally_votes_def add_votes_def justify_target_def
  finalize_source_def shift_justified_slots_def is_target_next_valid_justifiable_slot_def
  att_source_def att_target_def att_head_def num_set_bits_def u64_range_def is_justifiable_after_iff justifiable_distance_def enumerate_eq_zip upt_rec tbl_retain_def tbl_remove_def

definition demo_state :: "u64 \<Rightarrow> u64 \<Rightarrow> u64 \<Rightarrow> bit_list \<Rightarrow> nat \<Rightarrow> lean_state" where
  "demo_state slot justified finalized window n =
     \<lparr> st_config = \<lparr> genesis_time = 10 \<rparr>,
       st_slot = slot,
       latest_block_header =
         \<lparr> hdr_slot = slot, hdr_proposer_index = slot mod 3, hdr_parent_root = 1000 + ucast (slot - 1),
           hdr_state_root = 0, hdr_body_root = 3000 + of_nat n \<rparr>,
       latest_justified = demo_cp justified,
       latest_finalized = demo_cp finalized,
       historical_block_hashes = map (\<lambda>i. 1000 + of_nat i) [0..<unat slot],
       justified_slots = window,
       validators = map demo_validator [0, 1, 2],
       justifications_roots = [],
       justifications_validators = [] \<rparr>"

definition demo_genesis :: lean_state where
  "demo_genesis = (demo_state 0 0 0 [] 0)\<lparr>
     latest_block_header := \<lparr> hdr_slot = 0, hdr_proposer_index = 0, hdr_parent_root = 0,
       hdr_state_root = 0, hdr_body_root = 3000 \<rparr>,
     latest_justified := \<lparr> cp_root = 0, cp_slot = 0 \<rparr>,
     latest_finalized := \<lparr> cp_root = 0, cp_slot = 0 \<rparr> \<rparr>"

definition demo_state1 :: lean_state where "demo_state1 = demo_state 1 0 0 [] 0"
definition demo_state2 :: lean_state where "demo_state2 = demo_state 2 1 0 [True] 1"
definition demo_state3 :: lean_state where "demo_state3 = demo_state 3 2 1 [True] 1"

text \<open>The second state after the header of the third block.\<close>

definition demo_header_state :: lean_state where
  "demo_header_state = demo_state 3 1 0 [True, False] 1"

lemma demo_genesis_eq:
  "generate_genesis demo_env 10 (Some (map demo_validator [0, 1, 2])) = Inr demo_genesis"
  by (simp add: demo_genesis_def demo_state_def generate_genesis_def vl_new_def demo_env_simps)

lemma demo_block1: "state_transition demo_env (demo_block 1 []) True demo_genesis = Inr demo_state1"
  by (simp add: demo_eval demo_genesis_def demo_state1_def demo_state_def Let_def)

lemma demo_block2:
  "state_transition demo_env (demo_block 2 [demo_att 1 [True, True, False]]) True demo_state1 = Inr demo_state2"
  by (simp add: demo_eval demo_state1_def demo_state2_def demo_state_def Let_def)

lemma demo_block3:
  "state_transition demo_env (demo_block 3 [demo_att 2 [True, False, True]]) True demo_state2 = Inr demo_state3"
  by (simp add: demo_eval demo_state3_def demo_state2_def demo_state_def Let_def)
    (simp add: word_le_nat_alt)

lemma demo_chain:
  "chain_state demo_env demo_genesis" "chain_state demo_env demo_state1"
  "chain_state demo_env demo_state2" "chain_state demo_env demo_state3"
proof -
  show g: "chain_state demo_env demo_genesis"
    using demo_genesis_eq by (rule chain_state.genesis)
  show s1: "chain_state demo_env demo_state1"
    using g demo_block1 by (rule chain_state.block)
  show s2: "chain_state demo_env demo_state2"
    using s1 demo_block2 by (rule chain_state.block)
  show "chain_state demo_env demo_state3"
    using s2 demo_block3 by (rule chain_state.block)
qed

end
