(* ===== verification/Lean_State_Theorems.thy ===== *)
theory Lean_State_Theorems
  imports Lean_Greedy Lean_Example
begin

text \<open>
  The correctness properties of the Lean state transition, each with a run on the concrete chain
  of \<open>Lean_Example\<close> where it has hypotheses.
\<close>

section \<open>Totality of an attestation\<close>

lemma slot_is_justified_total:
  assumes "ssz_ok E" and "chain_ok s" and "slot < hdr_slot (latest_block_header s)"
  shows "slot_is_justified E s slot = Inr (justified_at s slot)"
proof (cases "slot \<le> cp_slot (latest_finalized s)")
  case True
  then show ?thesis by (simp add: slot_is_justified_def justified_index_after_def justified_at_def)
next
  case False
  then obtain i where i: "justified_index_after slot (cp_slot (latest_finalized s)) = Some i"
    and u: "unat i = unat slot - unat (cp_slot (latest_finalized s)) - 1"
    by (metis justified_index_after_unat not_le)
  have "unat i < length (justified_slots s)"
    using assms(2,3) False by (simp add: u chain_ok_def word_less_nat_alt word_le_nat_alt)
  with assms(1) i u False show ?thesis
    by (simp add: slot_is_justified_def ssz_get justified_at_def Let_def)
qed

lemma slot_is_justified_beyond:
  assumes "ssz_ok E" and "chain_ok s" and "hdr_slot (latest_block_header s) \<le> slot"
  shows "slot_is_justified E s slot = Inl JustifiedSlotOutOfBounds"
proof -
  have "unat (cp_slot (latest_finalized s)) < unat (hdr_slot (latest_block_header s))"
    using assms(2) by (simp add: chain_ok_def on_chain_def)
  with assms(3) have lt: "cp_slot (latest_finalized s) < slot"
    by (simp add: word_le_nat_alt word_less_nat_alt)
  then obtain i where i: "justified_index_after slot (cp_slot (latest_finalized s)) = Some i"
    and u: "unat i = unat slot - unat (cp_slot (latest_finalized s)) - 1"
    by (metis justified_index_after_unat)
  have "length (justified_slots s) \<le> unat i"
    using assms(2,3) by (simp add: u chain_ok_def word_le_nat_alt)
  with assms(1) i show ?thesis
    by (simp add: slot_is_justified_def ssz_get)
qed

lemma skip_attestation_total:
  assumes "ssz_ok E" and "chain_ok s"
    and "cp_slot (att_source a) < hdr_slot (latest_block_header s)"
    and "cp_slot (att_target a) < hdr_slot (latest_block_header s)"
  shows "\<exists>b. skip_attestation E s a = Inr b"
  using slot_is_justified_total [OF assms(1,2,3)] slot_is_justified_total [OF assms(1,2,4)]
  by (auto simp: skip_attestation_def)

lemma add_votes_total:
  assumes E: "ssz_ok E" and "\<forall>i < length bits. bits ! i \<longrightarrow> k + i < length votes"
  shows "\<exists>votes'. try_fold (\<lambda>v (validator_id, signed).
           if signed \<and> \<not> (case bl_get E v validator_id of Some b \<Rightarrow> b | None \<Rightarrow> False)
           then ok_or (bl_set E v validator_id True) ValidatorBitOutOfBounds
           else Inr v) votes (List.enumerate k bits) = Inr votes'"
  using assms(2)
proof (induction bits arbitrary: k votes)
  case (Cons b bits)
  have tl: "\<forall>i < length bits. bits ! i \<longrightarrow> Suc k + i < length v" if "length v = length votes" for v
    using Cons.prems that by fastforce
  have hd: "b \<Longrightarrow> k < length votes" using Cons.prems by fastforce
  show ?case
  proof (cases "b \<and> \<not> votes ! k")
    case True
    then show ?thesis
      using E hd Cons.IH [OF tl, of "votes[k := True]"] by (simp add: ssz_get ssz_set)
  next
    case False
    then show ?thesis
      using E hd Cons.IH [OF tl, of votes] by (auto simp: ssz_get ssz_set)
  qed
qed simp

lemma tally_votes_total:
  assumes E: "ssz_ok E" and chain: "chain_ok s" and ok: "tallies_ok s m"
    and bits: "\<forall>i \<in> set (bits_indices (aggregation_bits a)). i < length (validators s)"
  shows "\<exists>r. tally_votes E s a m = Inr r"
proof -
  let ?old = "case tbl_get m (cp_root (att_target a)) of Some v \<Rightarrow> v
    | None \<Rightarrow> replicate (length (validators s)) False"
  have "length ?old = length (validators s)"
    using ok by (auto simp: tallies_ok_def split: option.splits)
  then obtain v where "add_votes E (aggregation_bits a) ?old = Inr v"
    using add_votes_total [OF E, of "aggregation_bits a" 0 ?old] bits
    by (auto simp: add_votes_def set_bits_indices)
  moreover have "length (validators s) \<le> JUSTIFICATION_VALIDATORS_LIMIT"
    using chain unfolding chain_ok_def by linarith
  ultimately show ?thesis
    by (simp add: tally_votes_def ssz_with_capacity [OF E] Let_def cong: option.case_cong)
qed

lemma process_attestation_runs:
  assumes E: "ssz_ok E" and chain: "chain_ok s" and ok: "tallies_ok s m"
    and src: "cp_slot (att_source a) < hdr_slot (latest_block_header s)"
    and tgt: "cp_slot (att_target a) < hdr_slot (latest_block_header s)"
    and bits: "\<forall>i \<in> set (bits_indices (aggregation_bits a)). i < length (validators s)"
  shows "\<exists>r. process_attestation E rts (s, m) a = Inr r"
proof -
  obtain sk where sk: "skip_attestation E s a = Inr sk"
    using skip_attestation_total [OF E chain src tgt] by blast
  obtain votes m1 where tv: "tally_votes E s a m = Inr (votes, m1)"
    using tally_votes_total [OF E chain ok bits] by force
  show ?thesis
  proof (cases sk)
    case True
    with sk show ?thesis by (simp add: process_attestation_def)
  next
    case False
    then have el: "eligible s a" using skip_attestation_Inr [OF E sk] by simp
    let ?s2 = "with_target_justified a s"
    have "\<exists>r. finalize_source E rts a ?s2 (tbl_remove (cp_root (att_target a)) m1) = Inr r"
      if "is_target_next_valid_justifiable_slot a ?s2"
      using that E chain_ok_with_target_justified [OF chain el] eligible_on_chain [OF el]
      by (subst finalize_source_Inr) (auto simp: is_target_next_valid_justifiable_slot_def)
    with False sk tv show ?thesis
      by (auto simp: process_attestation_def justify_target_Inr [OF E chain el])
  qed
qed


section \<open>Properties\<close>

text \<open>C2. Every state reachable from a genesis state by accepted blocks is well formed: the block
  hashes cover exactly the slots before the last block, the justified and the finalized checkpoint
  are blocks of that chain with the finalized one not after the justified one, the justified-slots
  window covers exactly the slots between the finalized slot and the last block, and the flattened
  tallies have one vote bit per validator and sorted non-zero roots.\<close>

theorem reachable_state_wf:
  assumes "ssz_ok E" and "chain_state E s"
  shows "state_ok s"
  using assms by (rule chain_state_ok)

theorem reachable_state_wf_witness:
  "chain_state demo_env demo_state3 \<and> state_ok demo_state3"
  using demo_chain(4) reachable_state_wf [OF demo_env_ok demo_chain(4)] by simp

text \<open>C7. A successful state transition from a well-formed state keeps the configuration and the
  validators, only appends to the block hashes, never moves the justified or the finalized slot
  backwards, and never revokes the justification of a slot.\<close>

theorem state_transition_monotone:
  assumes "ssz_ok E" and "state_ok s" and "state_transition E b valid s = Inr s'"
  shows "st_config s' = st_config s \<and> validators s' = validators s \<and>
    (\<exists>hs. historical_block_hashes s' = historical_block_hashes s @ hs) \<and>
    cp_slot (latest_justified s) \<le> cp_slot (latest_justified s') \<and>
    cp_slot (latest_finalized s) \<le> cp_slot (latest_finalized s') \<and>
    cp_slot (latest_finalized s') \<le> cp_slot (latest_justified s') \<and>
    (\<forall>slot. justified_at s slot \<longrightarrow> justified_at s' slot)"
  using state_transition_ok(1,3) [OF assms] by (auto simp: extends_def chain_ok_def)

theorem state_transition_monotone_witness:
  "cp_slot (latest_finalized demo_state2) < cp_slot (latest_finalized demo_state3) \<and>
   justified_at demo_state2 1 \<and> justified_at demo_state3 1"
  using state_transition_monotone [OF demo_env_ok chain_state_ok [OF demo_env_ok demo_chain(3)] demo_block3]
  by (simp add: demo_state2_def demo_state3_def demo_state_def demo_cp_def justified_at_def)

text \<open>C3. The attestations of a block refine the abstract finality machine: seen through sets of
  justified slots and of voters, processing the list is one run of that machine, one step per
  attestation, on the chain of the state.\<close>

theorem process_attestations_refines:
  assumes "ssz_ok E" and "chain_ok s" and "votes_ok s" and "process_attestations E atts s = Inr s'"
  shows "finality_run (historical_block_hashes s) (tbl_get (build_root_to_slot s))
    (length (validators s)) (map abs_vote atts) (abs_state s) (abs_state s')"
  using assms by (rule process_attestations_run)

lemma demo_header_ok: "chain_ok demo_header_state" "votes_ok demo_header_state"
  by (simp_all add: demo_header_state_def demo_state_def chain_ok_def votes_ok_def on_chain_def
    demo_cp_def upt_rec)

lemma demo_header_validators: "length (validators demo_header_state) = 3"
  by (simp add: demo_header_state_def demo_state_def)

lemma demo_header_run:
  "process_attestations demo_env [demo_att 2 [True, False, True]] demo_header_state = Inr demo_state3"
  by (simp add: demo_eval demo_header_state_def demo_state3_def demo_state_def Let_def)
    (simp add: word_le_nat_alt)

theorem process_attestations_refines_witness:
  "finality_run (historical_block_hashes demo_header_state)
     (tbl_get (build_root_to_slot demo_header_state)) 3 [abs_vote (demo_att 2 [True, False, True])]
     (abs_state demo_header_state) (abs_state demo_state3)"
  using process_attestations_refines [OF demo_env_ok demo_header_ok demo_header_run]
  by (simp add: demo_header_validators)

text \<open>C5. Two thirds of the validators are needed to move a checkpoint: an attestation that changes
  the justification or finality of a well-formed state is one the rules admit, and the validators
  that voted for its target, now and in earlier attestations, number at least two thirds of the
  registry.\<close>

theorem checkpoint_needs_quorum:
  assumes "ssz_ok E" and "chain_ok s" and "tallies_ok s m"
    and "process_attestation E rts (s, m) a = Inr (s', m')" and "s' \<noteq> s"
  shows "eligible s a \<and>
    2 * length (validators s) \<le> 3 * card (abs_votes m (cp_root (att_target a)) \<union>
                                           set (bits_indices (aggregation_bits a)))"
  using assms(1-4)
proof (cases rule: process_attestation_cases)
  case (justify votes m1)
  then show ?thesis
    using tally_votes_ballots [OF assms(1) justify(2) assms(3)] by (simp add: quorum_card ballots_def)
next
  case (finalize votes m1)
  then show ?thesis
    using tally_votes_ballots [OF assms(1) finalize(2) assms(3)] by (simp add: quorum_card ballots_def)
qed (use assms(5) in auto)

lemma demo_step:
  "process_attestation demo_env (build_root_to_slot demo_header_state) (demo_header_state, [])
     (demo_att 2 [True, False, True]) = Inr (demo_state3, [])"
  by (simp add: demo_eval demo_header_state_def demo_state3_def demo_state_def Let_def)
    (simp add: word_le_nat_alt)

lemma demo_tallies_ok: "tallies_ok s []"
  by (simp add: tallies_ok_def)

lemma demo_step_changes: "latest_finalized demo_state3 \<noteq> latest_finalized demo_header_state"
    "demo_state3 \<noteq> demo_header_state"
  by (simp_all add: demo_state3_def demo_header_state_def demo_state_def demo_cp_def)

lemma demo_att_simps:
  "cp_root (att_target (demo_att 2 bits)) = 1002" "cp_slot (att_target (demo_att 2 bits)) = 2"
  "aggregation_bits (demo_att 2 bits) = bits"
  by (simp_all add: demo_att_def demo_cp_def att_target_def)

theorem checkpoint_needs_quorum_witness:
  "eligible demo_header_state (demo_att 2 [True, False, True]) \<and>
   6 \<le> 3 * card (abs_votes [] 1002 \<union> set (bits_indices [True, False, True]))"
  using checkpoint_needs_quorum [OF demo_env_ok demo_header_ok(1) demo_tallies_ok demo_step
      demo_step_changes(2)]
  by (simp add: demo_att_simps demo_header_validators)

text \<open>C6. Finality: when an attestation changes the finalized checkpoint, the new one is the source
  of the attestation, it was justified before and lies after the old one, the target is justified
  now, and no slot strictly between source and target was justifiable after the old finalized
  slot.\<close>

theorem finalized_checkpoint_rule:
  assumes "ssz_ok E" and "chain_ok s" and "tallies_ok s m"
    and "process_attestation E rts (s, m) a = Inr (s', m')"
    and "latest_finalized s' \<noteq> latest_finalized s"
  shows "latest_finalized s' = att_source a \<and> justified_at s (cp_slot (att_source a)) \<and>
    cp_slot (latest_finalized s) < cp_slot (att_source a) \<and>
    justified_at s' (cp_slot (att_target a)) \<and>
    (\<forall>slot. cp_slot (att_source a) < slot \<and> slot < cp_slot (att_target a) \<longrightarrow>
       \<not> is_justifiable_after slot (cp_slot (latest_finalized s)))"
  using assms(1-4)
proof (cases rule: process_attestation_cases)
  case (finalize votes m1)
  let ?t = "with_target_justified a s"
  have fin: "finalizes (abs_finality (s, m)) (abs_vote a)"
    using finalizes_next_valid [OF finalize(1)] finalize(4) by simp
  then have lt: "cp_slot (latest_finalized ?t) < cp_slot (att_source a)"
    by (simp add: finalizes_def)
  moreover have "justified_at s' (cp_slot (att_target a))"
    using justified_at_source [OF lt] justified_at_target [OF assms(2) finalize(1)]
    by (simp add: finalize(5))
  ultimately show ?thesis
    using fin finalize(1) by (auto simp: finalizes_def finalize(5) eligible_def is_justifiable_distance)
qed (use assms(5) in auto)

theorem finalized_checkpoint_rule_witness:
  "latest_finalized demo_state3 = att_source (demo_att 2 [True, False, True]) \<and>
   justified_at demo_state3 2"
  using finalized_checkpoint_rule [OF demo_env_ok demo_header_ok(1) demo_tallies_ok demo_step
      demo_step_changes(1)]
  by (simp add: demo_att_simps)


text \<open>An attestation whose source and target lie before the block and whose set bits are
  validators of the registry is always processed: no check of the loop body fails on a well-formed
  state.\<close>

theorem process_attestation_total:
  assumes "ssz_ok E" and "chain_ok s" and "tallies_ok s m"
    and "cp_slot (att_source a) < hdr_slot (latest_block_header s)"
    and "cp_slot (att_target a) < hdr_slot (latest_block_header s)"
    and "\<forall>i \<in> set (bits_indices (aggregation_bits a)). i < length (validators s)"
  shows "\<exists>r. process_attestation E rts (s, m) a = Inr r"
  using assms by (rule process_attestation_runs)

lemma demo_att_bits: "set (bits_indices [True, False, True]) = {0, 2}"
  by (auto simp: bits_indices_def)

lemma demo_att_source: "cp_slot (att_source (demo_att 2 bits)) = 1"
  by (simp add: demo_att_def demo_cp_def att_source_def)

lemma demo_header_slot: "hdr_slot (latest_block_header demo_header_state) = 3"
  by (simp add: demo_header_state_def demo_state_def)

theorem process_attestation_total_witness:
  "\<exists>r. process_attestation demo_env [] (demo_header_state, []) (demo_att 2 [True, False, True]) = Inr r"
  by (rule process_attestation_total [OF demo_env_ok demo_header_ok(1) demo_tallies_ok])
    (simp_all add: demo_att_simps demo_att_bits demo_att_source demo_header_slot demo_header_validators)

text \<open>An attestation whose source slot is not before the block is not skipped: its justified
  bit is out of the window and the whole block is rejected with that error, whatever else the
  attestation says.\<close>

theorem future_source_rejected:
  assumes "ssz_ok E" and "chain_ok s" and "hdr_slot (latest_block_header s) \<le> cp_slot (att_source a)"
  shows "process_attestation E rts (s, m) a = Inl JustifiedSlotOutOfBounds"
  using slot_is_justified_beyond [OF assms]
  by (simp add: process_attestation_def skip_attestation_def)

theorem future_source_rejected_witness:
  "process_attestation demo_env [] (demo_header_state, []) (demo_att 4 []) = Inl JustifiedSlotOutOfBounds"
  by (rule future_source_rejected [OF demo_env_ok demo_header_ok(1)])
    (simp add: demo_header_slot demo_att_def demo_cp_def att_source_def)

text \<open>The tallies survive the flat encoding: on a well-formed state whose tallies fit the
  limits, a block without attestations loads and stores them back unchanged.\<close>

theorem empty_attestations_identity:
  assumes "ssz_ok E" and "votes_ok s" and "votes_fit s"
    and "0 < length (validators s)" and "length (validators s) \<le> VALIDATOR_REGISTRY_LIMIT"
  shows "process_attestations E [] s = Inr s"
  using load_justifications_eq [OF assms(1,2,4,5)] store_load_id [OF assms(1-3)]
  by (simp add: process_attestations_def check_attestation_data_limit_def)

theorem empty_attestations_identity_witness:
  "process_attestations demo_env []
     (demo_state3\<lparr> justifications_roots := [7, 9],
        justifications_validators := [True, False, False, False, True, False] \<rparr>) =
   Inr (demo_state3\<lparr> justifications_roots := [7, 9],
        justifications_validators := [True, False, False, False, True, False] \<rparr>)"
  by (rule empty_attestations_identity [OF demo_env_ok])
    (simp_all add: votes_ok_def votes_fit_def demo_state3_def demo_state_def)

text \<open>Advancing to a later slot writes the state root into the block header once, if it was
  missing, sets the slot to the target and changes nothing else, however many empty slots lie
  between; a target that is not in the future is refused.\<close>

theorem process_slots_closed_form:
  assumes "hash_state E s \<noteq> 0"
  shows "process_slots E target s =
    (if st_slot s < target
     then Inr (s\<lparr> latest_block_header :=
                   (if hdr_state_root (latest_block_header s) = 0
                    then (latest_block_header s)\<lparr> hdr_state_root := hash_state E s \<rparr>
                    else latest_block_header s),
                 st_slot := target \<rparr>)
     else Inl TargetSlotNotInFuture)"
proof (cases "st_slot s < target")
  case True
  let ?s1 = "process_slot E s"
  have "hdr_state_root (latest_block_header ?s1) \<noteq> 0"
    using assms by (auto simp: process_slot_def Let_def)
  moreover have "st_slot ?s1 \<le> target"
    using True by (simp add: inc_le)
  ultimately have "process_slots_loop E target s = ?s1\<lparr> st_slot := target \<rparr>"
    using True by (simp add: process_slots_loop_step process_slots_loop_cached)
  with True show ?thesis by (auto simp: process_slots_def process_slot_def Let_def)
qed (simp add: process_slots_def)

theorem process_slots_closed_form_witness:
  "process_slots demo_env 9 demo_genesis =
     Inr (demo_genesis\<lparr> latest_block_header :=
            (latest_block_header demo_genesis)\<lparr> hdr_state_root := 5000 \<rparr>, st_slot := 9 \<rparr>)"
  using process_slots_closed_form [of demo_env demo_genesis 9]
  by (simp add: demo_env_simps demo_genesis_def demo_state_def)


text \<open>What an accepted block has passed: its signatures were valid, its slot is after the state
  and after the last block, its proposer is the one whose turn it is, its parent root is the hash
  of the last header as completed by the slot processing, its state root is the hash of the state
  the transition returns, and it carries at most eight distinct attestation data.\<close>

theorem state_transition_accepts:
  assumes "ssz_ok E" and "state_transition E b valid s = Inr s'"
  shows "valid \<and> st_slot s < blk_slot b \<and>
    hdr_slot (latest_block_header (process_slots_loop E (blk_slot b) s)) < blk_slot b \<and>
    blk_slot b mod of_nat (length (validators s)) = blk_proposer_index b \<and>
    blk_parent_root b = hash_block_header E (latest_block_header (process_slots_loop E (blk_slot b) s)) \<and>
    blk_state_root b = hash_state E s' \<and>
    of_nat (length (remdups (map (\<lambda>a. hash_attestation_data E (aa_message a))
      (attestations (blk_body b))))) \<le> (8 :: u64) \<and>
    st_slot (process_slots_loop E (blk_slot b) s) = blk_slot b"
proof -
  let ?s1 = "process_slots_loop E (blk_slot b) s"
  from assms(2) obtain s2 where v: "valid" and lt: "st_slot s < blk_slot b"
    and root: "blk_state_root b = hash_state E s'"
    and hdr: "process_block_header E b ?s1 = Inr s2"
    and atts: "process_attestations E (attestations (blk_body b)) s2 = Inr s'"
    by (auto simp: state_transition_Inr process_slots_Inr process_block_def result_simps)
  have "validators ?s1 = validators s"
    using process_slots_loop_same_chain [of s E "blk_slot b"] by (simp add: same_chain_def)
  moreover have "of_nat (length (remdups (map (\<lambda>a. hash_attestation_data E (aa_message a))
      (attestations (blk_body b))))) \<le> (8 :: u64)"
    using atts by (auto simp: process_attestations_def check_attestation_data_limit_def
      MAX_ATTESTATIONS_DATA_def result_simps)
  ultimately show ?thesis
    using v lt root process_block_header_Inr(1-5) [OF assms(1) hdr] by simp
qed

theorem state_transition_accepts_witness:
  "blk_parent_root (demo_block 3 [demo_att 2 [True, False, True]]) =
   hash_block_header demo_env (latest_block_header (process_slots_loop demo_env 3 demo_state2))"
  using state_transition_accepts [OF demo_env_ok demo_block3] by (simp add: demo_block_def)

text \<open>Greedy proof selection: appended to what was selected come proofs of the pool, each at
  most once and each adding at least one validator not yet covered, so there are no more of them
  than newly covered validators; afterwards the covered validators are the earlier ones together
  with every validator of the whole pool.\<close>

theorem extend_proofs_greedily_correct:
  "\<exists>picked. extend_proofs_greedily (Some pool) selected covered =
       (selected @ picked, covered \<union> coverage pool) \<and>
     mset picked \<subseteq># mset pool \<and> adds_coverage covered picked \<and>
     covered \<union> coverage picked = covered \<union> coverage pool \<and>
     (if finite covered then length picked + card covered \<le> card (covered \<union> coverage pool) else True)"
proof -
  obtain picked where p: "greedy_loop pool selected covered = (selected @ picked, covered \<union> coverage pool)"
    "mset picked \<subseteq># mset pool" "adds_coverage covered picked"
    "covered \<union> coverage picked = covered \<union> coverage pool"
    using greedy_loop_correct by blast
  then show ?thesis
    using adds_coverage_length [of picked covered]
    by (intro exI [of _ picked]) (simp add: extend_proofs_greedily_def)
qed

end
