(* ===== verification/Lean_Crypto.thy ===== *)
theory Lean_Crypto
  imports Lean_Types
begin

text \<open>
  The wrappers of \<open>crypto/post_quantum/src/lean_multisig/type_2.rs\<close> and
  \<open>leansig/{public_key,signature}.rs\<close> around the post-quantum signature libraries. Keys,
  signatures and aggregates of the libraries are opaque types; their functions are the fields of
  \<open>pq_env\<close>. The simulation feature \<open>shadow-integration\<close> is off and the idempotent set-up calls
  have no result.
\<close>

section \<open>The libraries\<close>

text \<open>\<open>'k\<close> and \<open>'x\<close> are the library's public keys and signatures, \<open>'s\<close> and \<open>'m\<close> its single- and
  multi-message aggregates. \<open>binding\<close> is the pair of message and slot an aggregate was made for
  (\<open>info.without_pubkeys\<close>), the keys are \<open>info.pubkeys\<close>.\<close>

type_synonym pq_binding = "b256 \<times> u32"

record ('k, 'x, 's, 'm) pq_env =
  key_from_bytes :: "public_key \<Rightarrow> 'k option"
  sig_from_bytes :: "signature \<Rightarrow> 'x option"
  scheme_verify :: "'k \<Rightarrow> u32 \<Rightarrow> b256 \<Rightarrow> 'x \<Rightarrow> bool"
  single_decompress :: "byte list \<Rightarrow> 'k list \<Rightarrow> 's option"
  single_compress :: "'s \<Rightarrow> byte list"
  single_binding :: "'s \<Rightarrow> pq_binding"
  single_keys :: "'s \<Rightarrow> 'k list"
  single_verify :: "'s \<Rightarrow> bool"
  single_aggregate :: "'s list \<Rightarrow> ('k \<times> 'x) list \<Rightarrow> b256 \<Rightarrow> u32 \<Rightarrow> nat \<Rightarrow> 's option"
  multi_decompress :: "byte list \<Rightarrow> 'k list list \<Rightarrow> 'm option"
  multi_compress :: "'m \<Rightarrow> byte list"
  multi_bindings :: "'m \<Rightarrow> pq_binding list"
  multi_keys :: "'m \<Rightarrow> 'k list list"
  multi_verify :: "'m \<Rightarrow> bool"
  multi_merge :: "'s list \<Rightarrow> nat \<Rightarrow> 'm option"
  multi_split :: "'m \<Rightarrow> nat \<Rightarrow> nat \<Rightarrow> 's option"

datatype pq_error =
    KeyDecode
  | SignatureDecode
  | AggregateDecode
  | AggregationFailed
  | VerificationFailed
  | MergeFailed
  | SplitFailed
  | ComponentCount
  | ComponentMessage
  | ComponentSlot

definition LOG_INV_RATE :: nat where
  "LOG_INV_RATE = 2"

section \<open>Keys and signatures\<close>

definition to_lib_public_key :: "('k, 'x, 's, 'm) pq_env \<Rightarrow> public_key \<Rightarrow> pq_error + 'k" where
  "to_lib_public_key Q pk = ok_or (key_from_bytes Q pk) KeyDecode"

definition to_lib_signature :: "('k, 'x, 's, 'm) pq_env \<Rightarrow> signature \<Rightarrow> pq_error + 'x" where
  "to_lib_signature Q sig = ok_or (sig_from_bytes Q sig) SignatureDecode"

definition signature_verify ::
  "('k, 'x, 's, 'm) pq_env \<Rightarrow> signature \<Rightarrow> public_key \<Rightarrow> u32 \<Rightarrow> b256 \<Rightarrow> pq_error + bool" where
  "signature_verify Q sig pk epoch message =
     and_then (to_lib_public_key Q pk) (\<lambda>k.
     and_then (to_lib_signature Q sig) (\<lambda>x.
     Inr (scheme_verify Q k epoch message x)))"

section \<open>Single-message aggregates\<close>

definition type_1_from_wire ::
  "('k, 'x, 's, 'm) pq_env \<Rightarrow> byte list \<Rightarrow> public_key list \<Rightarrow> pq_error + 's" where
  "type_1_from_wire Q wire public_keys =
     and_then (try_map (to_lib_public_key Q) public_keys) (\<lambda>ks.
     ok_or (single_decompress Q wire ks) AggregateDecode)"

definition type_1_to_wire :: "('k, 'x, 's, 'm) pq_env \<Rightarrow> 's \<Rightarrow> byte list" where
  "type_1_to_wire Q p = single_compress Q p"

definition type_1_aggregate ::
  "('k, 'x, 's, 'm) pq_env \<Rightarrow> 's list \<Rightarrow> (public_key \<times> signature) list \<Rightarrow> b256 \<Rightarrow> u32 \<Rightarrow> pq_error + 's" where
  "type_1_aggregate Q children raw_xmss message slot =
     and_then (try_map (\<lambda>(pk, sig).
                 and_then (to_lib_public_key Q pk) (\<lambda>k.
                 and_then (to_lib_signature Q sig) (\<lambda>x. Inr (k, x)))) raw_xmss) (\<lambda>raw.
     ok_or (single_aggregate Q children raw message slot LOG_INV_RATE) AggregationFailed)"

definition type_1_verify :: "('k, 'x, 's, 'm) pq_env \<Rightarrow> 's \<Rightarrow> pq_error + unit" where
  "type_1_verify Q p = ensure (single_verify Q p) VerificationFailed"

section \<open>Multi-message aggregates\<close>

definition type_2_merge :: "('k, 'x, 's, 'm) pq_env \<Rightarrow> 's list \<Rightarrow> pq_error + 'm" where
  "type_2_merge Q parts = ok_or (multi_merge Q parts LOG_INV_RATE) MergeFailed"

definition type_2_to_wire :: "('k, 'x, 's, 'm) pq_env \<Rightarrow> 'm \<Rightarrow> byte list" where
  "type_2_to_wire Q p = multi_compress Q p"

definition type_2_from_wire ::
  "('k, 'x, 's, 'm) pq_env \<Rightarrow> byte list \<Rightarrow> public_key list list \<Rightarrow> pq_error + 'm" where
  "type_2_from_wire Q wire public_keys_per_component =
     and_then (try_map (try_map (to_lib_public_key Q)) public_keys_per_component) (\<lambda>ks.
     ok_or (multi_decompress Q wire ks) AggregateDecode)"

definition type_2_verify :: "('k, 'x, 's, 'm) pq_env \<Rightarrow> 'm \<Rightarrow> pq_error + unit" where
  "type_2_verify Q p = ensure (multi_verify Q p) VerificationFailed"

definition type_2_split :: "('k, 'x, 's, 'm) pq_env \<Rightarrow> 'm \<Rightarrow> nat \<Rightarrow> pq_error + 's" where
  "type_2_split Q p index = ok_or (multi_split Q p index LOG_INV_RATE) SplitFailed"

definition check_binding :: "pq_binding \<times> pq_binding \<Rightarrow> pq_error + unit" where
  "check_binding = (\<lambda>((message, slot), (expected_message, expected_slot)).
     and_then (ensure (message = expected_message) ComponentMessage) (\<lambda>_.
     ensure (slot = expected_slot) ComponentSlot))"

definition type_2_verify_block ::
  "('k, 'x, 's, 'm) pq_env \<Rightarrow> byte list \<Rightarrow> public_key list list \<Rightarrow> pq_binding list \<Rightarrow> pq_error + unit" where
  "type_2_verify_block Q wire public_keys_per_component expected_bindings =
     and_then (type_2_from_wire Q wire public_keys_per_component) (\<lambda>p.
     and_then (ensure (length (multi_bindings Q p) = length expected_bindings) ComponentCount) (\<lambda>_.
     and_then (try_fold (\<lambda>_. check_binding) () (zip (multi_bindings Q p) expected_bindings)) (\<lambda>_.
     type_2_verify Q p)))"

section \<open>Facts\<close>

lemma check_binding_Inr: "check_binding (b, e) = Inr u \<longleftrightarrow> b = e"
  by (cases b; cases e) (auto simp: check_binding_def result_simps)

lemma check_bindings_Inr:
  "length bs = length es \<Longrightarrow> try_fold (\<lambda>_. check_binding) () (zip bs es) = Inr u \<longleftrightarrow> bs = es"
  by (induction bs es rule: list_induct2) (simp_all add: and_then_eq_Inr check_binding_Inr)

lemma try_map_keys:
  "try_map (to_lib_public_key Q) pks = Inr ks \<longleftrightarrow> map (key_from_bytes Q) pks = map Some ks"
  by (induction pks arbitrary: ks) (auto simp: result_simps to_lib_public_key_def)

text \<open>A block proof is accepted exactly when it decodes against the expected keys to an aggregate
  that carries the expected bindings in order and verifies.\<close>

lemma type_2_verify_block_Inr:
  "type_2_verify_block Q wire pks es = Inr u \<longleftrightarrow>
    (\<exists>p. type_2_from_wire Q wire pks = Inr p \<and> multi_bindings Q p = es \<and> multi_verify Q p)"
proof -
  have "and_then (ensure (length (multi_bindings Q p) = length es) ComponentCount) (\<lambda>_.
     and_then (try_fold (\<lambda>_. check_binding) () (zip (multi_bindings Q p) es)) (\<lambda>_.
     type_2_verify Q p)) = Inr u \<longleftrightarrow> multi_bindings Q p = es \<and> multi_verify Q p" for p
  proof (cases "length (multi_bindings Q p) = length es")
    case True
    then show ?thesis
      by (auto simp: and_then_eq_Inr check_bindings_Inr type_2_verify_def ensure_eq_Inr)
  qed (auto simp: and_then_eq_Inr ensure_eq_Inr)
  then show ?thesis
    by (simp add: type_2_verify_block_def and_then_eq_Inr)
qed

end
