(* ===== verification/Lean_Block.thy ===== *)
theory Lean_Block
  imports Lean_Crypto Lean_Example
begin

text \<open>
  Signed blocks: \<open>SignedBlock::verify_signatures\<close> of \<open>consensus/lean/src/block.rs\<close>, the signing of
  a produced block in \<open>validator/lean/src/service.rs\<close>, and the genesis block of
  \<open>fork_choice/lean/src/genesis.rs\<close>.
\<close>

datatype block_error =
    MissingValidator
  | ProposerOutOfRange
  | BlockProof pq_error
  | ProofCountMismatch
  | SigningFailed
  | ProofTooLarge

section \<open>Verification\<close>

definition attestation_keys :: "validator list \<Rightarrow> aggregated_attestation \<Rightarrow> block_error + public_key list" where
  "attestation_keys vals a =
     try_map (\<lambda>validator_id. ok_or (map_option attestation_public_key (list_get vals validator_id))
                                MissingValidator)
       (bits_indices (aggregation_bits a))"

definition attestation_binding :: "lean_env \<Rightarrow> aggregated_attestation \<Rightarrow> pq_binding" where
  "attestation_binding E a =
     (hash_attestation_data E (aa_message a), ucast (ad_slot (aa_message a)))"

definition verify_signatures ::
  "lean_env \<Rightarrow> ('k, 'x, 's, 'm) pq_env \<Rightarrow> signed_block \<Rightarrow> lean_state \<Rightarrow> bool \<Rightarrow> block_error + bool" where
  "verify_signatures E Q sb parent_state verify =
     (let b = sb_block sb;
          atts = attestations (blk_body b);
          vals = validators parent_state
      in
      and_then (try_map (attestation_keys vals) atts) (\<lambda>keys.
      and_then (ensure (blk_proposer_index b < of_nat (length vals)) ProposerOutOfRange) (\<lambda>_.
      and_then (ok_or (list_get vals (unat (blk_proposer_index b))) MissingValidator) (\<lambda>proposer.
      let public_keys_per_component = keys @ [[proposal_public_key proposer]];
          expected_bindings = map (attestation_binding E) atts @ [(hash_block E b, ucast (blk_slot b))]
      in
      if verify
      then and_then (map_err BlockProof
                       (type_2_verify_block Q (mma_proof (sb_proof sb)) public_keys_per_component
                          expected_bindings)) (\<lambda>_. Inr True)
      else Inr True))))"

section \<open>Signing\<close>

text \<open>The proposal key of the keystore: its public half and the signing function of the private
  one, which fails outside the key's active epochs.\<close>

record keystore =
  ks_proposal_public_key :: public_key
  ks_sign :: "b256 \<Rightarrow> u32 \<Rightarrow> signature option"

abbreviation PROOF_LIMIT :: nat where
  "PROOF_LIMIT \<equiv> 524288"

definition sign_block ::
  "lean_env \<Rightarrow> ('k, 'x, 's, 'm) pq_env \<Rightarrow> keystore \<Rightarrow> block_with_signatures \<Rightarrow> u64 \<Rightarrow>
   block_error + signed_block" where
  "sign_block E Q ks bws slot =
     and_then (ensure (length (bws_signatures bws) = length (bws_attestation_public_keys bws))
                 ProofCountMismatch) (\<lambda>_.
     let block_root = hash_block E (bws_block bws) in
     and_then (ok_or (ks_sign ks block_root (ucast slot)) SigningFailed) (\<lambda>proposer_signature.
     and_then (map_err BlockProof
                 (try_map (\<lambda>(p, public_keys). type_1_from_wire Q (sma_proof p) public_keys)
                    (zip (bws_signatures bws) (bws_attestation_public_keys bws)))) (\<lambda>components.
     and_then (map_err BlockProof
                 (type_1_aggregate Q [] [(ks_proposal_public_key ks, proposer_signature)] block_root
                    (ucast slot))) (\<lambda>proposer_type_1.
     and_then (map_err BlockProof (type_2_merge Q (components @ [proposer_type_1]))) (\<lambda>merged.
     and_then (ok_or (vl_new E PROOF_LIMIT (type_2_to_wire Q merged)) ProofTooLarge) (\<lambda>wire.
     Inr \<lparr> sb_block = bws_block bws, sb_proof = \<lparr> mma_proof = wire \<rparr> \<rparr>))))))"

section \<open>Genesis\<close>

definition genesis_block :: "b256 \<Rightarrow> block" where
  "genesis_block state_root =
     \<lparr> blk_slot = 0, blk_proposer_index = 0, blk_parent_root = 0, blk_state_root = state_root,
       blk_body = \<lparr> attestations = [] \<rparr> \<rparr>"

definition setup_genesis :: "lean_env \<Rightarrow> u64 \<Rightarrow> validator list \<Rightarrow> state_error + (block \<times> lean_state)" where
  "setup_genesis E time vals =
     and_then (generate_genesis E time (Some vals)) (\<lambda>genesis_state.
     Inr (genesis_block (hash_state E genesis_state), genesis_state))"

section \<open>What an accepted proof binds\<close>

lemma attestation_keys_Inr:
  "attestation_keys vals a = Inr ks \<longleftrightarrow>
    (\<forall>i \<in> set (bits_indices (aggregation_bits a)). i < length vals) \<and>
    ks = map (\<lambda>i. attestation_public_key (vals ! i)) (bits_indices (aggregation_bits a))"
proof -
  have "try_map (\<lambda>i. ok_or (map_option attestation_public_key (list_get vals i)) MissingValidator) is = Inr ks
     \<longleftrightarrow> (\<forall>i \<in> set is. i < length vals) \<and> ks = map (\<lambda>i. attestation_public_key (vals ! i)) is" for "is" ks
    by (induction "is" arbitrary: ks) (auto simp: result_simps list_get_def split: if_splits)
  then show ?thesis by (simp add: attestation_keys_def)
qed

lemma verify_signatures_Inr:
  "verify_signatures E Q sb s verify = Inr r \<longleftrightarrow>
    r \<and> (\<exists>keys. try_map (attestation_keys (validators s)) (attestations (blk_body (sb_block sb))) = Inr keys \<and>
      blk_proposer_index (sb_block sb) < of_nat (length (validators s)) \<and>
      unat (blk_proposer_index (sb_block sb)) < length (validators s) \<and>
      (verify \<longrightarrow> type_2_verify_block Q (mma_proof (sb_proof sb))
         (keys @ [[proposal_public_key (validators s ! unat (blk_proposer_index (sb_block sb)))]])
         (map (attestation_binding E) (attestations (blk_body (sb_block sb))) @
           [(hash_block E (sb_block sb), ucast (blk_slot (sb_block sb)))]) = Inr ()))"
  by (cases r; cases verify) (auto simp: verify_signatures_def Let_def result_simps list_get_Some)

text \<open>What the libraries document of the operations a signed block goes through.\<close>

definition pq_ok :: "('k, 'x, 's, 'm) pq_env \<Rightarrow> bool" where
  "pq_ok Q \<longleftrightarrow>
     (\<forall>wire ks p. single_decompress Q wire ks = Some p \<longrightarrow> single_keys Q p = ks) \<and>
     (\<forall>k x message slot rate p. single_aggregate Q [] [(k, x)] message slot rate = Some p \<longrightarrow>
        single_binding Q p = (message, slot) \<and> single_keys Q p = [k] \<and>
        (scheme_verify Q k slot message x \<longrightarrow> single_verify Q p)) \<and>
     (\<forall>ps rate p. multi_merge Q ps rate = Some p \<longrightarrow>
        multi_bindings Q p = map (single_binding Q) ps \<and> multi_keys Q p = map (single_keys Q) ps \<and>
        ((\<forall>q \<in> set ps. single_verify Q q) \<longrightarrow> multi_verify Q p)) \<and>
     (\<forall>p. multi_decompress Q (multi_compress Q p) (multi_keys Q p) = Some p)"

lemma pq_laws:
  assumes "pq_ok Q"
  shows "single_decompress Q wire ks = Some p \<Longrightarrow> single_keys Q p = ks"
    and "single_aggregate Q [] [(k, x)] message slot rate = Some p \<Longrightarrow>
      single_binding Q p = (message, slot) \<and> single_keys Q p = [k]"
    and "single_aggregate Q [] [(k, x)] message slot rate = Some p \<Longrightarrow>
      scheme_verify Q k slot message x \<Longrightarrow> single_verify Q p"
    and "multi_merge Q ps rate = Some q \<Longrightarrow>
      multi_bindings Q q = map (single_binding Q) ps \<and> multi_keys Q q = map (single_keys Q) ps"
    and "multi_merge Q ps rate = Some q \<Longrightarrow> \<forall>p \<in> set ps. single_verify Q p \<Longrightarrow> multi_verify Q q"
    and "multi_decompress Q (multi_compress Q q) (multi_keys Q q) = Some q"
  using assms unfolding pq_ok_def by blast+

text \<open>A produced block matches its proofs: the keys are those of the aggregation bits in the
  registry, and every proof that decodes is a valid aggregate over the data of its attestation.\<close>

definition proofs_match ::
  "lean_env \<Rightarrow> ('k, 'x, 's, 'm) pq_env \<Rightarrow> lean_state \<Rightarrow> block_with_signatures \<Rightarrow> bool" where
  "proofs_match E Q s bws \<longleftrightarrow>
     (let atts = attestations (blk_body (bws_block bws)) in
      try_map (attestation_keys (validators s)) atts = Inr (bws_attestation_public_keys bws) \<and>
      length (bws_signatures bws) = length atts \<and>
      (\<forall>i < length atts. case type_1_from_wire Q (sma_proof (bws_signatures bws ! i))
                                 (bws_attestation_public_keys bws ! i) of
         Inl _ \<Rightarrow> True
       | Inr p \<Rightarrow> single_verify Q p \<and> single_binding Q p = attestation_binding E (atts ! i)))"

lemma try_map_nth:
  "try_map f xs = Inr ys \<Longrightarrow> i < length xs \<Longrightarrow> f (xs ! i) = Inr (ys ! i)"
  by (simp add: try_map_eq_Inr list_all2_conv_all_nth)

lemma try_map_nthI:
  "length ys = length xs \<Longrightarrow> (\<And>i. i < length xs \<Longrightarrow> f (xs ! i) = Inr (ys ! i)) \<Longrightarrow> try_map f xs = Inr ys"
  by (simp add: try_map_eq_Inr list_all2_conv_all_nth)

lemma try_map_append:
  "try_map f xs = Inr ys \<Longrightarrow> try_map f zs = Inr ws \<Longrightarrow> try_map f (xs @ zs) = Inr (ys @ ws)"
  by (induction xs arbitrary: ys) (auto simp: result_simps)

lemma type_1_from_wire_keys:
  assumes "pq_ok Q" and "type_1_from_wire Q wire pks = Inr p"
  shows "try_map (to_lib_public_key Q) pks = Inr (single_keys Q p)"
  using assms(2) pq_laws(1) [OF assms(1)] by (auto simp: type_1_from_wire_def result_simps)

section \<open>Properties\<close>

definition attester_keys :: "lean_state \<Rightarrow> aggregated_attestation \<Rightarrow> public_key list" where
  "attester_keys s a =
     map (\<lambda>i. attestation_public_key (validators s ! i)) (bits_indices (aggregation_bits a))"

lemma attestation_keys_all:
  "try_map (attestation_keys vals) atts = Inr keys \<Longrightarrow>
    (\<forall>a \<in> set atts. \<forall>i \<in> set (bits_indices (aggregation_bits a)). i < length vals) \<and>
    keys = map (\<lambda>a. map (\<lambda>i. attestation_public_key (vals ! i)) (bits_indices (aggregation_bits a))) atts"
  by (induction atts arbitrary: keys) (auto simp: result_simps attestation_keys_Inr)

text \<open>C9. A block whose signatures are verified carries one aggregate that the library accepted and
  that is bound, in this order, to the data root and slot of each attestation under the registered
  keys of exactly the validators of its aggregation bits, and to the root and slot of the block
  under the proposer's key; all those validators exist.\<close>

theorem verify_signatures_sound:
  assumes "verify_signatures E Q sb s True = Inr r"
  shows "\<exists>p. type_2_from_wire Q (mma_proof (sb_proof sb))
        (map (attester_keys s) (attestations (blk_body (sb_block sb))) @
         [[proposal_public_key (validators s ! unat (blk_proposer_index (sb_block sb)))]]) = Inr p \<and>
      multi_verify Q p \<and>
      multi_bindings Q p = map (attestation_binding E) (attestations (blk_body (sb_block sb))) @
        [(hash_block E (sb_block sb), ucast (blk_slot (sb_block sb)))] \<and>
      unat (blk_proposer_index (sb_block sb)) < length (validators s) \<and>
      (\<forall>a \<in> set (attestations (blk_body (sb_block sb))).
         \<forall>i \<in> set (bits_indices (aggregation_bits a)). i < length (validators s))"
proof -
  from assms obtain keys where k: "try_map (attestation_keys (validators s))
      (attestations (blk_body (sb_block sb))) = Inr keys"
    and rest: "unat (blk_proposer_index (sb_block sb)) < length (validators s)"
      "type_2_verify_block Q (mma_proof (sb_proof sb))
         (keys @ [[proposal_public_key (validators s ! unat (blk_proposer_index (sb_block sb)))]])
         (map (attestation_binding E) (attestations (blk_body (sb_block sb))) @
           [(hash_block E (sb_block sb), ucast (blk_slot (sb_block sb)))]) = Inr ()"
    by (auto simp: verify_signatures_Inr)
  from attestation_keys_all [OF k] have keys: "keys = map (attester_keys s) (attestations (blk_body (sb_block sb)))"
    and range: "\<forall>a \<in> set (attestations (blk_body (sb_block sb))).
         \<forall>i \<in> set (bits_indices (aggregation_bits a)). i < length (validators s)"
    by (auto simp: attester_keys_def)
  show ?thesis
    using rest range unfolding type_2_verify_block_Inr keys by blast
qed

lemma components_match:
  assumes "pq_ok Q" and "proofs_match E Q s bws"
    and "try_map (\<lambda>(p, pks). type_1_from_wire Q (sma_proof p) pks)
           (zip (bws_signatures bws) (bws_attestation_public_keys bws)) = Inr cs"
  shows "map (single_binding Q) cs = map (attestation_binding E) (attestations (blk_body (bws_block bws)))"
    and "\<forall>c \<in> set cs. single_verify Q c"
    and "try_map (try_map (to_lib_public_key Q)) (bws_attestation_public_keys bws) = Inr (map (single_keys Q) cs)"
proof -
  let ?atts = "attestations (blk_body (bws_block bws))" and ?pks = "bws_attestation_public_keys bws"
  have keys: "try_map (attestation_keys (validators s)) ?atts = Inr ?pks"
    and len: "length (bws_signatures bws) = length ?atts"
    and ok: "\<forall>i < length ?atts. case type_1_from_wire Q (sma_proof (bws_signatures bws ! i)) (?pks ! i) of
         Inl _ \<Rightarrow> True | Inr p \<Rightarrow> single_verify Q p \<and> single_binding Q p = attestation_binding E (?atts ! i)"
    using assms(2) by (auto simp: proofs_match_def Let_def)
  have lp: "length ?pks = length ?atts" using try_map_length [OF keys] .
  have lc: "length cs = length ?atts" using try_map_length [OF assms(3)] len lp by simp
  have wire: "type_1_from_wire Q (sma_proof (bws_signatures bws ! i)) (?pks ! i) = Inr (cs ! i)"
    if "i < length ?atts" for i
    using try_map_nth [OF assms(3), of i] that len lp by simp
  have each: "single_verify Q (cs ! i) \<and> single_binding Q (cs ! i) = attestation_binding E (?atts ! i)"
    if "i < length ?atts" for i
    using ok wire [OF that] that by fastforce
  show "map (single_binding Q) cs = map (attestation_binding E) ?atts"
    using each lc by (intro nth_equalityI) simp_all
  show "\<forall>c \<in> set cs. single_verify Q c"
    using each lc by (metis in_set_conv_nth)
  show "try_map (try_map (to_lib_public_key Q)) ?pks = Inr (map (single_keys Q) cs)"
    using type_1_from_wire_keys [OF assms(1) wire] lc lp by (simp add: try_map_nthI)
qed

text \<open>C16. A block that its proposer signs is accepted, on these conditions: the aggregation library
  behaves as documented, the produced block matches its proofs (each proof that decodes is a valid
  aggregate and is bound to the message and slot of its own attestation), and the proposer's signature
  is valid under the key the registry has for it. Then the signed block passes the signature
  verification of any node with the same registry. The second condition is not given for free: gossip
  does not check what a stored proof is bound to.\<close>

theorem signed_block_verifies:
  assumes "ssz_ok E" and "pq_ok Q" and "proofs_match E Q s bws"
    and "blk_slot (bws_block bws) = slot"
    and "blk_proposer_index (bws_block bws) < of_nat (length (validators s))"
    and "unat (blk_proposer_index (bws_block bws)) < length (validators s)"
    and "proposal_public_key (validators s ! unat (blk_proposer_index (bws_block bws))) =
      ks_proposal_public_key ks"
    and "ks_sign ks (hash_block E (bws_block bws)) (ucast slot) = Some sig"
    and "key_from_bytes Q (ks_proposal_public_key ks) = Some k" and "sig_from_bytes Q sig = Some x"
    and "scheme_verify Q k (ucast slot) (hash_block E (bws_block bws)) x"
    and "sign_block E Q ks bws slot = Inr sb"
  shows "sb_block sb = bws_block bws \<and> verify_signatures E Q sb s True = Inr True"
proof -
  let ?b = "bws_block bws" and ?atts = "attestations (blk_body (bws_block bws))"
  from assms(12) obtain cs q m where
    cs: "try_map (\<lambda>(p, pks). type_1_from_wire Q (sma_proof p) pks)
           (zip (bws_signatures bws) (bws_attestation_public_keys bws)) = Inr cs"
    and q: "single_aggregate Q [] [(k, x)] (hash_block E ?b) (ucast slot) LOG_INV_RATE = Some q"
    and m: "multi_merge Q (cs @ [q]) LOG_INV_RATE = Some m"
    and sb: "sb = \<lparr> sb_block = ?b, sb_proof = \<lparr> mma_proof = multi_compress Q m \<rparr> \<rparr>"
    using assms(8-10) by (auto simp: sign_block_def Let_def result_simps type_1_aggregate_def
      type_2_merge_def type_2_to_wire_def to_lib_public_key_def to_lib_signature_def
      vl_new_Some [OF assms(1)])
  note c = components_match [OF assms(2,3) cs]
  note ql = pq_laws(2) [OF assms(2) q] pq_laws(3) [OF assms(2) q assms(11)]
  note ml = pq_laws(4) [OF assms(2) m]
  have ver: "multi_verify Q m" using c(2) ql by (intro pq_laws(5) [OF assms(2) m]) auto
  have "type_2_from_wire Q (multi_compress Q m)
      (bws_attestation_public_keys bws @ [[ks_proposal_public_key ks]]) = Inr m"
  proof -
    have "try_map (try_map (to_lib_public_key Q))
        (bws_attestation_public_keys bws @ [[ks_proposal_public_key ks]]) = Inr (multi_keys Q m)"
      using try_map_append [OF c(3), of "[[ks_proposal_public_key ks]]" "[[k]]"] assms(9) ml ql
      by (simp add: to_lib_public_key_def)
    then show ?thesis
      using pq_laws(6) [OF assms(2), of m] by (simp add: type_2_from_wire_def)
  qed
  moreover have "multi_bindings Q m = map (attestation_binding E) ?atts @ [(hash_block E ?b, ucast slot)]"
    using c(1) ml ql by simp
  ultimately have "type_2_verify_block Q (multi_compress Q m)
      (bws_attestation_public_keys bws @ [[ks_proposal_public_key ks]])
      (map (attestation_binding E) ?atts @ [(hash_block E ?b, ucast slot)]) = Inr ()"
    using ver by (simp add: type_2_verify_block_Inr)
  moreover have "try_map (attestation_keys (validators s)) ?atts = Inr (bws_attestation_public_keys bws)"
    using assms(3) by (simp add: proofs_match_def Let_def)
  ultimately show ?thesis
    using assms(4-7) by (simp add: sb verify_signatures_Inr)
qed

section \<open>Evaluation\<close>

text \<open>A concrete library in which the keys of an aggregate determine what it is bound to.\<close>

definition demo_binding :: "public_key list \<Rightarrow> pq_binding" where
  "demo_binding ks = (if length ks = 1 then (1003, 3) else (3004, 2))"

definition demo_pq :: "(public_key, signature, public_key list, public_key list list) pq_env" where
  "demo_pq =
     \<lparr> key_from_bytes = Some, sig_from_bytes = Some, scheme_verify = (\<lambda>_ _ _ _. True),
       single_decompress = (\<lambda>_ ks. Some ks), single_compress = (\<lambda>_. []), single_binding = demo_binding,
       single_keys = (\<lambda>p. p), single_verify = (\<lambda>_. True),
       single_aggregate = (\<lambda>children raw message slot _.
         if children = [] \<and> demo_binding (map fst raw) = (message, slot) then Some (map fst raw) else None),
       multi_decompress = (\<lambda>_ ks. Some ks), multi_compress = (\<lambda>_. []), multi_bindings = map demo_binding,
       multi_keys = (\<lambda>p. p), multi_verify = (\<lambda>_. True), multi_merge = (\<lambda>ps _. Some ps),
       multi_split = (\<lambda>p i _. list_get p i) \<rparr>"

lemma demo_pq_ok: "pq_ok demo_pq"
  by (simp add: pq_ok_def demo_pq_def)

definition demo_produced :: block_with_signatures where
  "demo_produced =
     \<lparr> bws_block = demo_block 3 [demo_att 2 [True, False, True]],
       bws_signatures = [\<lparr> participants = [True, False, True], sma_proof = [] \<rparr>],
       bws_attestation_public_keys = [[0, 0]] \<rparr>"

definition demo_keystore :: keystore where
  "demo_keystore = \<lparr> ks_proposal_public_key = 0, ks_sign = (\<lambda>_ _. Some []) \<rparr>"

definition demo_signed :: signed_block where
  "demo_signed = \<lparr> sb_block = demo_block 3 [demo_att 2 [True, False, True]], sb_proof = \<lparr> mma_proof = [] \<rparr> \<rparr>"

lemmas demo_block_eval = demo_pq_def demo_binding_def demo_produced_def demo_keystore_def demo_signed_def
  demo_env_simps demo_block_def demo_att_def demo_cp_def demo_validator_def demo_state2_def demo_state_def
  bits_indices_def enumerate_eq_zip upt_rec

lemma demo_proofs_match: "proofs_match demo_env demo_pq demo_state2 demo_produced"
  by (simp add: proofs_match_def Let_def attestation_keys_def list_get_def type_1_from_wire_def
    to_lib_public_key_def attestation_binding_def demo_block_eval)

lemma demo_sign: "sign_block demo_env demo_pq demo_keystore demo_produced 3 = Inr demo_signed"
  by (simp add: sign_block_def Let_def type_1_from_wire_def to_lib_public_key_def type_1_aggregate_def
    to_lib_signature_def type_2_merge_def type_2_to_wire_def vl_new_def demo_block_eval)

theorem signed_block_verifies_witness:
  "verify_signatures demo_env demo_pq demo_signed demo_state2 True = Inr True"
proof -
  have "sb_block demo_signed = bws_block demo_produced \<and>
      verify_signatures demo_env demo_pq demo_signed demo_state2 True = Inr True"
    by (rule signed_block_verifies [OF demo_env_ok demo_pq_ok demo_proofs_match _ _ _ _ _ _ _ _ demo_sign,
          where sig = "[]" and k = 0 and x = "[]"])
      (simp_all add: demo_block_eval)
  then show ?thesis ..
qed

lemma demo_verified: "verify_signatures demo_env demo_pq demo_signed demo_state2 True = Inr True"
  by (simp add: verify_signatures_def attestation_keys_def list_get_def type_2_verify_block_def
    type_2_from_wire_def to_lib_public_key_def attestation_binding_def check_binding_def
    type_2_verify_def Let_def demo_block_eval)

theorem verify_signatures_sound_witness:
  "multi_bindings demo_pq [[0, 0], [0]] = [(3004, 2), (1003, 3)] \<and>
   (\<exists>p. multi_verify demo_pq p \<and> multi_bindings demo_pq p =
      map (attestation_binding demo_env) (attestations (blk_body (sb_block demo_signed))) @
        [(hash_block demo_env (sb_block demo_signed), ucast (blk_slot (sb_block demo_signed)))])"
  using verify_signatures_sound [OF demo_verified] by (auto simp: demo_pq_def demo_binding_def)

end
