(* ===== verification/Lean_Storage.thy ===== *)
theory Lean_Storage
  imports Lean_Block
begin

text \<open>
  The database of the Lean node: \<open>storage/src/tables/{table,field}.rs\<close> and the tables of
  \<open>storage/src/tables/lean\<close>. A table is its list of entries in key order; keys are compared by
  their decoded value (\<open>SSZEncoding::compare\<close>). Failures of the disk are not modelled, so the
  operations are total; a field that was never written is an error.
\<close>

section \<open>Errors\<close>

text \<open>The failures of the database and of the fork choice store built on it. \<open>Diverges\<close> stands for
  a walk along parent pointers that never ends.\<close>

datatype store_error =
    FieldNotInitialized
  | Transition state_error
  | SignedBlockInvalid block_error
  | ProofInvalid pq_error
  | AnchorStateMismatch
  | NoBlocks
  | BlockMissing
  | StateMissing
  | NoChildren
  | TooFarFromParent
  | BlockInFuture
  | DuplicateAttestationData
  | UnknownSource
  | UnknownTarget
  | UnknownHead
  | SourceAfterTarget
  | HeadBeforeTarget
  | SourceSlotMismatch
  | TargetSlotMismatch
  | HeadSlotMismatch
  | SourceNotAncestor
  | TargetNotAncestor
  | FinalizedNotAncestor
  | SlotBeforeHead
  | AttestationInFuture
  | NoParticipants
  | ValidatorNotFound
  | SignatureInvalid
  | BitListError
  | ListLimit
  | NotProposer
  | SelectedMissing
  | PanicStore
  | Diverges

section \<open>Fields and tables\<close>

definition field_get :: "'a option \<Rightarrow> store_error + 'a" where
  "field_get f = ok_or f FieldNotInitialized"

definition field_insert :: "'a \<Rightarrow> 'a option \<Rightarrow> 'a option" where
  "field_insert v f = Some v"

definition field_remove :: "'a option \<Rightarrow> 'a option \<times> 'a option" where
  "field_remove f = (f, None)"

definition table_contains_key :: "('k, 'v) table \<Rightarrow> 'k \<Rightarrow> bool" where
  "table_contains_key t k = (tbl_get t k \<noteq> None)"

definition table_remove :: "'k \<Rightarrow> ('k, 'v) table \<Rightarrow> 'v option \<times> ('k, 'v) table" where
  "table_remove k t = (tbl_get t k, tbl_remove k t)"

record child_index_entry =
  ci_slot :: u64
  ci_parent_root :: b256

type_synonym payloads = "(signature_key, single_message_aggregate list) table"

record lean_db =
  db_time :: "u64 option"
  db_head :: "b256 option"
  db_safe_target :: "b256 option"
  db_latest_justified :: "checkpoint option"
  db_latest_finalized :: "checkpoint option"
  db_validator_id :: "u64 option option"
  db_blocks :: "(b256, signed_block) table"
  db_slot_index :: "(u64, b256) table"
  db_state_root_index :: "(b256, b256) table"
  db_children_index :: "(b256, child_index_entry) table"
  db_states :: "(b256, lean_state) table"
  db_known_attestations :: "(u64, signed_attestation) table"
  db_new_payloads :: payloads
  db_known_payloads :: payloads
  db_gossip_signatures :: "(signature_key, signature) table"
  db_attestation_data :: "(b256, attestation_data) table"

definition empty_db :: lean_db where
  "empty_db =
     \<lparr> db_time = None, db_head = None, db_safe_target = None, db_latest_justified = None,
       db_latest_finalized = None, db_validator_id = None, db_blocks = [], db_slot_index = [],
       db_state_root_index = [], db_children_index = [], db_states = [], db_known_attestations = [],
       db_new_payloads = [], db_known_payloads = [], db_gossip_signatures = [],
       db_attestation_data = [] \<rparr>"

section \<open>Slot index\<close>

definition get_oldest_slot :: "(u64, b256) table \<Rightarrow> u64 option" where
  "get_oldest_slot t = (case t of [] \<Rightarrow> None | (slot, _) # _ \<Rightarrow> Some slot)"

definition get_oldest_root :: "(u64, b256) table \<Rightarrow> b256 option" where
  "get_oldest_root t = (case t of [] \<Rightarrow> None | (_, root) # _ \<Rightarrow> Some root)"

definition get_highest_slot :: "(u64, b256) table \<Rightarrow> u64 option" where
  "get_highest_slot t = (if t = [] then None else Some (fst (last t)))"

definition get_highest_root :: "(u64, b256) table \<Rightarrow> b256 option" where
  "get_highest_root t = (if t = [] then None else Some (snd (last t)))"

section \<open>Children index\<close>

text \<open>\<open>entry(k).or_default().push(x)\<close>\<close>

definition tbl_push :: "'k::linorder \<Rightarrow> 'x \<Rightarrow> ('k, 'x list) table \<Rightarrow> ('k, 'x list) table" where
  "tbl_push k x t = tbl_insert k ((case tbl_get t k of None \<Rightarrow> [] | Some xs \<Rightarrow> xs) @ [x]) t"

definition weight_of :: "(b256, u64) table \<Rightarrow> b256 \<Rightarrow> u64" where
  "weight_of weights root = (case tbl_get weights root of None \<Rightarrow> 0 | Some w \<Rightarrow> w)"

definition get_children_map ::
  "u64 \<Rightarrow> (b256, u64) table \<Rightarrow> (b256, child_index_entry) table \<Rightarrow> (b256, b256 list) table" where
  "get_children_map min_score weights t =
     fold (\<lambda>(root, entry) children_map.
             if ci_parent_root entry = 0 then children_map
             else if 0 < min_score \<and> weight_of weights root < min_score then children_map
             else tbl_push (ci_parent_root entry) root children_map) t []"

definition get_index_map :: "(b256, child_index_entry) table \<Rightarrow> (b256, b256 \<times> u64) table" where
  "get_index_map t =
     fold (\<lambda>(root, entry). tbl_insert root (ci_parent_root entry, ci_slot entry)) t []"

definition prune_finalized ::
  "u64 \<Rightarrow> (b256, child_index_entry) table \<Rightarrow> nat \<times> (b256, child_index_entry) table" where
  "prune_finalized finalized_slot t =
     (let stale_roots = map fst (filter (\<lambda>(_, entry). ci_slot entry < finalized_slot) t) in
      if stale_roots = [] then (0, t)
      else (length stale_roots, fold tbl_remove stale_roots t))"

section \<open>Blocks\<close>

definition block_insert_ref :: "lean_env \<Rightarrow> b256 \<Rightarrow> signed_block \<Rightarrow> lean_db \<Rightarrow> lean_db" where
  "block_insert_ref E key sb db =
     (let b = sb_block sb; block_root = hash_block E b in
      db\<lparr> db_slot_index := tbl_insert (blk_slot b) block_root (db_slot_index db),
          db_state_root_index := tbl_insert (blk_state_root b) block_root (db_state_root_index db),
          db_children_index :=
            tbl_insert block_root \<lparr> ci_slot = blk_slot b, ci_parent_root = blk_parent_root b \<rparr>
              (db_children_index db),
          db_blocks := tbl_insert key sb (db_blocks db) \<rparr>)"

definition get_all_blocks :: "u64 \<Rightarrow> (b256, signed_block) table \<Rightarrow> signed_block list" where
  "get_all_blocks min_slot t =
     filter (\<lambda>sb. min_slot \<le> blk_slot (sb_block sb)) (map snd t)"

section \<open>Attestations, payloads and signatures\<close>

definition batch_insert :: "(u64 \<times> signed_attestation) list \<Rightarrow> (u64, signed_attestation) table \<Rightarrow>
  (u64, signed_attestation) table" where
  "batch_insert values t = fold (\<lambda>(k, v). tbl_insert k v) values t"

definition get_all_attestations :: "(u64, signed_attestation) table \<Rightarrow> (u64, signed_attestation) table" where
  "get_all_attestations t = fold (\<lambda>(k, v). tbl_insert k v) t []"

definition payload_iter_keys :: "payloads \<Rightarrow> signature_key list" where
  "payload_iter_keys t = map fst t"

text \<open>\<open>pop_first\<close> until the table is empty.\<close>

fun drain_loop :: "payloads \<Rightarrow> payloads \<Rightarrow> payloads \<times> payloads" where
  "drain_loop [] result = (result, [])"
| "drain_loop ((k, v) # t) result = drain_loop t (tbl_insert k v result)"

definition payload_drain :: "payloads \<Rightarrow> payloads \<times> payloads" where
  "payload_drain t = drain_loop t []"

definition payload_get_all :: "payloads \<Rightarrow> payloads" where
  "payload_get_all t = fold (\<lambda>(k, v). tbl_insert k v) t []"

definition payload_update_all :: "payloads \<Rightarrow> payloads \<Rightarrow> payloads" where
  "payload_update_all updates t = fold (\<lambda>(k, v). tbl_insert k v) updates t"

definition gossip_get_keys :: "(signature_key, signature) table \<Rightarrow> signature_key list" where
  "gossip_get_keys t = map fst t"

definition gossip_clear :: "(signature_key, signature) table \<Rightarrow> (signature_key, signature) table" where
  "gossip_clear t = []"

definition gossip_retain ::
  "(signature_key \<Rightarrow> bool) \<Rightarrow> (signature_key, signature) table \<Rightarrow> (signature_key, signature) table" where
  "gossip_retain f t = tbl_retain (\<lambda>k _. f k) t"

text \<open>\<open>AggregatedPayloadsTable::append_proof\<close>; the list type holds at most 4096 proofs.\<close>

definition append_proof ::
  "lean_env \<Rightarrow> signature_key \<Rightarrow> single_message_aggregate \<Rightarrow> payloads \<Rightarrow> store_error + payloads" where
  "append_proof E key p t =
     and_then (ok_or (vl_push E VALIDATOR_REGISTRY_LIMIT
                        (case tbl_get t key of None \<Rightarrow> [] | Some ps \<Rightarrow> ps) p) ListLimit)
       (\<lambda>ps. Inr (tbl_insert key ps t))"

section \<open>Cached tables\<close>

text \<open>
  Blocks and states sit behind a bounded least-recently-used cache of the crate \<open>lru\<close>. Its
  operations are parameters: \<open>lru_find\<close> looks without touching the order, \<open>lru_get\<close> moves the
  entry to the front, \<open>lru_put\<close> may evict another entry. The cache is absent when none is attached
  or its lock is poisoned.
\<close>

record ('k, 'v, 'c) lru =
  lru_find :: "'c \<Rightarrow> 'k \<Rightarrow> 'v option"
  lru_get :: "'c \<Rightarrow> 'k \<Rightarrow> 'v option \<times> 'c"
  lru_put :: "'c \<Rightarrow> 'k \<Rightarrow> 'v \<Rightarrow> 'c"
  lru_pop :: "'c \<Rightarrow> 'k \<Rightarrow> 'c"

definition lru_ok :: "('k, 'v, 'c) lru \<Rightarrow> bool" where
  "lru_ok L \<longleftrightarrow>
     (\<forall>c k. fst (lru_get L c k) = lru_find L c k \<and> lru_find L (snd (lru_get L c k)) = lru_find L c) \<and>
     (\<forall>c k v k'. lru_find L (lru_put L c k v) k' \<in> (if k' = k then {Some v} else {None, lru_find L c k'})) \<and>
     (\<forall>c k k'. lru_find L (lru_pop L c k) k' = (if k' = k then None else lru_find L c k'))"

type_synonym ('k, 'v, 'c) cached = "'c option \<times> ('k, 'v) table"

definition cached_get ::
  "('k, 'v, 'c) lru \<Rightarrow> 'k \<Rightarrow> ('k, 'v, 'c) cached \<Rightarrow> 'v option \<times> ('k, 'v, 'c) cached" where
  "cached_get L k = (\<lambda>(cache, t).
     case cache of
       None \<Rightarrow> (tbl_get t k, (None, t))
     | Some c \<Rightarrow>
         (case lru_get L c k of
            (Some v, c') \<Rightarrow> (Some v, (Some c', t))
          | (None, c') \<Rightarrow>
              (case tbl_get t k of
                 None \<Rightarrow> (None, (Some c', t))
               | Some v \<Rightarrow> (Some v, (Some (lru_put L c' k v), t)))))"

definition cached_insert ::
  "('k::linorder, 'v, 'c) lru \<Rightarrow> 'k \<Rightarrow> 'v \<Rightarrow> ('k, 'v, 'c) cached \<Rightarrow> ('k, 'v, 'c) cached" where
  "cached_insert L k v = (\<lambda>(cache, t).
     (map_option (\<lambda>c. lru_put L c k v) cache, tbl_insert k v t))"

definition cached_remove ::
  "('k, 'v, 'c) lru \<Rightarrow> 'k \<Rightarrow> ('k, 'v, 'c) cached \<Rightarrow> 'v option \<times> ('k, 'v, 'c) cached" where
  "cached_remove L k = (\<lambda>(cache, t).
     (tbl_get t k, (map_option (\<lambda>c. lru_pop L c k) cache, tbl_remove k t)))"

text \<open>A cache only holds entries of its table.\<close>

definition coherent :: "('k, 'v, 'c) lru \<Rightarrow> ('k, 'v, 'c) cached \<Rightarrow> bool" where
  "coherent L = (\<lambda>(cache, t).
     \<forall>c. cache = Some c \<longrightarrow> (\<forall>k v. lru_find L c k = Some v \<longrightarrow> tbl_get t k = Some v))"

lemma lru_laws:
  assumes "lru_ok L"
  shows "lru_get L c k = (r, c') \<Longrightarrow> r = lru_find L c k \<and> lru_find L c' = lru_find L c"
    and "lru_find L (lru_put L c k v) k' = Some w \<Longrightarrow> (if k' = k then w = v else lru_find L c k' = Some w)"
    and "lru_find L (lru_pop L c k) k' = (if k' = k then None else lru_find L c k')"
proof -
  show "r = lru_find L c k \<and> lru_find L c' = lru_find L c" if "lru_get L c k = (r, c')"
    using assms that unfolding lru_ok_def by (metis fst_conv snd_conv)
  have "lru_find L (lru_put L c k v) k' \<in> (if k' = k then {Some v} else {None, lru_find L c k'})"
    using assms unfolding lru_ok_def by blast
  then show "lru_find L (lru_put L c k v) k' = Some w \<Longrightarrow> (if k' = k then w = v else lru_find L c k' = Some w)"
    by (auto split: if_splits)
  show "lru_find L (lru_pop L c k) k' = (if k' = k then None else lru_find L c k')"
    using assms unfolding lru_ok_def by blast
qed

lemma cached_get_correct:
  assumes L: "lru_ok L" and co: "coherent L (cache, t)"
  shows "fst (cached_get L k (cache, t)) = tbl_get t k" "snd (snd (cached_get L k (cache, t))) = t"
    "coherent L (snd (cached_get L k (cache, t)))"
proof -
  have "fst (cached_get L k (cache, t)) = tbl_get t k \<and> snd (snd (cached_get L k (cache, t))) = t \<and>
      coherent L (snd (cached_get L k (cache, t)))"
  proof (cases cache)
    case None
    then show ?thesis by (simp add: cached_get_def coherent_def)
  next
    case (Some c)
    obtain r c' where g: "lru_get L c k = (r, c')" by force
    note law = lru_laws(1) [OF L g]
    have co': "lru_find L c' k' = Some v \<Longrightarrow> tbl_get t k' = Some v" for k' v
      using co law by (simp add: coherent_def Some)
    show ?thesis
    proof (cases r)
      case None
      show ?thesis
      proof (cases "tbl_get t k")
        case None
        then show ?thesis using co' g \<open>r = None\<close> by (simp add: cached_get_def Some coherent_def)
      next
        case (Some v)
        have "tbl_get t k' = Some w" if "lru_find L (lru_put L c' k v) k' = Some w" for k' w
          using lru_laws(2) [OF L that] co' Some by (auto split: if_splits)
        then show ?thesis
          using g \<open>r = None\<close> Some \<open>cache = Some c\<close> by (simp add: cached_get_def coherent_def)
      qed
    next
      case (Some v)
      then show ?thesis
        using g law co' \<open>cache = Some c\<close> by (simp add: cached_get_def coherent_def)
    qed
  qed
  then show "fst (cached_get L k (cache, t)) = tbl_get t k" "snd (snd (cached_get L k (cache, t))) = t"
    "coherent L (snd (cached_get L k (cache, t)))"
    by blast+
qed

lemma cached_insert_correct:
  assumes L: "lru_ok L" and co: "coherent L (cache, t)"
  shows "snd (cached_insert L k v (cache, t)) = tbl_insert k v t" "coherent L (cached_insert L k v (cache, t))"
proof -
  show "snd (cached_insert L k v (cache, t)) = tbl_insert k v t"
    by (simp add: cached_insert_def)
  have "tbl_get (tbl_insert k v t) k' = Some w"
    if "cache = Some c" "lru_find L (lru_put L c k v) k' = Some w" for c k' w
    using lru_laws(2) [OF L that(2)] co that(1) by (simp add: coherent_def table_simps split: if_splits)
  then show "coherent L (cached_insert L k v (cache, t))"
    by (auto simp: cached_insert_def coherent_def)
qed

lemma cached_remove_correct:
  assumes L: "lru_ok L" and co: "coherent L (cache, t)"
  shows "cached_remove L k (cache, t) = (tbl_get t k, (fst (snd (cached_remove L k (cache, t))), tbl_remove k t))"
    "coherent L (snd (cached_remove L k (cache, t)))"
proof -
  show "cached_remove L k (cache, t) = (tbl_get t k, (fst (snd (cached_remove L k (cache, t))), tbl_remove k t))"
    by (simp add: cached_remove_def)
  have "tbl_get (tbl_remove k t) k' = Some w"
    if "cache = Some c" "lru_find L (lru_pop L c k) k' = Some w" for c k' w
    using that co by (simp add: lru_laws(3) [OF L] coherent_def table_simps split: if_splits)
  then show "coherent L (snd (cached_remove L k (cache, t)))"
    by (auto simp: cached_remove_def coherent_def)
qed

end
