(* ===== verification/Lean_Storage_Lemmas.thy ===== *)
theory Lean_Storage_Lemmas
  imports Lean_Storage
begin

text \<open>
  What the tables promise to the fork choice store: lookups after every operation, the two maps
  built from the children index, pruning, and that a cache in front of a table is not observable.
\<close>

section \<open>The maps of the children index\<close>

lemma get_index_map_eq:
  assumes "tbl_wf t"
  shows "get_index_map t = map (\<lambda>(root, e). (root, (ci_parent_root e, ci_slot e))) t"
proof -
  let ?m = "map (\<lambda>(root, e). (root, (ci_parent_root e, ci_slot e))) t"
  have "map fst ?m = map fst t" by (simp add: comp_def case_prod_beta')
  with assms have "tbl_wf ?m" by (simp only: tbl_wf_def)
  have "get_index_map t = fold (\<lambda>(k, v). tbl_insert k v) ?m []"
    by (simp add: get_index_map_def fold_map comp_def case_prod_beta')
  also have "\<dots> = ?m" by (rule fold_tbl_insert) fact
  finally show ?thesis .
qed

lemma tbl_get_index_map:
  "tbl_wf t \<Longrightarrow> tbl_get (get_index_map t) r = map_option (\<lambda>e. (ci_parent_root e, ci_slot e)) (tbl_get t r)"
  by (simp add: get_index_map_eq map_of_map)

lemma get_index_map_wf: "tbl_wf t \<Longrightarrow> tbl_wf (get_index_map t)"
  by (simp add: get_index_map_eq tbl_wf_def comp_def case_prod_beta')

lemma tbl_get_push:
  "tbl_get (tbl_push k x t) = (tbl_get t)(k \<mapsto> (case tbl_get t k of None \<Rightarrow> [] | Some xs \<Rightarrow> xs) @ [x])"
  by (simp add: tbl_push_def table_simps)

text \<open>The children of a block: the indexed blocks with that parent whose weight passes the
  threshold, in key order; a block without such children has no entry.\<close>

definition children_of ::
  "u64 \<Rightarrow> (b256, u64) table \<Rightarrow> (b256, child_index_entry) table \<Rightarrow> b256 \<Rightarrow> b256 list" where
  "children_of min_score weights t p =
     (if p = 0 then []
      else map fst (filter (\<lambda>(root, e). ci_parent_root e = p \<and>
                      (min_score = 0 \<or> min_score \<le> weight_of weights root)) t))"

lemma get_children_map_correct:
  "tbl_get (get_children_map min_score weights t) p =
     (if children_of min_score weights t p = [] then None else Some (children_of min_score weights t p))"
proof (induction t rule: rev_induct)
  case Nil
  then show ?case by (simp add: get_children_map_def children_of_def)
next
  case (snoc x t)
  obtain root e where x: "x = (root, e)" by force
  let ?skip = "ci_parent_root e = 0 \<or> (0 < min_score \<and> weight_of weights root < min_score)"
  have gt: "\<not> (0 < min_score \<and> weight_of weights root < min_score) \<longleftrightarrow>
      min_score = 0 \<or> min_score \<le> weight_of weights root"
    by (auto simp: not_less word_gt_0)
  have fold: "get_children_map min_score weights (t @ [x]) =
      (if ?skip then get_children_map min_score weights t
       else tbl_push (ci_parent_root e) root (get_children_map min_score weights t))"
    by (auto simp: get_children_map_def x)
  have kids: "children_of min_score weights (t @ [x]) p =
      children_of min_score weights t p @ (if \<not> ?skip \<and> p = ci_parent_root e then [root] else [])"
    using gt by (auto simp: children_of_def x)
  show ?case
  proof (cases "\<not> ?skip \<and> p = ci_parent_root e")
    case True
    then have f: "get_children_map min_score weights (t @ [x]) =
        tbl_push p root (get_children_map min_score weights t)"
      and k: "children_of min_score weights (t @ [x]) p = children_of min_score weights t p @ [root]"
      using fold kids by auto
    show ?thesis unfolding f k by (simp add: tbl_get_push snoc.IH)
  next
    case False
    then have "tbl_get (get_children_map min_score weights (t @ [x])) p =
        tbl_get (get_children_map min_score weights t) p"
      and k: "children_of min_score weights (t @ [x]) p = children_of min_score weights t p"
      using fold kids by (auto simp: tbl_get_push)
    then show ?thesis unfolding k using snoc.IH by simp
  qed
qed

lemma set_children_of:
  "tbl_wf t \<Longrightarrow> c \<in> set (children_of min_score weights t p) \<longleftrightarrow>
     p \<noteq> 0 \<and> (\<exists>e. tbl_get t c = Some e \<and> ci_parent_root e = p) \<and>
     (min_score = 0 \<or> min_score \<le> weight_of weights c)"
  by (force simp: children_of_def image_iff tbl_wf_distinct)

section \<open>Pruning\<close>

lemma fold_tbl_remove:
  "fold tbl_remove rs t = tbl_retain (\<lambda>k _. k \<notin> set rs) t"
  by (induction rs arbitrary: t) (auto simp: tbl_remove_def tbl_retain_def intro!: filter_cong)

lemma prune_finalized_eq:
  assumes "tbl_wf t"
  shows "prune_finalized slot t =
    (length (filter (\<lambda>(_, e). ci_slot e < slot) t), tbl_retain (\<lambda>_ e. slot \<le> ci_slot e) t)"
proof -
  let ?stale = "map fst (filter (\<lambda>(_, e). ci_slot e < slot) t)"
  have "tbl_retain (\<lambda>k _. k \<notin> set ?stale) t = tbl_retain (\<lambda>_ e. slot \<le> ci_slot e) t"
    unfolding tbl_retain_def
  proof (rule filter_cong [OF refl], clarify)
    fix k e
    assume ke: "(k, e) \<in> set t"
    have "k \<in> set ?stale \<longleftrightarrow> ci_slot e < slot"
      using ke tbl_wf_distinct [OF assms] by (force dest: eq_key_imp_eq_value)
    then show "(k \<notin> set ?stale) = (slot \<le> ci_slot e)" by (simp add: not_less)
  qed
  moreover have "tbl_retain (\<lambda>_ e. slot \<le> ci_slot e) t = t" if "?stale = []"
    using that unfolding tbl_retain_def by (auto simp: filter_id_conv filter_empty_conv not_less)
  ultimately show ?thesis
    by (simp add: prune_finalized_def Let_def fold_tbl_remove)
qed

section \<open>Draining and copying\<close>

lemma drain_loop_eq: "drain_loop t acc = (fold (\<lambda>(k, v). tbl_insert k v) t acc, [])"
  by (induction t acc rule: drain_loop.induct) simp_all

lemma payload_drain_eq: "tbl_wf t \<Longrightarrow> payload_drain t = (t, [])"
  by (simp add: payload_drain_def drain_loop_eq fold_tbl_insert)

lemma get_all_attestations_eq: "tbl_wf t \<Longrightarrow> get_all_attestations t = t"
  by (simp add: get_all_attestations_def fold_tbl_insert)

section \<open>Oldest and highest slot\<close>

lemma get_oldest_slot_min:
  "tbl_wf t \<Longrightarrow> get_oldest_slot t = Some slot \<Longrightarrow> slot \<in> fst ` set t \<and> (\<forall>s \<in> fst ` set t. slot \<le> s)"
  by (auto simp: get_oldest_slot_def tbl_wf_Cons less_imp_le split: list.splits prod.splits)

lemma get_highest_slot_max:
  assumes "tbl_wf t" and "get_highest_slot t = Some slot"
  shows "slot \<in> fst ` set t \<and> (\<forall>s \<in> fst ` set t. s \<le> slot)"
proof -
  from assms(2) have ne: "t \<noteq> []" and slot: "slot = fst (last t)"
    by (auto simp: get_highest_slot_def split: if_splits)
  obtain u k v where t: "t = u @ [(k, v)]" using ne by (metis rev_exhaust surj_pair)
  show ?thesis using assms(1) slot by (auto simp: t tbl_wf_snoc less_imp_le)
qed

section \<open>Properties\<close>

datatype ('k, 'v) table_op = GetOp 'k | InsertOp 'k 'v | RemoveOp 'k

fun plain_run :: "('k::linorder, 'v) table_op list \<Rightarrow> ('k, 'v) table \<Rightarrow> 'v option list \<times> ('k, 'v) table" where
  "plain_run [] t = ([], t)"
| "plain_run (GetOp k # ops) t = (let (rs, u) = plain_run ops t in (tbl_get t k # rs, u))"
| "plain_run (InsertOp k v # ops) t = (let (rs, u) = plain_run ops (tbl_insert k v t) in (None # rs, u))"
| "plain_run (RemoveOp k # ops) t =
     (let (r, t') = table_remove k t; (rs, u) = plain_run ops t' in (r # rs, u))"

fun cached_run ::
  "('k::linorder, 'v, 'c) lru \<Rightarrow> ('k, 'v) table_op list \<Rightarrow> ('k, 'v, 'c) cached \<Rightarrow>
   'v option list \<times> ('k, 'v, 'c) cached" where
  "cached_run L [] st = ([], st)"
| "cached_run L (GetOp k # ops) st =
     (let (r, st') = cached_get L k st; (rs, u) = cached_run L ops st' in (r # rs, u))"
| "cached_run L (InsertOp k v # ops) st =
     (let (rs, u) = cached_run L ops (cached_insert L k v st) in (None # rs, u))"
| "cached_run L (RemoveOp k # ops) st =
     (let (r, st') = cached_remove L k st; (rs, u) = cached_run L ops st' in (r # rs, u))"

lemma cached_run_plain:
  assumes L: "lru_ok L" and "coherent L st"
  shows "fst (cached_run L ops st) = fst (plain_run ops (snd st)) \<and>
    snd (snd (cached_run L ops st)) = snd (plain_run ops (snd st)) \<and> coherent L (snd (cached_run L ops st))"
  using assms(2)
proof (induction ops arbitrary: st)
  case (Cons op ops)
  obtain c t where st: "st = (c, t)" by force
  with Cons.prems have co: "coherent L (c, t)" by simp
  show ?case
  proof (cases op)
    case (GetOp k)
    obtain r c' t' where g: "cached_get L k (c, t) = (r, (c', t'))" by (metis surj_pair)
    from cached_get_correct [OF L co, of k] Cons.IH [of "(c', t')"] show ?thesis
      by (auto simp: GetOp st g Let_def split: prod.splits)
  next
    case (InsertOp k v)
    obtain c' t' where g: "cached_insert L k v (c, t) = (c', t')" by force
    from cached_insert_correct [OF L co, of k v] Cons.IH [of "(c', t')"] show ?thesis
      by (auto simp: InsertOp st g Let_def split: prod.splits)
  next
    case (RemoveOp k)
    obtain r c' t' where g: "cached_remove L k (c, t) = (r, (c', t'))" by (metis surj_pair)
    from cached_remove_correct [OF L co, of k] Cons.IH [of "(c', t')"] show ?thesis
      by (auto simp: RemoveOp st g Let_def table_remove_def split: prod.splits)
  qed
qed simp

text \<open>C36. The cache in front of the block and state tables is not observable: whatever sequence of
  reads, writes and removals is run, with a least-recently-used cache that behaves as documented
  every result is the one the table alone would give, and the table ends up the same.\<close>

theorem cached_table_transparent:
  assumes "lru_ok L" and "coherent L (cache, t)"
  shows "fst (cached_run L ops (cache, t)) = fst (plain_run ops t) \<and>
    snd (snd (cached_run L ops (cache, t))) = snd (plain_run ops t)"
  using cached_run_plain [OF assms] by simp

text \<open>A cache of one entry.\<close>

definition demo_lru :: "(nat, nat, (nat \<times> nat) option) lru" where
  "demo_lru =
     \<lparr> lru_find = (\<lambda>c k. case c of Some (k', v) \<Rightarrow> if k' = k then Some v else None | None \<Rightarrow> None),
       lru_get = (\<lambda>c k. (case c of Some (k', v) \<Rightarrow> if k' = k then Some v else None | None \<Rightarrow> None, c)),
       lru_put = (\<lambda>c k v. Some (k, v)),
       lru_pop = (\<lambda>c k. case c of Some (k', v) \<Rightarrow> if k' = k then None else c | None \<Rightarrow> None) \<rparr>"

lemma demo_lru_ok: "lru_ok demo_lru" "coherent demo_lru (Some None, [])"
  by (auto simp: lru_ok_def demo_lru_def coherent_def split: option.splits)

theorem cached_table_transparent_witness:
  "fst (cached_run demo_lru [InsertOp 1 7, GetOp 1, InsertOp 2 9, GetOp 1, RemoveOp 1, GetOp 1] (Some None, [])) =
   [None, Some 7, None, Some 7, Some 7, None]"
  using cached_table_transparent [OF demo_lru_ok,
      of "[InsertOp 1 7, GetOp 1, InsertOp 2 9, GetOp 1, RemoveOp 1, GetOp 1]"]
  by (simp add: table_remove_def tbl_remove_def tbl_retain_def)

text \<open>Storing a block under its root makes it retrievable by root, slot and state root, records
  its parent and slot in the children index, and leaves every other root untouched.\<close>

lemma block_insert_ref_correct:
  "(let db' = block_insert_ref E (hash_block E (sb_block sb)) sb db; root = hash_block E (sb_block sb) in
    tbl_get (db_blocks db') = (tbl_get (db_blocks db))(root \<mapsto> sb) \<and>
    tbl_get (db_slot_index db') = (tbl_get (db_slot_index db))(blk_slot (sb_block sb) \<mapsto> root) \<and>
    tbl_get (db_state_root_index db') =
      (tbl_get (db_state_root_index db))(blk_state_root (sb_block sb) \<mapsto> root) \<and>
    tbl_get (db_children_index db') = (tbl_get (db_children_index db))
      (root \<mapsto> \<lparr> ci_slot = blk_slot (sb_block sb), ci_parent_root = blk_parent_root (sb_block sb) \<rparr>) \<and>
    db_states db' = db_states db \<and> db_head db' = db_head db)"
  by (simp add: block_insert_ref_def Let_def table_simps)

end
