(* ===== verification/Lean_Fork_Choice.thy ===== *)
theory Lean_Fork_Choice
  imports Lean_Storage_Lemmas "HOL-Library.Product_Lexorder"
begin

text \<open>
  The Lean fork choice store, \<open>fork_choice/lean/src/store.rs\<close>: initialisation, the LMD-GHOST head,
  the safe target, acceptance of new attestations, ticks and the attestation target. A method that
  writes is a program over the store: what it wrote before an early return stays written. Maps
  whose iteration order the language leaves open are iterated in key order, or in the order of
  first insertion where keys have no order.
\<close>

section \<open>The store\<close>

datatype block_production_strategy = RoundBased | Tiered

record lean_store =
  ls_db :: lean_db
  ls_head_checkpoint :: checkpoint
  ls_finalized_checkpoint :: checkpoint
  ls_strategy :: block_production_strategy

record net_spec =
  seconds_per_slot :: u64
  spec_genesis_time :: u64
  committee_count :: u64

type_synonym 'a store_prog = "(lean_store, store_error, 'a) prog"

definition get_db :: "(lean_db \<Rightarrow> store_error + 'a) \<Rightarrow> 'a store_prog" where
  "get_db f = pread (\<lambda>st. f (ls_db st))"

definition put_db :: "(lean_db \<Rightarrow> lean_db) \<Rightarrow> unit store_prog" where
  "put_db f = pmodify (\<lambda>st. st\<lparr> ls_db := f (ls_db st) \<rparr>)"

definition get_head :: "lean_db \<Rightarrow> store_error + b256" where
  "get_head db = field_get (db_head db)"

definition get_justified :: "lean_db \<Rightarrow> store_error + checkpoint" where
  "get_justified db = field_get (db_latest_justified db)"

definition get_finalized :: "lean_db \<Rightarrow> store_error + checkpoint" where
  "get_finalized db = field_get (db_latest_finalized db)"

definition get_time :: "lean_db \<Rightarrow> store_error + u64" where
  "get_time db = field_get (db_time db)"

definition get_state :: "lean_db \<Rightarrow> b256 \<Rightarrow> store_error + lean_state" where
  "get_state db root = ok_or (tbl_get (db_states db) root) StateMissing"

definition get_block :: "lean_db \<Rightarrow> b256 \<Rightarrow> store_error + block" where
  "get_block db root = ok_or (map_option sb_block (tbl_get (db_blocks db) root)) BlockMissing"

definition get_forkchoice_store ::
  "lean_env \<Rightarrow> net_spec \<Rightarrow> signed_block \<Rightarrow> lean_state \<Rightarrow> lean_db \<Rightarrow> u64 option \<Rightarrow> u64 option \<Rightarrow>
   store_error + lean_store" where
  "get_forkchoice_store E N anchor_block anchor_state db time vid =
     and_then (ensure (blk_state_root (sb_block anchor_block) = hash_state E anchor_state)
                 AnchorStateMismatch) (\<lambda>_.
     let header = latest_block_header anchor_state;
         header' = (if hdr_state_root header = 0
                    then header\<lparr> hdr_state_root := hash_state E anchor_state \<rparr> else header);
         anchor_root = hash_block_header E header';
         anchor_slot = blk_slot (sb_block anchor_block);
         anchor_checkpoint = \<lparr> cp_root = anchor_root, cp_slot = anchor_slot \<rparr>;
         db1 = db\<lparr> db_time := Some (case time of Some t \<Rightarrow> t | None \<Rightarrow> anchor_slot * seconds_per_slot N) \<rparr>;
         db2 = block_insert_ref E anchor_root anchor_block db1;
         db3 = db2\<lparr> db_slot_index := tbl_insert anchor_slot anchor_root (db_slot_index db2),
                     db_state_root_index :=
                       tbl_insert (hash_state E anchor_state) anchor_root (db_state_root_index db2),
                     db_latest_finalized := Some anchor_checkpoint,
                     db_latest_justified := Some anchor_checkpoint,
                     db_states := tbl_insert anchor_root anchor_state (db_states db2),
                     db_head := Some anchor_root,
                     db_safe_target := Some anchor_root,
                     db_validator_id := Some vid \<rparr>
     in Inr \<lparr> ls_db = db3, ls_head_checkpoint = anchor_checkpoint,
              ls_finalized_checkpoint = anchor_checkpoint, ls_strategy = RoundBased \<rparr>)"

definition with_block_production_strategy :: "block_production_strategy \<Rightarrow> lean_store \<Rightarrow> lean_store" where
  "with_block_production_strategy strategy st = st\<lparr> ls_strategy := strategy \<rparr>"

definition get_block_id_by_slot :: "u64 \<Rightarrow> lean_db \<Rightarrow> store_error + b256" where
  "get_block_id_by_slot slot db = ok_or (tbl_get (db_slot_index db) slot) BlockMissing"

definition store_genesis_time :: "lean_db \<Rightarrow> store_error + u64" where
  "store_genesis_time db =
     and_then (get_head db) (\<lambda>head_root.
     and_then (get_state db head_root) (\<lambda>head_state.
     Inr (genesis_time (st_config head_state))))"

section \<open>LMD-GHOST\<close>

type_synonym index_map = "(b256, b256 \<times> u64) table"

text \<open>One vote adds one to every block from its head up to, and without, the start slot. A walk of
  more steps than there are blocks has met a block twice and would not end.\<close>

fun add_vote :: "nat \<Rightarrow> index_map \<Rightarrow> u64 \<Rightarrow> b256 \<Rightarrow> (b256, u64) table \<Rightarrow> store_error + (b256, u64) table" where
  "add_vote 0 index start_slot root weights = Inl Diverges"
| "add_vote (Suc fuel) index start_slot root weights =
     (case tbl_get index root of
        None \<Rightarrow> Inr weights
      | Some (parent_root, slot) \<Rightarrow>
          if slot \<le> start_slot then Inr weights
          else add_vote fuel index start_slot parent_root
                 (tbl_insert root (weight_of weights root + 1) weights))"

definition ghost_weights ::
  "index_map \<Rightarrow> u64 \<Rightarrow> signed_attestation list \<Rightarrow> store_error + (b256, u64) table" where
  "ghost_weights index start_slot atts =
     try_fold (\<lambda>weights a. add_vote (Suc (length index)) index start_slot
                              (cp_root (ad_head (sa_message a))) weights) [] atts"

definition ghost_children :: "u64 \<Rightarrow> (b256, u64) table \<Rightarrow> index_map \<Rightarrow> (b256, b256 list) table" where
  "ghost_children min_score weights index =
     fold (\<lambda>(block_root, (parent_root, _)) children_map.
             if parent_root = 0 then children_map
             else if 0 < min_score \<and> weight_of weights block_root < min_score then children_map
             else tbl_push parent_root block_root children_map) index []"

text \<open>\<open>max_by_key\<close> keeps the last of equal keys; the keys hold the hash, so they differ.\<close>

fun ghost_best :: "(b256, u64) table \<Rightarrow> b256 list \<Rightarrow> b256 option \<Rightarrow> b256 option" where
  "ghost_best weights [] best = best"
| "ghost_best weights (c # cs) best =
     ghost_best weights cs
       (case best of None \<Rightarrow> Some c
        | Some b \<Rightarrow> if (weight_of weights b, b) \<le> (weight_of weights c, c) then Some c else Some b)"

fun ghost_descend ::
  "nat \<Rightarrow> (b256, b256 list) table \<Rightarrow> (b256, u64) table \<Rightarrow> index_map \<Rightarrow> b256 \<Rightarrow> u64 \<Rightarrow> store_error + (b256 \<times> u64)" where
  "ghost_descend 0 children weights index head head_slot = Inl Diverges"
| "ghost_descend (Suc fuel) children weights index head head_slot =
     (case tbl_get children head of
        None \<Rightarrow> Inr (head, head_slot)
      | Some cs \<Rightarrow>
          (case ghost_best weights cs None of
             None \<Rightarrow> Inl NoChildren
           | Some c \<Rightarrow>
               ghost_descend fuel children weights index c
                 (case tbl_get index c of Some (_, slot) \<Rightarrow> slot | None \<Rightarrow> 0)))"

definition ghost_start :: "lean_db \<Rightarrow> index_map \<Rightarrow> b256 \<Rightarrow> store_error + (b256 \<times> u64)" where
  "ghost_start db index provided_root =
     and_then (if provided_root = 0 \<or> tbl_get index provided_root = None
               then ok_or (get_oldest_root (db_slot_index db)) NoBlocks
               else Inr provided_root) (\<lambda>root.
     and_then (case tbl_get index root of
                 Some (_, slot) \<Rightarrow> Inr slot
               | None \<Rightarrow> and_then (get_block db root) (\<lambda>b. Inr (blk_slot b))) (\<lambda>start_slot.
     Inr (root, start_slot)))"

definition compute_lmd_ghost_head ::
  "signed_attestation list \<Rightarrow> b256 \<Rightarrow> u64 \<Rightarrow> lean_db \<Rightarrow> store_error + (b256 \<times> u64)" where
  "compute_lmd_ghost_head atts provided_root min_score db =
     (let index = get_index_map (db_children_index db) in
      and_then (ghost_start db index provided_root) (\<lambda>(root, start_slot).
      and_then (ghost_weights index start_slot atts) (\<lambda>weights.
      let children = ghost_children min_score weights index in
      ghost_descend (Suc (length index)) children weights index root start_slot)))"

section \<open>Attestations of the payload tables\<close>

text \<open>Stable sort, largest key first.\<close>

definition sort_desc :: "('a \<Rightarrow> 'k::linorder) \<Rightarrow> 'a list \<Rightarrow> 'a list" where
  "sort_desc f xs = rev (sort_key f (rev xs))"

definition extract_attestations_from_aggregated_payloads ::
  "signature_key list \<Rightarrow> lean_db \<Rightarrow> (u64, attestation_data) table" where
  "extract_attestations_from_aggregated_payloads keys db =
     (let resolved = List.map_filter (\<lambda>key.
            map_option (\<lambda>d. (validator_id key, data_root key, d))
              (tbl_get (db_attestation_data db) (data_root key))) keys;
          ordered = sort_desc (\<lambda>(_, root, d). (ad_slot d, root)) resolved
      in fold (\<lambda>(vid, _, d) m. if tbl_get m vid = None then tbl_insert vid d m else m) ordered [])"

definition blank_signature :: signature where
  "blank_signature =
     [36, 0, 0, 0] @ replicate 28 0 @ [40, 4, 0, 0] @ [4, 0, 0, 0] @ replicate 2496 0"

definition signed_votes :: "(u64, attestation_data) table \<Rightarrow> signed_attestation list" where
  "signed_votes m =
     map (\<lambda>(vid, d). \<lparr> sa_validator_id = vid, sa_message = d, sa_signature = blank_signature \<rparr>) m"

section \<open>Head and safe target\<close>

definition lookup_slot :: "index_map \<Rightarrow> lean_db \<Rightarrow> b256 \<Rightarrow> (b256 \<times> u64) option" where
  "lookup_slot index db root =
     (case tbl_get index root of
        Some e \<Rightarrow> Some e
      | None \<Rightarrow> map_option (\<lambda>sb. (blk_parent_root (sb_block sb), blk_slot (sb_block sb)))
                  (tbl_get (db_blocks db) root))"

fun finalized_walk :: "nat \<Rightarrow> index_map \<Rightarrow> lean_db \<Rightarrow> u64 \<Rightarrow> b256 \<Rightarrow> store_error + b256" where
  "finalized_walk 0 index db target root = Inl Diverges"
| "finalized_walk (Suc fuel) index db target root =
     (case lookup_slot index db root of
        None \<Rightarrow> Inr root
      | Some (parent_root, slot) \<Rightarrow>
          if slot \<le> target then Inr root else finalized_walk fuel index db target parent_root)"

text \<open>The keys whose attestation is for a head after the finalized slot.\<close>

definition relevant_keys :: "u64 \<Rightarrow> lean_db \<Rightarrow> signature_key list" where
  "relevant_keys finalized_slot db =
     filter (\<lambda>key. case tbl_get (db_attestation_data db) (data_root key) of
                     Some d \<Rightarrow> finalized_slot < cp_slot (ad_head d) | None \<Rightarrow> False)
       (payload_iter_keys (db_known_payloads db))"

definition derive_head :: "lean_db \<Rightarrow> store_error + (b256 \<times> u64 \<times> checkpoint)" where
  "derive_head db =
     and_then (get_finalized db) (\<lambda>latest_finalized_checkpoint.
     let keys = relevant_keys (cp_slot latest_finalized_checkpoint) db;
         attestations = extract_attestations_from_aggregated_payloads keys db
     in
     and_then (get_justified db) (\<lambda>justified.
     and_then (compute_lmd_ghost_head (signed_votes attestations) (cp_root justified) 0 db)
       (\<lambda>(new_head, new_head_slot).
     and_then (get_state db new_head) (\<lambda>head_state.
     let target_finalized_slot = cp_slot (latest_finalized head_state);
         index = get_index_map (db_children_index db)
     in
     and_then (finalized_walk (Suc (length index + length (db_blocks db))) index db
                 target_finalized_slot new_head) (\<lambda>finalized_root.
     let final = (if map_option snd (lookup_slot index db finalized_root) = Some target_finalized_slot
                  then \<lparr> cp_root = finalized_root, cp_slot = target_finalized_slot \<rparr>
                  else latest_finalized_checkpoint)
     in Inr (new_head, new_head_slot, final))))))"

definition update_head :: "unit store_prog" where
  "update_head =
     pbind (get_db derive_head) (\<lambda>(new_head, new_head_slot, final).
     pbind (pmodify (\<lambda>st. st\<lparr> ls_head_checkpoint := \<lparr> cp_root = new_head, cp_slot = new_head_slot \<rparr>,
                               ls_finalized_checkpoint := final \<rparr>)) (\<lambda>_.
     put_db (\<lambda>db. db\<lparr> db_head := Some new_head, db_latest_finalized := Some final \<rparr>)))"

definition update_safe_target :: "unit store_prog" where
  "update_safe_target =
     pbind (get_db (\<lambda>db.
       and_then (get_head db) (\<lambda>head_root.
       and_then (get_state db head_root) (\<lambda>head_state.
       and_then (get_justified db) (\<lambda>justified.
       let min_target_score = div_ceil (of_nat (length (validators head_state)) * 2) 3;
           keys = map fst (db_new_payloads db);
           attestations = extract_attestations_from_aggregated_payloads keys db
       in compute_lmd_ghost_head (signed_votes attestations) (cp_root justified) min_target_score db)))))
     (\<lambda>(new_safe_target_root, _).
     put_db (\<lambda>db. db\<lparr> db_safe_target := Some new_safe_target_root \<rparr>))"

section \<open>Accepting new attestations\<close>

definition key_slot :: "lean_db \<Rightarrow> signature_key \<Rightarrow> u64" where
  "key_slot db key = (case tbl_get (db_attestation_data db) (data_root key) of
                        Some d \<Rightarrow> ad_slot d | None \<Rightarrow> 0)"

definition merge_payloads :: "payloads \<Rightarrow> payloads \<Rightarrow> payloads" where
  "merge_payloads new known =
     fold (\<lambda>(key, new_proofs) known.
             tbl_insert key ((case tbl_get known key of None \<Rightarrow> [] | Some ps \<Rightarrow> ps) @ new_proofs) known)
       new known"

definition validator_max_slot :: "lean_db \<Rightarrow> payloads \<Rightarrow> (u64, u64) table" where
  "validator_max_slot db known =
     fold (\<lambda>(key, _) m.
             (case tbl_get m (validator_id key) of
                Some mx \<Rightarrow> tbl_insert (validator_id key) (max mx (key_slot db key)) m
              | None \<Rightarrow> tbl_insert (validator_id key) (key_slot db key) m))
       known []"

definition superseded :: "lean_db \<Rightarrow> payloads \<Rightarrow> signature_key list" where
  "superseded db known =
     filter (\<lambda>key. case tbl_get (validator_max_slot db known) (validator_id key) of
                     Some mx \<Rightarrow> key_slot db key < mx | None \<Rightarrow> False)
       (map fst known)"

definition accept_payloads :: "lean_db \<Rightarrow> lean_db" where
  "accept_payloads db =
     (let (drained, emptied) = payload_drain (db_new_payloads db);
          known = merge_payloads drained (db_known_payloads db);
          old = superseded db known;
          known' = (if old = [] then known else tbl_retain (\<lambda>key _. key \<notin> set old) known)
      in db\<lparr> db_new_payloads := emptied, db_known_payloads := known' \<rparr>)"

definition accept_new_attestations :: "unit store_prog" where
  "accept_new_attestations = pbind (put_db accept_payloads) (\<lambda>_. update_head)"

section \<open>Ticks\<close>

definition tick_interval :: "bool \<Rightarrow> bool \<Rightarrow> unit store_prog" where
  "tick_interval has_proposal is_aggregator =
     pbind (get_db get_time) (\<lambda>t.
     let time = t + 1 in
     pbind (put_db (\<lambda>db. db\<lparr> db_time := Some time \<rparr>)) (\<lambda>_.
     let current_interval = time mod INTERVALS_PER_SLOT in
     if current_interval = 0
     then (if has_proposal then accept_new_attestations else preturn ())
     else if current_interval = 2 then preturn ()
     else if current_interval = 3 then update_safe_target
     else if current_interval = 4 then accept_new_attestations
     else preturn ()))"

text \<open>The loop advances the time by one in each round; the fuel is the number of rounds it may
  need.\<close>

fun tick_loop :: "nat \<Rightarrow> u64 \<Rightarrow> bool \<Rightarrow> bool \<Rightarrow> unit store_prog" where
  "tick_loop 0 target has_proposal is_aggregator = plift (Inl Diverges)"
| "tick_loop (Suc fuel) target has_proposal is_aggregator =
     pbind (get_db get_time) (\<lambda>t.
     if t < target
     then pbind (tick_interval (has_proposal \<and> t + 1 = target) is_aggregator) (\<lambda>_.
          tick_loop fuel target has_proposal is_aggregator)
     else preturn ())"

definition tick_interval_time :: "net_spec \<Rightarrow> u64 \<Rightarrow> u64" where
  "tick_interval_time N seconds_since_genesis =
     seconds_since_genesis * 1000 * INTERVALS_PER_SLOT div (seconds_per_slot N * 1000)"

definition on_tick :: "net_spec \<Rightarrow> u64 \<Rightarrow> bool \<Rightarrow> bool \<Rightarrow> unit store_prog" where
  "on_tick N time has_proposal is_aggregator =
     pbind (get_db store_genesis_time) (\<lambda>genesis.
     case checked_sub time genesis of
       None \<Rightarrow> preturn ()
     | Some seconds_since_genesis \<Rightarrow>
         if seconds_per_slot N * 1000 = 0 then plift (Inl PanicStore)
         else (let target = tick_interval_time N seconds_since_genesis in
               tick_loop (Suc (unat target)) target has_proposal is_aggregator))"

definition get_proposal_head :: "net_spec \<Rightarrow> u64 \<Rightarrow> b256 store_prog" where
  "get_proposal_head N slot =
     (let slot_duration_seconds = slot * seconds_per_slot N;
          slot_time = spec_genesis_time N + slot_duration_seconds
      in pbind (on_tick N slot_time True False) (\<lambda>_.
         pbind accept_new_attestations (\<lambda>_.
         get_db get_head)))"

section \<open>Attestation target\<close>

fun target_lookback :: "nat \<Rightarrow> lean_db \<Rightarrow> b256 \<Rightarrow> store_error + b256" where
  "target_lookback 0 db root = Inr root"
| "target_lookback (Suc n) db root =
     and_then (get_block db root) (\<lambda>target_block.
     and_then (field_get (db_safe_target db)) (\<lambda>safe_root.
     and_then (get_block db safe_root) (\<lambda>safe_block.
     if blk_slot safe_block < blk_slot target_block
     then target_lookback n db (blk_parent_root target_block)
     else Inr root)))"

fun target_justifiable :: "nat \<Rightarrow> lean_db \<Rightarrow> u64 \<Rightarrow> b256 \<Rightarrow> store_error + b256" where
  "target_justifiable 0 db finalized_slot root = Inl Diverges"
| "target_justifiable (Suc fuel) db finalized_slot root =
     and_then (get_block db root) (\<lambda>b.
     if is_justifiable_after (blk_slot b) finalized_slot then Inr root
     else target_justifiable fuel db finalized_slot (blk_parent_root b))"

definition get_attestation_target :: "lean_db \<Rightarrow> store_error + checkpoint" where
  "get_attestation_target db =
     and_then (get_head db) (\<lambda>head_root.
     and_then (get_state db head_root) (\<lambda>head_state.
     and_then (target_lookback JUSTIFICATION_LOOKBACK_SLOTS db head_root) (\<lambda>root1.
     and_then (target_justifiable (Suc (length (db_blocks db))) db
                 (cp_slot (latest_finalized head_state)) root1) (\<lambda>target_root.
     and_then (get_block db target_root) (\<lambda>target_block.
     if blk_slot target_block < cp_slot (latest_justified head_state)
     then Inr (latest_justified head_state)
     else Inr \<lparr> cp_root = target_root, cp_slot = blk_slot target_block \<rparr>)))))"

end
