(* ===== verification/Lean_Ghost.thy ===== *)
theory Lean_Ghost
  imports Lean_Fork_Choice "HOL-Library.Multiset"
begin

text \<open>
  Walks along parent pointers and the LMD-GHOST head. A block lookup is well founded when a block's
  parent, where it is known, has a smaller slot; every walk then ends within the number of known
  blocks.
\<close>

section \<open>Well-founded block lookups\<close>

type_synonym block_lookup = "b256 \<Rightarrow> (b256 \<times> u64) option"

locale block_tree =
  fixes look :: block_lookup
  assumes finite_dom: "finite (dom look)"
    and parent_slot: "look r = Some (p, s) \<Longrightarrow> look p = Some (q, t) \<Longrightarrow> t < s"
begin

definition below :: "b256 \<Rightarrow> b256 set" where
  "below r = {x. \<exists>p s q t. look r = Some (p, s) \<and> look x = Some (q, t) \<and> t < s}"

definition above :: "b256 \<Rightarrow> b256 set" where
  "above r = {x. \<exists>p s q t. look r = Some (p, s) \<and> look x = Some (q, t) \<and> s < t}"

lemma finite_below: "finite (below r)" and finite_above: "finite (above r)"
  by (auto simp: below_def above_def intro: finite_subset [OF _ finite_dom])

lemma below_parent: "look r = Some (p, s) \<Longrightarrow> look p = Some (q, t) \<Longrightarrow> card (below p) < card (below r)"
proof (rule psubset_card_mono [OF finite_below])
  assume "look r = Some (p, s)" "look p = Some (q, t)"
  with parent_slot [OF this] have "below p \<subseteq> below r" "p \<in> below r" "p \<notin> below p"
    by (auto simp: below_def)
  then show "below p \<subset> below r" by blast
qed

lemma below_dom: "look r = Some e \<Longrightarrow> card (below r) < card (dom look)"
proof (rule psubset_card_mono [OF finite_dom])
  assume "look r = Some e"
  then have "below r \<subseteq> dom look" "r \<in> dom look" "r \<notin> below r" by (auto simp: below_def)
  then show "below r \<subset> dom look" by blast
qed

lemma above_child: "look c = Some (r, s) \<Longrightarrow> look r = Some (q, t) \<Longrightarrow> card (above c) < card (above r)"
proof (rule psubset_card_mono [OF finite_above])
  assume "look c = Some (r, s)" "look r = Some (q, t)"
  with parent_slot [OF this] have "above c \<subseteq> above r" "c \<in> above r" "c \<notin> above c"
    by (auto simp: above_def)
  then show "above c \<subset> above r" by blast
qed

lemma above_dom: "look r = Some e \<Longrightarrow> card (above r) < card (dom look)"
proof (rule psubset_card_mono [OF finite_dom])
  assume "look r = Some e"
  then have "above r \<subseteq> dom look" "r \<in> dom look" "r \<notin> above r" by (auto simp: above_def)
  then show "above r \<subset> dom look" by blast
qed

text \<open>A walk that follows the parent as long as a block is known and a condition on it holds.\<close>

lemma walk_ends:
  assumes "look r = None \<and> 0 < fuel \<or> (\<exists>e. look r = Some e) \<and> card (below r) + 1 < fuel"
    and "\<And>fuel r. 0 < fuel \<Longrightarrow> look r = None \<Longrightarrow> P fuel r"
    and "\<And>fuel r p s. look r = Some (p, s) \<Longrightarrow> P fuel p \<Longrightarrow> P (Suc fuel) r"
  shows "P fuel r"
  using assms(1)
proof (induction fuel arbitrary: r)
  case (Suc fuel)
  show ?case
  proof (cases "look r")
    case None
    then show ?thesis by (simp add: assms(2))
  next
    case (Some e)
    obtain p s where e: "e = (p, s)" by force
    with Some Suc.prems have lt: "card (below r) + 1 < Suc fuel" by auto
    have "look p = None \<and> 0 < fuel \<or> (\<exists>e. look p = Some e) \<and> card (below p) + 1 < fuel"
    proof (cases "look p")
      case None
      then show ?thesis using lt by simp
    next
      case (Some e')
      obtain q t where "e' = (q, t)" by force
      with below_parent [of r p s q t] Some \<open>look r = Some e\<close> e lt show ?thesis by simp
    qed
    then show ?thesis using Suc.IH Some e by (blast intro: assms(3))
  qed
qed auto

lemma walk_fuel:
  assumes "card (dom look) \<le> n"
  shows "look r = None \<and> 0 < Suc n \<or> (\<exists>e. look r = Some e) \<and> card (below r) + 1 < Suc n"
  using below_dom [of r] assms by (cases "look r") fastforce+

end

text \<open>The lookups of the program are association lists: the children index, the block table, or the
  index backed by the block table.\<close>

definition index_ok :: "index_map \<Rightarrow> bool" where
  "index_ok index \<longleftrightarrow>
     (\<forall>r \<in> fst ` set index. case tbl_get index r of None \<Rightarrow> True
        | Some (p, s) \<Rightarrow> (case tbl_get index p of None \<Rightarrow> True | Some (_, t) \<Rightarrow> t < s))"

definition tree_look :: "index_map \<Rightarrow> block_lookup" where
  "tree_look index = (if index_ok index then tbl_get index else (\<lambda>_. None))"

lemma tree_look [simp]: "index_ok index \<Longrightarrow> tree_look index = tbl_get index"
  by (simp add: tree_look_def)

lemma index_ok_parent:
  assumes "index_ok index" and "tbl_get index r = Some (p, s)" and "tbl_get index p = Some (q, t)"
  shows "t < s"
proof -
  have "r \<in> fst ` set index" using assms(2) by (metis option.distinct(1) tbl_get_keys)
  with assms show ?thesis by (force simp: index_ok_def)
qed

interpretation idx: block_tree "tree_look index" for index
proof (unfold_locales, goal_cases)
  case 1
  show ?case by (simp add: tree_look_def finite_dom_map_of)
next
  case (2 r p s q t)
  then show ?case by (auto simp: tree_look_def intro: index_ok_parent split: if_splits)
qed

lemma card_dom_index: "card (dom (tbl_get index)) \<le> length index"
proof -
  have "card (dom (tbl_get index)) \<le> card (set (map fst index))"
    by (intro card_mono) (auto simp: dom_map_of_conv_image_fst)
  also have "\<dots> \<le> length (map fst index)" by (rule card_length)
  finally show ?thesis by simp
qed

text \<open>A walk over a well-founded index with one unit of fuel more than it has entries ends.\<close>

lemma index_walk:
  assumes "index_ok index" and "length index \<le> n"
    and "\<And>fuel r. 0 < fuel \<Longrightarrow> tbl_get index r = None \<Longrightarrow> P fuel r"
    and "\<And>fuel r p s. tbl_get index r = Some (p, s) \<Longrightarrow> P fuel p \<Longrightarrow> P (Suc fuel) r"
  shows "P (Suc n) r"
proof -
  have "card (dom (tree_look index)) \<le> n"
    using card_dom_index [of index] assms(1,2) by simp
  from idx.walk_ends [OF idx.walk_fuel [OF this, of r], of P] assms show ?thesis by simp
qed

section \<open>Votes\<close>

text \<open>A vote for a head supports every block on the way from the head to the start slot.\<close>

inductive supports :: "index_map \<Rightarrow> u64 \<Rightarrow> b256 \<Rightarrow> b256 \<Rightarrow> bool" for index start_slot where
  here: "tbl_get index h = Some (p, s) \<Longrightarrow> start_slot < s \<Longrightarrow> supports index start_slot h h"
| up: "tbl_get index h = Some (p, s) \<Longrightarrow> start_slot < s \<Longrightarrow> supports index start_slot p r \<Longrightarrow>
    supports index start_slot h r"

lemma supports_slot:
  assumes "index_ok index" and "supports index start_slot h r"
  shows "\<exists>p s q t. tbl_get index h = Some (p, s) \<and> tbl_get index r = Some (q, t) \<and> t \<le> s"
  using assms(2)
proof (induction rule: supports.induct)
  case (here h p s)
  then show ?case by simp
next
  case (up h p s r)
  then obtain q u x t where p: "tbl_get index p = Some (q, u)" and r: "tbl_get index r = Some (x, t)"
    and le: "t \<le> u"
    by blast
  have "u < s" by (rule index_ok_parent [OF assms(1) up(1) p])
  with le have "t \<le> s" by simp
  with up(1) r show ?case by blast
qed

lemma supports_step:
  assumes "tbl_get index h = Some (p, s)"
  shows "supports index start_slot h r \<longleftrightarrow> start_slot < s \<and> (r = h \<or> supports index start_slot p r)"
  using assms by (auto intro: supports.intros elim: supports.cases)

lemma supports_None: "tbl_get index h = None \<Longrightarrow> \<not> supports index start_slot h r"
  by (auto elim: supports.cases)

lemma weight_of_insert: "weight_of (tbl_insert k v w) r = (if r = k then v else weight_of w r)"
  by (simp add: weight_of_def table_simps)

lemma add_vote_weight:
  assumes "index_ok index" and "add_vote fuel index start_slot h w = Inr w'"
  shows "weight_of w' r = weight_of w r + of_bool (supports index start_slot h r)"
  using assms(2)
proof (induction fuel arbitrary: h w)
  case (Suc fuel)
  show ?case
  proof (cases "tbl_get index h")
    case None
    then show ?thesis using Suc.prems by (simp add: supports_None)
  next
    case (Some e)
    obtain p s where e: "tbl_get index h = Some (p, s)" using Some by (cases e) simp
    show ?thesis
    proof (cases "s \<le> start_slot")
      case True
      then show ?thesis using Suc.prems e by (simp add: supports_step [OF e] not_less)
    next
      case False
      let ?w = "tbl_insert h (weight_of w h + 1) w"
      have "weight_of w' r = weight_of ?w r + of_bool (supports index start_slot p r)"
        using Suc.prems e False by (intro Suc.IH) simp
      moreover have "\<not> supports index start_slot p h"
        using supports_slot [OF assms(1), of start_slot p h] index_ok_parent [OF assms(1) e] e by fastforce
      ultimately show ?thesis
        using False by (auto simp: supports_step [OF e] weight_of_insert)
    qed
  qed
qed simp

lemma add_vote_total:
  assumes "index_ok index" and "length index \<le> n"
  shows "\<exists>w'. add_vote (Suc n) index start_slot h w = Inr w'"
proof -
  have "\<forall>w. \<exists>w'. add_vote (Suc n) index start_slot h w = Inr w'"
    by (rule index_walk [OF assms]) (auto split: option.splits simp: gr0_conv_Suc)
  then show ?thesis by blast
qed

text \<open>The weight of a block is the number of votes that support it.\<close>

definition vote_count :: "index_map \<Rightarrow> u64 \<Rightarrow> signed_attestation list \<Rightarrow> b256 \<Rightarrow> nat" where
  "vote_count index start_slot atts r =
     length (filter (\<lambda>a. supports index start_slot (cp_root (ad_head (sa_message a))) r) atts)"

lemma ghost_weights_count:
  assumes ok: "index_ok index" and run: "ghost_weights index start_slot atts = Inr w"
  shows "weight_of w r = of_nat (vote_count index start_slot atts r)"
proof -
  have "weight_of w' r = weight_of w r + of_nat (vote_count index start_slot atts r)"
    if "try_fold (\<lambda>weights a. add_vote (Suc (length index)) index start_slot
          (cp_root (ad_head (sa_message a))) weights) w atts = Inr w'" for w w'
    using that
  proof (induction atts arbitrary: w)
    case (Cons a atts)
    from Cons.prems obtain w1 where
      w1: "add_vote (Suc (length index)) index start_slot (cp_root (ad_head (sa_message a))) w = Inr w1"
      and rest: "try_fold (\<lambda>weights a. add_vote (Suc (length index)) index start_slot
          (cp_root (ad_head (sa_message a))) weights) w1 atts = Inr w'"
      unfolding try_fold.simps and_then_eq_Inr by blast
    show ?case
      using Cons.IH [OF rest] add_vote_weight [OF ok w1, of r] by (simp add: vote_count_def)
  qed (simp add: vote_count_def)
  from this [OF run [unfolded ghost_weights_def]] show ?thesis by (simp add: weight_of_def)
qed

lemma ghost_weights_total:
  assumes "index_ok index"
  shows "\<exists>w. ghost_weights index start_slot atts = Inr w"
proof -
  have "\<exists>w'. try_fold (\<lambda>weights a. add_vote (Suc (length index)) index start_slot
          (cp_root (ad_head (sa_message a))) weights) w atts = Inr w'" for w
  proof (induction atts arbitrary: w)
    case (Cons a atts)
    from add_vote_total [OF assms order_refl] obtain w1 where
      "add_vote (Suc (length index)) index start_slot (cp_root (ad_head (sa_message a))) w = Inr w1"
      by blast
    with Cons.IH [of w1] show ?case by (simp only: try_fold.simps and_then_Inr)
  qed simp
  then show ?thesis by (simp add: ghost_weights_def)
qed

section \<open>The descent\<close>

definition index_children :: "u64 \<Rightarrow> (b256, u64) table \<Rightarrow> index_map \<Rightarrow> b256 \<Rightarrow> b256 list" where
  "index_children min_score weights index p =
     (if p = 0 then []
      else map fst (filter (\<lambda>(r, (q, _)). q = p \<and> (min_score = 0 \<or> min_score \<le> weight_of weights r)) index))"

lemma ghost_children_correct:
  "tbl_get (ghost_children min_score weights index) p =
     (if index_children min_score weights index p = [] then None
      else Some (index_children min_score weights index p))"
proof -
  let ?t = "map (\<lambda>(r, (q, s)). (r, \<lparr> ci_slot = s, ci_parent_root = q \<rparr>)) index"
  have "ghost_children min_score weights index = get_children_map min_score weights ?t"
    by (simp add: ghost_children_def get_children_map_def fold_map comp_def case_prod_unfold cong: if_cong)
  moreover have "children_of min_score weights ?t p = index_children min_score weights index p"
    by (simp add: children_of_def index_children_def filter_map comp_def case_prod_beta')
  ultimately show ?thesis by (simp add: get_children_map_correct)
qed

lemma index_children_parent:
  assumes "c \<in> set (index_children min_score weights index p)" and "distinct (map fst index)"
  shows "\<exists>s. tbl_get index c = Some (p, s)" and "min_score = 0 \<or> min_score \<le> weight_of weights c"
  using assms by (force simp: index_children_def split: if_splits)+

text \<open>The best child: the largest weight, ties broken by the larger hash.\<close>

definition heaviest :: "(b256 \<Rightarrow> nat) \<Rightarrow> b256 set \<Rightarrow> b256 \<Rightarrow> bool" where
  "heaviest votes cs c \<longleftrightarrow>
     c \<in> cs \<and> (\<forall>c' \<in> cs. votes c' < votes c \<or> votes c' = votes c \<and> c' \<le> c)"

lemma heaviest_unique: "heaviest votes cs c \<Longrightarrow> heaviest votes cs d \<Longrightarrow> c = d"
  by (auto simp: heaviest_def) (metis order.antisym order.asym)+

abbreviation weight_nat :: "(b256, u64) table \<Rightarrow> b256 \<Rightarrow> nat" where
  "weight_nat weights r \<equiv> unat (weight_of weights r)"

lemma ghost_best_Some:
  "ghost_best weights cs (Some b) = Some c \<Longrightarrow> heaviest (weight_nat weights) (set (b # cs)) c"
proof (induction cs arbitrary: b)
  case (Cons d cs)
  show ?case
  proof (cases "(weight_of weights b, b) \<le> (weight_of weights d, d)")
    case True
    with Cons.prems have "heaviest (weight_nat weights) (set (d # cs)) c" by (intro Cons.IH) simp
    with True show ?thesis
      by (auto simp: heaviest_def less_eq_prod_def word_less_nat_alt word_le_nat_alt)
  next
    case False
    with Cons.prems have "heaviest (weight_nat weights) (set (b # cs)) c"
      by (intro Cons.IH) (simp split: if_splits)
    with False show ?thesis
      by (auto simp: heaviest_def less_eq_prod_def word_less_nat_alt word_le_nat_alt not_less not_le)
  qed
qed (simp add: heaviest_def)

lemma ghost_best_total: "\<exists>c. ghost_best weights cs (Some b) = Some c"
  by (induction cs arbitrary: b) auto

lemma ghost_best_None:
  "ghost_best weights cs None = None \<longleftrightarrow> cs = []"
  "ghost_best weights cs None = Some c \<Longrightarrow> heaviest (weight_nat weights) (set cs) c"
  by (cases cs; use ghost_best_total in force) (cases cs; auto dest: ghost_best_Some)

text \<open>A greedy path: from a block to its heaviest child until a block without children.\<close>

inductive ghost_path :: "(b256 \<Rightarrow> b256 set) \<Rightarrow> (b256 \<Rightarrow> nat) \<Rightarrow> b256 \<Rightarrow> b256 \<Rightarrow> bool"
  for kids votes where
  leaf: "kids r = {} \<Longrightarrow> ghost_path kids votes r r"
| child: "heaviest votes (kids r) c \<Longrightarrow> ghost_path kids votes c h \<Longrightarrow> ghost_path kids votes r h"

inductive_cases ghost_path_elim: "ghost_path kids votes r h"

lemma ghost_path_unique:
  "ghost_path kids votes r h \<Longrightarrow> ghost_path kids votes r h' \<Longrightarrow> h = h'"
proof (induction arbitrary: h' rule: ghost_path.induct)
  case (leaf r)
  then show ?case by (auto elim: ghost_path_elim simp: heaviest_def)
next
  case (child r c h)
  from child.prems child.hyps(1) obtain d where "heaviest votes (kids r) d" "ghost_path kids votes d h'"
    by (auto elim: ghost_path_elim simp: heaviest_def)
  with heaviest_unique [OF child.hyps(1)] child.IH show ?case by blast
qed

lemma ghost_path_leaf: "ghost_path kids votes r h \<Longrightarrow> kids h = {}"
  by (induction rule: ghost_path.induct)

lemma ghost_path_last:
  "ghost_path kids votes r h \<Longrightarrow> h = r \<or> (\<exists>p. h \<in> kids p)"
  by (induction rule: ghost_path.induct) (auto simp: heaviest_def)

lemma ghost_descend_path:
  assumes "ghost_descend fuel (ghost_children min_score weights index) weights index r rs = Inr (h, hs)"
  shows "ghost_path (\<lambda>p. set (index_children min_score weights index p)) (weight_nat weights) r h"
    and "h = r \<and> hs = rs \<or> (\<exists>p. h \<in> set (index_children min_score weights index p)) \<and>
      hs = (case tbl_get index h of Some (_, s) \<Rightarrow> s | None \<Rightarrow> 0)"
proof -
  have "ghost_path (\<lambda>p. set (index_children min_score weights index p)) (weight_nat weights) r h \<and>
      (h = r \<and> hs = rs \<or> (\<exists>p. h \<in> set (index_children min_score weights index p)) \<and>
      hs = (case tbl_get index h of Some (_, s) \<Rightarrow> s | None \<Rightarrow> 0))"
    using assms
  proof (induction fuel arbitrary: r rs)
    case (Suc fuel)
    let ?cs = "index_children min_score weights index r"
    show ?case
    proof (cases "?cs = []")
      case True
      with Suc.prems show ?thesis by (auto simp: ghost_children_correct intro: ghost_path.leaf)
    next
      case False
      then obtain c where c: "ghost_best weights ?cs None = Some c"
        using ghost_best_None(1) by blast
      with Suc.prems False have "ghost_descend fuel (ghost_children min_score weights index) weights index c
          (case tbl_get index c of Some (_, s) \<Rightarrow> s | None \<Rightarrow> 0) = Inr (h, hs)"
        by (simp add: ghost_children_correct)
      from Suc.IH [OF this] ghost_best_None(2) [OF c] show ?thesis
        by (auto intro: ghost_path.child simp: heaviest_def)
    qed
  qed simp
  then show "ghost_path (\<lambda>p. set (index_children min_score weights index p)) (weight_nat weights) r h"
    and "h = r \<and> hs = rs \<or> (\<exists>p. h \<in> set (index_children min_score weights index p)) \<and>
      hs = (case tbl_get index h of Some (_, s) \<Rightarrow> s | None \<Rightarrow> 0)"
    by blast+
qed

lemma ghost_descend_total:
  assumes ok: "index_ok index" and dist: "distinct (map fst index)"
    and fuel: "tbl_get index r \<noteq> None \<longrightarrow> card (idx.above index r) < fuel"
    and fuel2: "tbl_get index r = None \<longrightarrow> length index < fuel"
  shows "\<exists>x. ghost_descend fuel (ghost_children min_score weights index) weights index r rs = Inr x"
  using fuel fuel2
proof (induction fuel arbitrary: r rs)
  case 0
  then show ?case by auto
next
  case (Suc fuel)
  let ?cs = "index_children min_score weights index r"
  show ?case
  proof (cases "?cs = []")
    case True
    then show ?thesis by (simp add: ghost_children_correct)
  next
    case False
    then obtain c where c: "ghost_best weights ?cs None = Some c"
      using ghost_best_None(1) by blast
    then have "c \<in> set ?cs" using ghost_best_None(2) by (auto simp: heaviest_def)
    from index_children_parent(1) [OF this dist] obtain s where s: "tbl_get index c = Some (r, s)" by blast
    have "card (idx.above index c) < fuel"
    proof (cases "tbl_get index r")
      case None
      with Suc.prems(2) have "length index \<le> fuel" by simp
      with idx.above_dom [of index c] s ok card_dom_index [of index] show ?thesis by fastforce
    next
      case (Some e)
      obtain q t where "e = (q, t)" by force
      with Some Suc.prems(1) idx.above_child [of index c r s q t] s ok show ?thesis by simp
    qed
    with Suc.IH [of c] s have "\<exists>x. ghost_descend fuel (ghost_children min_score weights index) weights index c s = Inr x"
      by simp
    then show ?thesis using c False s by (simp add: ghost_children_correct)
  qed
qed

section \<open>The head\<close>

definition block_children ::
  "(b256, child_index_entry) table \<Rightarrow> nat \<Rightarrow> (b256 \<Rightarrow> nat) \<Rightarrow> b256 \<Rightarrow> b256 set" where
  "block_children t min_score votes p =
     {c. p \<noteq> 0 \<and> min_score \<le> votes c \<and> (\<exists>e. tbl_get t c = Some e \<and> ci_parent_root e = p)}"

lemma set_index_children:
  assumes "tbl_wf t" and "\<And>r. weight_nat weights r = votes r"
  shows "set (index_children min_score weights (get_index_map t) p) =
      block_children t (unat min_score) votes p"
proof -
  have "set (index_children min_score weights (get_index_map t) p) =
      set (children_of min_score weights t p)"
    by (simp add: get_index_map_eq [OF assms(1)] index_children_def children_of_def filter_map comp_def
        case_prod_beta')
  also have "\<dots> = block_children t (unat min_score) votes p"
    using assms(2) by (auto simp: set_children_of [OF assms(1)] block_children_def word_le_nat_alt
        word_less_nat_alt not_less unat_eq_zero simp flip: assms(2))
  finally show ?thesis .
qed

lemma unat_vote_count:
  assumes "length atts < 2 ^ 64"
  shows "unat (of_nat (vote_count index start_slot atts r) :: u64) = vote_count index start_slot atts r"
proof -
  have "vote_count index start_slot atts r < 2 ^ 64"
    unfolding vote_count_def by (rule le_less_trans [OF length_filter_le assms])
  then show ?thesis by (simp add: unat_of_nat take_bit_eq_mod)
qed

lemma vote_count_mset:
  "mset atts = mset atts' \<Longrightarrow> vote_count index start_slot atts r = vote_count index start_slot atts' r"
  by (metis mset_filter size_mset vote_count_def)

text \<open>The head in full: the search ends, and it ends at the last block of the greedy path.\<close>

lemma compute_lmd_ghost_head_path:
  assumes wf: "tbl_wf (db_children_index db)"
    and ok: "index_ok (get_index_map (db_children_index db))"
    and few: "length atts < 2 ^ 64"
    and start: "ghost_start db (get_index_map (db_children_index db)) provided_root = Inr (root, start_slot)"
  defines "votes \<equiv> vote_count (get_index_map (db_children_index db)) start_slot atts"
  shows "\<exists>h hs. compute_lmd_ghost_head atts provided_root min_score db = Inr (h, hs) \<and>
      ghost_path (block_children (db_children_index db) (unat min_score) votes) votes root h \<and>
      (h = root \<and> hs = start_slot \<or> (\<exists>e. tbl_get (db_children_index db) h = Some e \<and> hs = ci_slot e))"
proof -
  let ?t = "db_children_index db"
  let ?index = "get_index_map ?t"
  from ghost_weights_total [OF ok] obtain w where w: "ghost_weights ?index start_slot atts = Inr w" by blast
  have count: "weight_nat w r = votes r" for r
    unfolding votes_def ghost_weights_count [OF ok w] by (rule unat_vote_count [OF few])
  have kids: "(\<lambda>p. set (index_children min_score w ?index p)) = block_children ?t (unat min_score) votes"
    by (rule ext) (rule set_index_children [OF wf count])
  have dist: "distinct (map fst ?index)" using get_index_map_wf [OF wf] by (rule tbl_wf_distinct)
  have "\<exists>x. ghost_descend (Suc (length ?index)) (ghost_children min_score w ?index) w ?index root start_slot = Inr x"
  proof (rule ghost_descend_total [OF ok dist])
    show "tbl_get ?index root \<noteq> None \<longrightarrow> card (idx.above ?index root) < Suc (length ?index)"
      using idx.above_dom [of ?index root] ok card_dom_index [of ?index] by fastforce
  qed simp
  then obtain h hs where run:
    "ghost_descend (Suc (length ?index)) (ghost_children min_score w ?index) w ?index root start_slot = Inr (h, hs)"
    by force
  have path: "ghost_path (block_children ?t (unat min_score) votes) votes root h"
    using ghost_descend_path(1) [OF run] by (simp add: kids count)
  have "h = root \<and> hs = start_slot \<or> (\<exists>e. tbl_get ?t h = Some e \<and> hs = ci_slot e)"
  proof (cases "h = root \<and> hs = start_slot")
    case False
    then obtain p where hs: "hs = (case tbl_get ?index h of Some (_, s) \<Rightarrow> s | None \<Rightarrow> 0)"
      and h: "h \<in> block_children ?t (unat min_score) votes p"
      using ghost_descend_path(2) [OF run] by (auto simp flip: kids)
    from h obtain e where "tbl_get ?t h = Some e" by (auto simp: block_children_def)
    with hs wf show ?thesis by (simp add: tbl_get_index_map)
  qed simp
  moreover have "compute_lmd_ghost_head atts provided_root min_score db = Inr (h, hs)"
    using start w run by (simp add: compute_lmd_ghost_head_def)
  ultimately show ?thesis using path by blast
qed

end
