(* ===== verification/Lean_Attestation.thy ===== *)
theory Lean_Attestation
  imports Lean_Ghost
begin

text \<open>
  Attestations and blocks entering the store (\<open>fork_choice/lean/src/store.rs\<close>): validation,
  gossiped attestations and aggregates, \<open>on_block\<close>, the attestation a validator produces, block
  weights and the pruning of old attestation data.
\<close>

section \<open>Validation\<close>

text \<open>\<open>while let Some(block)\<close> along the parents. A walk of more steps than there are blocks has met
  a block twice and would not end.\<close>

fun ancestor_walk :: "nat \<Rightarrow> (b256, signed_block) table \<Rightarrow> checkpoint \<Rightarrow> b256 \<Rightarrow> store_error + bool" where
  "ancestor_walk 0 blocks ancestor root = Inl Diverges"
| "ancestor_walk (Suc fuel) blocks ancestor root =
     (case tbl_get blocks root of
        None \<Rightarrow> Inr False
      | Some sb \<Rightarrow>
          if blk_slot (sb_block sb) = cp_slot ancestor then Inr (root = cp_root ancestor)
          else if blk_slot (sb_block sb) < cp_slot ancestor then Inr False
          else ancestor_walk fuel blocks ancestor (blk_parent_root (sb_block sb)))"

definition checkpoint_is_ancestor :: "lean_db \<Rightarrow> checkpoint \<Rightarrow> checkpoint \<Rightarrow> store_error + bool" where
  "checkpoint_is_ancestor db ancestor descendant =
     (if cp_slot descendant < cp_slot ancestor then Inr False
      else ancestor_walk (Suc (length (db_blocks db))) (db_blocks db) ancestor (cp_root descendant))"

definition ensure_ancestor :: "lean_db \<Rightarrow> checkpoint \<Rightarrow> checkpoint \<Rightarrow> store_error \<Rightarrow> store_error + unit" where
  "ensure_ancestor db ancestor descendant e =
     and_then (checkpoint_is_ancestor db ancestor descendant) (\<lambda>b. ensure b e)"

definition validate_attestation :: "lean_db \<Rightarrow> signed_attestation \<Rightarrow> store_error + unit" where
  "validate_attestation db sa =
     (let d = sa_message sa; source = ad_source d; target = ad_target d; head = ad_head d;
          known = table_contains_key (db_blocks db)
      in
      and_then (ensure (known (cp_root source)) UnknownSource) (\<lambda>_.
      and_then (ensure (known (cp_root target)) UnknownTarget) (\<lambda>_.
      and_then (ensure (known (cp_root head)) UnknownHead) (\<lambda>_.
      and_then (ensure (cp_slot source \<le> cp_slot target) SourceAfterTarget) (\<lambda>_.
      and_then (ensure (cp_slot target \<le> cp_slot head) HeadBeforeTarget) (\<lambda>_.
      and_then (get_block db (cp_root source)) (\<lambda>source_block.
      and_then (get_block db (cp_root target)) (\<lambda>target_block.
      and_then (get_block db (cp_root head)) (\<lambda>head_block.
      and_then (ensure (blk_slot source_block = cp_slot source) SourceSlotMismatch) (\<lambda>_.
      and_then (ensure (blk_slot target_block = cp_slot target) TargetSlotMismatch) (\<lambda>_.
      and_then (ensure (blk_slot head_block = cp_slot head) HeadSlotMismatch) (\<lambda>_.
      and_then (if known (cp_root source) \<and> known (cp_root target)
                then ensure_ancestor db source target SourceNotAncestor else Inr ()) (\<lambda>_.
      and_then (if known (cp_root target) \<and> known (cp_root head)
                then ensure_ancestor db target head TargetNotAncestor else Inr ()) (\<lambda>_.
      and_then (get_finalized db) (\<lambda>latest_finalized_checkpoint.
      and_then (ensure_ancestor db latest_finalized_checkpoint head FinalizedNotAncestor) (\<lambda>_.
      and_then (ensure (blk_slot head_block \<le> ad_slot d) SlotBeforeHead) (\<lambda>_.
      and_then (get_time db) (\<lambda>current_time.
      ensure (ad_slot d * INTERVALS_PER_SLOT \<le> current_time + GOSSIP_DISPARITY_INTERVALS)
        AttestationInFuture))))))))))))))))))"

section \<open>Gossiped aggregates\<close>

definition participant_keys :: "validator list \<Rightarrow> single_message_aggregate \<Rightarrow> store_error + public_key list" where
  "participant_keys vals p =
     try_map (\<lambda>v. ok_or (map_option attestation_public_key (list_get vals (unat v))) ValidatorNotFound)
       (to_validator_indices p)"

text \<open>Another vote of the validator for the same slot is already in one of the payload tables.\<close>

definition already_voted_this_slot :: "lean_db \<Rightarrow> u64 \<Rightarrow> b256 \<Rightarrow> u64 \<Rightarrow> bool" where
  "already_voted_this_slot db validator root slot =
     (\<exists>key \<in> set (map fst (db_new_payloads db) @ map fst (db_known_payloads db)).
        validator_id key = validator \<and> data_root key \<noteq> root \<and>
        (case tbl_get (db_attestation_data db) (data_root key) of
           Some existing \<Rightarrow> ad_slot existing = slot | None \<Rightarrow> False))"

definition add_new_payload :: "u64 \<Rightarrow> b256 \<Rightarrow> u64 \<Rightarrow> single_message_aggregate \<Rightarrow> lean_db \<Rightarrow> lean_db" where
  "add_new_payload slot root validator p db =
     (if already_voted_this_slot db validator root slot then db
      else db\<lparr> db_new_payloads := tbl_push (SignatureKey validator root) p (db_new_payloads db) \<rparr>)"

definition check_gossip_aggregate ::
  "lean_env \<Rightarrow> ('k, 'x, 's, 'm) pq_env \<Rightarrow> signed_aggregated_attestation \<Rightarrow> bool \<Rightarrow> lean_db \<Rightarrow>
   store_error + unit" where
  "check_gossip_aggregate E Q saa verify db =
     (let d = saa_data saa; p = saa_proof saa in
      and_then (validate_attestation db
                  \<lparr> sa_validator_id = 0, sa_message = d, sa_signature = blank_signature \<rparr>) (\<lambda>_.
      and_then (ensure (to_validator_indices p \<noteq> []) NoParticipants) (\<lambda>_.
      and_then (get_state db (cp_root (ad_target d))) (\<lambda>s.
      and_then (participant_keys (validators s) p) (\<lambda>public_keys.
      if verify
      then map_err ProofInvalid
             (and_then (type_1_from_wire Q (sma_proof p) public_keys) (type_1_verify Q))
      else Inr ())))))"

definition on_gossip_aggregated_attestation_core ::
  "lean_env \<Rightarrow> ('k, 'x, 's, 'm) pq_env \<Rightarrow> signed_aggregated_attestation \<Rightarrow> bool \<Rightarrow> unit store_prog" where
  "on_gossip_aggregated_attestation_core E Q saa verify =
     (let d = saa_data saa; p = saa_proof saa; root = hash_attestation_data E d in
      pbind (get_db (check_gossip_aggregate E Q saa verify)) (\<lambda>_.
      pbind (put_db (\<lambda>db. db\<lparr> db_attestation_data := tbl_insert root d (db_attestation_data db) \<rparr>)) (\<lambda>_.
      put_db (fold (\<lambda>v. add_new_payload (ad_slot d) root v p) (to_validator_indices p)))))"

definition on_gossip_aggregated_attestation ::
  "lean_env \<Rightarrow> ('k, 'x, 's, 'm) pq_env \<Rightarrow> signed_aggregated_attestation \<Rightarrow> unit store_prog" where
  "on_gossip_aggregated_attestation E Q saa = on_gossip_aggregated_attestation_core E Q saa True"

definition on_gossip_aggregated_attestation_without_verification ::
  "lean_env \<Rightarrow> ('k, 'x, 's, 'm) pq_env \<Rightarrow> signed_aggregated_attestation \<Rightarrow> unit store_prog" where
  "on_gossip_aggregated_attestation_without_verification E Q saa =
     on_gossip_aggregated_attestation_core E Q saa False"

section \<open>Gossiped attestations\<close>

text \<open>The remainder panics when there are no committees.\<close>

definition compute_subnet_id :: "u64 \<Rightarrow> u64 \<Rightarrow> store_error + u64" where
  "compute_subnet_id vid num_committees =
     (if num_committees = 0 then Inl PanicStore else Inr (vid mod num_committees))"

definition check_gossip_attestation ::
  "lean_env \<Rightarrow> ('k, 'x, 's, 'm) pq_env \<Rightarrow> signed_attestation \<Rightarrow> lean_db \<Rightarrow> store_error + unit" where
  "check_gossip_attestation E Q sa db =
     (let vid = sa_validator_id sa; d = sa_message sa in
      and_then (validate_attestation db sa) (\<lambda>_.
      and_then (get_state db (cp_root (ad_target d))) (\<lambda>key_state.
      and_then (ensure (vid < of_nat (length (validators key_state))) ValidatorNotFound) (\<lambda>_.
      and_then (ok_or (list_get (validators key_state) (unat vid)) PanicStore) (\<lambda>v.
      and_then (map_err ProofInvalid
                  (signature_verify Q (sa_signature sa) (attestation_public_key v) (ucast (ad_slot d))
                     (hash_attestation_data E d))) (\<lambda>valid.
      ensure valid SignatureInvalid))))))"

definition on_gossip_attestation ::
  "lean_env \<Rightarrow> ('k, 'x, 's, 'm) pq_env \<Rightarrow> net_spec \<Rightarrow> signed_attestation \<Rightarrow> bool \<Rightarrow> unit store_prog" where
  "on_gossip_attestation E Q N sa is_aggregator =
     (let vid = sa_validator_id sa; d = sa_message sa; root = hash_attestation_data E d in
      pbind (get_db (check_gossip_attestation E Q sa)) (\<lambda>_.
      pbind (get_db (\<lambda>db. Inr (db_validator_id db))) (\<lambda>own.
      pbind (case own of
               Some (Some current_id) \<Rightarrow>
                 if is_aggregator
                 then pbind (plift (compute_subnet_id current_id (committee_count N))) (\<lambda>current_validator_subnet.
                      pbind (plift (compute_subnet_id vid (committee_count N))) (\<lambda>attester_subnet.
                      if current_validator_subnet = attester_subnet
                      then put_db (\<lambda>db. db\<lparr> db_gossip_signatures :=
                             tbl_insert (signature_key_new E vid d) (sa_signature sa)
                               (db_gossip_signatures db) \<rparr>)
                      else preturn ()))
                 else preturn ()
             | _ \<Rightarrow> preturn ()) (\<lambda>_.
      put_db (\<lambda>db. db\<lparr> db_attestation_data := tbl_insert root d (db_attestation_data db) \<rparr>)))))"

section \<open>Blocks\<close>

text \<open>The loop over \<open>seen_attestation_data\<close> fails at the first data root met twice.\<close>

definition check_duplicates :: "lean_env \<Rightarrow> aggregated_attestation list \<Rightarrow> store_error + unit" where
  "check_duplicates E atts =
     and_then (try_fold (\<lambda>seen a. let root = hash_attestation_data E (aa_message a) in
                 and_then (ensure (root \<notin> set seen) DuplicateAttestationData) (\<lambda>_. Inr (root # seen)))
               [] atts) (\<lambda>_. Inr ())"

definition add_block_payload :: "lean_env \<Rightarrow> aggregated_attestation \<Rightarrow> lean_db \<Rightarrow> lean_db" where
  "add_block_payload E a db =
     (let root = hash_attestation_data E (aa_message a);
          payload = \<lparr> participants = aggregation_bits a, sma_proof = [] \<rparr>
      in db\<lparr> db_attestation_data := tbl_insert root (aa_message a) (db_attestation_data db),
             db_known_payloads :=
               fold (\<lambda>v. tbl_push (SignatureKey (of_nat v) root) payload)
                 (bits_indices (aggregation_bits a)) (db_known_payloads db) \<rparr>)"

definition check_block ::
  "lean_env \<Rightarrow> ('k, 'x, 's, 'm) pq_env \<Rightarrow> signed_block \<Rightarrow> bool \<Rightarrow> lean_db \<Rightarrow>
   store_error + (lean_state \<times> checkpoint)" where
  "check_block E Q sb verify db =
     (let b = sb_block sb in
      and_then (get_state db (blk_parent_root b)) (\<lambda>parent_state.
      and_then (ensure (saturating_sub (blk_slot b) (st_slot parent_state) \<le> MAX_HISTORICAL_BLOCK_HASHES)
                  TooFarFromParent) (\<lambda>_.
      and_then (get_time db) (\<lambda>time.
      and_then (ensure (blk_slot b \<le> time div INTERVALS_PER_SLOT + 1) BlockInFuture) (\<lambda>_.
      and_then (map_err SignedBlockInvalid (verify_signatures E Q sb parent_state verify)) (\<lambda>_.
      and_then (map_err Transition (state_transition E b True parent_state)) (\<lambda>post_state.
      and_then (get_justified db) (\<lambda>justified.
      Inr (post_state,
           if cp_slot justified < cp_slot (latest_justified post_state)
              \<and> table_contains_key (db_blocks db) (cp_root (latest_justified post_state))
           then latest_justified post_state else justified)))))))))"

definition on_block ::
  "lean_env \<Rightarrow> ('k, 'x, 's, 'm) pq_env \<Rightarrow> signed_block \<Rightarrow> bool \<Rightarrow> unit store_prog" where
  "on_block E Q sb verify =
     (let b = sb_block sb; block_root = hash_block E b; atts = attestations (blk_body b) in
      pbind (get_db (\<lambda>db. Inr (table_contains_key (db_blocks db) block_root))) (\<lambda>known.
      if known then preturn ()
      else
        pbind (get_db (check_block E Q sb verify)) (\<lambda>(post_state, justified).
        pbind (put_db (block_insert_ref E block_root sb)) (\<lambda>_.
        pbind (put_db (\<lambda>db. db\<lparr> db_states := tbl_insert block_root post_state (db_states db),
                                 db_latest_justified := Some justified \<rparr>)) (\<lambda>_.
        pbind (plift (check_duplicates E atts)) (\<lambda>_.
        pbind (put_db (fold (add_block_payload E) atts)) (\<lambda>_.
        update_head)))))))"

section \<open>Producing an attestation\<close>

definition produce_attestation_data :: "lean_db \<Rightarrow> u64 \<Rightarrow> store_error + attestation_data" where
  "produce_attestation_data db slot =
     and_then (get_head db) (\<lambda>head_root.
     and_then (get_state db head_root) (\<lambda>head_state.
     let source = (if hdr_slot (latest_block_header head_state) = 0
                   then (latest_justified head_state)\<lparr> cp_root := head_root \<rparr>
                   else latest_justified head_state)
     in
     and_then (get_attestation_target db) (\<lambda>target.
     and_then (ensure (cp_slot source \<le> cp_slot target) SourceAfterTarget) (\<lambda>_.
     and_then (get_block db head_root) (\<lambda>head_block.
     Inr \<lparr> ad_slot = slot, ad_head = \<lparr> cp_root = head_root, cp_slot = blk_slot head_block \<rparr>,
           ad_target = target, ad_source = source \<rparr>)))))"

section \<open>Weights and pruning\<close>

definition block_index :: "(b256, signed_block) table \<Rightarrow> index_map" where
  "block_index blocks =
     map (\<lambda>(r, sb). (r, (blk_parent_root (sb_block sb), blk_slot (sb_block sb)))) blocks"

definition compute_block_weights :: "lean_db \<Rightarrow> store_error + (b256, u64) table" where
  "compute_block_weights db =
     (let attestations = extract_attestations_from_aggregated_payloads
            (payload_iter_keys (db_known_payloads db)) db in
      and_then (get_finalized db) (\<lambda>fin.
      try_fold (\<lambda>weights (_, d).
          add_vote (Suc (length (db_blocks db))) (block_index (db_blocks db)) (cp_slot fin)
            (cp_root (ad_head d)) weights) [] attestations))"

definition stale_roots :: "lean_db \<Rightarrow> u64 \<Rightarrow> u64 \<Rightarrow> b256 list" where
  "stale_roots db finalized_slot cutoff_slot =
     (let protected_roots = map data_root (payload_iter_keys (db_known_payloads db)) @
                            map (\<lambda>(key, _). data_root key) (db_new_payloads db)
      in map fst (filter (\<lambda>(root, d).
             (cp_slot (ad_target d) \<le> finalized_slot \<or> ad_slot d < cutoff_slot)
             \<and> root \<notin> set protected_roots) (db_attestation_data db)))"

definition prune_stale_attestation_data :: "unit store_prog" where
  "prune_stale_attestation_data =
     pbind (get_db get_finalized) (\<lambda>fin.
     let finalized_slot = cp_slot fin in
     pbind (put_db (\<lambda>db. db\<lparr> db_children_index := snd (prune_finalized finalized_slot (db_children_index db)) \<rparr>)) (\<lambda>_.
     pbind (pread (\<lambda>st. Inr (cp_slot (ls_head_checkpoint st)))) (\<lambda>head_slot.
     let cutoff_slot = max finalized_slot (saturating_sub head_slot ATTESTATION_RETENTION_SLOTS) in
     pbind (get_db (\<lambda>db. Inr (stale_roots db finalized_slot cutoff_slot))) (\<lambda>stale.
     if stale = [] then preturn ()
     else put_db (\<lambda>db. db\<lparr>
       db_attestation_data := tbl_retain (\<lambda>root _. root \<notin> set stale) (db_attestation_data db),
       db_new_payloads := tbl_retain (\<lambda>key _. data_root key \<notin> set stale) (db_new_payloads db),
       db_known_payloads := tbl_retain (\<lambda>key _. data_root key \<notin> set stale) (db_known_payloads db),
       db_gossip_signatures := gossip_retain (\<lambda>key. data_root key \<notin> set stale) (db_gossip_signatures db) \<rparr>)))))"

end
