(* ===== verification/Lean_Aggregation.thy ===== *)
theory Lean_Aggregation
  imports Lean_Attestation
begin

text \<open>
  Aggregation of gossiped signatures (\<open>fork_choice/lean/src/store.rs\<close>): \<open>state_aggregate\<close> and
  \<open>aggregate\<close>, which prove under the store's lock, and \<open>aggregate_prepare\<close>,
  \<open>prove_aggregation_jobs\<close> and \<open>aggregate_apply\<close>, which prove outside of it. Maps keyed by
  attestation data are association lists in the order of first insertion, sets of proofs are
  lists without repetition.
\<close>

section \<open>Maps and sets without an order on the keys\<close>

text \<open>\<open>*map.entry(k).or_insert(v0) = f(..)\<close>\<close>

fun al_entry :: "'k \<Rightarrow> 'v \<Rightarrow> ('v \<Rightarrow> 'v) \<Rightarrow> ('k \<times> 'v) list \<Rightarrow> ('k \<times> 'v) list" where
  "al_entry k v0 f [] = [(k, f v0)]"
| "al_entry k v0 f ((k', v) # m) = (if k = k' then (k', f v) # m else (k', v) # al_entry k v0 f m)"

definition set_insert :: "'a \<Rightarrow> 'a list \<Rightarrow> 'a list" where
  "set_insert x xs = (if x \<in> set xs then xs else xs @ [x])"

definition set_extend :: "'a list \<Rightarrow> 'a list \<Rightarrow> 'a list" where
  "set_extend ys xs = fold set_insert ys xs"

lemma set_set_insert [simp]: "set (set_insert x xs) = insert x (set xs)"
  by (auto simp: set_insert_def)

lemma set_set_extend [simp]: "set (set_extend ys xs) = set ys \<union> set xs"
  by (induction ys arbitrary: xs) (auto simp: set_extend_def)

lemma al_entry_get:
  "map_of (al_entry k v0 f m) k' =
    (if k' = k then Some (f (case map_of m k of None \<Rightarrow> v0 | Some v \<Rightarrow> v)) else map_of m k')"
proof (induction m)
  case (Cons p m)
  obtain j v where "p = (j, v)" by force
  then show ?case using Cons by (cases "k = j"; cases "k' = j") simp_all
qed simp

lemma al_entry_keys: "fst ` set (al_entry k v0 f m) = insert k (fst ` set m)"
proof (induction m)
  case (Cons p m)
  obtain j v where "p = (j, v)" by force
  then show ?case using Cons by (cases "k = j") auto
qed simp

lemma al_entry_distinct: "distinct (map fst m) \<Longrightarrow> distinct (map fst (al_entry k v0 f m))"
proof (induction m)
  case (Cons p m)
  obtain j v where p: "p = (j, v)" by force
  show ?case
  proof (cases "k = j")
    case False
    have "j \<notin> fst ` set (al_entry k v0 f m)"
      using Cons.prems False by (simp add: p al_entry_keys)
    with Cons False show ?thesis by (simp add: p)
  qed (use Cons.prems in \<open>simp add: p\<close>)
qed simp

section \<open>Pools\<close>

definition group_by_data :: "aggregated_attestations list \<Rightarrow> (attestation_data \<times> u64 list) list" where
  "group_by_data atts =
     fold (\<lambda>a. al_entry (ags_data a) [] (\<lambda>ids. ids @ [ags_validator_id a])) atts []"

text \<open>The votes of a payload table by attestation data; a key whose data is unknown is left out.\<close>

definition payload_pool ::
  "lean_db \<Rightarrow> payloads \<Rightarrow> (attestation_data \<times> single_message_aggregate list) list" where
  "payload_pool db t =
     fold (\<lambda>(key, proofs) m.
             (case tbl_get (db_attestation_data db) (data_root key) of
                Some d \<Rightarrow> al_entry d [] (set_extend proofs) m | None \<Rightarrow> m)) t []"

definition gossip_attestations :: "lean_db \<Rightarrow> aggregated_attestations list" where
  "gossip_attestations db =
     List.map_filter (\<lambda>key.
         map_option (\<lambda>d. \<lparr> ags_validator_id = validator_id key, ags_data = d \<rparr>)
           (tbl_get (db_attestation_data db) (data_root key)))
       (gossip_get_keys (db_gossip_signatures db))"

section \<open>Aggregating one attestation data\<close>

type_synonym raw_entry = "u64 \<times> public_key \<times> signature"

text \<open>The raw signatures of the validators that no child proof covers.\<close>

definition collect_raw ::
  "bool \<Rightarrow> lean_state \<Rightarrow> (signature_key, signature) table \<Rightarrow> b256 \<Rightarrow> u64 list option \<Rightarrow> u64 set \<Rightarrow>
   raw_entry list \<times> u64 set" where
  "collect_raw recursive s gossip root ids covered =
     (case ids of None \<Rightarrow> ([], covered)
      | Some validator_ids \<Rightarrow>
          fold (\<lambda>vid (raw, covered).
              if recursive \<and> vid \<in> covered then (raw, covered)
              else
                (case (tbl_get gossip (SignatureKey vid root), list_get (validators s) (unat vid)) of
                   (Some sig, Some v) \<Rightarrow>
                     (raw @ [(vid, attestation_public_key v, sig)],
                      if recursive then insert vid covered else covered)
                 | _ \<Rightarrow> (raw, covered)))
            (sort validator_ids) ([], covered))"

definition set_bits :: "lean_env \<Rightarrow> bit_list \<Rightarrow> u64 list \<Rightarrow> store_error + bit_list" where
  "set_bits E bits ids = try_fold (\<lambda>b vid. ok_or (bl_set E b (unat vid) True) BitListError) bits ids"

definition participant_bits :: "lean_env \<Rightarrow> lean_state \<Rightarrow> u64 list \<Rightarrow> store_error + bit_list" where
  "participant_bits E s ids =
     and_then (ok_or (bl_with_capacity E VALIDATOR_REGISTRY_LIMIT (length (validators s))) BitListError)
       (\<lambda>bits. set_bits E bits ids)"

definition child_wire ::
  "lean_state \<Rightarrow> single_message_aggregate \<Rightarrow> store_error + (byte list \<times> public_key list)" where
  "child_wire s child =
     and_then (participant_keys (validators s) child) (\<lambda>public_keys. Inr (sma_proof child, public_keys))"

definition make_proof ::
  "lean_env \<Rightarrow> ('k, 'x, 's, 'm) pq_env \<Rightarrow> 's list \<Rightarrow> (public_key \<times> signature) list \<Rightarrow> b256 \<Rightarrow> u64 \<Rightarrow> bit_list \<Rightarrow>
   store_error + single_message_aggregate" where
  "make_proof E Q children raw_xmss root slot bits =
     and_then (map_err ProofInvalid (type_1_aggregate Q children raw_xmss root (ucast slot))) (\<lambda>type_one.
     and_then (ok_or (vl_new E PROOF_LIMIT (type_1_to_wire Q type_one)) ListLimit) (\<lambda>wire.
     Inr \<lparr> participants = bits, sma_proof = wire \<rparr>))"

type_synonym pool = "(attestation_data \<times> single_message_aggregate list) list"

definition aggregate_data ::
  "lean_env \<Rightarrow> ('k, 'x, 's, 'm) pq_env \<Rightarrow> lean_state \<Rightarrow> (attestation_data \<times> u64 list) list \<Rightarrow>
   (signature_key, signature) table \<Rightarrow> pool option \<Rightarrow> pool option \<Rightarrow> bool \<Rightarrow> attestation_data \<Rightarrow>
   store_error + signed_aggregated_attestation option" where
  "aggregate_data E Q s groups gossip new_payloads known_payloads recursive d =
     (let root = hash_attestation_data E d;
          extend = (\<lambda>pool (selected, covered).
            case pool of Some payloads \<Rightarrow> extend_proofs_greedily (map_of payloads d) selected covered
            | None \<Rightarrow> (selected, covered));
          (child_proofs, covered) =
            (if recursive then extend known_payloads (extend new_payloads ([], {})) else ([], {}));
          (raw, covered') = collect_raw recursive s gossip root (map_of groups d) covered
      in
      if (if recursive
          then raw = [] \<and> length child_proofs < 2 \<or> child_proofs = [] \<and> length raw \<le> 1
          else raw = [])
      then Inr None
      else
        (let raw_entries = sort_key fst raw in
         and_then (participant_bits E s
                     (if recursive then sorted_list_of_set covered' else map fst raw_entries)) (\<lambda>bits.
         and_then (try_map (\<lambda>child.
                      and_then (child_wire s child) (\<lambda>(wire, public_keys).
                      map_err ProofInvalid (type_1_from_wire Q wire public_keys))) child_proofs) (\<lambda>children.
         and_then (make_proof E Q children (map snd raw_entries) root (ad_slot d) bits) (\<lambda>p.
         Inr (Some \<lparr> saa_data = d, saa_proof = p \<rparr>))))))"

definition state_aggregate ::
  "lean_env \<Rightarrow> ('k, 'x, 's, 'm) pq_env \<Rightarrow> lean_state \<Rightarrow> aggregated_attestations list \<Rightarrow>
   (signature_key, signature) table \<Rightarrow> pool option \<Rightarrow> pool option \<Rightarrow> bool \<Rightarrow>
   store_error + signed_aggregated_attestation list" where
  "state_aggregate E Q s atts gossip new_payloads known_payloads recursive =
     (let groups = group_by_data atts;
          keys = (if recursive
                  then set_extend (case new_payloads of Some m \<Rightarrow> map fst m | None \<Rightarrow> []) (map fst groups)
                  else map fst groups)
      in if keys = [] then Inr []
         else and_then (try_map (aggregate_data E Q s groups gossip new_payloads known_payloads recursive) keys)
                (\<lambda>results. Inr (List.map_filter id results)))"

section \<open>The aggregation step under the lock\<close>

text \<open>The aggregates by signature key, and the data roots they cover.\<close>

definition next_new_payloads :: "lean_env \<Rightarrow> signed_aggregated_attestation list \<Rightarrow> payloads" where
  "next_new_payloads E signed_atts =
     fold (\<lambda>saa. fold (\<lambda>vid. tbl_push (SignatureKey vid (hash_attestation_data E (saa_data saa))) (saa_proof saa))
                   (to_validator_indices (saa_proof saa))) signed_atts []"

definition aggregated_roots :: "lean_env \<Rightarrow> signed_aggregated_attestation list \<Rightarrow> b256 list" where
  "aggregated_roots E signed_atts = map (\<lambda>saa. hash_attestation_data E (saa_data saa)) signed_atts"

definition aggregate ::
  "lean_env \<Rightarrow> ('k, 'x, 's, 'm) pq_env \<Rightarrow> signed_aggregated_attestation list store_prog" where
  "aggregate E Q =
     pbind (get_db (\<lambda>db.
       and_then (get_head db) (\<lambda>head_root.
       and_then (get_state db head_root) (\<lambda>head_state.
       state_aggregate E Q head_state (gossip_attestations db) (db_gossip_signatures db)
         (Some (payload_pool db (db_new_payloads db))) (Some (payload_pool db (db_known_payloads db))) True))))
       (\<lambda>signed_atts.
     pbind (put_db (\<lambda>db.
       let (_, emptied) = payload_drain (db_new_payloads db) in
       db\<lparr> db_new_payloads := fold (\<lambda>(key, proofs). tbl_insert key proofs) (next_new_payloads E signed_atts) emptied,
           db_gossip_signatures :=
             gossip_retain (\<lambda>key. data_root key \<notin> set (aggregated_roots E signed_atts)) (db_gossip_signatures db) \<rparr>))
       (\<lambda>_. preturn signed_atts))"

section \<open>The aggregation step outside the lock\<close>

record aggregation_job =
  job_data :: attestation_data
  job_data_root :: b256
  job_child_wires :: "(byte list \<times> public_key list) list"
  job_raw_xmss :: "(public_key \<times> signature) list"
  job_bits :: bit_list
  job_raw_count :: u64

definition AGG_RECENT_SLOTS :: u64 where
  "AGG_RECENT_SLOTS = 16"

definition prepare_job ::
  "lean_env \<Rightarrow> lean_state \<Rightarrow> (attestation_data \<times> u64 list) list \<Rightarrow> (signature_key, signature) table \<Rightarrow>
   pool \<Rightarrow> pool \<Rightarrow> attestation_data \<Rightarrow> store_error + aggregation_job option" where
  "prepare_job E s groups gossip new_payloads known_payloads d =
     (let root = hash_attestation_data E d;
          (children1, covered1) = extend_proofs_greedily (map_of new_payloads d) [] {};
          (child_proofs, covered) = extend_proofs_greedily (map_of known_payloads d) children1 covered1;
          (raw, covered') = collect_raw True s gossip root (map_of groups d) covered
      in
      if raw = [] \<and> length child_proofs < 2 then Inr None
      else
        (let raw_entries = sort_key fst raw in
         and_then (participant_bits E s (sorted_list_of_set covered')) (\<lambda>bits.
         and_then (try_map (child_wire s) child_proofs) (\<lambda>child_wires.
         Inr (Some \<lparr> job_data = d, job_data_root = root, job_child_wires = child_wires,
                     job_raw_xmss = map snd raw_entries, job_bits = bits,
                     job_raw_count = of_nat (length raw_entries) \<rparr>)))))"

definition aggregate_prepare :: "lean_env \<Rightarrow> lean_db \<Rightarrow> store_error + aggregation_job list" where
  "aggregate_prepare E db =
     and_then (get_head db) (\<lambda>head_root.
     and_then (get_state db head_root) (\<lambda>head_state.
     let groups = group_by_data (gossip_attestations db);
         new_payloads = payload_pool db (db_new_payloads db);
         known_payloads = payload_pool db (db_known_payloads db);
         keys = filter (\<lambda>d. st_slot head_state \<le> ad_slot d + AGG_RECENT_SLOTS)
                  (set_extend (map fst new_payloads) (map fst groups))
     in
     and_then (try_map (prepare_job E head_state groups (db_gossip_signatures db) new_payloads known_payloads)
                 keys) (\<lambda>jobs.
     Inr (sort_desc (\<lambda>job. ad_slot (job_data job)) (List.map_filter id jobs)))))"

definition prove_aggregation_job ::
  "lean_env \<Rightarrow> ('k, 'x, 's, 'm) pq_env \<Rightarrow> aggregation_job \<Rightarrow> store_error + signed_aggregated_attestation" where
  "prove_aggregation_job E Q job =
     and_then (map_err ProofInvalid
                 (try_map (\<lambda>(wire, public_keys). type_1_from_wire Q wire public_keys) (job_child_wires job)))
       (\<lambda>children.
     and_then (make_proof E Q children (job_raw_xmss job) (job_data_root job) (ad_slot (job_data job))
                 (job_bits job)) (\<lambda>p.
     Inr \<lparr> saa_data = job_data job, saa_proof = p \<rparr>))"

definition prove_aggregation_jobs ::
  "lean_env \<Rightarrow> ('k, 'x, 's, 'm) pq_env \<Rightarrow> aggregation_job list \<Rightarrow>
   store_error + signed_aggregated_attestation list" where
  "prove_aggregation_jobs E Q jobs = try_map (prove_aggregation_job E Q) jobs"

definition aggregate_apply :: "lean_env \<Rightarrow> signed_aggregated_attestation list \<Rightarrow> unit store_prog" where
  "aggregate_apply E signed_atts =
     put_db (\<lambda>db. db\<lparr>
       db_new_payloads :=
         fold (\<lambda>(key, proofs) t.
                 tbl_insert key (set_extend proofs (case tbl_get t key of None \<Rightarrow> [] | Some ps \<Rightarrow> ps)) t)
           (next_new_payloads E signed_atts) (db_new_payloads db),
       db_gossip_signatures :=
         gossip_retain (\<lambda>key. data_root key \<notin> set (aggregated_roots E signed_atts)) (db_gossip_signatures db) \<rparr>)"

end
