(* ===== verification/Lean_Production.thy ===== *)
theory Lean_Production
  imports Lean_Aggregation
begin

text \<open>
  Block production (\<open>fork_choice/lean/src/store.rs\<close>): the selection of attestations, round based
  or tiered, the selection of their proofs, and the assembly of the block.
\<close>

section \<open>Selecting proofs\<close>

text \<open>\<open>best_proof\<close> and \<open>max_intersection\<close> of the inner loop: the first candidate of the largest
  intersection with the uncovered validators.\<close>

fun best_cover ::
  "u64 list \<Rightarrow> single_message_aggregate list \<Rightarrow> (single_message_aggregate \<times> u64 list) option \<Rightarrow>
   (single_message_aggregate \<times> u64 list) option" where
  "best_cover uncovered [] best = best"
| "best_cover uncovered (p # ps) best =
     (let intersection = filter (\<lambda>v. v \<in> set (to_validator_indices p)) uncovered;
          max_len = (case best of None \<Rightarrow> 0 | Some (_, m) \<Rightarrow> length m)
      in best_cover uncovered ps (if max_len < length intersection then Some (p, intersection) else best))"

definition intersects :: "u64 list \<Rightarrow> single_message_aggregate \<times> u64 list \<Rightarrow> bool" where
  "intersects us = (\<lambda>(p, m). m \<noteq> [] \<and> m = filter (\<lambda>v. v \<in> set (to_validator_indices p)) us)"

lemma best_cover_inv:
  "best_cover us ps best = Some c \<Longrightarrow> pred_option (intersects us) best \<Longrightarrow>
    intersects us c \<and> (fst c \<in> set ps \<or> best = Some c)"
proof (induction ps arbitrary: best)
  case (Cons q ps)
  let ?c = "(q, filter (\<lambda>v. v \<in> set (to_validator_indices q)) us)"
  let ?best' = "if (case best of None \<Rightarrow> 0 | Some (_, m) \<Rightarrow> length m) < length (snd ?c) then Some ?c else best"
  have "pred_option (intersects us) ?best'"
    using Cons.prems(2) by (cases "snd ?c = []") (simp_all add: intersects_def)
  moreover have "best_cover us ps ?best' = Some c"
    using Cons.prems(1) by (simp only: best_cover.simps Let_def snd_conv)
  ultimately have "intersects us c \<and> (fst c \<in> set ps \<or> ?best' = Some c)" by (intro Cons.IH)
  then show ?case by (fastforce split: if_splits)
qed simp

lemma best_cover_Some:
  assumes "best_cover us ps None = Some (p, m)"
  shows "m \<noteq> []" "m = filter (\<lambda>v. v \<in> set (to_validator_indices p)) us" "p \<in> set ps"
  using best_cover_inv [OF assms] unfolding intersects_def by auto

lemma best_cover_shrinks:
  assumes "best_cover us ps None = Some (p, m)"
  shows "length (filter (\<lambda>v. v \<notin> set m) us) < length us"
proof -
  obtain v where v: "v \<in> set m" using best_cover_Some(1) [OF assms] by (cases m) auto
  then have "v \<in> set us" by (subst (asm) best_cover_Some(2) [OF assms]) simp
  then show ?thesis by (rule length_filter_less) (use v in simp)
qed

function cover_loop ::
  "payloads \<Rightarrow> b256 \<Rightarrow> attestation_data \<Rightarrow> u64 list \<Rightarrow>
   (aggregated_attestation \<times> single_message_aggregate) list" where
  "cover_loop known root d [] = []"
| "cover_loop known root d (target_id # us) =
     (case tbl_get known (SignatureKey target_id root) of
        None \<Rightarrow> cover_loop known root d us
      | Some candidates \<Rightarrow>
          (case best_cover (target_id # us) candidates None of
             Some (p, max_intersection) \<Rightarrow>
               (\<lparr> aggregation_bits = participants p, aa_message = d \<rparr>, p) #
               cover_loop known root d (filter (\<lambda>v. v \<notin> set max_intersection) (target_id # us))
           | None \<Rightarrow> cover_loop known root d us))"
  by pat_completeness auto
termination
proof (relation "measure (\<lambda>(_, _, _, us). length us)")
  fix known root target_id us candidates c p m and d :: attestation_data
  assume "best_cover (target_id # us) candidates None = Some c" and "(p, m) = c"
  then show "((known, root, d, filter (\<lambda>v. v \<notin> set m) (target_id # us)), known, root, d, target_id # us)
      \<in> measure (\<lambda>(_, _, _, us). length us)"
    using best_cover_shrinks [of "target_id # us" candidates p m] by (simp only: in_measure split_conv)
qed simp_all

definition select_aggregated_proofs ::
  "lean_db \<Rightarrow> lean_env \<Rightarrow> aggregated_attestations list \<Rightarrow>
   aggregated_attestation list \<times> single_message_aggregate list" where
  "select_aggregated_proofs db E atts =
     (let results = concat (map (\<lambda>(d, validator_ids).
            cover_loop (db_known_payloads db) (hash_attestation_data E d) d (sort (remdups validator_ids)))
          (group_by_data atts))
      in (map fst results, map snd results))"

section \<open>The build context\<close>

definition extended_historical_block_hashes :: "lean_state \<Rightarrow> b256 \<Rightarrow> u64 \<Rightarrow> b256 list" where
  "extended_historical_block_hashes head_state parent_root slot =
     (let num_empty_slots = saturating_sub (saturating_sub slot (hdr_slot (latest_block_header head_state))) 1
      in historical_block_hashes head_state @ [parent_root] @ replicate (unat num_empty_slots) 0)"

record build_context =
  bc_head_state :: lean_state
  bc_available :: "(u64, signed_attestation) table"
  bc_blocks :: "(b256, signed_block) table"
  bc_known_payloads :: payloads

definition load_build_context :: "lean_db \<Rightarrow> b256 \<Rightarrow> store_error + build_context" where
  "load_build_context db parent_root =
     (let available = get_all_attestations (db_known_attestations db) in
      and_then (get_state db parent_root) (\<lambda>head_state.
      Inr \<lparr> bc_head_state = head_state, bc_available = available, bc_blocks = db_blocks db,
            bc_known_payloads = db_known_payloads db \<rparr>))"

section \<open>Round-based selection\<close>

record round_view =
  rv_justified :: checkpoint
  rv_finalized_slot :: u64
  rv_justified_slots :: bit_list

text \<open>The bit of an absolute slot.\<close>

definition slot_bit :: "lean_env \<Rightarrow> bit_list \<Rightarrow> u64 \<Rightarrow> bool" where
  "slot_bit E bits slot =
     (unat slot < length bits \<and> (case bl_get E bits (unat slot) of Some b \<Rightarrow> b | None \<Rightarrow> False))"

definition round_justified :: "lean_env \<Rightarrow> lean_state \<Rightarrow> round_view \<Rightarrow> checkpoint \<Rightarrow> bool" where
  "round_justified E head_state v c =
     (cp_slot c \<le> rv_finalized_slot v \<or> slot_bit E (rv_justified_slots v) (cp_slot c)
      \<or> slot_bit E (justified_slots head_state) (cp_slot c) \<or> c = rv_justified v)"

definition round_eligible :: "lean_env \<Rightarrow> build_context \<Rightarrow> b256 list \<Rightarrow> round_view \<Rightarrow> attestation_data \<Rightarrow> bool" where
  "round_eligible E ctx hashes v d =
     (let genesis_self_vote = (cp_slot (ad_source d) = 0 \<and> cp_slot (ad_target d) = 0) in
      table_contains_key (bc_blocks ctx) (cp_root (ad_head d)) \<and>
      attestation_data_matches_chain hashes d \<and>
      round_justified E (bc_head_state ctx) v (ad_source d) \<and>
      \<not> (\<not> genesis_self_vote \<and> round_justified E (bc_head_state ctx) v (ad_target d)) \<and>
      \<not> (\<not> genesis_self_vote \<and> \<not> is_justifiable_after (cp_slot (ad_target d)) (rv_finalized_slot v)))"

text \<open>One pass over the candidates: the new attestations, the data processed so far and the number
  of payloads consumed. The pass breaks off at new data beyond the limit.\<close>

fun round_pass ::
  "lean_env \<Rightarrow> build_context \<Rightarrow> b256 list \<Rightarrow> round_view \<Rightarrow> aggregated_attestations list \<Rightarrow>
   signed_attestation list \<Rightarrow> aggregated_attestations list \<Rightarrow> attestation_data list \<Rightarrow> u64 \<Rightarrow>
   store_error + (aggregated_attestations list \<times> attestation_data list \<times> u64)" where
  "round_pass E ctx hashes v atts [] new processed consumed = Inr (new, processed, consumed)"
| "round_pass E ctx hashes v atts (sa # rest) new processed consumed =
     (let d = sa_message sa;
          a = \<lparr> ags_validator_id = sa_validator_id sa, ags_data = d \<rparr>;
          key = SignatureKey (sa_validator_id sa) (hash_attestation_data E d)
      in
      if unat MAX_ATTESTATIONS_DATA \<le> length processed \<and> d \<notin> set processed
      then Inr (new, processed, consumed)
      else if \<not> round_eligible E ctx hashes v d \<or> a \<in> set atts
              \<or> \<not> table_contains_key (bc_known_payloads ctx) key
      then round_pass E ctx hashes v atts rest new processed consumed
      else and_then (ok_or (vl_push E VALIDATOR_REGISTRY_LIMIT new a) ListLimit) (\<lambda>new'.
           round_pass E ctx hashes v atts rest new' (set_insert d processed) (consumed + 1)))"

definition aggregate_groups ::
  "lean_env \<Rightarrow> aggregated_attestations list \<Rightarrow> store_error + aggregated_attestation list" where
  "aggregate_groups E atts =
     and_then (try_map (\<lambda>(message, ids).
                 and_then (ok_or (bl_with_capacity E VALIDATOR_REGISTRY_LIMIT
                                    (if ids = [] then 0 else unat (Max (set ids)) + 1)) BitListError) (\<lambda>bits.
                 and_then (set_bits E bits ids) (\<lambda>bits'.
                 Inr \<lparr> aggregation_bits = bits', aa_message = message \<rparr>)))
               (group_by_data atts)) (\<lambda>list.
     ok_or (vl_new E VALIDATOR_REGISTRY_LIMIT list) ListLimit)"

definition advance :: "lean_env \<Rightarrow> lean_state \<Rightarrow> block \<Rightarrow> store_error + lean_state" where
  "advance E s b =
     map_err Transition (and_then (process_slots E (blk_slot b) s) (process_block E b))"

text \<open>Each round but the last selects a candidate that was not selected before; the fuel is the
  number of candidates and one.\<close>

fun round_loop ::
  "nat \<Rightarrow> lean_env \<Rightarrow> build_context \<Rightarrow> b256 list \<Rightarrow> u64 \<Rightarrow> u64 \<Rightarrow> b256 \<Rightarrow> signed_attestation list \<Rightarrow>
   round_view \<Rightarrow> aggregated_attestations list \<Rightarrow> attestation_data list \<Rightarrow> u64 \<Rightarrow>
   store_error + (aggregated_attestations list \<times> u64)" where
  "round_loop 0 E ctx hashes slot proposer_index parent_root candidates v atts processed consumed = Inl Diverges"
| "round_loop (Suc fuel) E ctx hashes slot proposer_index parent_root candidates v atts processed consumed =
     and_then (round_pass E ctx hashes v atts candidates [] processed consumed)
       (\<lambda>(new, processed', consumed').
     if new = [] then Inr (atts, consumed')
     else
       and_then (try_fold (\<lambda>as a. ok_or (vl_push E VALIDATOR_REGISTRY_LIMIT as a) ListLimit) atts new)
         (\<lambda>atts'.
       and_then (aggregate_groups E atts') (\<lambda>attestations_list.
       and_then (advance E (bc_head_state ctx)
                   \<lparr> blk_slot = slot, blk_proposer_index = proposer_index, blk_parent_root = parent_root,
                     blk_state_root = 0, blk_body = \<lparr> attestations = attestations_list \<rparr> \<rparr>)
         (\<lambda>advanced.
       if latest_justified advanced \<noteq> rv_justified v
          \<or> cp_slot (latest_finalized advanced) \<noteq> rv_finalized_slot v
       then round_loop fuel E ctx hashes slot proposer_index parent_root candidates
              \<lparr> rv_justified = latest_justified advanced,
                rv_finalized_slot = cp_slot (latest_finalized advanced),
                rv_justified_slots = justified_slots advanced \<rparr> atts' processed' consumed'
       else Inr (atts', consumed')))))"

definition round_candidates :: "lean_env \<Rightarrow> build_context \<Rightarrow> signed_attestation list" where
  "round_candidates E ctx =
     sort_key (\<lambda>sa. (cp_slot (ad_target (sa_message sa)), hash_attestation_data E (sa_message sa)))
       (map snd (bc_available ctx))"

definition select_round_based ::
  "lean_env \<Rightarrow> build_context \<Rightarrow> b256 list \<Rightarrow> aggregated_attestations list option \<Rightarrow> u64 \<Rightarrow> u64 \<Rightarrow> b256 \<Rightarrow>
   store_error + (aggregated_attestations list \<times> u64)" where
  "select_round_based E ctx hashes atts slot proposer_index parent_root =
     (let head_state = bc_head_state ctx;
          current_justified = (if hdr_slot (latest_block_header head_state) = 0
            then (latest_justified head_state)\<lparr> cp_root := parent_root \<rparr> else latest_justified head_state);
          candidates = round_candidates E ctx
      in round_loop (Suc (length candidates)) E ctx hashes slot proposer_index parent_root candidates
           \<lparr> rv_justified = current_justified,
             rv_finalized_slot = cp_slot (latest_finalized head_state),
             rv_justified_slots = justified_slots head_state \<rparr>
           (case atts of None \<Rightarrow> [] | Some as \<Rightarrow> as) [] 0)"

section \<open>Projected justification\<close>

definition build_running_votes_by_target_root ::
  "lean_env \<Rightarrow> lean_state \<Rightarrow> store_error + (b256, u64 list) table" where
  "build_running_votes_by_target_root E head_state =
     (let validator_count = length (validators head_state) in
      try_fold (\<lambda>votes (root_index, target_root).
          and_then (try_fold (\<lambda>voters validator_index.
              and_then (ok_or (bl_get E (justifications_validators head_state)
                                 (root_index * validator_count + validator_index)) BitListError) (\<lambda>b.
              Inr (if b then set_insert (of_nat validator_index) voters else voters)))
            [] [0..<validator_count]) (\<lambda>voters.
          Inr (tbl_insert target_root voters votes)))
        [] (List.enumerate 0 (justifications_roots head_state)))"

definition is_projected_slot_justified :: "lean_env \<Rightarrow> bit_list \<Rightarrow> u64 \<Rightarrow> u64 \<Rightarrow> bool" where
  "is_projected_slot_justified E bits finalized_slot candidate_slot =
     (case justified_index_after candidate_slot finalized_slot of
        None \<Rightarrow> candidate_slot \<le> finalized_slot
      | Some index \<Rightarrow> index < of_nat (length bits) \<and>
          (case bl_get E bits (unat index) of Some b \<Rightarrow> b | None \<Rightarrow> False))"

definition extend_projected_justified_slots ::
  "lean_env \<Rightarrow> bit_list \<Rightarrow> u64 \<Rightarrow> u64 \<Rightarrow> store_error + bit_list" where
  "extend_projected_justified_slots E bits finalized_slot target_slot =
     (case justified_index_after target_slot finalized_slot of
        None \<Rightarrow> Inr bits
      | Some target_index \<Rightarrow>
          (let len = unat (target_index + 1) in
           if length bits < len
           then and_then (ok_or (bl_with_capacity E HISTORICAL_ROOTS_LIMIT len) BitListError) (\<lambda>fresh.
                Inr (bl_union E fresh bits))
           else Inr bits))"

definition set_projected_justified_slot ::
  "lean_env \<Rightarrow> bit_list \<Rightarrow> u64 \<Rightarrow> u64 \<Rightarrow> store_error + bit_list" where
  "set_projected_justified_slot E bits finalized_slot target_slot =
     and_then (extend_projected_justified_slots E bits finalized_slot target_slot) (\<lambda>bits'.
     case justified_index_after target_slot finalized_slot of
       None \<Rightarrow> Inr bits'
     | Some index \<Rightarrow> ok_or (bl_set E bits' (unat index) True) BitListError)"

text \<open>The subtraction of natural numbers is the \<open>saturating_sub\<close> on \<open>usize\<close>.\<close>

definition shift_projected_finalized_slot ::
  "lean_env \<Rightarrow> bit_list \<Rightarrow> u64 \<Rightarrow> u64 \<Rightarrow> store_error + bit_list" where
  "shift_projected_finalized_slot E bits finalized_slot new_finalized_slot =
     (let delta = unat (saturating_sub new_finalized_slot finalized_slot) in
      if delta = 0 then Inr bits
      else
        and_then (ok_or (bl_with_capacity E HISTORICAL_ROOTS_LIMIT (length bits - delta))
                    BitListError) (\<lambda>fresh.
        try_fold (\<lambda>shifted index.
            if (case bl_get E bits index of Some b \<Rightarrow> b | None \<Rightarrow> False)
            then ok_or (bl_set E shifted (index - delta) True) BitListError
            else Inr shifted) fresh [delta..<length bits]))"

section \<open>Tiered selection\<close>

datatype attestation_score_tier = Finalize | Justify | Build

text \<open>\<open>#[derive(PartialOrd, Ord)]\<close>: the order of the constructors.\<close>

primrec tier_rank :: "attestation_score_tier \<Rightarrow> nat" where
  "tier_rank Finalize = 1"
| "tier_rank Justify = 2"
| "tier_rank Build = 3"

instantiation attestation_score_tier :: linorder
begin

definition less_eq_attestation_score_tier :: "attestation_score_tier \<Rightarrow> attestation_score_tier \<Rightarrow> bool" where
  "less_eq_attestation_score_tier a b \<longleftrightarrow> tier_rank a \<le> tier_rank b"

definition less_attestation_score_tier :: "attestation_score_tier \<Rightarrow> attestation_score_tier \<Rightarrow> bool" where
  "less_attestation_score_tier a b \<longleftrightarrow> tier_rank a < tier_rank b"

instance
proof
  fix a b :: attestation_score_tier
  assume "a \<le> b" and "b \<le> a"
  then show "a = b"
    unfolding less_eq_attestation_score_tier_def by (cases a; cases b) simp_all
qed (auto simp: less_eq_attestation_score_tier_def less_attestation_score_tier_def)

end

record attestation_entry_score =
  score_tier :: attestation_score_tier
  new_voter_count :: nat
  target_slot :: u64
  attestation_slot :: u64

text \<open>The derived order of the key is lexicographic; \<open>Reverse\<close> is the negated count.\<close>

definition ordering_key ::
  "attestation_entry_score \<Rightarrow> b256 \<Rightarrow> attestation_score_tier \<times> int \<times> u64 \<times> u64 \<times> b256" where
  "ordering_key score root =
     (score_tier score, - int (new_voter_count score), target_slot score, attestation_slot score, root)"

type_synonym proof_pool = "(b256, attestation_data \<times> single_message_aggregate list) table"

definition candidates_by_data ::
  "build_context \<Rightarrow> aggregated_attestations list option \<Rightarrow> (attestation_data \<times> u64 list) list" where
  "candidates_by_data ctx atts =
     fold (\<lambda>a. al_entry (ags_data a) [] (set_insert (ags_validator_id a)))
       (case atts of None \<Rightarrow> [] | Some as \<Rightarrow> as)
       (fold (\<lambda>(_, sa). al_entry (sa_message sa) [] (set_insert (sa_validator_id sa))) (bc_available ctx) [])"

definition proof_pool :: "lean_env \<Rightarrow> build_context \<Rightarrow> (attestation_data \<times> u64 list) list \<Rightarrow> proof_pool" where
  "proof_pool E ctx candidates =
     fold (\<lambda>(d, validator_ids) pool.
         if \<not> table_contains_key (bc_blocks ctx) (cp_root (ad_head d)) then pool
         else
           (let root = hash_attestation_data E d;
                proofs = fold (\<lambda>vid proofs.
                    (case tbl_get (bc_known_payloads ctx) (SignatureKey vid root) of
                       Some ps \<Rightarrow> set_extend ps proofs | None \<Rightarrow> proofs)) validator_ids []
            in if proofs = [] then pool else tbl_insert root (d, proofs) pool))
       candidates []"

record tiered_view =
  tv_finalized_slot :: u64
  tv_justified_slots :: bit_list
  tv_votes :: "(b256, u64 list) table"
  tv_processed :: "b256 list"
  tv_selected :: "aggregated_attestations list"

definition pool_voters :: "single_message_aggregate list \<Rightarrow> u64 list" where
  "pool_voters proofs = set_extend (concat (map to_validator_indices proofs)) []"

text \<open>The score of a candidate and its new voters; \<open>None\<close> where the loop continues with the next.\<close>

definition score_candidate ::
  "lean_env \<Rightarrow> build_context \<Rightarrow> b256 list \<Rightarrow> tiered_view \<Rightarrow> b256 \<Rightarrow> attestation_data \<times> single_message_aggregate list \<Rightarrow>
   (attestation_entry_score \<times> u64 list) option" where
  "score_candidate E ctx hashes v root = (\<lambda>(d, proofs).
     (let fin = tv_finalized_slot v;
          source_slot = cp_slot (ad_source d);
          tgt_slot = cp_slot (ad_target d);
          genesis_self_vote = (source_slot = 0 \<and> tgt_slot = 0)
      in
      if root \<in> set (tv_processed v) then None
      else if \<not> table_contains_key (bc_blocks ctx) (cp_root (ad_head d)) then None
      else if \<not> attestation_data_matches_chain hashes d then None
      else if \<not> is_projected_slot_justified E (tv_justified_slots v) fin source_slot then None
      else if \<not> genesis_self_vote \<and> tgt_slot \<le> source_slot then None
      else if \<not> genesis_self_vote \<and> \<not> is_justifiable_after tgt_slot fin then None
      else
        (let prior_voters = (case tbl_get (tv_votes v) (cp_root (ad_target d)) of None \<Rightarrow> [] | Some vs \<Rightarrow> vs);
             new_voters = filter (\<lambda>i. i \<notin> set prior_voters) (pool_voters proofs)
         in
         if new_voters = [] then None
         else
           (let total_voters = length prior_voters + length new_voters;
                crosses_two_thirds = (2 * length (validators (bc_head_state ctx)) \<le> 3 * total_voters);
                finalizes_source =
                  (crosses_two_thirds \<and> fin < source_slot \<and>
                   (\<forall>s \<in> set (u64_range (source_slot + 1) tgt_slot). \<not> is_justifiable_after s fin));
                tier = (if genesis_self_vote \<or> \<not> crosses_two_thirds then Build
                        else if finalizes_source then Finalize else Justify)
            in Some (\<lparr> score_tier = tier, new_voter_count = length new_voters, target_slot = tgt_slot,
                       attestation_slot = ad_slot d \<rparr>, new_voters)))))"

fun best_candidate ::
  "lean_env \<Rightarrow> build_context \<Rightarrow> b256 list \<Rightarrow> tiered_view \<Rightarrow> proof_pool \<Rightarrow>
   (b256 \<times> attestation_entry_score \<times> u64 list) option \<Rightarrow> (b256 \<times> attestation_entry_score \<times> u64 list) option" where
  "best_candidate E ctx hashes v [] best = best"
| "best_candidate E ctx hashes v ((root, entry) # pool) best =
     best_candidate E ctx hashes v pool
       (case score_candidate E ctx hashes v root entry of
          None \<Rightarrow> best
        | Some (score, new_voters) \<Rightarrow>
            if (case best of None \<Rightarrow> True
                | Some (best_root, best_score, _) \<Rightarrow> ordering_key score root < ordering_key best_score best_root)
            then Some (root, score, new_voters) else best)"

definition apply_selection ::
  "lean_env \<Rightarrow> b256 \<Rightarrow> attestation_entry_score \<Rightarrow> u64 list \<Rightarrow> attestation_data \<Rightarrow> single_message_aggregate list \<Rightarrow>
   tiered_view \<Rightarrow> store_error + tiered_view" where
  "apply_selection E root score new_voters d proofs v =
     (let fin = tv_finalized_slot v; target_root = cp_root (ad_target d);
          selected = tv_selected v @
            map (\<lambda>vid. \<lparr> ags_validator_id = vid, ags_data = d \<rparr>) (pool_voters proofs)
      in
      and_then (if score_tier score \<le> Justify
                then and_then (set_projected_justified_slot E (tv_justified_slots v) fin (cp_slot (ad_target d)))
                       (\<lambda>bits. Inr (bits, tbl_remove target_root (tv_votes v)))
                else Inr (tv_justified_slots v,
                       tbl_insert target_root
                         (set_extend new_voters (case tbl_get (tv_votes v) target_root of None \<Rightarrow> [] | Some vs \<Rightarrow> vs))
                         (tv_votes v))) (\<lambda>(bits, votes).
      and_then (if score_tier score = Finalize
                then and_then (shift_projected_finalized_slot E bits fin (cp_slot (ad_source d)))
                       (\<lambda>bits'. Inr (bits', cp_slot (ad_source d)))
                else Inr (bits, fin)) (\<lambda>(bits', fin').
      Inr \<lparr> tv_finalized_slot = fin', tv_justified_slots = bits', tv_votes = votes,
            tv_processed = root # tv_processed v, tv_selected = selected \<rparr>)))"

fun tiered_rounds ::
  "nat \<Rightarrow> lean_env \<Rightarrow> build_context \<Rightarrow> b256 list \<Rightarrow> proof_pool \<Rightarrow> tiered_view \<Rightarrow> store_error + tiered_view" where
  "tiered_rounds 0 E ctx hashes pool v = Inr v"
| "tiered_rounds (Suc n) E ctx hashes pool v =
     (case best_candidate E ctx hashes v pool None of
        None \<Rightarrow> Inr v
      | Some (root, score, new_voters) \<Rightarrow>
          and_then (ok_or (tbl_get pool root) SelectedMissing) (\<lambda>(d, proofs).
          and_then (apply_selection E root score new_voters d proofs v) (\<lambda>v'.
          tiered_rounds n E ctx hashes pool v')))"

definition select_tiered ::
  "lean_env \<Rightarrow> build_context \<Rightarrow> b256 list \<Rightarrow> aggregated_attestations list option \<Rightarrow> u64 \<Rightarrow>
   store_error + aggregated_attestations list" where
  "select_tiered E ctx hashes atts slot =
     (let head_state = bc_head_state ctx;
          pool = proof_pool E ctx (candidates_by_data ctx atts);
          fin = cp_slot (latest_finalized head_state)
      in
      and_then (extend_projected_justified_slots E (justified_slots head_state) fin (saturating_sub slot 1)) (\<lambda>bits.
      and_then (build_running_votes_by_target_root E head_state) (\<lambda>votes.
      and_then (tiered_rounds (unat MAX_ATTESTATIONS_DATA) E ctx hashes pool
                  \<lparr> tv_finalized_slot = fin, tv_justified_slots = bits, tv_votes = votes,
                    tv_processed = [], tv_selected = [] \<rparr>) (\<lambda>v.
      Inr (tv_selected v)))))"

section \<open>Assembling the block\<close>

definition seal_block ::
  "lean_env \<Rightarrow> lean_db \<Rightarrow> lean_state \<Rightarrow> aggregated_attestations list \<Rightarrow> u64 \<Rightarrow> u64 \<Rightarrow> b256 \<Rightarrow>
   store_error + (block \<times> single_message_aggregate list \<times> lean_state)" where
  "seal_block E db head_state atts slot proposer_index parent_root =
     (let (aggregated_attestations, aggregated_proofs) = select_aggregated_proofs db E atts in
      and_then (ok_or (vl_new E VALIDATOR_REGISTRY_LIMIT aggregated_attestations) ListLimit) (\<lambda>attestations_list.
      let candidate = \<lparr> blk_slot = slot, blk_proposer_index = proposer_index, blk_parent_root = parent_root,
                        blk_state_root = 0, blk_body = \<lparr> attestations = attestations_list \<rparr> \<rparr>
      in
      and_then (advance E head_state candidate) (\<lambda>post_state.
      Inr (candidate\<lparr> blk_state_root := hash_state E post_state \<rparr>, aggregated_proofs, post_state))))"

definition build_block ::
  "lean_env \<Rightarrow> lean_db \<Rightarrow> block_production_strategy \<Rightarrow> u64 \<Rightarrow> u64 \<Rightarrow> b256 \<Rightarrow>
   aggregated_attestations list option \<Rightarrow> store_error + (block \<times> single_message_aggregate list \<times> lean_state)" where
  "build_block E db strategy slot proposer_index parent_root atts =
     and_then (load_build_context db parent_root) (\<lambda>ctx.
     let hashes = extended_historical_block_hashes (bc_head_state ctx) parent_root slot in
     and_then (case strategy of
                 RoundBased \<Rightarrow> and_then (select_round_based E ctx hashes atts slot proposer_index parent_root)
                                (\<lambda>(selected, _). Inr selected)
               | Tiered \<Rightarrow> select_tiered E ctx hashes atts slot) (\<lambda>selected.
     seal_block E db (bc_head_state ctx) selected slot proposer_index parent_root))"

definition known_votes :: "lean_db \<Rightarrow> aggregated_attestations list" where
  "known_votes db =
     map (\<lambda>(vid, d). \<lparr> ags_validator_id = vid, ags_data = d \<rparr>)
       (extract_attestations_from_aggregated_payloads (payload_iter_keys (db_known_payloads db)) db)"

definition produce_block_at ::
  "lean_env \<Rightarrow> block_production_strategy \<Rightarrow> u64 \<Rightarrow> u64 \<Rightarrow> b256 \<Rightarrow> lean_db \<Rightarrow> store_error + block_with_signatures" where
  "produce_block_at E strategy slot validator_index head_root db =
     and_then (get_state db head_root) (\<lambda>head_state.
     and_then (ok_or (is_proposer validator_index slot (of_nat (length (validators head_state)))) PanicStore) (\<lambda>turn.
     and_then (ensure turn NotProposer) (\<lambda>_.
     and_then (ok_or (vl_new E VALIDATOR_REGISTRY_LIMIT (known_votes db)) ListLimit) (\<lambda>attestation_list.
     and_then (build_block E db strategy slot validator_index head_root (Some attestation_list))
       (\<lambda>(candidate, proofs, post_state).
     and_then (try_map (participant_keys (validators head_state)) proofs) (\<lambda>public_keys.
     and_then (ok_or (vl_new E VALIDATOR_REGISTRY_LIMIT proofs) ListLimit) (\<lambda>signatures_list.
     Inr \<lparr> bws_block = candidate\<lparr> blk_state_root := hash_state E post_state \<rparr>,
           bws_signatures = signatures_list, bws_attestation_public_keys = public_keys \<rparr>)))))))"

definition produce_block_with_signatures ::
  "lean_env \<Rightarrow> net_spec \<Rightarrow> u64 \<Rightarrow> u64 \<Rightarrow> block_with_signatures store_prog" where
  "produce_block_with_signatures E N slot validator_index =
     pbind (get_proposal_head N slot) (\<lambda>head_root.
     pbind (pread (\<lambda>st. Inr (ls_strategy st))) (\<lambda>strategy.
     get_db (produce_block_at E strategy slot validator_index head_root)))"

end
