(* ===== verification/Lean_Store_Invariant.thy ===== *)
theory Lean_Store_Invariant
  imports Lean_Production
begin

text \<open>
  The invariant of the fork choice store. Every stored block is stored under its hash, its post-state
  is stored and has its slot, and its parent is stored with a smaller slot unless the block is the
  anchor; the indices and the checkpoints of the store point to stored blocks. Under the invariant
  every walk along parent pointers ends.
\<close>

section \<open>The invariant\<close>

lemma set_tbl_insert: "x \<in> set (tbl_insert k v t) \<Longrightarrow> x = (k, v) \<or> x \<in> set t"
  by (induction t) (auto split: if_splits)

definition stored :: "lean_db \<Rightarrow> b256 \<Rightarrow> bool" where
  "stored db r \<longleftrightarrow> tbl_get (db_blocks db) r \<noteq> None"

definition block_ok :: "lean_env \<Rightarrow> block \<Rightarrow> lean_db \<Rightarrow> b256 \<Rightarrow> block \<Rightarrow> bool" where
  "block_ok E anchor db r b \<longleftrightarrow>
     hash_block E b = r \<and> blk_slot anchor \<le> blk_slot b \<and>
     (\<exists>s. tbl_get (db_states db) r = Some s \<and> state_ok s \<and> st_slot s = blk_slot b) \<and>
     (b = anchor \<or>
      (\<exists>sb. tbl_get (db_blocks db) (blk_parent_root b) = Some sb \<and> blk_slot (sb_block sb) < blk_slot b))"

definition tables_ok :: "lean_env \<Rightarrow> block \<Rightarrow> lean_db \<Rightarrow> bool" where
  "tables_ok E anchor db \<longleftrightarrow>
     tbl_wf (db_blocks db) \<and> tbl_wf (db_states db) \<and> tbl_wf (db_children_index db) \<and>
     (\<forall>r sb. tbl_get (db_blocks db) r = Some sb \<longrightarrow> block_ok E anchor db r (sb_block sb)) \<and>
     (\<forall>r. tbl_get (db_states db) r \<noteq> None \<longrightarrow> stored db r) \<and>
     (\<forall>r e. tbl_get (db_children_index db) r = Some e \<longrightarrow>
        (\<exists>sb. tbl_get (db_blocks db) r = Some sb \<and> ci_slot e = blk_slot (sb_block sb) \<and>
           ci_parent_root e = blk_parent_root (sb_block sb))) \<and>
     db_slot_index db \<noteq> [] \<and>
     (\<forall>(slot, r) \<in> set (db_slot_index db).
        \<exists>sb. tbl_get (db_blocks db) r = Some sb \<and> blk_slot (sb_block sb) = slot) \<and>
     (\<forall>(root, r) \<in> set (db_state_root_index db).
        \<exists>sb s. tbl_get (db_blocks db) r = Some sb \<and> tbl_get (db_states db) r = Some s \<and>
          (root = blk_state_root (sb_block sb) \<or> root = hash_state E s))"

definition fields_ok :: "lean_db \<Rightarrow> bool" where
  "fields_ok db \<longleftrightarrow>
     db_time db \<noteq> None \<and>
     (\<exists>h. db_head db = Some h \<and> stored db h) \<and>
     (\<exists>r. db_safe_target db = Some r \<and> stored db r) \<and>
     (\<exists>c. db_latest_justified db = Some c \<and> stored db (cp_root c)) \<and>
     (\<exists>c. db_latest_finalized db = Some c \<and> stored db (cp_root c))"

definition store_ok :: "lean_env \<Rightarrow> block \<Rightarrow> lean_store \<Rightarrow> bool" where
  "store_ok E anchor st \<longleftrightarrow>
     tables_ok E anchor (ls_db st) \<and> fields_ok (ls_db st) \<and>
     db_head (ls_db st) = Some (cp_root (ls_head_checkpoint st)) \<and>
     db_latest_finalized (ls_db st) = Some (ls_finalized_checkpoint st)"

text \<open>The parent root of the anchor is the hash of no block at or after the anchor's slot.\<close>

definition anchored :: "lean_env \<Rightarrow> block \<Rightarrow> bool" where
  "anchored E anchor \<longleftrightarrow> (\<forall>b. hash_block E b = blk_parent_root anchor \<longrightarrow> blk_slot b < blk_slot anchor)"

lemma tables_okD:
  assumes "tables_ok E anchor db"
  shows "tbl_wf (db_blocks db)" "tbl_wf (db_states db)" "tbl_wf (db_children_index db)"
    and "tbl_get (db_blocks db) r = Some sb \<Longrightarrow> block_ok E anchor db r (sb_block sb)"
    and "tbl_get (db_states db) r = Some s \<Longrightarrow> stored db r"
    and "tbl_get (db_children_index db) r = Some e \<Longrightarrow>
        \<exists>sb. tbl_get (db_blocks db) r = Some sb \<and> ci_slot e = blk_slot (sb_block sb) \<and>
           ci_parent_root e = blk_parent_root (sb_block sb)"
    and "db_slot_index db \<noteq> []"
    and "(slot, r) \<in> set (db_slot_index db) \<Longrightarrow> stored db r"
    and "(slot, r) \<in> set (db_slot_index db) \<Longrightarrow>
        \<exists>sb. tbl_get (db_blocks db) r = Some sb \<and> blk_slot (sb_block sb) = slot"
    and "(root, r) \<in> set (db_state_root_index db) \<Longrightarrow>
        \<exists>sb s. tbl_get (db_blocks db) r = Some sb \<and> tbl_get (db_states db) r = Some s \<and>
          (root = blk_state_root (sb_block sb) \<or> root = hash_state E s)"
  using assms unfolding tables_ok_def stored_def by blast+

lemma stored_state:
  assumes "tables_ok E anchor db" and "stored db r"
  shows "\<exists>s sb. get_state db r = Inr s \<and> state_ok s \<and> tbl_get (db_blocks db) r = Some sb \<and>
    st_slot s = blk_slot (sb_block sb)"
proof -
  from assms(2) obtain sb where sb: "tbl_get (db_blocks db) r = Some sb" by (auto simp: stored_def)
  with tables_okD(4) [OF assms(1) this] show ?thesis by (auto simp: block_ok_def get_state_def ok_or_def)
qed

lemma stored_block: "stored db r \<Longrightarrow> \<exists>b. get_block db r = Inr b"
  by (auto simp: stored_def get_block_def ok_or_def)

section \<open>Walks end\<close>

lemma tbl_get_block_index:
  "tbl_get (block_index blocks) r =
    map_option (\<lambda>sb. (blk_parent_root (sb_block sb), blk_slot (sb_block sb))) (tbl_get blocks r)"
  by (induction blocks) (auto simp: block_index_def)

lemma length_block_index [simp]: "length (block_index blocks) = length blocks"
  by (simp add: block_index_def)

lemma block_parent_slot:
  assumes ok: "tables_ok E anchor db" and anc: "anchored E anchor"
    and r: "tbl_get (db_blocks db) r = Some sb"
    and p: "tbl_get (db_blocks db) (blk_parent_root (sb_block sb)) = Some sb'"
  shows "blk_slot (sb_block sb') < blk_slot (sb_block sb)"
proof (cases "sb_block sb = anchor")
  case True
  from tables_okD(4) [OF ok p] have "hash_block E (sb_block sb') = blk_parent_root (sb_block sb)"
    and "blk_slot anchor \<le> blk_slot (sb_block sb')"
    by (auto simp: block_ok_def)
  with True anc show ?thesis by (auto simp: anchored_def)
next
  case False
  with tables_okD(4) [OF ok r] p show ?thesis by (auto simp: block_ok_def)
qed

lemma block_index_ok:
  assumes "tables_ok E anchor db" and "anchored E anchor"
  shows "index_ok (block_index (db_blocks db))"
  unfolding index_ok_def
  using block_parent_slot [OF assms] by (auto simp: tbl_get_block_index split: option.splits)

lemma children_index_ok:
  assumes "tables_ok E anchor db" and "anchored E anchor"
  shows "index_ok (get_index_map (db_children_index db))"
proof -
  have "t < s" if "tbl_get (get_index_map (db_children_index db)) r = Some (p, s)"
    "tbl_get (get_index_map (db_children_index db)) p = Some (q, t)" for r p s q t
  proof -
    from that obtain e f where "tbl_get (db_children_index db) r = Some e" "p = ci_parent_root e" "s = ci_slot e"
      "tbl_get (db_children_index db) p = Some f" "t = ci_slot f"
      by (auto simp: tbl_get_index_map [OF tables_okD(3) [OF assms(1)]])
    with tables_okD(6) [OF assms(1), of r e] tables_okD(6) [OF assms(1), of p f] block_parent_slot [OF assms, of r]
    show ?thesis by force
  qed
  then show ?thesis unfolding index_ok_def by (fastforce split: option.splits)
qed

text \<open>Where the index and the block table both know a block they agree.\<close>

lemma lookup_slot_eq:
  assumes "tables_ok E anchor db"
  shows "lookup_slot (get_index_map (db_children_index db)) db r = tbl_get (block_index (db_blocks db)) r"
proof (cases "tbl_get (db_children_index db) r")
  case None
  then show ?thesis
    by (simp add: lookup_slot_def tbl_get_index_map [OF tables_okD(3) [OF assms]] tbl_get_block_index)
next
  case (Some e)
  with tables_okD(6) [OF assms this] show ?thesis
    by (auto simp: lookup_slot_def tbl_get_index_map [OF tables_okD(3) [OF assms]] tbl_get_block_index)
qed

lemma finalized_walk_total:
  assumes "tables_ok E anchor db" and "anchored E anchor"
    and "n = length (get_index_map (db_children_index db)) + length (db_blocks db)"
  shows "\<exists>f. finalized_walk (Suc n) (get_index_map (db_children_index db)) db target r = Inr f"
  by (rule index_walk [OF block_index_ok [OF assms(1,2)]])
    (auto simp: assms(3) lookup_slot_eq [OF assms(1)] gr0_conv_Suc)

lemma ancestor_walk_total:
  assumes "tables_ok E anchor db" and "anchored E anchor"
  shows "\<exists>b. ancestor_walk (Suc (length (db_blocks db))) (db_blocks db) c r = Inr b"
  by (rule index_walk [OF block_index_ok [OF assms]])
    (auto simp: tbl_get_block_index gr0_conv_Suc split: option.splits)

lemma target_justifiable_ends:
  assumes "tables_ok E anchor db" and "anchored E anchor"
  shows "target_justifiable (Suc (length (db_blocks db))) db finalized_slot r \<noteq> Inl Diverges"
  by (rule index_walk [OF block_index_ok [OF assms]])
    (auto simp: tbl_get_block_index gr0_conv_Suc get_block_def ok_or_def result_simps)

lemma target_lookback_ends: "target_lookback n db r \<noteq> Inl Diverges"
  by (induction n arbitrary: r) (auto simp: get_block_def field_get_def ok_or_def and_then_eq_Inl split: option.splits if_splits)

lemma get_attestation_target_ends:
  assumes "tables_ok E anchor db" and "anchored E anchor"
  shows "get_attestation_target db \<noteq> Inl Diverges"
  using target_justifiable_ends [OF assms] target_lookback_ends
  by (auto simp: get_attestation_target_def get_head_def get_state_def get_block_def field_get_def ok_or_def
      and_then_eq_Inl split: option.splits if_splits simp del: target_justifiable.simps target_lookback.simps)

lemma checkpoint_is_ancestor_total:
  "tables_ok E anchor db \<Longrightarrow> anchored E anchor \<Longrightarrow> \<exists>b. checkpoint_is_ancestor db x y = Inr b"
  using ancestor_walk_total by (auto simp: checkpoint_is_ancestor_def simp del: ancestor_walk.simps)

lemma ghost_start_total:
  assumes "tables_ok E anchor db"
  shows "\<exists>root s. ghost_start db (get_index_map (db_children_index db)) provided = Inr (root, s) \<and> stored db root"
proof -
  let ?index = "get_index_map (db_children_index db)"
  have idx: "stored db r" if "tbl_get ?index r \<noteq> None" for r
    using that tables_okD(6) [OF assms, of r]
    by (auto simp: tbl_get_index_map [OF tables_okD(3) [OF assms]] stored_def)
  obtain slot r t where "db_slot_index db = (slot, r) # t"
    using tables_okD(7) [OF assms] by (cases "db_slot_index db") auto
  then have oldest: "get_oldest_root (db_slot_index db) = Some r" and "stored db r"
    using tables_okD(8) [OF assms, of slot r] by (auto simp: get_oldest_root_def)
  define root where "root = (if provided = 0 \<or> tbl_get ?index provided = None then r else provided)"
  have st: "stored db root" using idx \<open>stored db r\<close> by (auto simp: root_def)
  obtain b where "get_block db root = Inr b" using stored_block [OF st] by blast
  then have "\<exists>s. ghost_start db ?index provided = Inr (root, s)"
    by (auto simp: ghost_start_def root_def oldest ok_or_def split: option.splits)
  with st show ?thesis by blast
qed

lemma compute_lmd_ghost_head_total:
  assumes ok: "tables_ok E anchor db" and anc: "anchored E anchor"
  shows "\<exists>h hs. compute_lmd_ghost_head atts provided min_score db = Inr (h, hs) \<and> stored db h"
proof -
  let ?index = "get_index_map (db_children_index db)"
  note wf = tables_okD(3) [OF ok] and iok = children_index_ok [OF ok anc]
  have dist: "distinct (map fst ?index)" using get_index_map_wf [OF wf] by (rule tbl_wf_distinct)
  from ghost_start_total [OF ok] obtain root s where
    start: "ghost_start db ?index provided = Inr (root, s)" and root: "stored db root" by blast
  from ghost_weights_total [OF iok] obtain w where w: "ghost_weights ?index s atts = Inr w" by blast
  have "\<exists>x. ghost_descend (Suc (length ?index)) (ghost_children min_score w ?index) w ?index root s = Inr x"
  proof (rule ghost_descend_total [OF iok dist])
    show "tbl_get ?index root \<noteq> None \<longrightarrow> card (idx.above ?index root) < Suc (length ?index)"
      using idx.above_dom [of ?index root] iok card_dom_index [of ?index] by fastforce
  qed simp
  then obtain h hs where run:
    "ghost_descend (Suc (length ?index)) (ghost_children min_score w ?index) w ?index root s = Inr (h, hs)"
    by force
  have "stored db h"
  proof (cases "h = root \<and> hs = s")
    case False
    then obtain p where "h \<in> set (index_children min_score w ?index p)"
      using ghost_descend_path(2) [OF run] by blast
    from index_children_parent(1) [OF this dist] obtain t where "tbl_get ?index h = Some (p, t)" by blast
    with tables_okD(6) [OF ok, of h] show ?thesis by (auto simp: tbl_get_index_map [OF wf] stored_def)
  qed (use root in simp)
  then show ?thesis using start w run by (auto simp: compute_lmd_ghost_head_def)
qed

section \<open>Head and safe target\<close>

lemma fields_okE:
  assumes "fields_ok db"
  obtains t h r j f where "db_time db = Some t" "db_head db = Some h" "stored db h"
    "db_safe_target db = Some r" "stored db r" "db_latest_justified db = Some j" "stored db (cp_root j)"
    "db_latest_finalized db = Some f" "stored db (cp_root f)"
  using assms unfolding fields_ok_def by blast

lemma derive_head_total:
  assumes ok: "tables_ok E anchor db" and anc: "anchored E anchor" and f: "fields_ok db"
  shows "\<exists>h hs c. derive_head db = Inr (h, hs, c) \<and> stored db h \<and> stored db (cp_root c)"
proof -
  from f obtain j fin where fields: "db_latest_justified db = Some j" "db_latest_finalized db = Some fin"
    and fin: "stored db (cp_root fin)"
    by (elim fields_okE)
  let ?votes = "signed_votes (extract_attestations_from_aggregated_payloads (relevant_keys (cp_slot fin) db) db)"
  let ?index = "get_index_map (db_children_index db)"
  from compute_lmd_ghost_head_total [OF ok anc] obtain h hs where
    head: "compute_lmd_ghost_head ?votes (cp_root j) 0 db = Inr (h, hs)" and h: "stored db h"
    by blast
  from stored_state [OF ok h] obtain s where s: "get_state db h = Inr s" by blast
  from finalized_walk_total [OF ok anc refl] obtain r where
    r: "finalized_walk (Suc (length ?index + length (db_blocks db))) ?index db (cp_slot (latest_finalized s)) h = Inr r"
    by blast
  let ?c = "if map_option snd (lookup_slot ?index db r) = Some (cp_slot (latest_finalized s))
     then \<lparr> cp_root = r, cp_slot = cp_slot (latest_finalized s) \<rparr> else fin"
  have "derive_head db = Inr (h, hs, ?c)"
    using fields head s r by (simp add: derive_head_def get_finalized_def get_justified_def field_get_def ok_or_def
        del: finalized_walk.simps)
  moreover have "stored db (cp_root ?c)"
    using fin by (auto simp: lookup_slot_eq [OF ok] tbl_get_block_index stored_def)
  ultimately show ?thesis using h by blast
qed

text \<open>The invariant does not look at the votes; what a program does to them is free.\<close>

definition same_blocks :: "lean_db \<Rightarrow> lean_db \<Rightarrow> bool" where
  "same_blocks db db' \<longleftrightarrow>
     db_blocks db' = db_blocks db \<and> db_states db' = db_states db \<and>
     db_children_index db' = db_children_index db \<and> db_slot_index db' = db_slot_index db \<and>
     db_state_root_index db' = db_state_root_index db"

definition same_fields :: "lean_db \<Rightarrow> lean_db \<Rightarrow> bool" where
  "same_fields db db' \<longleftrightarrow>
     db_time db' = db_time db \<and> db_head db' = db_head db \<and> db_safe_target db' = db_safe_target db \<and>
     db_latest_justified db' = db_latest_justified db \<and> db_latest_finalized db' = db_latest_finalized db"

lemma same_blocks_tables_ok: "same_blocks db db' \<Longrightarrow> tables_ok E anchor db \<Longrightarrow> tables_ok E anchor db'"
  by (simp add: same_blocks_def tables_ok_def stored_def block_ok_def)

lemma same_blocks_stored: "same_blocks db db' \<Longrightarrow> stored db' r = stored db r"
  by (simp add: same_blocks_def stored_def)

lemma same_fields_ok: "same_blocks db db' \<Longrightarrow> same_fields db db' \<Longrightarrow> fields_ok db \<Longrightarrow> fields_ok db'"
  by (simp add: fields_ok_def same_blocks_stored same_fields_def)

definition votes_only :: "lean_store \<Rightarrow> lean_store \<Rightarrow> bool" where
  "votes_only st st' \<longleftrightarrow>
     same_blocks (ls_db st) (ls_db st') \<and> same_fields (ls_db st) (ls_db st') \<and>
     ls_head_checkpoint st' = ls_head_checkpoint st \<and> ls_finalized_checkpoint st' = ls_finalized_checkpoint st"

interpretation vo: store_frame votes_only
  by unfold_locales (simp_all add: votes_only_def same_blocks_def same_fields_def)

lemma votes_only_ok: "votes_only st st' \<Longrightarrow> store_ok E anchor st \<Longrightarrow> store_ok E anchor st'"
  by (auto simp: store_ok_def votes_only_def intro: same_blocks_tables_ok same_fields_ok)
    (simp_all add: same_fields_def)

lemma keeps_get_db: "keeps votes_only (get_db f)"
  by (simp add: get_db_def vo.keeps_pread)

lemma keeps_put_db:
  "(\<And>db. same_blocks db (f db) \<and> same_fields db (f db)) \<Longrightarrow> keeps votes_only (put_db f)"
  by (auto simp: put_db_def votes_only_def intro!: vo.keeps_pmodify)

lemmas votes_only_intros = keeps_get_db keeps_put_db vo.keeps_intros

lemma update_head_total:
  assumes ok: "store_ok E anchor st" and anc: "anchored E anchor"
  shows "\<exists>st'. update_head st = (Inr (), st') \<and> store_ok E anchor st' \<and>
    db_time (ls_db st') = db_time (ls_db st)"
proof -
  from ok have t: "tables_ok E anchor (ls_db st)" and f: "fields_ok (ls_db st)" by (auto simp: store_ok_def)
  from derive_head_total [OF t anc f] obtain h hs c where
    d: "derive_head (ls_db st) = Inr (h, hs, c)" "stored (ls_db st) h" "stored (ls_db st) (cp_root c)" by blast
  let ?db = "(ls_db st)\<lparr> db_head := Some h, db_latest_finalized := Some c \<rparr>"
  have sb: "same_blocks (ls_db st) ?db" by (simp add: same_blocks_def)
  have "fields_ok ?db" using f d by (simp add: fields_ok_def same_blocks_stored [OF sb])
  then show ?thesis
    using d same_blocks_tables_ok [OF sb t]
    by (simp add: update_head_def pbind_def get_db_def pread_def pmodify_def put_db_def store_ok_def)
qed

lemma update_safe_target_total:
  assumes ok: "store_ok E anchor st" and anc: "anchored E anchor"
  shows "\<exists>st'. update_safe_target st = (Inr (), st') \<and> store_ok E anchor st' \<and>
    db_time (ls_db st') = db_time (ls_db st)"
proof -
  from ok have t: "tables_ok E anchor (ls_db st)" and f: "fields_ok (ls_db st)" by (auto simp: store_ok_def)
  from f obtain h j where hd: "db_head (ls_db st) = Some h" "stored (ls_db st) h"
    and j: "db_latest_justified (ls_db st) = Some j" by (elim fields_okE)
  from stored_state [OF t hd(2)] obtain s where s: "get_state (ls_db st) h = Inr s" by blast
  let ?votes = "signed_votes (extract_attestations_from_aggregated_payloads
     (map fst (db_new_payloads (ls_db st))) (ls_db st))"
  from compute_lmd_ghost_head_total [OF t anc] obtain r rs where
    r: "compute_lmd_ghost_head ?votes (cp_root j) (div_ceil (of_nat (length (validators s)) * 2) 3) (ls_db st) = Inr (r, rs)"
      "stored (ls_db st) r" by blast
  let ?db = "(ls_db st)\<lparr> db_safe_target := Some r \<rparr>"
  have sb: "same_blocks (ls_db st) ?db" by (simp add: same_blocks_def)
  have "fields_ok ?db" using f r by (simp add: fields_ok_def same_blocks_stored [OF sb])
  then show ?thesis
    using ok r hd j s same_blocks_tables_ok [OF sb t]
    by (simp add: update_safe_target_def pbind_def get_db_def pread_def pmodify_def put_db_def store_ok_def
        get_head_def get_justified_def field_get_def ok_or_def)
qed

lemma accept_payloads_votes: "same_blocks db (accept_payloads db) \<and> same_fields db (accept_payloads db)"
  by (simp add: accept_payloads_def Let_def same_blocks_def same_fields_def split: prod.splits)

lemma accept_new_attestations_total:
  assumes ok: "store_ok E anchor st" and anc: "anchored E anchor"
  shows "\<exists>st'. accept_new_attestations st = (Inr (), st') \<and> store_ok E anchor st' \<and>
    db_time (ls_db st') = db_time (ls_db st)"
proof -
  let ?st = "st\<lparr> ls_db := accept_payloads (ls_db st) \<rparr>"
  have "votes_only st ?st" using accept_payloads_votes [of "ls_db st"] by (simp add: votes_only_def)
  from update_head_total [OF votes_only_ok [OF this ok] anc] show ?thesis
    using accept_payloads_votes [of "ls_db st"]
    by (simp add: accept_new_attestations_def pbind_def put_db_def pmodify_def same_fields_def)
qed

section \<open>Ticks\<close>

lemma store_ok_time:
  assumes "store_ok E anchor st"
  shows "store_ok E anchor (st\<lparr> ls_db := (ls_db st)\<lparr> db_time := Some t \<rparr> \<rparr>)"
proof -
  let ?db = "(ls_db st)\<lparr> db_time := Some t \<rparr>"
  have sb: "same_blocks (ls_db st) ?db" by (simp add: same_blocks_def)
  show ?thesis
    using assms same_blocks_tables_ok [OF sb] by (auto simp: store_ok_def fields_ok_def same_blocks_stored [OF sb])
qed

lemma tick_interval_total:
  assumes ok: "store_ok E anchor st" and anc: "anchored E anchor" and t: "db_time (ls_db st) = Some t"
  shows "\<exists>st'. tick_interval hp agg st = (Inr (), st') \<and> store_ok E anchor st' \<and>
    db_time (ls_db st') = Some (t + 1)"
proof -
  let ?st = "st\<lparr> ls_db := (ls_db st)\<lparr> db_time := Some (t + 1) \<rparr> \<rparr>"
  note ok' = store_ok_time [OF ok, of "t + 1"]
  from accept_new_attestations_total [OF ok' anc] update_safe_target_total [OF ok' anc] ok' t show ?thesis
    by (auto simp: tick_interval_def pbind_def get_db_def pread_def put_db_def pmodify_def preturn_def
        get_time_def field_get_def ok_or_def Let_def)
qed

lemma tick_loop_total:
  assumes "store_ok E anchor st" and anc: "anchored E anchor" and "db_time (ls_db st) = Some t"
    and "unat target - unat t < fuel"
  shows "\<exists>st'. tick_loop fuel target hp agg st = (Inr (), st') \<and> store_ok E anchor st' \<and>
    db_time (ls_db st') = Some (max t target)"
  using assms(1,3,4)
proof (induction fuel arbitrary: st t)
  case (Suc fuel)
  show ?case
  proof (cases "t < target")
    case True
    from tick_interval_total [OF Suc.prems(1) anc Suc.prems(2)] obtain st1 where
      st1: "tick_interval (hp \<and> t + 1 = target) agg st = (Inr (), st1)" "store_ok E anchor st1"
        "db_time (ls_db st1) = Some (t + 1)" by blast
    have t1: "unat (t + 1) = Suc (unat t)"
      using unat_add_one [OF True] by simp
    have "unat target - unat (t + 1) < fuel" using Suc.prems(3) True by (simp add: t1 word_less_nat_alt)
    from Suc.IH [OF st1(2,3) this] have "\<exists>st'. tick_loop fuel target hp agg st1 = (Inr (), st') \<and>
        store_ok E anchor st' \<and> db_time (ls_db st') = Some (max (t + 1) target)" .
    moreover have "max (t + 1) target = max t target"
      using True t1 by (simp add: max_def word_le_nat_alt word_less_nat_alt)
    ultimately show ?thesis using True st1(1) Suc.prems(2)
      by (simp add: pbind_def get_db_def pread_def get_time_def field_get_def ok_or_def)
  next
    case False
    then have "max t target = t" by simp
    with False Suc.prems show ?thesis
      by (simp add: pbind_def get_db_def pread_def get_time_def field_get_def ok_or_def preturn_def)
  qed
qed simp

lemma on_tick_total:
  assumes ok: "store_ok E anchor st" and anc: "anchored E anchor" and N: "seconds_per_slot N * 1000 \<noteq> 0"
    and t: "db_time (ls_db st) = Some t"
  shows "\<exists>st' g. on_tick N time hp agg st = (Inr (), st') \<and> store_ok E anchor st' \<and>
    store_genesis_time (ls_db st) = Inr g \<and>
    db_time (ls_db st') = Some (if time < g then t else max t (tick_interval_time N (time - g)))"
proof -
  from ok have tb: "tables_ok E anchor (ls_db st)" and f: "fields_ok (ls_db st)" by (auto simp: store_ok_def)
  from f obtain h where h: "db_head (ls_db st) = Some h" "stored (ls_db st) h" by (elim fields_okE)
  from stored_state [OF tb h(2)] obtain s where s: "get_state (ls_db st) h = Inr s" by blast
  let ?g = "genesis_time (st_config s)"
  have g: "store_genesis_time (ls_db st) = Inr ?g"
    using h s by (simp add: store_genesis_time_def get_head_def field_get_def ok_or_def)
  let ?target = "tick_interval_time N (time - ?g)"
  have "unat ?target - unat t < Suc (unat ?target)" by simp
  from tick_loop_total [OF ok anc t this] g N t ok show ?thesis
    by (cases "time < ?g")
      (auto simp: on_tick_def pbind_def get_db_def pread_def preturn_def checked_sub_def Let_def not_less
        simp del: tick_loop.simps)
qed

lemma get_proposal_head_total:
  assumes ok: "store_ok E anchor st" and anc: "anchored E anchor" and N: "seconds_per_slot N * 1000 \<noteq> 0"
  shows "\<exists>st' h. get_proposal_head N slot st = (Inr h, st') \<and> store_ok E anchor st' \<and> stored (ls_db st') h"
proof -
  from ok obtain t where t: "db_time (ls_db st) = Some t" by (auto simp: store_ok_def fields_ok_def)
  from on_tick_total [OF ok anc N t] obtain st1 where
    st1: "on_tick N (spec_genesis_time N + slot * seconds_per_slot N) True False st = (Inr (), st1)"
      "store_ok E anchor st1" by blast
  from accept_new_attestations_total [OF st1(2) anc] obtain st2 where
    st2: "accept_new_attestations st1 = (Inr (), st2)" "store_ok E anchor st2" by blast
  from st2(2) obtain h where "db_head (ls_db st2) = Some h" "stored (ls_db st2) h"
    by (auto simp: store_ok_def fields_ok_def)
  with st1 st2 show ?thesis
    by (simp add: get_proposal_head_def Let_def pbind_def get_db_def pread_def get_head_def field_get_def ok_or_def)
qed

section \<open>Blocks\<close>

text \<open>What a block that passes the checks brings: its hash is new, its parent is stored with a smaller
  slot and the post-state is well formed.\<close>

lemma check_block_Inr:
  assumes "check_block E Q sb verify db = Inr (post, j)"
  obtains s c where "get_state db (blk_parent_root (sb_block sb)) = Inr s"
    "state_transition E (sb_block sb) True s = Inr post" "get_justified db = Inr c"
    "j = c \<or> (cp_slot c < cp_slot j \<and> j = latest_justified post \<and> stored db (cp_root j))"
  using assms unfolding check_block_def
  by (auto simp: Let_def result_simps stored_def table_contains_key_def split: if_splits)

lemma check_block_ends: "check_block E Q sb verify db \<noteq> Inl Diverges"
  by (auto simp: check_block_def Let_def result_simps get_state_def get_time_def get_justified_def field_get_def)

lemma process_slots_after: "process_slots E slot s = Inr s1 \<Longrightarrow> st_slot s < slot"
  by (auto simp: process_slots_def result_simps)

lemma insert_block_tables_ok:
  fixes j :: "checkpoint option"
  assumes ok: "tables_ok E anchor db" and anc: "anchored E anchor"
    and new: "\<not> stored db (hash_block E (sb_block sb))"
    and parent: "get_state db (blk_parent_root (sb_block sb)) = Inr s"
    and slot: "st_slot s < blk_slot (sb_block sb)"
    and post: "state_ok post" "st_slot post = blk_slot (sb_block sb)"
  defines "r \<equiv> hash_block E (sb_block sb)"
  defines "db' \<equiv> (block_insert_ref E r sb db)\<lparr> db_states := tbl_insert r post (db_states (block_insert_ref E r sb db)),
                    db_latest_justified := j \<rparr>"
  shows "tables_ok E anchor db'" "\<And>x. stored db x \<Longrightarrow> stored db' x" "stored db' r"
proof -
  let ?b = "sb_block sb"
  have blocks: "db_blocks db' = tbl_insert r sb (db_blocks db)"
    and states: "db_states db' = tbl_insert r post (db_states db)"
    and kids: "db_children_index db' =
      tbl_insert r \<lparr> ci_slot = blk_slot ?b, ci_parent_root = blk_parent_root ?b \<rparr> (db_children_index db)"
    and slots: "db_slot_index db' = tbl_insert (blk_slot ?b) r (db_slot_index db)"
    and roots: "db_state_root_index db' = tbl_insert (blk_state_root ?b) r (db_state_root_index db)"
    by (simp_all add: db'_def block_insert_ref_def r_def Let_def)
  show mono: "stored db' x" if "stored db x" for x using that by (simp add: stored_def blocks table_simps)
  show self: "stored db' r" by (simp add: stored_def blocks table_simps)
  have p: "stored db (blk_parent_root ?b)"
    using parent tables_okD(5) [OF ok] by (auto simp: get_state_def ok_or_eq_Inr)
  from stored_state [OF ok p] parent obtain psb where
    psb: "tbl_get (db_blocks db) (blk_parent_root ?b) = Some psb" "st_slot s = blk_slot (sb_block psb)" by auto
  have pr: "blk_parent_root ?b \<noteq> r" using p new by (auto simp: r_def)
  have anchor_le: "blk_slot anchor \<le> blk_slot (sb_block psb)"
    using tables_okD(4) [OF ok psb(1)] by (simp add: block_ok_def)
  have "block_ok E anchor db' r ?b"
    using psb slot post anchor_le pr
    by (auto simp: block_ok_def r_def [symmetric] states blocks table_simps)
  moreover have "block_ok E anchor db' x (sb_block sb')"
    if "tbl_get (db_blocks db) x = Some sb'" for x sb'
  proof -
    from that new have "x \<noteq> r" by (auto simp: stored_def r_def)
    with tables_okD(4) [OF ok that] new show ?thesis
      by (auto simp: block_ok_def states blocks table_simps stored_def r_def [symmetric])
  qed
  ultimately have all: "\<forall>x sb'. tbl_get (db_blocks db') x = Some sb' \<longrightarrow> block_ok E anchor db' x (sb_block sb')"
    by (auto simp: blocks table_simps)
  have kid: "\<exists>sb. tbl_get (db_blocks db') x = Some sb \<and> ci_slot e = blk_slot (sb_block sb) \<and>
      ci_parent_root e = blk_parent_root (sb_block sb)" if "tbl_get (db_children_index db') x = Some e" for x e
  proof (cases "x = r")
    case False
    with that tables_okD(6) [OF ok, of x e] show ?thesis by (auto simp: kids blocks table_simps)
  qed (use that in \<open>auto simp: kids blocks table_simps\<close>)
  have old: "tbl_get (db_blocks db') x = tbl_get (db_blocks db) x \<and> tbl_get (db_states db') x = tbl_get (db_states db) x"
    if "stored db x" for x
    using that new by (auto simp: blocks states r_def table_simps)
  have sl: "\<exists>sb. tbl_get (db_blocks db') x = Some sb \<and> blk_slot (sb_block sb) = k"
    if "(k, x) \<in> set (db_slot_index db')" for k x
    using set_tbl_insert [OF that [unfolded slots]] tables_okD(8,9) [OF ok, of k x] old [of x]
    by (auto simp: blocks table_simps)
  have rt: "\<exists>sb s. tbl_get (db_blocks db') x = Some sb \<and> tbl_get (db_states db') x = Some s \<and>
      (k = blk_state_root (sb_block sb) \<or> k = hash_state E s)"
    if "(k, x) \<in> set (db_state_root_index db')" for k x
    using set_tbl_insert [OF that [unfolded roots]] tables_okD(10) [OF ok, of k x] old [of x]
    by (auto simp: blocks states stored_def table_simps)
  have "db_slot_index db' \<noteq> []" by (cases "db_slot_index db") (auto simp: slots split: if_splits)
  moreover have "\<forall>x. tbl_get (db_states db') x \<noteq> None \<longrightarrow> stored db' x"
    using tables_okD(5) [OF ok] mono self by (auto simp: states table_simps)
  moreover have "tbl_wf (db_blocks db')" "tbl_wf (db_states db')" "tbl_wf (db_children_index db')"
    using tables_okD(1-3) [OF ok] by (simp_all add: blocks states kids)
  ultimately show "tables_ok E anchor db'" using all kid sl rt unfolding tables_ok_def by blast
qed

text \<open>Blocks are only added, checkpoints only move forward, and the invariant is kept, whether the
  block is accepted or rejected.\<close>

definition grows :: "lean_db \<Rightarrow> lean_db \<Rightarrow> bool" where
  "grows db db' \<longleftrightarrow>
     tbl_get (db_blocks db) \<subseteq>\<^sub>m tbl_get (db_blocks db') \<and> tbl_get (db_states db) \<subseteq>\<^sub>m tbl_get (db_states db') \<and>
     (\<forall>c c'. db_latest_justified db = Some c \<longrightarrow> db_latest_justified db' = Some c' \<longrightarrow> cp_slot c \<le> cp_slot c')"

lemma same_blocks_fold:
  "(\<And>x db. same_blocks db (f x db) \<and> same_fields db (f x db)) \<Longrightarrow>
   same_blocks db (fold f xs db) \<and> same_fields db (fold f xs db)"
proof (induction xs arbitrary: db)
  case (Cons x xs)
  from Cons.prems [of db x] Cons.IH [OF Cons.prems, of "f x db"] show ?case
    by (simp add: same_blocks_def same_fields_def)
qed (simp add: same_blocks_def same_fields_def)

lemma add_block_payload_votes:
  "same_blocks db (add_block_payload E a db) \<and> same_fields db (add_block_payload E a db)"
  by (simp add: add_block_payload_def Let_def same_blocks_def same_fields_def)

lemma check_duplicates_iff:
  "check_duplicates E atts = Inr u \<longleftrightarrow> distinct (map (\<lambda>a. hash_attestation_data E (aa_message a)) atts)"
proof -
  let ?h = "\<lambda>a. hash_attestation_data E (aa_message a)"
  let ?f = "\<lambda>seen a. let root = ?h a in
     and_then (ensure (root \<notin> set seen) DuplicateAttestationData) (\<lambda>_. Inr (root # seen))"
  have "(\<exists>ys. try_fold ?f seen atts = Inr ys) \<longleftrightarrow> distinct (map ?h atts) \<and> set (map ?h atts) \<inter> set seen = {}" for seen
    by (induction atts arbitrary: seen) (auto simp: result_simps Let_def)
  from this [of "[]"] show ?thesis by (auto simp: check_duplicates_def result_simps)
qed

lemma check_duplicates_error: "check_duplicates E atts = Inl e \<Longrightarrow> e = DuplicateAttestationData"
proof -
  let ?f = "\<lambda>seen a. let root = hash_attestation_data E (aa_message a) in
     and_then (ensure (root \<notin> set seen) DuplicateAttestationData) (\<lambda>_. Inr (root # seen))"
  have "try_fold ?f seen atts = Inl e \<Longrightarrow> e = DuplicateAttestationData" for seen
    by (induction atts arbitrary: seen) (auto simp: result_simps Let_def)
  then show "check_duplicates E atts = Inl e \<Longrightarrow> e = DuplicateAttestationData"
    by (auto simp: check_duplicates_def result_simps)
qed

definition insert_block ::
  "lean_env \<Rightarrow> signed_block \<Rightarrow> lean_state \<Rightarrow> checkpoint \<Rightarrow> lean_store \<Rightarrow> lean_store" where
  "insert_block E sb post j st =
     (let r = hash_block E (sb_block sb); db = block_insert_ref E r sb (ls_db st) in
      st\<lparr> ls_db := db\<lparr> db_states := tbl_insert r post (db_states db), db_latest_justified := Some j \<rparr> \<rparr>)"

text \<open>The handler in closed form: rejected by the checks, stored but rejected for duplicate data, or
  stored with its votes and the head updated.\<close>

lemma on_block_eq:
  "on_block E Q sb verify st =
     (if table_contains_key (db_blocks (ls_db st)) (hash_block E (sb_block sb)) then (Inr (), st)
      else case check_block E Q sb verify (ls_db st) of
        Inl e \<Rightarrow> (Inl e, st)
      | Inr (post, j) \<Rightarrow>
          (case check_duplicates E (attestations (blk_body (sb_block sb))) of
             Inl e \<Rightarrow> (Inl e, insert_block E sb post j st)
           | Inr _ \<Rightarrow> update_head (insert_block E sb post j st
               \<lparr> ls_db := fold (add_block_payload E) (attestations (blk_body (sb_block sb)))
                  (ls_db (insert_block E sb post j st)) \<rparr>)))"
  by (simp add: on_block_def Let_def pbind_def get_db_def pread_def put_db_def pmodify_def preturn_def plift_def
      insert_block_def split: sum.splits prod.splits)

lemma insert_block_ok:
  assumes ok: "store_ok E anchor st" and anc: "anchored E anchor" and E: "ssz_ok E"
    and new: "\<not> stored (ls_db st) (hash_block E (sb_block sb))"
    and chk: "check_block E Q sb verify (ls_db st) = Inr (post, j)"
  shows "store_ok E anchor (insert_block E sb post j st)"
    and "grows (ls_db st) (ls_db (insert_block E sb post j st))"
proof -
  let ?db = "ls_db st" and ?r = "hash_block E (sb_block sb)" and ?st = "insert_block E sb post j st"
  from ok have t: "tables_ok E anchor ?db" and f: "fields_ok ?db" by (auto simp: store_ok_def)
  from chk obtain s c where s: "get_state ?db (blk_parent_root (sb_block sb)) = Inr s"
    and tr: "state_transition E (sb_block sb) True s = Inr post" and c: "get_justified ?db = Inr c"
    and j: "j = c \<or> (cp_slot c < cp_slot j \<and> j = latest_justified post \<and> stored ?db (cp_root j))"
    by (rule check_block_Inr)
  from s tables_okD(5) [OF t] have p: "stored ?db (blk_parent_root (sb_block sb))"
    by (auto simp: get_state_def ok_or_eq_Inr)
  with stored_state [OF t p] s have "state_ok s" by auto
  from state_transition_ok [OF E this tr] have post: "state_ok post" "st_slot post = blk_slot (sb_block sb)"
    by blast+
  have slot: "st_slot s < blk_slot (sb_block sb)"
    using tr process_slots_after by (auto simp: state_transition_Inr)
  have db: "ls_db ?st = (block_insert_ref E ?r sb ?db)
      \<lparr> db_states := tbl_insert ?r post (db_states (block_insert_ref E ?r sb ?db)), db_latest_justified := Some j \<rparr>"
    by (simp add: insert_block_def Let_def)
  note ins = insert_block_tables_ok [OF t anc new s slot post, where j = "Some j", folded db]
  have cj: "db_latest_justified ?db = Some c" using c by (simp add: get_justified_def field_get_def ok_or_eq_Inr)
  have "stored ?db (cp_root j)" using j f cj by (auto simp: fields_ok_def)
  then have "fields_ok (ls_db ?st)"
    using f ins(2) by (auto simp: fields_ok_def db block_insert_ref_def Let_def)
  then show "store_ok E anchor ?st"
    using ok ins(1) by (simp add: store_ok_def) (simp add: insert_block_def Let_def block_insert_ref_def)
  have "tbl_get (db_states ?db) ?r = None" using new tables_okD(5) [OF t, of ?r] by (cases "tbl_get (db_states ?db) ?r") auto
  then show "grows ?db (ls_db ?st)"
    using new j cj by (auto simp: grows_def db block_insert_ref_def Let_def table_simps map_le_def stored_def dom_def)
qed

lemma update_head_grows: "grows (ls_db st) (ls_db (snd (update_head st)))"
  by (auto simp: update_head_def pbind_def get_db_def pread_def pmodify_def put_db_def grows_def
      split: sum.splits prod.splits)

lemma same_grows:
  "same_blocks db db' \<Longrightarrow> same_fields db db' \<Longrightarrow> grows db' db'' \<Longrightarrow> grows db db''"
  "same_blocks db db' \<Longrightarrow> same_fields db db' \<Longrightarrow> grows db db'"
  by (simp_all add: grows_def same_blocks_def same_fields_def)

lemma grows_trans:
  "grows a b \<Longrightarrow> grows b c \<Longrightarrow> db_latest_justified b \<noteq> None \<Longrightarrow> grows a c"
  by (auto simp: grows_def intro: map_le_trans order_trans)

lemma on_block_ok:
  assumes ok: "store_ok E anchor st" and anc: "anchored E anchor" and E: "ssz_ok E"
  shows "store_ok E anchor (snd (on_block E Q sb verify st))"
    and "grows (ls_db st) (ls_db (snd (on_block E Q sb verify st)))"
    and "fst (on_block E Q sb verify st) \<noteq> Inl Diverges"
proof -
  let ?thesis' = "store_ok E anchor (snd (on_block E Q sb verify st)) \<and>
     grows (ls_db st) (ls_db (snd (on_block E Q sb verify st))) \<and>
     fst (on_block E Q sb verify st) \<noteq> Inl Diverges"
  have refl: "grows (ls_db st) (ls_db st)" by (simp add: grows_def)
  have ?thesis'
  proof (cases "table_contains_key (db_blocks (ls_db st)) (hash_block E (sb_block sb))")
    case True
    then show ?thesis using ok refl by (simp add: on_block_eq)
  next
    case False
    then have new: "\<not> stored (ls_db st) (hash_block E (sb_block sb))"
      by (simp add: stored_def table_contains_key_def)
    show ?thesis
    proof (cases "check_block E Q sb verify (ls_db st)")
      case (Inl e)
      then show ?thesis using ok False refl check_block_ends [of E Q sb verify "ls_db st"]
        by (auto simp: on_block_eq)
    next
      case (Inr x)
      obtain post j where x: "x = (post, j)" by force
      let ?st1 = "insert_block E sb post j st"
      let ?atts = "attestations (blk_body (sb_block sb))"
      let ?st2 = "?st1\<lparr> ls_db := fold (add_block_payload E) ?atts (ls_db ?st1) \<rparr>"
      note ins = insert_block_ok [OF ok anc E new Inr [unfolded x]]
      have same: "same_blocks (ls_db ?st1) (ls_db ?st2) \<and> same_fields (ls_db ?st1) (ls_db ?st2)"
        using same_blocks_fold [of "add_block_payload E", OF add_block_payload_votes] by simp
      then have "votes_only ?st1 ?st2" by (simp add: votes_only_def)
      from votes_only_ok [OF this ins(1)] have ok2: "store_ok E anchor ?st2" .
      from update_head_total [OF ok2 anc] obtain st3 where
        st3: "update_head ?st2 = (Inr (), st3)" "store_ok E anchor st3" by blast
      have "grows (ls_db ?st2) (ls_db st3)" using update_head_grows [of ?st2] st3(1) by simp
      from same_grows(1) [OF _ _ this] same have "grows (ls_db ?st1) (ls_db st3)" by blast
      moreover have "db_latest_justified (ls_db ?st1) \<noteq> None" by (simp add: insert_block_def Let_def)
      ultimately have g: "grows (ls_db st) (ls_db st3)" using ins(2) grows_trans by blast
      show ?thesis
      proof (cases "check_duplicates E ?atts")
        case (Inl e)
        have "e \<noteq> Diverges" using check_duplicates_error [OF Inl] by simp
        then show ?thesis using False Inr x Inl ins by (simp add: on_block_eq)
      next
        case (Inr u)
        then show ?thesis using False \<open>check_block E Q sb verify (ls_db st) = Inr x\<close> x st3 g
          by (simp add: on_block_eq)
      qed
    qed
  qed
  then show "store_ok E anchor (snd (on_block E Q sb verify st))"
    and "grows (ls_db st) (ls_db (snd (on_block E Q sb verify st)))"
    and "fst (on_block E Q sb verify st) \<noteq> Inl Diverges"
    by blast+
qed

end
