(* ===== verification/Lean_Store_Steps.thy ===== *)
theory Lean_Store_Steps
  imports Lean_Store_Invariant
begin

text \<open>
  The store as a state machine: its initial states are those of \<open>get_forkchoice_store\<close>, its steps
  the handlers of \<open>store.rs\<close>, whether they return or fail. Every reachable store satisfies the
  invariant, no handler loops, and the table of known attestations stays empty.
\<close>

section \<open>Handlers that only write votes\<close>

lemma keeps_put_votes:
  "(\<And>db. same_blocks db (f db)) \<Longrightarrow> (\<And>db. same_fields db (f db)) \<Longrightarrow> keeps votes_only (put_db f)"
  by (intro keeps_put_db) blast

lemma add_new_payload_votes:
  "same_blocks db (add_new_payload slot root v p db) \<and> same_fields db (add_new_payload slot root v p db)"
  by (simp add: add_new_payload_def same_blocks_def same_fields_def)

lemma gossip_aggregate_votes: "keeps votes_only (on_gossip_aggregated_attestation_core E Q saa verify)"
proof -
  have "keeps votes_only (put_db (fold (\<lambda>v. add_new_payload slot root v p) vs))" for slot root p vs
    using same_blocks_fold [of "\<lambda>v. add_new_payload slot root v p", OF add_new_payload_votes]
    by (intro keeps_put_db) blast
  moreover have "keeps votes_only (put_db (\<lambda>db. db\<lparr> db_attestation_data := f db \<rparr>))" for f
    by (intro keeps_put_db) (simp add: same_blocks_def same_fields_def)
  ultimately show ?thesis
    unfolding on_gossip_aggregated_attestation_core_def Let_def by (intro vo.keeps_pbind keeps_get_db)
qed

lemma keeps_case_option:
  "keeps R n \<Longrightarrow> (\<And>x. keeps R (m x)) \<Longrightarrow> keeps R (case y of None \<Rightarrow> n | Some x \<Rightarrow> m x)"
  by (cases y) simp_all

lemma gossip_attestation_votes: "keeps votes_only (on_gossip_attestation E Q N sa is_aggregator)"
  unfolding on_gossip_attestation_def Let_def
  by (intro votes_only_intros keeps_case_option) (simp_all add: same_blocks_def same_fields_def)

lemma aggregate_votes: "keeps votes_only (aggregate E Q)"
  unfolding aggregate_def
  by (intro votes_only_intros)
    (simp_all add: Let_def case_prod_beta same_blocks_def same_fields_def)

lemma aggregate_apply_votes: "keeps votes_only (aggregate_apply E signed_atts)"
  unfolding aggregate_apply_def
  by (intro votes_only_intros) (simp_all add: same_blocks_def same_fields_def)

lemma prune_children_ok:
  fixes slot :: u64
  assumes ok: "store_ok E anchor st"
  defines "db' \<equiv> (ls_db st)\<lparr> db_children_index := snd (prune_finalized slot (db_children_index (ls_db st))) \<rparr>"
  shows "store_ok E anchor (st\<lparr> ls_db := db' \<rparr>)"
proof -
  let ?db = "ls_db st"
  from ok have t: "tables_ok E anchor ?db" and f: "fields_ok ?db" by (auto simp: store_ok_def)
  note wf = tables_okD(3) [OF t]
  have kids: "db_children_index db' = tbl_retain (\<lambda>_ e. slot \<le> ci_slot e) (db_children_index ?db)"
    by (simp add: db'_def prune_finalized_eq [OF wf])
  have sub: "tbl_get (db_children_index ?db) r = Some e" if "tbl_get (db_children_index db') r = Some e" for r e
    using that by (simp add: kids tbl_get_retain [OF tbl_wf_distinct [OF wf]] split: option.splits if_splits)
  have st: "stored db' = stored ?db" and bo: "block_ok E anchor db' = block_ok E anchor ?db"
    by (simp_all add: db'_def stored_def block_ok_def fun_eq_iff)
  have same: "db_blocks db' = db_blocks ?db" "db_states db' = db_states ?db" "db_slot_index db' = db_slot_index ?db"
    "db_state_root_index db' = db_state_root_index ?db"
    by (simp_all add: db'_def)
  have "\<exists>sb. tbl_get (db_blocks ?db) r = Some sb \<and> ci_slot e = blk_slot (sb_block sb) \<and>
      ci_parent_root e = blk_parent_root (sb_block sb)" if "tbl_get (db_children_index db') r = Some e" for r e
    using tables_okD(6) [OF t sub [OF that]] .
  moreover have "tbl_wf (db_children_index db')" using wf by (simp add: kids)
  ultimately have "tables_ok E anchor db'"
    using t unfolding tables_ok_def st bo same by blast
  moreover have "fields_ok db'" using f by (simp add: fields_ok_def st) (simp add: db'_def)
  ultimately show ?thesis using ok by (simp add: store_ok_def) (simp add: db'_def)
qed

text \<open>The second half of the pruning, after the children index.\<close>

definition prune_votes :: "u64 \<Rightarrow> unit store_prog" where
  "prune_votes slot =
     pbind (pread (\<lambda>st. Inr (cp_slot (ls_head_checkpoint st)))) (\<lambda>head_slot.
     pbind (get_db (\<lambda>db. Inr (stale_roots db slot (max slot (saturating_sub head_slot ATTESTATION_RETENTION_SLOTS)))))
       (\<lambda>stale.
     if stale = [] then preturn ()
     else put_db (\<lambda>db. db\<lparr>
       db_attestation_data := tbl_retain (\<lambda>root _. root \<notin> set stale) (db_attestation_data db),
       db_new_payloads := tbl_retain (\<lambda>key _. data_root key \<notin> set stale) (db_new_payloads db),
       db_known_payloads := tbl_retain (\<lambda>key _. data_root key \<notin> set stale) (db_known_payloads db),
       db_gossip_signatures := gossip_retain (\<lambda>key. data_root key \<notin> set stale) (db_gossip_signatures db) \<rparr>)))"

lemma prune_split:
  "prune_stale_attestation_data =
     pbind (get_db get_finalized) (\<lambda>fin.
     pbind (put_db (\<lambda>db. db\<lparr> db_children_index := snd (prune_finalized (cp_slot fin) (db_children_index db)) \<rparr>)) (\<lambda>_.
     prune_votes (cp_slot fin)))"
  by (simp add: prune_stale_attestation_data_def prune_votes_def Let_def)

lemma prune_votes_only: "keeps votes_only (prune_votes slot)"
  unfolding prune_votes_def by (intro votes_only_intros) (simp_all add: same_blocks_def same_fields_def)

lemma prune_votes_total: "\<exists>st'. prune_votes slot st = (Inr (), st')"
  by (auto simp: prune_votes_def pbind_def pread_def get_db_def put_db_def pmodify_def preturn_def)

lemma prune_ok:
  assumes ok: "store_ok E anchor st"
  shows "store_ok E anchor (snd (prune_stale_attestation_data st))"
    and "\<exists>st'. prune_stale_attestation_data st = (Inr (), st')"
proof -
  from ok obtain c where c: "db_latest_finalized (ls_db st) = Some c"
    by (auto simp: store_ok_def fields_ok_def)
  let ?st1 = "st\<lparr> ls_db := (ls_db st)\<lparr> db_children_index :=
    snd (prune_finalized (cp_slot c) (db_children_index (ls_db st))) \<rparr> \<rparr>"
  have run: "prune_stale_attestation_data st = prune_votes (cp_slot c) ?st1"
    using c by (simp add: prune_split pbind_def get_db_def pread_def put_db_def pmodify_def get_finalized_def
        field_get_def ok_or_def)
  have "votes_only ?st1 (snd (prune_votes (cp_slot c) ?st1))"
    using prune_votes_only by (simp add: keeps_def)
  from votes_only_ok [OF this prune_children_ok [OF ok]]
  show "store_ok E anchor (snd (prune_stale_attestation_data st))" unfolding run .
  show "\<exists>st'. prune_stale_attestation_data st = (Inr (), st')"
    unfolding run by (rule prune_votes_total)
qed

section \<open>The initial store\<close>

text \<open>The anchor block and state belong together: the state's latest header, with its state root
  filled in, is the header of the block, and its slot is the block's.\<close>

definition anchor_ok :: "lean_env \<Rightarrow> block \<Rightarrow> lean_state \<Rightarrow> bool" where
  "anchor_ok E b s \<longleftrightarrow>
     state_ok s \<and> st_slot s = blk_slot b \<and>
     (let h = latest_block_header s in
      (if hdr_state_root h = 0 then h\<lparr> hdr_state_root := hash_state E s \<rparr> else h) = header_of_block E b) \<and>
     hash_block_header E (header_of_block E b) = hash_block E b"

lemma get_forkchoice_store_ok:
  assumes run: "get_forkchoice_store E N sb s empty_db time vid = Inr st"
    and a: "anchor_ok E (sb_block sb) s"
  shows "store_ok E (sb_block sb) st" and "db_known_attestations (ls_db st) = []"
    and "db_time (ls_db st) = Some (case time of Some t \<Rightarrow> t | None \<Rightarrow> blk_slot (sb_block sb) * seconds_per_slot N)"
proof -
  let ?b = "sb_block sb"
  let ?r = "hash_block E ?b"
  have root: "hash_block_header E (if hdr_state_root (latest_block_header s) = 0
      then (latest_block_header s)\<lparr> hdr_state_root := hash_state E s \<rparr> else latest_block_header s) = ?r"
    using a by (simp add: anchor_ok_def Let_def)
  from run have st: "st = \<lparr> ls_db = (block_insert_ref E ?r sb
        (empty_db\<lparr> db_time := Some (case time of Some t \<Rightarrow> t | None \<Rightarrow> blk_slot ?b * seconds_per_slot N) \<rparr>))
      \<lparr> db_slot_index := [(blk_slot ?b, ?r)], db_state_root_index := tbl_insert (hash_state E s) ?r [(blk_state_root ?b, ?r)],
        db_latest_finalized := Some \<lparr> cp_root = ?r, cp_slot = blk_slot ?b \<rparr>,
        db_latest_justified := Some \<lparr> cp_root = ?r, cp_slot = blk_slot ?b \<rparr>,
        db_states := [(?r, s)], db_head := Some ?r, db_safe_target := Some ?r, db_validator_id := Some vid \<rparr>,
      ls_head_checkpoint = \<lparr> cp_root = ?r, cp_slot = blk_slot ?b \<rparr>,
      ls_finalized_checkpoint = \<lparr> cp_root = ?r, cp_slot = blk_slot ?b \<rparr>, ls_strategy = RoundBased \<rparr>"
    by (auto simp: get_forkchoice_store_def result_simps Let_def root block_insert_ref_def empty_db_def)
  define R where "R = tbl_insert (hash_state E s) ?r [(blk_state_root ?b, ?r)]"
  have roots: "x = ?r \<and> (k = blk_state_root ?b \<or> k = hash_state E s)" if "(k, x) \<in> set R" for k x
    using set_tbl_insert [OF that [unfolded R_def]] by auto
  show "store_ok E ?b st"
    using a roots by (simp add: st store_ok_def tables_ok_def fields_ok_def block_ok_def stored_def block_insert_ref_def
        Let_def empty_db_def anchor_ok_def tbl_wf_Cons R_def [symmetric]) fastforce
  show "db_known_attestations (ls_db st) = []"
    and "db_time (ls_db st) = Some (case time of Some t \<Rightarrow> t | None \<Rightarrow> blk_slot ?b * seconds_per_slot N)"
    by (simp_all add: st block_insert_ref_def Let_def empty_db_def)
qed

section \<open>The machine\<close>

text \<open>What the chain service and the validator service call on the store.\<close>

datatype store_event =
    Tick u64 bool bool
  | Import signed_block bool
  | Attest signed_attestation bool
  | Aggregated signed_aggregated_attestation bool
  | Aggregate
  | ApplyAggregates "signed_aggregated_attestation list"
  | Prune
  | Propose u64 u64

fun handle :: "lean_env \<Rightarrow> ('k, 'x, 's, 'm) pq_env \<Rightarrow> net_spec \<Rightarrow> store_event \<Rightarrow> unit store_prog" where
  "handle E Q N (Tick time has_proposal is_aggregator) = on_tick N time has_proposal is_aggregator"
| "handle E Q N (Import sb verify) = on_block E Q sb verify"
| "handle E Q N (Attest sa is_aggregator) = on_gossip_attestation E Q N sa is_aggregator"
| "handle E Q N (Aggregated saa verify) = on_gossip_aggregated_attestation_core E Q saa verify"
| "handle E Q N Aggregate = pbind (aggregate E Q) (\<lambda>_. preturn ())"
| "handle E Q N (ApplyAggregates signed_atts) = aggregate_apply E signed_atts"
| "handle E Q N Prune = prune_stale_attestation_data"
| "handle E Q N (Propose slot validator_index) =
     pbind (produce_block_with_signatures E N slot validator_index) (\<lambda>_. preturn ())"

inductive reachable_store ::
  "lean_env \<Rightarrow> ('k, 'x, 's, 'm) pq_env \<Rightarrow> net_spec \<Rightarrow> signed_block \<Rightarrow> lean_state \<Rightarrow> lean_store \<Rightarrow> bool"
  for E Q N sb s where
  start: "get_forkchoice_store E N sb s empty_db time vid = Inr st \<Longrightarrow> reachable_store E Q N sb s st"
| strategy: "reachable_store E Q N sb s st \<Longrightarrow>
    reachable_store E Q N sb s (with_block_production_strategy strategy st)"
| event: "reachable_store E Q N sb s st \<Longrightarrow> handle E Q N ev st = (r, st') \<Longrightarrow> reachable_store E Q N sb s st'"

text \<open>The hypotheses on the environment: the laws of the bounded containers, a consistent anchor,
  parent roots that identify earlier blocks, and a slot of positive length.\<close>

definition env_ok :: "lean_env \<Rightarrow> net_spec \<Rightarrow> block \<Rightarrow> lean_state \<Rightarrow> bool" where
  "env_ok E N b s \<longleftrightarrow> ssz_ok E \<and> anchor_ok E b s \<and> anchored E b \<and> seconds_per_slot N * 1000 \<noteq> 0"

lemma on_tick_ok:
  assumes "store_ok E anchor st" and "anchored E anchor" and "seconds_per_slot N * 1000 \<noteq> 0"
  shows "\<exists>st'. on_tick N time hp agg st = (Inr (), st') \<and> store_ok E anchor st'"
proof -
  obtain t where "db_time (ls_db st) = Some t" using assms(1) by (auto simp: store_ok_def fields_ok_def)
  from on_tick_total [OF assms this] show ?thesis by blast
qed

lemma propose_ok:
  assumes "store_ok E anchor st" and "anchored E anchor" and "seconds_per_slot N * 1000 \<noteq> 0"
  shows "store_ok E anchor (snd (produce_block_with_signatures E N slot vid st))"
proof -
  from get_proposal_head_total [OF assms] obtain h st1 where
    "get_proposal_head N slot st = (Inr h, st1)" "store_ok E anchor st1" by blast
  then show ?thesis
    by (simp add: produce_block_with_signatures_def pbind_def get_db_def pread_def)
qed

lemma snd_pbind_preturn: "snd (pbind m (\<lambda>_. preturn ()) st) = snd (m st)"
  by (simp add: pbind_def preturn_def split: prod.splits sum.splits)

lemma votes_only_keeps_ok: "keeps votes_only m \<Longrightarrow> store_ok E anchor st \<Longrightarrow> store_ok E anchor (snd (m st))"
  by (auto simp: keeps_def intro: votes_only_ok)

lemma handle_ok:
  assumes env: "env_ok E N b s" and ok: "store_ok E b st"
  shows "store_ok E b (snd (handle E Q N ev st))"
proof -
  from env have E: "ssz_ok E" and anc: "anchored E b" and N: "seconds_per_slot N * 1000 \<noteq> 0"
    by (auto simp: env_ok_def)
  show ?thesis
  proof (cases ev)
    case (Tick time hp agg)
    with on_tick_ok [OF ok anc N, of time hp agg] show ?thesis by auto
  next
    case (Import sb verify)
    with on_block_ok(1) [OF ok anc E] show ?thesis by simp
  next
    case (Attest sa agg)
    with votes_only_keeps_ok [OF gossip_attestation_votes ok] show ?thesis by simp
  next
    case (Aggregated saa verify)
    with votes_only_keeps_ok [OF gossip_aggregate_votes ok] show ?thesis by simp
  next
    case Aggregate
    with votes_only_keeps_ok [OF aggregate_votes ok] show ?thesis by (simp add: snd_pbind_preturn)
  next
    case (ApplyAggregates signed_atts)
    with votes_only_keeps_ok [OF aggregate_apply_votes ok] show ?thesis by simp
  next
    case Prune
    with prune_ok(1) [OF ok] show ?thesis by simp
  next
    case (Propose slot vid)
    with propose_ok [OF ok anc N] show ?thesis by (simp add: snd_pbind_preturn)
  qed
qed

lemma with_strategy_ok: "store_ok E b st \<Longrightarrow> store_ok E b (with_block_production_strategy strategy st)"
  by (simp add: with_block_production_strategy_def store_ok_def)

lemma reachable_ok:
  assumes "reachable_store E Q N sb s st" and env: "env_ok E N (sb_block sb) s"
  shows "store_ok E (sb_block sb) st"
  using assms(1)
proof (induction rule: reachable_store.induct)
  case (start time vid st)
  with env get_forkchoice_store_ok(1) show ?case by (auto simp: env_ok_def)
next
  case (strategy st strategy)
  then show ?case by (intro with_strategy_ok)
next
  case (event st ev r st')
  with handle_ok [OF env, of st Q ev] show ?case by simp
qed

section \<open>No handler loops\<close>

text \<open>A result that is not the mark of an endless walk. Sequencing and loops end when their parts
  do, so it is enough to look at the walks.\<close>

definition ends :: "store_error + 'a \<Rightarrow> bool" where
  "ends r \<longleftrightarrow> r \<noteq> Inl Diverges"

lemma ends_Inr: "ends (Inr x)"
  and ends_Inl: "e \<noteq> Diverges \<Longrightarrow> ends (Inl e)"
  and ends_and_then: "ends r \<Longrightarrow> (\<And>x. r = Inr x \<Longrightarrow> ends (f x)) \<Longrightarrow> ends (and_then r f)"
  and ends_ensure: "e \<noteq> Diverges \<Longrightarrow> ends (ensure b e)"
  and ends_ok_or: "e \<noteq> Diverges \<Longrightarrow> ends (ok_or m e)"
  and ends_if: "(b \<Longrightarrow> ends r) \<Longrightarrow> (\<not> b \<Longrightarrow> ends r') \<Longrightarrow> ends (if b then r else r')"
  by (auto simp: ends_def result_simps)

lemma ends_map_err: "(\<And>e. g e \<noteq> Diverges) \<Longrightarrow> ends (map_err g q)"
  by (cases q) (simp_all add: ends_def)

lemma ends_prod: "(\<And>x y. p = (x, y) \<Longrightarrow> ends (f x y)) \<Longrightarrow> ends (case p of (x, y) \<Rightarrow> f x y)"
  by (cases p) simp

lemma ends_option:
  "ends r \<Longrightarrow> (\<And>x. ends (f x)) \<Longrightarrow> ends (case m of None \<Rightarrow> r | Some x \<Rightarrow> f x)"
  by (cases m) simp_all

lemma ends_try_map: "(\<And>x. x \<in> set xs \<Longrightarrow> ends (f x)) \<Longrightarrow> ends (try_map f xs)"
  by (induction xs) (auto simp: ends_def result_simps)

lemma ends_try_fold: "(\<And>s x. x \<in> set xs \<Longrightarrow> ends (f s x)) \<Longrightarrow> ends (try_fold f s xs)"
  by (induction xs arbitrary: s) (auto simp: ends_def result_simps)

lemmas ends_intros = ends_Inr ends_Inl ends_and_then ends_ensure ends_ok_or ends_map_err ends_if ends_prod
  ends_try_map ends_try_fold

lemmas ends_gets = get_block_def get_state_def get_finalized_def get_justified_def get_time_def get_head_def
  field_get_def

lemma ends_ensure_ancestor:
  "tables_ok E anchor db \<Longrightarrow> anchored E anchor \<Longrightarrow> e \<noteq> Diverges \<Longrightarrow> ends (ensure_ancestor db x y e)"
  using checkpoint_is_ancestor_total [of E anchor db x y] by (auto simp: ensure_ancestor_def ends_def result_simps)

lemma ends_validate_attestation:
  assumes "tables_ok E anchor db" and "anchored E anchor"
  shows "ends (validate_attestation db sa)"
  unfolding validate_attestation_def Let_def ends_gets
  by (intro ends_intros ends_ensure_ancestor [OF assms]) simp_all

lemma ends_participant_keys: "ends (participant_keys vals p)"
  unfolding participant_keys_def by (intro ends_intros) simp

lemma ends_check_gossip_attestation:
  assumes "tables_ok E anchor db" and "anchored E anchor"
  shows "ends (check_gossip_attestation E Q sa db)"
  unfolding check_gossip_attestation_def Let_def ends_gets
  by (intro ends_intros ends_validate_attestation [OF assms]) simp_all

lemma ends_check_gossip_aggregate:
  assumes "tables_ok E anchor db" and "anchored E anchor"
  shows "ends (check_gossip_aggregate E Q saa verify db)"
  unfolding check_gossip_aggregate_def Let_def ends_gets
  by (intro ends_intros ends_validate_attestation [OF assms] ends_participant_keys) simp_all

lemma ends_participant_bits: "ends (participant_bits E s ids)"
  unfolding participant_bits_def set_bits_def by (intro ends_intros) simp_all

lemma ends_aggregate_data: "ends (aggregate_data E Q s groups gossip new known recursive d)"
  unfolding aggregate_data_def make_proof_def child_wire_def Let_def
  by (intro ends_intros ends_participant_bits ends_participant_keys) simp_all

lemma ends_state_aggregate: "ends (state_aggregate E Q s atts gossip new known recursive)"
  unfolding state_aggregate_def Let_def by (intro ends_intros ends_aggregate_data)

text \<open>Round-based selection: each round but the last selects a candidate not selected before.\<close>

definition candidate_vote :: "signed_attestation \<Rightarrow> aggregated_attestations" where
  "candidate_vote sa = \<lparr> ags_validator_id = sa_validator_id sa, ags_data = sa_message sa \<rparr>"

lemma round_pass_new:
  "round_pass E ctx hashes v atts cands new processed consumed = Inr (new', processed', consumed') \<Longrightarrow>
   set new' \<subseteq> set new \<union> {candidate_vote sa | sa. sa \<in> set cands \<and> candidate_vote sa \<notin> set atts}"
proof (induction E ctx hashes v atts cands new processed consumed rule: round_pass.induct)
  case (2 E ctx hashes v atts sa rest new processed consumed)
  let ?d = "sa_message sa"
  let ?stop = "unat MAX_ATTESTATIONS_DATA \<le> length processed \<and> ?d \<notin> set processed"
  let ?skip = "\<not> round_eligible E ctx hashes v ?d \<or> candidate_vote sa \<in> set atts \<or>
     \<not> table_contains_key (bc_known_payloads ctx) (SignatureKey (sa_validator_id sa) (hash_attestation_data E ?d))"
  consider "?stop" | "\<not> ?stop" "?skip" | "\<not> ?stop" "\<not> ?skip" by blast
  then show ?case
  proof cases
    case 1
    with 2(3) show ?thesis by (simp add: Let_def)
  next
    case skip: 2
    with 2(3) have "round_pass E ctx hashes v atts rest new processed consumed = Inr (new', processed', consumed')"
      by (simp add: Let_def candidate_vote_def)
    from 2(1) [OF refl refl refl _ _ this] skip show ?thesis by (auto simp: candidate_vote_def)
  next
    case 3
    with 2(3) obtain new1 where new1: "vl_push E VALIDATOR_REGISTRY_LIMIT new (candidate_vote sa) = Some new1"
      and rest: "round_pass E ctx hashes v atts rest new1 (set_insert ?d processed) (consumed + 1) =
        Inr (new', processed', consumed')"
      by (auto simp: Let_def candidate_vote_def result_simps)
    have "new1 = new @ [candidate_vote sa]" using new1 by (simp add: vl_push_def split: if_splits)
    with 2(2) [OF refl refl refl _ _ _ rest] 3 new1 show ?thesis by (auto simp: candidate_vote_def)
  qed
qed simp

lemma ends_round_pass: "ends (round_pass E ctx hashes v atts cands new processed consumed)"
proof (induction E ctx hashes v atts cands new processed consumed rule: round_pass.induct)
  case (2 E ctx hashes v atts sa rest new processed consumed)
  then show ?case by (auto simp: Let_def intro!: ends_intros)
qed (simp add: ends_Inr)

lemma push_all_eq:
  "try_fold (\<lambda>as a. ok_or (vl_push E cap as a) e) atts new = Inr atts' \<Longrightarrow> atts' = atts @ new"
proof (induction new arbitrary: atts)
  case (Cons a new)
  then obtain as where "vl_push E cap atts a = Some as"
    "try_fold (\<lambda>as a. ok_or (vl_push E cap as a) e) as new = Inr atts'" by (auto simp: result_simps)
  with Cons.IH [of as] show ?case by (auto simp: vl_push_def split: if_splits)
qed simp

lemma ends_aggregate_groups: "ends (aggregate_groups E atts)"
  unfolding aggregate_groups_def set_bits_def by (intro ends_intros) simp_all

lemma ends_advance: "ends (advance E s b)"
  unfolding advance_def by (intro ends_intros) simp

lemma ends_round_loop:
  "length (filter (\<lambda>sa. candidate_vote sa \<notin> set atts) cands) < fuel \<Longrightarrow>
   ends (round_loop fuel E ctx hashes slot proposer parent cands v atts processed consumed)"
proof (induction fuel arbitrary: v atts processed consumed)
  case (Suc fuel)
  have "ends (round_loop fuel E ctx hashes slot proposer parent cands v' (atts @ new) processed' consumed')"
    if pass: "round_pass E ctx hashes v atts cands [] processed consumed = Inr (new, processed', consumed')"
      and "new \<noteq> []" for new processed' consumed' v'
  proof (rule Suc.IH)
    from \<open>new \<noteq> []\<close> obtain a where "a \<in> set new" by (cases new) auto
    then obtain sa where sa: "sa \<in> set cands" "candidate_vote sa \<notin> set atts" "candidate_vote sa \<in> set new"
      using round_pass_new [OF pass] by auto
    have "length (filter (\<lambda>sa. candidate_vote sa \<notin> set (atts @ new)) cands) =
        length (filter (\<lambda>sa. candidate_vote sa \<notin> set new) (filter (\<lambda>sa. candidate_vote sa \<notin> set atts) cands))"
      by (simp add: conj_commute)
    also have "\<dots> < length (filter (\<lambda>sa. candidate_vote sa \<notin> set atts) cands)"
      using sa by (intro length_filter_less [of sa]) auto
    finally show "length (filter (\<lambda>sa. candidate_vote sa \<notin> set (atts @ new)) cands) < fuel"
      using Suc.prems by simp
  qed
  then show ?case
    unfolding round_loop.simps
    by (intro ends_and_then ends_prod ends_if ends_Inr ends_round_pass ends_aggregate_groups ends_advance)
      (auto intro!: ends_try_fold ends_ok_or dest: push_all_eq)
qed simp

lemma ends_select_round_based: "ends (select_round_based E ctx hashes atts slot proposer parent)"
  unfolding select_round_based_def Let_def
  by (intro ends_round_loop le_imp_less_Suc length_filter_le)

lemma ends_projected:
  "ends (extend_projected_justified_slots E bits fin slot)"
  "ends (set_projected_justified_slot E bits fin slot)"
  "ends (shift_projected_finalized_slot E bits fin slot)"
  "ends (build_running_votes_by_target_root E s)"
proof -
  show ext: "ends (extend_projected_justified_slots E bits fin slot)" for bits fin slot
    unfolding extend_projected_justified_slots_def Let_def
    by (intro ends_intros ends_option) simp
  show "ends (set_projected_justified_slot E bits fin slot)"
    unfolding set_projected_justified_slot_def
    by (intro ends_intros ends_option ext) simp
  show "ends (shift_projected_finalized_slot E bits fin slot)"
    unfolding shift_projected_finalized_slot_def Let_def by (intro ends_intros) simp_all
  show "ends (build_running_votes_by_target_root E s)"
    unfolding build_running_votes_by_target_root_def Let_def by (intro ends_intros) simp_all
qed

lemma ends_apply_selection: "ends (apply_selection E root score new_voters d proofs v)"
  unfolding apply_selection_def Let_def by (intro ends_intros ends_projected)

lemma ends_tiered_rounds: "ends (tiered_rounds n E ctx hashes pool v)"
proof (induction n arbitrary: v)
  case (Suc n)
  then show ?case
    by (cases "best_candidate E ctx hashes v pool None")
      (auto intro!: ends_and_then ends_prod ends_ok_or ends_apply_selection simp: ends_Inr split: prod.splits)
qed (simp add: ends_Inr)

lemma ends_select_tiered: "ends (select_tiered E ctx hashes atts slot)"
  unfolding select_tiered_def Let_def by (intro ends_intros ends_projected ends_tiered_rounds)

lemma ends_seal_block: "ends (seal_block E db s atts slot proposer parent)"
  unfolding seal_block_def Let_def by (intro ends_intros ends_advance) simp_all

lemma ends_build_block: "ends (build_block E db strategy slot proposer parent atts)"
  unfolding build_block_def load_build_context_def Let_def ends_gets
  by (cases strategy)
    (auto intro!: ends_and_then ends_prod ends_ok_or ends_Inr ends_select_round_based ends_select_tiered ends_seal_block)

lemma ends_produce_block_at: "ends (produce_block_at E strategy slot vid head_root db)"
  unfolding produce_block_at_def ends_gets
  by (intro ends_intros ends_build_block ends_participant_keys) simp_all

lemma fst_pbind_preturn: "fst (pbind m (\<lambda>_. preturn ()) st) = Inl e \<longleftrightarrow> fst (m st) = Inl e"
  by (auto simp: pbind_def preturn_def split: prod.splits sum.splits)

lemma on_gossip_attestation_ends:
  assumes "tables_ok E anchor (ls_db st)" and "anchored E anchor"
  shows "fst (on_gossip_attestation E Q N sa is_aggregator st) \<noteq> Inl Diverges"
  using ends_check_gossip_attestation [OF assms, of Q sa]
  by (auto simp: on_gossip_attestation_def Let_def pbind_def get_db_def pread_def put_db_def pmodify_def
      preturn_def plift_def ends_def compute_subnet_id_def split: sum.splits option.splits)

lemma on_gossip_aggregate_ends:
  assumes "tables_ok E anchor (ls_db st)" and "anchored E anchor"
  shows "fst (on_gossip_aggregated_attestation_core E Q saa verify st) \<noteq> Inl Diverges"
  using ends_check_gossip_aggregate [OF assms, of Q saa verify]
  by (auto simp: on_gossip_aggregated_attestation_core_def Let_def pbind_def get_db_def pread_def put_db_def
      pmodify_def ends_def split: sum.splits)

lemma aggregate_ends: "fst (aggregate E Q st) \<noteq> Inl Diverges"
proof -
  let ?f = "\<lambda>db. and_then (get_head db) (\<lambda>head_root. and_then (get_state db head_root) (\<lambda>head_state.
       state_aggregate E Q head_state (gossip_attestations db) (db_gossip_signatures db)
         (Some (payload_pool db (db_new_payloads db))) (Some (payload_pool db (db_known_payloads db))) True))"
  have "ends (?f db)" for db
    unfolding ends_gets by (intro ends_intros ends_state_aggregate) simp_all
  from this [of "ls_db st"] show ?thesis
    by (auto simp: aggregate_def pbind_def get_db_def pread_def put_db_def pmodify_def preturn_def ends_def
        split: sum.splits)
qed

lemma handle_ends:
  assumes env: "env_ok E N b s" and ok: "store_ok E b st"
  shows "fst (handle E Q N ev st) \<noteq> Inl Diverges"
proof -
  from env have E: "ssz_ok E" and anc: "anchored E b" and N: "seconds_per_slot N * 1000 \<noteq> 0"
    by (auto simp: env_ok_def)
  from ok have t: "tables_ok E b (ls_db st)" by (simp add: store_ok_def)
  show ?thesis
  proof (cases ev)
    case (Tick time hp agg)
    with on_tick_ok [OF ok anc N, of time hp agg] show ?thesis by auto
  next
    case (Import sb verify)
    with on_block_ok(3) [OF ok anc E] show ?thesis by simp
  next
    case (Attest sa agg)
    with on_gossip_attestation_ends [OF t anc] show ?thesis by simp
  next
    case (Aggregated saa verify)
    with on_gossip_aggregate_ends [OF t anc] show ?thesis by simp
  next
    case Aggregate
    with aggregate_ends show ?thesis by (simp add: fst_pbind_preturn)
  next
    case (ApplyAggregates signed_atts)
    then show ?thesis by (simp add: aggregate_apply_def put_db_def pmodify_def)
  next
    case Prune
    with prune_ok(2) [OF ok] show ?thesis by auto
  next
    case (Propose slot vid)
    from get_proposal_head_total [OF ok anc N] obtain h st1 where
      "get_proposal_head N slot st = (Inr h, st1)" by blast
    with Propose ends_produce_block_at [of E "ls_strategy st1" slot vid h "ls_db st1"] show ?thesis
      by (auto simp: produce_block_with_signatures_def pbind_def get_db_def pread_def preturn_def ends_def
          split: sum.splits)
  qed
qed

section \<open>The table of known attestations\<close>

definition same_known :: "lean_store \<Rightarrow> lean_store \<Rightarrow> bool" where
  "same_known st st' \<longleftrightarrow> db_known_attestations (ls_db st') = db_known_attestations (ls_db st)"

interpretation ka: store_frame same_known
  by unfold_locales (simp_all add: same_known_def)

lemma ka_get_db: "keeps same_known (get_db f)"
  by (simp add: get_db_def ka.keeps_pread)

lemma ka_put_db: "(\<And>db. db_known_attestations (f db) = db_known_attestations db) \<Longrightarrow> keeps same_known (put_db f)"
  by (auto simp: put_db_def same_known_def intro!: ka.keeps_pmodify)

lemma ka_prod: "(\<And>x y. keeps R (f x y)) \<Longrightarrow> keeps R (case p of (x, y) \<Rightarrow> f x y)"
  by (cases p) simp

lemmas ka_intros = ka_get_db ka_put_db ka_prod keeps_case_option ka.keeps_intros

lemma ka_fold: "(\<And>x db. db_known_attestations (f x db) = db_known_attestations db) \<Longrightarrow>
    db_known_attestations (fold f xs db) = db_known_attestations db"
  by (induction xs arbitrary: db) simp_all

lemma ka_update_head: "keeps same_known update_head"
  unfolding update_head_def by (intro ka_intros) (simp_all add: same_known_def)

lemma ka_accept: "keeps same_known accept_new_attestations"
  unfolding accept_new_attestations_def
  by (intro ka_intros ka_update_head) (simp add: accept_payloads_def Let_def split: prod.splits)

lemma ka_tick_interval: "keeps same_known (tick_interval hp agg)"
  unfolding tick_interval_def update_safe_target_def Let_def
  by (intro ka_intros ka_accept) simp_all

lemma ka_tick_loop: "keeps same_known (tick_loop fuel target hp agg)"
  by (induction fuel) (auto intro!: ka_intros ka_tick_interval)

lemma ka_on_tick: "keeps same_known (on_tick N time hp agg)"
  unfolding on_tick_def Let_def by (intro ka_intros ka_tick_loop)

lemma ka_on_block: "keeps same_known (on_block E Q sb verify)"
  unfolding on_block_def Let_def
  by (intro ka_intros ka_update_head ka_fold) (simp_all add: block_insert_ref_def add_block_payload_def Let_def)

lemma ka_handle: "keeps same_known (handle E Q N ev)"
proof (cases ev)
  case (Attest sa agg)
  then show ?thesis by (simp add: on_gossip_attestation_def Let_def) (intro ka_intros; simp)
next
  case (Aggregated saa verify)
  then show ?thesis
    by (simp add: on_gossip_aggregated_attestation_core_def Let_def)
      (intro ka_intros ka_fold; simp add: add_new_payload_def)
next
  case Aggregate
  then show ?thesis by (simp add: aggregate_def) (intro ka_intros; simp add: Let_def case_prod_beta)
next
  case (ApplyAggregates signed_atts)
  then show ?thesis by (simp add: aggregate_apply_def) (intro ka_intros; simp)
next
  case Prune
  then show ?thesis by (simp add: prune_split prune_votes_def) (intro ka_intros; simp)
next
  case (Propose slot vid)
  then show ?thesis
    by (simp add: produce_block_with_signatures_def get_proposal_head_def Let_def) (intro ka_intros ka_on_tick ka_accept)
qed (simp_all add: ka_on_tick ka_on_block)

lemma reachable_known_empty: "reachable_store E Q N sb s st \<Longrightarrow> db_known_attestations (ls_db st) = []"
proof (induction rule: reachable_store.induct)
  case (start time vid st)
  then show ?case
    by (auto simp: get_forkchoice_store_def result_simps Let_def block_insert_ref_def empty_db_def)
next
  case (strategy st strategy)
  then show ?case by (simp add: with_block_production_strategy_def)
next
  case (event st ev r st')
  from keepsD [OF ka_handle event.hyps(2)] event.IH show ?case by (simp add: same_known_def)
qed

end
