(* ===== verification/Lean_Store_Example.thy ===== *)
theory Lean_Store_Example
  imports Lean_Store_Steps
begin

text \<open>
  A concrete store to evaluate the definitions on: the genesis block of the example chain as the
  anchor, and the stores after the first blocks of that chain.
\<close>

definition demo_net :: net_spec where
  "demo_net = \<lparr> seconds_per_slot = 4, spec_genesis_time = 10, committee_count = 1 \<rparr>"

definition demo_anchor :: signed_block where
  "demo_anchor =
     \<lparr> sb_block = \<lparr> blk_slot = 0, blk_proposer_index = 0, blk_parent_root = 0, blk_state_root = 5000,
         blk_body = \<lparr> attestations = [] \<rparr> \<rparr>, sb_proof = \<lparr> mma_proof = [] \<rparr> \<rparr>"

definition demo_store0 :: lean_store where
  "demo_store0 =
     \<lparr> ls_db = empty_db\<lparr> db_time := Some 20, db_head := Some 1000, db_safe_target := Some 1000,
         db_latest_justified := Some (demo_cp 0), db_latest_finalized := Some (demo_cp 0),
         db_validator_id := Some (Some 0), db_blocks := [(1000, demo_anchor)],
         db_slot_index := [(0, 1000)], db_state_root_index := [(5000, 1000)],
         db_children_index := [(1000, \<lparr> ci_slot = 0, ci_parent_root = 0 \<rparr>)],
         db_states := [(1000, demo_genesis)] \<rparr>,
       ls_head_checkpoint = demo_cp 0, ls_finalized_checkpoint = demo_cp 0, ls_strategy = RoundBased \<rparr>"

lemma demo_start:
  "get_forkchoice_store demo_env demo_net demo_anchor demo_genesis empty_db (Some 20) (Some 0) = Inr demo_store0"
  by (simp add: get_forkchoice_store_def demo_anchor_def demo_env_simps demo_genesis_def demo_state_def
      demo_store0_def Let_def block_insert_ref_def empty_db_def demo_cp_def)

lemma demo_env_conditions: "env_ok demo_env demo_net (sb_block demo_anchor) demo_genesis"
proof -
  have "state_ok demo_genesis" by (rule chain_state_ok [OF demo_env_ok demo_chain(1)])
  moreover have "(1000::b256) + ucast (x::u64) \<noteq> 0" for x
  proof -
    have "unat ((1000::b256) + ucast x) = 1000 + unat x"
      using unat_less_u64 [of x] by (simp add: unat_word_ariths unsigned_ucast_eq take_bit_eq_mod)
    then show ?thesis by (metis add_is_0 unat_0 zero_neq_numeral)
  qed
  ultimately show ?thesis
    by (simp add: env_ok_def demo_env_ok anchor_ok_def anchored_def demo_env_simps demo_anchor_def demo_genesis_def
        demo_state_def demo_net_def header_of_block_def Let_def)
qed

definition demo_signed_block :: "u64 \<Rightarrow> aggregated_attestation list \<Rightarrow> signed_block" where
  "demo_signed_block slot atts = \<lparr> sb_block = demo_block slot atts, sb_proof = \<lparr> mma_proof = [] \<rparr> \<rparr>"

text \<open>The first block is imported: its post-state is that of the example chain, and it becomes the
  head.\<close>

lemmas demo_store_eval = demo_env_simps demo_signed_block_def demo_anchor_def demo_cp_def
  demo_block_def empty_db_def table_contains_key_def check_block_def get_state_def get_time_def get_justified_def
  get_finalized_def get_head_def get_block_def field_get_def saturating_sub_def INTERVALS_PER_SLOT_def MAX_HISTORICAL_BLOCK_HASHES_def
  verify_signatures_def list_get_def insert_block_def block_insert_ref_def check_duplicates_def
  update_head_def derive_head_def pbind_def get_db_def put_db_def pread_def pmodify_def preturn_def plift_def
  relevant_keys_def payload_iter_keys_def extract_attestations_from_aggregated_payloads_def signed_votes_def
  compute_lmd_ghost_head_def get_index_map_def ghost_start_def ghost_weights_def ghost_children_def tbl_push_def
  weight_of_def get_oldest_root_def lookup_slot_def sort_desc_def List.map_filter_def Let_def

definition demo_store1 :: lean_store where
  "demo_store1 =
     (demo_store0\<lparr> ls_db := (ls_db demo_store0)\<lparr> db_head := Some 1001,
         db_blocks := [(1000, demo_anchor), (1001, demo_signed_block 1 [])],
         db_slot_index := [(0, 1000), (1, 1001)], db_state_root_index := [(5000, 1000), (5001, 1001)],
         db_children_index := [(1000, \<lparr> ci_slot = 0, ci_parent_root = 0 \<rparr>),
                               (1001, \<lparr> ci_slot = 1, ci_parent_root = 1000 \<rparr>)],
         db_states := [(1000, demo_genesis), (1001, demo_state1)] \<rparr>,
       ls_head_checkpoint := demo_cp 1 \<rparr>)"

lemma demo_check1:
  "check_block demo_env demo_pq (demo_signed_block 1 []) False (ls_db demo_store0) = Inr (demo_state1, demo_cp 0)"
  using demo_block1
  by (simp add: demo_store_eval demo_store0_def demo_genesis_def demo_state_def)
    (simp add: demo_state1_def demo_state_def demo_cp_def)

lemma demo_import1: "on_block demo_env demo_pq (demo_signed_block 1 []) False demo_store0 = (Inr (), demo_store1)"
  unfolding on_block_eq demo_check1
  by (simp add: demo_store_eval demo_store0_def demo_store1_def demo_state1_def demo_state_def)

text \<open>The second block carries the votes of two validators for the first; slot one is justified and
  the block becomes the head.\<close>

definition demo_vote1 :: single_message_aggregate where
  "demo_vote1 = \<lparr> participants = [True, True, False], sma_proof = [] \<rparr>"

definition demo_block2_signed :: signed_block where
  "demo_block2_signed = demo_signed_block 2 [demo_att 1 [True, True, False]]"

definition demo_store2 :: lean_store where
  "demo_store2 =
     (demo_store1\<lparr> ls_db := (ls_db demo_store1)\<lparr> db_head := Some 1002,
         db_latest_justified := Some (demo_cp 1),
         db_blocks := [(1000, demo_anchor), (1001, demo_signed_block 1 []), (1002, demo_block2_signed)],
         db_slot_index := [(0, 1000), (1, 1001), (2, 1002)],
         db_state_root_index := [(5000, 1000), (5001, 1001), (5002, 1002)],
         db_children_index := [(1000, \<lparr> ci_slot = 0, ci_parent_root = 0 \<rparr>),
           (1001, \<lparr> ci_slot = 1, ci_parent_root = 1000 \<rparr>), (1002, \<lparr> ci_slot = 2, ci_parent_root = 1001 \<rparr>)],
         db_states := [(1000, demo_genesis), (1001, demo_state1), (1002, demo_state2)],
         db_known_payloads := [(SignatureKey 0 3002, [demo_vote1]), (SignatureKey 1 3002, [demo_vote1])],
         db_attestation_data := [(3002, aa_message (demo_att 1 []))] \<rparr>,
       ls_head_checkpoint := demo_cp 2 \<rparr>)"

lemma demo_check2:
  "check_block demo_env demo_pq demo_block2_signed False (ls_db demo_store1) = Inr (demo_state2, demo_cp 1)"
  using demo_block2
  by (simp add: demo_store_eval demo_store0_def demo_store1_def demo_block2_signed_def demo_state1_def demo_state_def
      demo_att_def attestation_keys_def bits_indices_def enumerate_eq_zip upt_rec demo_validator_def)
    (simp add: demo_state2_def demo_state_def demo_cp_def)

lemma demo_import2: "on_block demo_env demo_pq demo_block2_signed False demo_store1 = (Inr (), demo_store2)"
  unfolding on_block_eq demo_check2
  by (simp add: demo_store_eval demo_store0_def demo_store1_def demo_store2_def demo_state2_def demo_state_def
      demo_block2_signed_def demo_att_def add_block_payload_def bits_indices_def enumerate_eq_zip upt_rec
      demo_vote1_def less_signature_key_def)

lemma demo_reachable:
  "reachable_store demo_env demo_pq demo_net demo_anchor demo_genesis demo_store0"
  "reachable_store demo_env demo_pq demo_net demo_anchor demo_genesis demo_store1"
  "reachable_store demo_env demo_pq demo_net demo_anchor demo_genesis demo_store2"
proof -
  show s0: "reachable_store demo_env demo_pq demo_net demo_anchor demo_genesis demo_store0"
    using demo_start by (rule reachable_store.start)
  show s1: "reachable_store demo_env demo_pq demo_net demo_anchor demo_genesis demo_store1"
    by (rule reachable_store.event [OF s0, of "Import (demo_signed_block 1 []) False"]) (simp add: demo_import1)
  show "reachable_store demo_env demo_pq demo_net demo_anchor demo_genesis demo_store2"
    by (rule reachable_store.event [OF s1, of "Import demo_block2_signed False"]) (simp add: demo_import2)
qed

lemma demo_store_ok:
  "store_ok demo_env (sb_block demo_anchor) demo_store0" "store_ok demo_env (sb_block demo_anchor) demo_store1"
  "store_ok demo_env (sb_block demo_anchor) demo_store2"
  using reachable_ok [OF _ demo_env_conditions] demo_reachable by blast+

lemma demo_anchored: "anchored demo_env (sb_block demo_anchor)"
  using demo_env_conditions by (simp add: env_ok_def)

end
