(* ===== verification/Lean_Store_Theorems.thy ===== *)
theory Lean_Store_Theorems
  imports Lean_Store_Example
begin

text \<open>
  The properties of the fork choice store: its invariant, termination of every handler, the head
  rule, the clock, and the import of blocks.
\<close>

section \<open>What every handler leaves alone\<close>

definition same_core :: "lean_store \<Rightarrow> lean_store \<Rightarrow> bool" where
  "same_core st st' \<longleftrightarrow>
     db_blocks (ls_db st') = db_blocks (ls_db st) \<and> db_states (ls_db st') = db_states (ls_db st) \<and>
     db_latest_justified (ls_db st') = db_latest_justified (ls_db st)"

interpretation sc: store_frame same_core
  by unfold_locales (simp_all add: same_core_def)

lemma votes_only_core: "keeps votes_only m \<Longrightarrow> keeps same_core m"
  by (auto simp: keeps_def votes_only_def same_core_def same_blocks_def same_fields_def)

lemma sc_get_db: "keeps same_core (get_db f)"
  by (simp add: get_db_def sc.keeps_pread)

lemma sc_put_db:
  "(\<And>db. db_blocks (f db) = db_blocks db \<and> db_states (f db) = db_states db \<and>
     db_latest_justified (f db) = db_latest_justified db) \<Longrightarrow> keeps same_core (put_db f)"
  by (auto simp: put_db_def same_core_def intro!: sc.keeps_pmodify)

lemmas sc_intros = sc_get_db sc_put_db ka_prod keeps_case_option sc.keeps_intros

lemma sc_accept: "keeps same_core accept_new_attestations"
proof -
  have "keeps same_core (put_db accept_payloads)"
    using accept_payloads_votes by (intro sc_put_db) (simp add: same_blocks_def same_fields_def)
  moreover have "keeps same_core update_head"
    unfolding update_head_def by (intro sc_intros) (simp_all add: same_core_def)
  ultimately show ?thesis unfolding accept_new_attestations_def by (intro sc.keeps_pbind)
qed

lemma sc_on_tick: "keeps same_core (on_tick N time hp agg)"
proof -
  have "keeps same_core (tick_interval hp agg)" for hp agg
    unfolding tick_interval_def update_safe_target_def Let_def by (intro sc_intros sc_accept) simp_all
  then have "keeps same_core (tick_loop fuel target hp agg)" for fuel target
    by (induction fuel) (auto intro!: sc_intros)
  then show ?thesis unfolding on_tick_def Let_def by (intro sc_intros)
qed

lemma sc_handle: "(\<And>sb verify. ev \<noteq> Import sb verify) \<Longrightarrow> keeps same_core (handle E Q N ev)"
proof (induction ev)
  case Prune
  show ?case
    unfolding handle.simps prune_split
    by (intro sc.keeps_pbind sc_get_db sc_put_db votes_only_core [OF prune_votes_only]) simp
next
  case (Propose slot vid)
  show ?case
    unfolding handle.simps produce_block_with_signatures_def get_proposal_head_def Let_def
    by (intro sc_intros sc_accept sc_on_tick)
next
  case Aggregate
  show ?case unfolding handle.simps by (intro sc_intros votes_only_core aggregate_votes)
qed (auto intro!: sc_on_tick votes_only_core gossip_attestation_votes gossip_aggregate_votes aggregate_apply_votes)

lemma ghost_start_slot:
  assumes "tbl_wf (db_children_index db)"
    and "ghost_start db (get_index_map (db_children_index db)) provided = Inr (root, start)"
    and "tbl_get (db_children_index db) root = Some e"
  shows "start = ci_slot e"
  using assms by (auto simp: ghost_start_def result_simps tbl_get_index_map)

section \<open>Invariant and termination\<close>

text \<open>C1. In every store the node can reach, through any sequence of ticks, blocks, attestations,
  aggregates, aggregation and pruning steps and block proposals, accepted or rejected, the invariant
  holds: blocks are stored under their hash with a well-formed post-state of their slot and a stored
  parent of a smaller slot, all indices and checkpoints point to stored blocks, and the checkpoints
  shared with the network are those of the database.\<close>

theorem reachable_store_invariant:
  assumes "reachable_store E Q N sb s st" and "env_ok E N (sb_block sb) s"
  shows "store_ok E (sb_block sb) st"
  using assms by (rule reachable_ok)

theorem reachable_store_invariant_witness:
  "store_ok demo_env (sb_block demo_anchor) demo_store2"
  by (rule reachable_store_invariant [OF demo_reachable(3) demo_env_conditions])

text \<open>C8. No handler of a reachable store loops: every walk along parent pointers, the descent to
  the head, the tick loop and the rounds of block building end within the fuel the model gives
  them; nor does the search for an attestation target, which reads the store only.\<close>

theorem handlers_terminate:
  assumes "reachable_store E Q N sb s st" and "env_ok E N (sb_block sb) s"
  shows "fst (handle E Q N ev st) \<noteq> Inl Diverges \<and> get_attestation_target (ls_db st) \<noteq> Inl Diverges"
proof -
  note ok = reachable_ok [OF assms]
  from ok assms(2) have "tables_ok E (sb_block sb) (ls_db st)" "anchored E (sb_block sb)"
    by (auto simp: store_ok_def env_ok_def)
  with handle_ends [OF assms(2) ok] get_attestation_target_ends show ?thesis by blast
qed

theorem handlers_terminate_witness:
  "fst (handle demo_env demo_pq demo_net (Import demo_block2_signed False) demo_store1) \<noteq> Inl Diverges \<and>
   get_attestation_target (ls_db demo_store1) \<noteq> Inl Diverges"
  by (rule handlers_terminate [OF demo_reachable(2) demo_env_conditions])

text \<open>A step of a reachable store never loses or replaces a block or a state and never moves the
  justified checkpoint to an earlier slot.\<close>

theorem store_only_grows:
  assumes "reachable_store E Q N sb s st" and "env_ok E N (sb_block sb) s"
    and "handle E Q N ev st = (r, st')"
  shows "tbl_get (db_blocks (ls_db st)) \<subseteq>\<^sub>m tbl_get (db_blocks (ls_db st')) \<and>
    tbl_get (db_states (ls_db st)) \<subseteq>\<^sub>m tbl_get (db_states (ls_db st')) \<and>
    (\<exists>c c'. db_latest_justified (ls_db st) = Some c \<and> db_latest_justified (ls_db st') = Some c' \<and>
       cp_slot c \<le> cp_slot c')"
proof -
  note ok = reachable_ok [OF assms(1,2)]
  have ok': "store_ok E (sb_block sb) st'" using handle_ok [OF assms(2) ok, of Q ev] assms(3) by simp
  have g: "grows (ls_db st) (ls_db st')"
  proof (cases "\<exists>b verify. ev = Import b verify")
    case True
    then show ?thesis
      using on_block_ok(2) [OF ok, of Q] assms(2,3) by (auto simp: env_ok_def) (metis snd_conv)
  next
    case False
    then have "keeps same_core (handle E Q N ev)" by (intro sc_handle) blast
    from keepsD [OF this assms(3)] show ?thesis by (simp add: same_core_def grows_def)
  qed
  from ok ok' obtain c c' where "db_latest_justified (ls_db st) = Some c" "db_latest_justified (ls_db st') = Some c'"
    unfolding store_ok_def fields_ok_def by blast
  with g show ?thesis by (auto simp: grows_def)
qed

theorem store_only_grows_witness:
  "tbl_get (db_blocks (ls_db demo_store1)) \<subseteq>\<^sub>m tbl_get (db_blocks (ls_db demo_store2)) \<and>
   tbl_get (db_blocks (ls_db demo_store2)) 1002 = Some demo_block2_signed"
  using store_only_grows [OF demo_reachable(2) demo_env_conditions, of "Import demo_block2_signed False"]
  by (simp add: demo_import2) (simp add: demo_store2_def)

section \<open>The head\<close>

text \<open>C4. LMD-GHOST: for any list of votes and any start root the search returns. The head is the
  end of the path that starts at the provided root, or at the oldest stored block where that is
  unknown, and moves to the child with the most supporting votes, ties broken by the larger hash,
  until no child reaches the minimum score; a vote supports the block it names and every ancestor
  after the start. The comment at the loop of the source announces ties broken by slot and then by
  hash; the key it compares is the weight and the hash, and the slot plays no part.\<close>

theorem lmd_ghost_head:
  assumes "reachable_store E Q N sb s st" and "env_ok E N (sb_block sb) s" and "length atts < 2 ^ 64"
  shows "\<exists>root start_slot h hs.
    ghost_start (ls_db st) (get_index_map (db_children_index (ls_db st))) provided = Inr (root, start_slot) \<and>
    compute_lmd_ghost_head atts provided min_score (ls_db st) = Inr (h, hs) \<and>
    (let votes = vote_count (get_index_map (db_children_index (ls_db st))) start_slot atts in
     ghost_path (block_children (db_children_index (ls_db st)) (unat min_score) votes) votes root h)"
proof -
  have t: "tables_ok E (sb_block sb) (ls_db st)" and anc: "anchored E (sb_block sb)"
    using reachable_ok [OF assms(1,2)] assms(2) by (auto simp: store_ok_def env_ok_def)
  from ghost_start_total [OF t] obtain root start_slot where start:
    "ghost_start (ls_db st) (get_index_map (db_children_index (ls_db st))) provided = Inr (root, start_slot)" by blast
  from compute_lmd_ghost_head_path [OF tables_okD(3) [OF t] children_index_ok [OF t anc] assms(3) start, of min_score] start
  show ?thesis unfolding Let_def by blast
qed

theorem lmd_ghost_head_witness:
  "compute_lmd_ghost_head (signed_votes [(0, aa_message (demo_att 1 [])), (1, aa_message (demo_att 2 []))]) 1000 0
     (ls_db demo_store2) = Inr (1002, 2) \<and>
   (let votes = vote_count (get_index_map (db_children_index (ls_db demo_store2))) 0
          (signed_votes [(0, aa_message (demo_att 1 [])), (1, aa_message (demo_att 2 []))]) in
    ghost_path (block_children (db_children_index (ls_db demo_store2)) 0 votes) votes 1000 1002)"
proof -
  let ?atts = "signed_votes [(0, aa_message (demo_att 1 [])), (1, aa_message (demo_att 2 []))]"
  have "ghost_start (ls_db demo_store2) (get_index_map (db_children_index (ls_db demo_store2))) 1000 = Inr (1000, 0)"
    and "compute_lmd_ghost_head ?atts 1000 0 (ls_db demo_store2) = Inr (1002, 2)"
    by (simp_all add: demo_store_eval demo_store2_def demo_store1_def demo_store0_def demo_att_def)
  with lmd_ghost_head [OF demo_reachable(3) demo_env_conditions, of ?atts 1000 0] show ?thesis
    by (simp add: signed_votes_def)
qed

text \<open>The head does not depend on the order in which the votes are counted, so the iteration
  order of the hash map the program counts them from does not matter.\<close>

theorem ghost_head_order_independent:
  assumes "reachable_store E Q N sb s st" and "env_ok E N (sb_block sb) s" and "length atts < 2 ^ 64"
    and "mset atts = mset atts'"
  shows "compute_lmd_ghost_head atts provided min_score (ls_db st) =
    compute_lmd_ghost_head atts' provided min_score (ls_db st)"
proof -
  let ?db = "ls_db st"
  let ?t = "db_children_index ?db"
  have t: "tables_ok E (sb_block sb) ?db" and anc: "anchored E (sb_block sb)"
    using reachable_ok [OF assms(1,2)] assms(2) by (auto simp: store_ok_def env_ok_def)
  note path = compute_lmd_ghost_head_path [OF tables_okD(3) [OF t] children_index_ok [OF t anc]]
  from ghost_start_total [OF t] obtain root start where
    start: "ghost_start ?db (get_index_map ?t) provided = Inr (root, start)" by blast
  let ?v = "vote_count (get_index_map ?t) start atts"
  have v: "vote_count (get_index_map ?t) start atts' = ?v" using vote_count_mset [OF assms(4)] by auto
  have len: "length atts' < 2 ^ 64" using assms(3,4) by (metis size_mset)
  from path [OF assms(3) start, of min_score] obtain h hs where
    h: "compute_lmd_ghost_head atts provided min_score ?db = Inr (h, hs)"
      "ghost_path (block_children ?t (unat min_score) ?v) ?v root h"
      "h = root \<and> hs = start \<or> (\<exists>e. tbl_get ?t h = Some e \<and> hs = ci_slot e)" by blast
  from path [OF len start, of min_score] obtain h' hs' where
    h': "compute_lmd_ghost_head atts' provided min_score ?db = Inr (h', hs')"
      "ghost_path (block_children ?t (unat min_score) ?v) ?v root h'"
      "h' = root \<and> hs' = start \<or> (\<exists>e. tbl_get ?t h' = Some e \<and> hs' = ci_slot e)" unfolding v by blast
  have "h' = h" by (rule ghost_path_unique [OF h'(2) h(2)])
  moreover have "hs' = hs"
    using h(3) h'(3) \<open>h' = h\<close> ghost_start_slot [OF tables_okD(3) [OF t] start] by auto
  ultimately show ?thesis using h(1) h'(1) by simp
qed

theorem ghost_head_order_independent_witness:
  "compute_lmd_ghost_head (signed_votes [(0, aa_message (demo_att 1 [])), (1, aa_message (demo_att 2 []))]) 1000 0
     (ls_db demo_store2) =
   compute_lmd_ghost_head (signed_votes [(1, aa_message (demo_att 2 [])), (0, aa_message (demo_att 1 []))]) 1000 0
     (ls_db demo_store2)"
  by (rule ghost_head_order_independent [OF demo_reachable(3) demo_env_conditions]) (simp_all add: signed_votes_def)

section \<open>The clock\<close>

text \<open>C17. A tick always succeeds: whatever votes the store holds, the clock moves to the interval of
  the given time, or stays where it is if that is not later or the time is before genesis, and the
  store stays usable.\<close>

theorem on_tick_reaches_target:
  assumes "reachable_store E Q N sb s st" and "env_ok E N (sb_block sb) s"
    and "db_time (ls_db st) = Some t" and "store_genesis_time (ls_db st) = Inr g"
  shows "\<exists>st'. on_tick N time has_proposal is_aggregator st = (Inr (), st') \<and>
    db_time (ls_db st') =
      Some (if time < g then t
            else max t ((time - g) * 1000 * INTERVALS_PER_SLOT div (seconds_per_slot N * 1000))) \<and>
    store_ok E (sb_block sb) st'"
  using on_tick_total [OF reachable_ok [OF assms(1,2)] _ _ assms(3), of N time has_proposal is_aggregator] assms(2,4)
  by (auto simp: env_ok_def tick_interval_time_def)

theorem on_tick_reaches_target_witness:
  "\<exists>st'. on_tick demo_net 34 False False demo_store2 = (Inr (), st') \<and> db_time (ls_db st') = Some 30"
proof -
  have "db_time (ls_db demo_store2) = Some 20" and "store_genesis_time (ls_db demo_store2) = Inr 10"
    by (simp_all add: demo_store2_def demo_store1_def demo_store0_def store_genesis_time_def get_head_def
        field_get_def get_state_def demo_state2_def demo_state_def)
  from on_tick_reaches_target [OF demo_reachable(3) demo_env_conditions this, of 34 False False]
  have "\<exists>st'. on_tick demo_net 34 False False demo_store2 = (Inr (), st') \<and> db_time (ls_db st') =
      Some (max 20 ((34 - 10) * 1000 * INTERVALS_PER_SLOT div (seconds_per_slot demo_net * 1000)))"
    by (auto simp: word_less_nat_alt)
  then show ?thesis by (simp add: INTERVALS_PER_SLOT_def demo_net_def)
qed

section \<open>Importing blocks\<close>

text \<open>C11. What the import of a new block has established when it returns without an error: the
  parent's state is stored, the slot is at most one ahead of the clock and within the history limit
  of the parent, the signatures verified, the block is stored under its hash with the post-state of
  the transition, and no attestation data occurs twice.\<close>

theorem on_block_accepts:
  assumes "reachable_store E Q N sb s st" and "env_ok E N (sb_block sb) s"
    and "on_block E Q b True st = (Inr (), st')" and "\<not> stored (ls_db st) (hash_block E (sb_block b))"
  shows "\<exists>parent post t. tbl_get (db_states (ls_db st)) (blk_parent_root (sb_block b)) = Some parent \<and>
    saturating_sub (blk_slot (sb_block b)) (st_slot parent) \<le> MAX_HISTORICAL_BLOCK_HASHES \<and>
    db_time (ls_db st) = Some t \<and> blk_slot (sb_block b) \<le> t div INTERVALS_PER_SLOT + 1 \<and>
    verify_signatures E Q b parent True = Inr True \<and>
    state_transition E (sb_block b) True parent = Inr post \<and>
    tbl_get (db_blocks (ls_db st')) (hash_block E (sb_block b)) = Some b \<and>
    tbl_get (db_states (ls_db st')) (hash_block E (sb_block b)) = Some post \<and>
    distinct (map (\<lambda>a. hash_attestation_data E (aa_message a)) (attestations (blk_body (sb_block b))))"
proof -
  have known: "\<not> table_contains_key (db_blocks (ls_db st)) (hash_block E (sb_block b))"
    using assms(4) by (simp add: stored_def table_contains_key_def)
  let ?atts = "attestations (blk_body (sb_block b))"
  from assms(3) known obtain post j where chk: "check_block E Q b True (ls_db st) = Inr (post, j)"
    and dup: "check_duplicates E ?atts = Inr ()"
    and run: "update_head (insert_block E b post j st
        \<lparr> ls_db := fold (add_block_payload E) ?atts (ls_db (insert_block E b post j st)) \<rparr>) = (Inr (), st')"
    by (auto simp: on_block_eq split: sum.splits if_splits)
  let ?st1 = "insert_block E b post j st"
  let ?st2 = "?st1\<lparr> ls_db := fold (add_block_payload E) ?atts (ls_db ?st1) \<rparr>"
  have "same_blocks (ls_db ?st1) (ls_db ?st2)"
    using same_blocks_fold [of "add_block_payload E", OF add_block_payload_votes] by simp
  moreover have "db_blocks (ls_db st') = db_blocks (ls_db ?st2)" "db_states (ls_db st') = db_states (ls_db ?st2)"
    using run by (auto simp: update_head_def pbind_def get_db_def pread_def pmodify_def put_db_def
        split: sum.splits prod.splits)
  ultimately have "db_blocks (ls_db st') = db_blocks (ls_db ?st1)" "db_states (ls_db st') = db_states (ls_db ?st1)"
    by (simp_all add: same_blocks_def)
  moreover have "verify_signatures E Q b parent True = Inr r \<Longrightarrow> r" for parent r
    by (simp add: verify_signatures_Inr)
  ultimately show ?thesis
    using chk dup unfolding check_block_def
    by (auto simp: Let_def result_simps get_state_def get_time_def field_get_def check_duplicates_iff
        insert_block_def block_insert_ref_def table_simps)
qed

text \<open>C38. A block with a repeated attestation data is reported as an error, but only after it has been
  stored: its block and post-state stay in the database, and submitting it again succeeds as an
  already known block.\<close>

theorem duplicate_data_block_stays:
  assumes "check_block E Q b verify (ls_db st) = Inr (post, j)"
    and "\<not> stored (ls_db st) (hash_block E (sb_block b))"
    and "\<not> distinct (map (\<lambda>a. hash_attestation_data E (aa_message a)) (attestations (blk_body (sb_block b))))"
  shows "\<exists>st'. on_block E Q b verify st = (Inl DuplicateAttestationData, st') \<and>
    tbl_get (db_blocks (ls_db st')) (hash_block E (sb_block b)) = Some b \<and>
    tbl_get (db_states (ls_db st')) (hash_block E (sb_block b)) = Some post \<and>
    on_block E Q b verify st' = (Inr (), st')"
proof -
  let ?atts = "attestations (blk_body (sb_block b))"
  have "check_duplicates E ?atts \<noteq> Inr ()" using assms(3) by (simp add: check_duplicates_iff)
  then obtain e where "check_duplicates E ?atts = Inl e" by (cases "check_duplicates E ?atts") auto
  with check_duplicates_error have "check_duplicates E ?atts = Inl DuplicateAttestationData" by blast
  then show ?thesis
    using assms(1,2)
    by (simp add: on_block_eq stored_def table_contains_key_def)
      (simp add: insert_block_def block_insert_ref_def table_simps Let_def)
qed

text \<open>The signed third block of the example is accepted; a second block that repeats its vote is
  stored although it is rejected.\<close>

lemma demo_check3:
  "check_block demo_env demo_pq demo_signed True (ls_db demo_store2) = Inr (demo_state3, demo_cp 2)"
proof -
  have "tbl_get (db_states (ls_db demo_store2)) 1002 = Some demo_state2" by (simp add: demo_store2_def)
  with demo_verified demo_block3 show ?thesis
    by (simp add: check_block_def demo_signed_def demo_block_def Let_def get_state_def get_time_def get_justified_def
        field_get_def demo_store2_def demo_store1_def demo_store0_def saturating_sub_def INTERVALS_PER_SLOT_def
        MAX_HISTORICAL_BLOCK_HASHES_def table_contains_key_def demo_cp_def)
      (simp add: demo_state2_def demo_state3_def demo_state_def demo_cp_def)
qed

theorem on_block_accepts_witness:
  "\<exists>st'. on_block demo_env demo_pq demo_signed True demo_store2 = (Inr (), st') \<and>
     tbl_get (db_states (ls_db st')) 1003 = Some demo_state3"
proof -
  have new: "\<not> stored (ls_db demo_store2) (hash_block demo_env (sb_block demo_signed))"
    by (simp add: stored_def demo_store2_def demo_env_simps demo_signed_def demo_block_def)
  let ?st = "insert_block demo_env demo_signed demo_state3 (demo_cp 2) demo_store2"
  let ?atts = "attestations (blk_body (sb_block demo_signed))"
  let ?st2 = "?st\<lparr> ls_db := fold (add_block_payload demo_env) ?atts (ls_db ?st) \<rparr>"
  have "votes_only ?st ?st2"
    using same_blocks_fold [of "add_block_payload demo_env", OF add_block_payload_votes] by (simp add: votes_only_def)
  from votes_only_ok [OF this insert_block_ok(1) [OF demo_store_ok(3) demo_anchored demo_env_ok new demo_check3]]
  have "store_ok demo_env (sb_block demo_anchor) ?st2" .
  from update_head_total [OF this demo_anchored] obtain st' where "update_head ?st2 = (Inr (), st')" by blast
  then have run: "on_block demo_env demo_pq demo_signed True demo_store2 = (Inr (), st')"
    using new demo_check3
    by (simp add: on_block_eq stored_def table_contains_key_def)
      (simp add: check_duplicates_def demo_signed_def demo_block_def Let_def)
  from on_block_accepts [OF demo_reachable(3) demo_env_conditions this new] demo_block3 show ?thesis
    using run by (auto simp: demo_signed_def demo_block_def demo_env_simps demo_store2_def)
qed

definition demo_repeated :: signed_block where
  "demo_repeated = demo_signed_block 2 [demo_att 1 [True, True, False], demo_att 1 [False, True, True]]"

lemma demo_repeated_transition:
  "state_transition demo_env (sb_block demo_repeated) True demo_state1 = Inr (demo_state 2 1 0 [True] 2)"
  by (simp add: demo_repeated_def demo_signed_block_def demo_eval demo_state1_def demo_state_def Let_def)

theorem duplicate_data_block_stays_witness:
  "\<exists>st'. on_block demo_env demo_pq demo_repeated False demo_store1 = (Inl DuplicateAttestationData, st') \<and>
     tbl_get (db_blocks (ls_db st')) 1002 = Some demo_repeated \<and>
     on_block demo_env demo_pq demo_repeated False st' = (Inr (), st')"
proof -
  have "check_block demo_env demo_pq demo_repeated False (ls_db demo_store1) =
      Inr (demo_state 2 1 0 [True] 2, demo_cp 1)"
    using demo_repeated_transition
    by (simp add: demo_store_eval demo_store0_def demo_store1_def demo_repeated_def demo_state1_def demo_state_def
        demo_att_def attestation_keys_def bits_indices_def enumerate_eq_zip upt_rec demo_validator_def)
  moreover have hash: "hash_block demo_env (sb_block demo_repeated) = 1002"
    by (simp add: demo_env_simps demo_repeated_def demo_signed_block_def demo_block_def)
  moreover have "\<not> stored (ls_db demo_store1) (hash_block demo_env (sb_block demo_repeated))"
    by (simp add: hash stored_def demo_store1_def)
  moreover have "\<not> distinct (map (\<lambda>a. hash_attestation_data demo_env (aa_message a))
      (attestations (blk_body (sb_block demo_repeated))))"
    by (simp add: demo_repeated_def demo_signed_block_def demo_block_def demo_att_def)
  ultimately show ?thesis
    using duplicate_data_block_stays [of demo_env demo_pq demo_repeated False demo_store1] by fastforce
qed

section \<open>Starting from an anchor\<close>

text \<open>C40. A store started without a given time has a clock of seconds where intervals are expected: with
  four seconds and five intervals per slot, every block of the slot after a later anchor is refused
  as being in the future, until a tick has moved the clock.\<close>

theorem anchor_clock_lags:
  assumes "get_forkchoice_store E N anchor s db None vid = Inr st" and "seconds_per_slot N = 4"
    and "0 < blk_slot (sb_block anchor)" and "unat (blk_slot (sb_block anchor)) < 2 ^ 60"
    and "blk_slot (sb_block sb) = blk_slot (sb_block anchor) + 1"
    and "get_state (ls_db st) (blk_parent_root (sb_block sb)) = Inr parent"
    and "saturating_sub (blk_slot (sb_block sb)) (st_slot parent) \<le> MAX_HISTORICAL_BLOCK_HASHES"
  shows "check_block E Q sb verify (ls_db st) = Inl BlockInFuture"
proof -
  let ?a = "blk_slot (sb_block anchor)"
  have time: "db_time (ls_db st) = Some (?a * 4)"
    using assms(1,2) by (auto simp: get_forkchoice_store_def Let_def block_insert_ref_def result_simps split: if_splits option.splits)
  have m: "unat (?a * 4) = unat ?a * 4" using assms(4) by (simp add: unat_word_ariths)
  have p: "0 < unat ?a" using assms(3) by (simp add: word_less_nat_alt)
  have "unat (?a * 4 div INTERVALS_PER_SLOT + 1) = unat ?a * 4 div 5 + 1"
    using assms(4) m by (simp add: INTERVALS_PER_SLOT_def unat_word_ariths unat_div)
  moreover have "unat (?a + 1) = unat ?a + 1" using assms(4) by (simp add: unat_word_ariths)
  ultimately have "\<not> ?a + 1 \<le> ?a * 4 div INTERVALS_PER_SLOT + 1"
    using p by (simp add: word_le_nat_alt)
  then show ?thesis
    using assms(5-7) time by (simp add: check_block_def Let_def get_time_def field_get_def result_simps ensure_def)
qed

lemma demo_late_start:
  "\<exists>st. get_forkchoice_store demo_env demo_net (demo_signed_block 1 []) demo_state1 empty_db None None = Inr st \<and>
     get_state (ls_db st) 1001 = Inr demo_state1"
  by (simp add: get_forkchoice_store_def Let_def block_insert_ref_def demo_env_simps demo_signed_block_def demo_block_def
      demo_state1_def demo_state_def get_state_def empty_db_def)

theorem anchor_clock_lags_witness:
  "\<exists>st. get_forkchoice_store demo_env demo_net (demo_signed_block 1 []) demo_state1 empty_db None None = Inr st \<and>
     check_block demo_env demo_pq demo_block2_signed True (ls_db st) = Inl BlockInFuture"
proof -
  obtain st where st: "get_forkchoice_store demo_env demo_net (demo_signed_block 1 []) demo_state1 empty_db None None = Inr st"
    and parent: "get_state (ls_db st) 1001 = Inr demo_state1" using demo_late_start by blast
  have "check_block demo_env demo_pq demo_block2_signed True (ls_db st) = Inl BlockInFuture"
    by (rule anchor_clock_lags [OF st, where parent = demo_state1])
      (simp_all add: parent demo_net_def demo_block2_signed_def demo_signed_block_def demo_block_def demo_state1_def
        demo_state_def saturating_sub_def MAX_HISTORICAL_BLOCK_HASHES_def)
  with st show ?thesis by blast
qed

end
