(* ===== verification/Lean_Attestation_Theorems.thy ===== *)
theory Lean_Attestation_Theorems
  imports Lean_Store_Example
begin

text \<open>
  The properties of attestation handling: ancestry of checkpoints, what validation accepts, what a
  gossiped aggregate records, which votes count, acceptance of new votes and pruning.
\<close>

section \<open>Ancestry\<close>

inductive ancestor :: "(b256, signed_block) table \<Rightarrow> b256 \<Rightarrow> b256 \<Rightarrow> bool" for blocks where
  itself: "tbl_get blocks r = Some sb \<Longrightarrow> ancestor blocks r r"
| parent: "tbl_get blocks r = Some sb \<Longrightarrow> ancestor blocks (blk_parent_root (sb_block sb)) a \<Longrightarrow> ancestor blocks r a"

definition at_slot :: "(b256, signed_block) table \<Rightarrow> checkpoint \<Rightarrow> bool" where
  "at_slot blocks c \<longleftrightarrow> (\<exists>sb. tbl_get blocks (cp_root c) = Some sb \<and> blk_slot (sb_block sb) = cp_slot c)"

lemma ancestor_step:
  "tbl_get blocks r = Some sb \<Longrightarrow>
   ancestor blocks r a \<longleftrightarrow> a = r \<or> ancestor blocks (blk_parent_root (sb_block sb)) a"
  by (auto intro: ancestor.intros elim: ancestor.cases)

lemma ancestor_None: "tbl_get blocks r = None \<Longrightarrow> \<not> ancestor blocks r a"
  by (auto elim: ancestor.cases)

lemma ancestor_slot:
  assumes "tables_ok E anchor db" and "anchored E anchor" and "ancestor (db_blocks db) r a"
  shows "\<exists>sb sa. tbl_get (db_blocks db) r = Some sb \<and> tbl_get (db_blocks db) a = Some sa \<and>
    (a = r \<or> blk_slot (sb_block sa) < blk_slot (sb_block sb))"
  using assms(3)
proof (induction rule: ancestor.induct)
  case (parent r sb a)
  then obtain pb sa where pb: "tbl_get (db_blocks db) (blk_parent_root (sb_block sb)) = Some pb"
    "tbl_get (db_blocks db) a = Some sa"
    "a = blk_parent_root (sb_block sb) \<or> blk_slot (sb_block sa) < blk_slot (sb_block pb)" by blast
  have "blk_slot (sb_block pb) < blk_slot (sb_block sb)"
    by (rule block_parent_slot [OF assms(1,2) parent.hyps(1) pb(1)])
  with pb parent.hyps(1) show ?case by force
qed auto

lemma ancestor_walk_correct:
  assumes ok: "tables_ok E anchor db" and anc: "anchored E anchor"
  shows "ancestor_walk fuel (db_blocks db) c r = Inr b \<Longrightarrow>
    b \<longleftrightarrow> ancestor (db_blocks db) r (cp_root c) \<and> at_slot (db_blocks db) c"
proof (induction fuel arbitrary: r)
  case (Suc fuel)
  show ?case
  proof (cases "tbl_get (db_blocks db) r")
    case None
    with Suc.prems show ?thesis by (simp add: ancestor_None)
  next
    case (Some sb)
    note slot = ancestor_slot [OF ok anc, of r "cp_root c"]
    consider "blk_slot (sb_block sb) = cp_slot c" | "blk_slot (sb_block sb) < cp_slot c"
      | "cp_slot c < blk_slot (sb_block sb)" by (meson linorder_less_linear)
    then show ?thesis
    proof cases
      case 1
      with Suc.prems Some have "b \<longleftrightarrow> r = cp_root c" by simp
      moreover have "r = cp_root c" if "ancestor (db_blocks db) r (cp_root c)" "at_slot (db_blocks db) c"
        using slot [OF that(1)] that(2) 1 Some by (auto simp: at_slot_def)
      ultimately show ?thesis using 1 Some by (auto simp: at_slot_def intro: ancestor.itself)
    next
      case 2
      with Suc.prems Some have "\<not> b" by (auto split: if_splits)
      moreover have False if "ancestor (db_blocks db) r (cp_root c)" "at_slot (db_blocks db) c"
        using slot [OF that(1)] that(2) 2 Some by (auto simp: at_slot_def)
      ultimately show ?thesis by blast
    next
      case 3
      then have "ancestor_walk fuel (db_blocks db) c (blk_parent_root (sb_block sb)) = Inr b"
        using Suc.prems Some by (auto split: if_splits)
      from Suc.IH [OF this] 3 Some show ?thesis by (auto simp: ancestor_step [OF Some] at_slot_def)
    qed
  qed
qed simp

lemma checkpoint_is_ancestor_iff:
  assumes "tables_ok E anchor db" and "anchored E anchor"
  shows "checkpoint_is_ancestor db c d =
    Inr (cp_slot c \<le> cp_slot d \<and> ancestor (db_blocks db) (cp_root d) (cp_root c) \<and> at_slot (db_blocks db) c)"
proof (cases "cp_slot d < cp_slot c")
  case True
  then show ?thesis by (simp add: checkpoint_is_ancestor_def not_le)
next
  case False
  from ancestor_walk_total [OF assms] obtain b where
    b: "ancestor_walk (Suc (length (db_blocks db))) (db_blocks db) c (cp_root d) = Inr b" by blast
  from False have "cp_slot c \<le> cp_slot d" by simp
  with ancestor_walk_correct [OF assms b] show ?thesis
    unfolding checkpoint_is_ancestor_def if_not_P [OF False] b by simp
qed

text \<open>C13. On a reachable store the ancestry check decides exactly whether one checkpoint is an
  ancestor of another: its block is met when following parents from the other block, and its slot is
  the slot of that block.\<close>

theorem checkpoint_is_ancestor_correct:
  assumes "reachable_store E Q N sb s st" and "env_ok E N (sb_block sb) s"
  shows "checkpoint_is_ancestor (ls_db st) c d =
    Inr (cp_slot c \<le> cp_slot d \<and> ancestor (db_blocks (ls_db st)) (cp_root d) (cp_root c) \<and>
         at_slot (db_blocks (ls_db st)) c)"
  using reachable_ok [OF assms] assms(2)
  by (intro checkpoint_is_ancestor_iff) (auto simp: store_ok_def env_ok_def)

theorem checkpoint_is_ancestor_correct_witness:
  "checkpoint_is_ancestor (ls_db demo_store2) (demo_cp 0) (demo_cp 2) = Inr True"
proof -
  have "tbl_get (db_blocks (ls_db demo_store2)) 1002 = Some demo_block2_signed"
    "tbl_get (db_blocks (ls_db demo_store2)) 1001 = Some (demo_signed_block 1 [])"
    "tbl_get (db_blocks (ls_db demo_store2)) 1000 = Some demo_anchor"
    by (simp_all add: demo_store2_def)
  then have "ancestor (db_blocks (ls_db demo_store2)) 1002 1000" "at_slot (db_blocks (ls_db demo_store2)) (demo_cp 0)"
    by (simp_all add: ancestor_step demo_block2_signed_def demo_signed_block_def demo_block_def ancestor.itself
        at_slot_def demo_cp_def demo_anchor_def)
  then show ?thesis
    unfolding checkpoint_is_ancestor_correct [OF demo_reachable(3) demo_env_conditions] by (simp add: demo_cp_def)
qed

section \<open>Validation\<close>

text \<open>The chain conditions on an attestation: the three checkpoints name stored blocks of their slots,
  in order and on one chain that descends from the finalized block.\<close>

definition attests_chain :: "lean_db \<Rightarrow> checkpoint \<Rightarrow> attestation_data \<Rightarrow> bool" where
  "attests_chain db fin d \<longleftrightarrow>
     at_slot (db_blocks db) (ad_source d) \<and> at_slot (db_blocks db) (ad_target d) \<and> at_slot (db_blocks db) (ad_head d) \<and>
     cp_slot (ad_source d) \<le> cp_slot (ad_target d) \<and> cp_slot (ad_target d) \<le> cp_slot (ad_head d) \<and>
     ancestor (db_blocks db) (cp_root (ad_target d)) (cp_root (ad_source d)) \<and>
     ancestor (db_blocks db) (cp_root (ad_head d)) (cp_root (ad_target d)) \<and>
     cp_slot fin \<le> cp_slot (ad_head d) \<and> at_slot (db_blocks db) fin \<and>
     ancestor (db_blocks db) (cp_root (ad_head d)) (cp_root fin)"

lemma validate_attestation_iff:
  assumes ok: "tables_ok E anchor db" and anc: "anchored E anchor"
  shows "validate_attestation db sa = Inr () \<longleftrightarrow>
    (\<exists>fin t. db_latest_finalized db = Some fin \<and> db_time db = Some t \<and> attests_chain db fin (sa_message sa) \<and>
       cp_slot (ad_head (sa_message sa)) \<le> ad_slot (sa_message sa) \<and>
       ad_slot (sa_message sa) * INTERVALS_PER_SLOT \<le> t + GOSSIP_DISPARITY_INTERVALS)"
  unfolding validate_attestation_def attests_chain_def at_slot_def Let_def
  by (auto simp: result_simps get_block_def get_finalized_def get_time_def field_get_def ensure_ancestor_def
      checkpoint_is_ancestor_iff [OF ok anc] table_contains_key_def at_slot_def)

text \<open>C12. Validation accepts an attestation exactly when its source, target and head are stored blocks
  of the stated slots, in order and on one chain descending from the finalized block, its slot is not
  before its head, and its start interval (computed modulo 2 to the 64) is at most one interval ahead
  of the clock.\<close>

theorem validate_attestation_accepts:
  assumes "reachable_store E Q N sb s st" and "env_ok E N (sb_block sb) s"
  shows "validate_attestation (ls_db st) sa = Inr () \<longleftrightarrow>
    (\<exists>fin t. db_latest_finalized (ls_db st) = Some fin \<and> db_time (ls_db st) = Some t \<and>
       attests_chain (ls_db st) fin (sa_message sa) \<and>
       cp_slot (ad_head (sa_message sa)) \<le> ad_slot (sa_message sa) \<and>
       ad_slot (sa_message sa) * INTERVALS_PER_SLOT \<le> t + GOSSIP_DISPARITY_INTERVALS)"
  using reachable_ok [OF assms] assms(2)
  by (intro validate_attestation_iff) (auto simp: store_ok_def env_ok_def)

definition demo_vote :: "u64 \<Rightarrow> signed_attestation" where
  "demo_vote slot = \<lparr> sa_validator_id = 0,
     sa_message = \<lparr> ad_slot = slot, ad_head = demo_cp 2, ad_target = demo_cp 1, ad_source = demo_cp 0 \<rparr>,
     sa_signature = [] \<rparr>"

lemma demo_attests: "attests_chain (ls_db demo_store2) (demo_cp 0) (sa_message (demo_vote slot))"
proof -
  have "tbl_get (db_blocks (ls_db demo_store2)) 1002 = Some demo_block2_signed"
    "tbl_get (db_blocks (ls_db demo_store2)) 1001 = Some (demo_signed_block 1 [])"
    "tbl_get (db_blocks (ls_db demo_store2)) 1000 = Some demo_anchor"
    by (simp_all add: demo_store2_def)
  then show ?thesis
    by (simp add: attests_chain_def demo_vote_def demo_cp_def at_slot_def ancestor_step demo_block2_signed_def
        demo_signed_block_def demo_block_def demo_anchor_def ancestor.itself)
qed

lemma demo_store2_fields:
  "db_latest_finalized (ls_db demo_store2) = Some (demo_cp 0)" "db_time (ls_db demo_store2) = Some 20"
  by (simp_all add: demo_store2_def demo_store1_def demo_store0_def)

theorem validate_attestation_accepts_witness:
  "validate_attestation (ls_db demo_store2) (demo_vote 3) = Inr ()"
  unfolding validate_attestation_accepts [OF demo_reachable(3) demo_env_conditions]
  using demo_attests [of 3] demo_store2_fields
  by (simp add: INTERVALS_PER_SLOT_def GOSSIP_DISPARITY_INTERVALS_def)
    (simp add: demo_vote_def demo_cp_def word_le_nat_alt)

section \<open>Gossiped aggregates\<close>

text \<open>C37. The proof of a gossiped aggregate is not checked against the attestation it comes with: what
  the library reports as the message and slot a proof was made for has no influence on the result or
  on the store.\<close>

theorem gossip_aggregate_ignores_binding:
  "on_gossip_aggregated_attestation_core E (Q\<lparr> single_binding := binding \<rparr>) saa verify st =
   on_gossip_aggregated_attestation_core E Q saa verify st"
proof -
  have keys: "to_lib_public_key (Q\<lparr> single_binding := binding \<rparr>) = to_lib_public_key Q"
    by (simp add: to_lib_public_key_def fun_eq_iff)
  have "type_1_from_wire (Q\<lparr> single_binding := binding \<rparr>) = type_1_from_wire Q"
    "type_1_verify (Q\<lparr> single_binding := binding \<rparr>) = type_1_verify Q"
    by (simp_all add: type_1_from_wire_def type_1_verify_def fun_eq_iff keys)
  then have "check_gossip_aggregate E (Q\<lparr> single_binding := binding \<rparr>) saa verify = check_gossip_aggregate E Q saa verify"
    by (intro ext) (simp only: check_gossip_aggregate_def)
  then show ?thesis by (simp only: on_gossip_aggregated_attestation_core_def)
qed

text \<open>Every vote in the payload tables has its data, under its hash, and no validator has votes for
  two different data of one slot.\<close>

definition vote_keys :: "lean_db \<Rightarrow> signature_key set" where
  "vote_keys db = fst ` set (db_new_payloads db) \<union> fst ` set (db_known_payloads db)"

definition votes_resolved :: "lean_db \<Rightarrow> bool" where
  "votes_resolved db \<longleftrightarrow> (\<forall>k \<in> vote_keys db. tbl_get (db_attestation_data db) (data_root k) \<noteq> None)"

definition one_vote_per_slot :: "lean_db \<Rightarrow> bool" where
  "one_vote_per_slot db \<longleftrightarrow>
     (\<forall>k \<in> vote_keys db. \<forall>k' \<in> vote_keys db. \<forall>d d'.
        validator_id k = validator_id k' \<and> tbl_get (db_attestation_data db) (data_root k) = Some d \<and>
        tbl_get (db_attestation_data db) (data_root k') = Some d' \<and> ad_slot d = ad_slot d' \<longrightarrow>
        data_root k = data_root k')"

lemma vote_keys_push:
  "vote_keys (db\<lparr> db_new_payloads := tbl_push k p (db_new_payloads db) \<rparr>) = insert k (vote_keys db)"
  by (auto simp: vote_keys_def tbl_push_def tbl_insert_keys)

lemma add_new_payload_keeps:
  fixes v :: u64 and p :: single_message_aggregate
  assumes "votes_resolved db" and "one_vote_per_slot db" and "tbl_get (db_attestation_data db) root = Some d"
  defines "db' \<equiv> add_new_payload (ad_slot d) root v p db"
  shows "votes_resolved db'" "one_vote_per_slot db'" "db_attestation_data db' = db_attestation_data db"
proof -
  show data: "db_attestation_data db' = db_attestation_data db" by (simp add: db'_def add_new_payload_def)
  have "votes_resolved db' \<and> one_vote_per_slot db'"
  proof (cases "already_voted_this_slot db v root (ad_slot d)")
    case True
    then have "db' = db" by (simp add: db'_def add_new_payload_def)
    with assms(1,2) show ?thesis by simp
  next
    case False
    then have keys: "vote_keys db' = insert (SignatureKey v root) (vote_keys db)"
      by (simp add: db'_def add_new_payload_def vote_keys_push)
    have free: "data_root k = root" if "k \<in> vote_keys db" "validator_id k = v"
      "tbl_get (db_attestation_data db) (data_root k) = Some e" "ad_slot e = ad_slot d" for k e
    proof (rule ccontr)
      assume ne: "data_root k \<noteq> root"
      have "k \<in> set (map fst (db_new_payloads db) @ map fst (db_known_payloads db))"
        using that(1) by (auto simp: vote_keys_def)
      then have "already_voted_this_slot db v root (ad_slot d)"
        unfolding already_voted_this_slot_def by (rule bexI [rotated]) (simp add: that ne)
      with False show False ..
    qed
    have "votes_resolved db'" using assms(1,3) by (auto simp: votes_resolved_def keys data)
    moreover have "one_vote_per_slot db'"
      unfolding one_vote_per_slot_def keys data
    proof (intro ballI allI impI, elim conjE)
      fix k k' e e'
      assume k: "k \<in> insert (SignatureKey v root) (vote_keys db)" and k': "k' \<in> insert (SignatureKey v root) (vote_keys db)"
        and same: "validator_id k = validator_id k'" "ad_slot e = ad_slot e'"
        and e: "tbl_get (db_attestation_data db) (data_root k) = Some e"
        and e': "tbl_get (db_attestation_data db) (data_root k') = Some e'"
      consider "k = SignatureKey v root" "k' = SignatureKey v root"
        | "k = SignatureKey v root" "k' \<in> vote_keys db" | "k \<in> vote_keys db" "k' = SignatureKey v root"
        | "k \<in> vote_keys db" "k' \<in> vote_keys db" using k k' by blast
      then show "data_root k = data_root k'"
      proof cases
        case 2
        with e assms(3) have "e = d" by simp
        with 2 same e' have "data_root k' = root" by (intro free [of k' e']) simp_all
        with 2 show ?thesis by simp
      next
        case 3
        with e' assms(3) have "e' = d" by simp
        with 3 same e have "data_root k = root" by (intro free [of k e]) simp_all
        with 3 show ?thesis by simp
      next
        case 4
        with same e e' assms(2) show ?thesis unfolding one_vote_per_slot_def by blast
      qed simp
    qed
    ultimately show ?thesis by blast
  qed
  then show "votes_resolved db'" "one_vote_per_slot db'" by blast+
qed

lemma add_new_payloads_keep:
  fixes vs :: "u64 list" and p :: single_message_aggregate
  assumes "votes_resolved db" and "one_vote_per_slot db" and "tbl_get (db_attestation_data db) root = Some d"
  defines "db' \<equiv> fold (\<lambda>v. add_new_payload (ad_slot d) root v p) vs db"
  shows "votes_resolved db' \<and> one_vote_per_slot db'"
  using assms(1-3) unfolding db'_def
proof (induction vs arbitrary: db)
  case (Cons v vs)
  note step = add_new_payload_keeps [OF Cons.prems, of v p]
  show ?case unfolding fold.simps comp_def
    by (rule Cons.IH [OF step(1,2)]) (simp add: step(3) Cons.prems(3))
qed simp

text \<open>C10. A gossiped aggregate never gives a validator a second vote for a slot: if no validator had
  votes for two different data of one slot before, none has after, whether the aggregate is accepted
  or rejected.\<close>

theorem gossip_aggregate_no_equivocation:
  assumes "votes_resolved (ls_db st)" and "one_vote_per_slot (ls_db st)"
    and "tbl_get (db_attestation_data (ls_db st)) (hash_attestation_data E (saa_data saa)) \<in> {None, Some (saa_data saa)}"
    and "on_gossip_aggregated_attestation_core E Q saa verify st = (r, st')"
  shows "votes_resolved (ls_db st') \<and> one_vote_per_slot (ls_db st')"
proof (cases "check_gossip_aggregate E Q saa verify (ls_db st)")
  case (Inl e)
  then show ?thesis using assms
    by (simp add: on_gossip_aggregated_attestation_core_def Let_def pbind_def get_db_def pread_def)
next
  case (Inr u)
  let ?d = "saa_data saa"
  let ?root = "hash_attestation_data E ?d"
  let ?db = "(ls_db st)\<lparr> db_attestation_data := tbl_insert ?root ?d (db_attestation_data (ls_db st)) \<rparr>"
  have keys: "vote_keys ?db = vote_keys (ls_db st)" by (simp add: vote_keys_def)
  have look: "tbl_get (tbl_insert ?root ?d (db_attestation_data (ls_db st))) (data_root k) = tbl_get (db_attestation_data (ls_db st)) (data_root k)"
    if "k \<in> vote_keys (ls_db st)" for k
    using assms(1,3) that by (auto simp: votes_resolved_def table_simps)
  have "votes_resolved ?db" "one_vote_per_slot ?db"
    using assms(1,2) unfolding votes_resolved_def one_vote_per_slot_def keys by (simp_all add: look)
  from add_new_payloads_keep [OF this, of ?root ?d] assms(4) Inr show ?thesis
    by (auto simp: on_gossip_aggregated_attestation_core_def Let_def pbind_def get_db_def pread_def put_db_def
        pmodify_def table_simps)
qed

definition demo_aggregate :: signed_aggregated_attestation where
  "demo_aggregate = \<lparr> saa_data = sa_message (demo_vote 3),
     saa_proof = \<lparr> participants = [True, True, True], sma_proof = [7] \<rparr> \<rparr>"

theorem gossip_aggregate_no_equivocation_witness:
  "one_vote_per_slot (ls_db (snd (on_gossip_aggregated_attestation_core demo_env demo_pq demo_aggregate True demo_store2)))"
proof -
  have data: "tbl_get (db_attestation_data (ls_db demo_store2)) r =
      (if r = 3002 then Some (aa_message (demo_att 1 [])) else None)" for r
    by (simp add: demo_store2_def)
  have "votes_resolved (ls_db demo_store2)" "one_vote_per_slot (ls_db demo_store2)"
    by (auto simp: votes_resolved_def one_vote_per_slot_def vote_keys_def data demo_store2_def demo_store1_def
        demo_store0_def empty_db_def)
  moreover have "tbl_get (db_attestation_data (ls_db demo_store2)) (hash_attestation_data demo_env (saa_data demo_aggregate))
      \<in> {None, Some (saa_data demo_aggregate)}"
    by (simp add: data demo_env_simps demo_aggregate_def demo_vote_def demo_cp_def)
  ultimately show ?thesis
    using gossip_aggregate_no_equivocation [OF _ _ _ surjective_pairing] by blast
qed

section \<open>Which votes count\<close>

lemma first_wins:
  "tbl_get (fold (\<lambda>(vid, r, d) m. if tbl_get m vid = None then tbl_insert vid d m else m) xs m) v =
    (case tbl_get m v of Some d \<Rightarrow> Some d
     | None \<Rightarrow> map_option (\<lambda>(_, _, d). d) (find (\<lambda>(vid, _, _). vid = v) xs))"
proof (induction xs arbitrary: m)
  case Nil
  then show ?case by (simp split: option.splits)
next
  case (Cons x xs)
  obtain vid r d where x: "x = (vid, r, d)" by (cases x)
  show ?case
    unfolding x fold.simps comp_def split_conv Cons.IH
    by (auto simp: table_simps split: option.splits)
qed

lemma sorted_sort_desc: "sorted_wrt (\<lambda>x y. f y \<le> f x) (sort_desc f xs)"
  by (simp add: sort_desc_def sorted_wrt_rev) (metis sorted_map sorted_sort_key)

lemma set_sort_desc [simp]: "set (sort_desc f xs) = set xs"
  by (simp add: sort_desc_def)

lemma find_sorted_max:
  fixes f :: "'a \<Rightarrow> 'k::linorder"
  assumes "sorted_wrt (\<lambda>x y. f y \<le> f x) xs" and "find P xs = Some x"
  shows "x \<in> set xs \<and> P x \<and> (\<forall>y \<in> set xs. P y \<longrightarrow> f y \<le> f x)"
  using assms by (induction xs) (auto split: if_splits)

lemma find_None_iff': "find P xs = None \<longleftrightarrow> (\<forall>x \<in> set xs. \<not> P x)"
  by (induction xs) auto

text \<open>From a list of signature keys the program extracts one vote per validator: the one of the
  largest slot, ties broken by the larger data root, among the keys whose data is known; a validator
  has no vote exactly when none of its keys is known.\<close>

theorem extract_latest_votes:
  "case tbl_get (extract_attestations_from_aggregated_payloads keys db) v of
     None \<Rightarrow> \<forall>k \<in> set keys. validator_id k = v \<longrightarrow> tbl_get (db_attestation_data db) (data_root k) = None
   | Some d \<Rightarrow> \<exists>k \<in> set keys. validator_id k = v \<and> tbl_get (db_attestation_data db) (data_root k) = Some d \<and>
       (\<forall>k' \<in> set keys. \<forall>d'. validator_id k' = v \<and> tbl_get (db_attestation_data db) (data_root k') = Some d' \<longrightarrow>
          (ad_slot d', data_root k') \<le> (ad_slot d, data_root k))"
proof -
  let ?data = "\<lambda>r. tbl_get (db_attestation_data db) r"
  let ?res = "List.map_filter (\<lambda>key. map_option (\<lambda>d. (validator_id key, data_root key, d)) (?data (data_root key))) keys"
  let ?f = "\<lambda>(_ :: u64, root :: b256, d). (ad_slot d, root)"
  have res: "(vid, r, d) \<in> set ?res \<longleftrightarrow> (\<exists>k \<in> set keys. validator_id k = vid \<and> data_root k = r \<and> ?data r = Some d)"
    for vid r d
    by (force simp: List.map_filter_def)
  have get: "tbl_get (extract_attestations_from_aggregated_payloads keys db) v =
      map_option (\<lambda>(_, _, d). d) (find (\<lambda>(vid, _, _). vid = v) (sort_desc ?f ?res))"
    by (simp add: extract_attestations_from_aggregated_payloads_def Let_def first_wins)
  show ?thesis
  proof (cases "find (\<lambda>(vid, _, _). vid = v) (sort_desc ?f ?res)")
    case None
    then have "\<forall>x \<in> set ?res. fst x \<noteq> v" by (simp add: find_None_iff' case_prod_beta')
    then have none: "(v, r, d) \<notin> set ?res" for r d by auto
    have "?data (data_root k) = None" if "k \<in> set keys" "validator_id k = v" for k
      using none [of "data_root k"] that unfolding res by (cases "?data (data_root k)") blast+
    with None show ?thesis by (simp add: get)
  next
    case (Some x)
    obtain vid r d where x: "x = (vid, r, d)" by (cases x)
    note max = find_sorted_max [OF sorted_sort_desc Some]
    from max have "vid = v" "(v, r, d) \<in> set ?res" by (auto simp: x)
    then obtain k where k: "k \<in> set keys" "validator_id k = v" "data_root k = r" "?data r = Some d"
      by (auto simp: res)
    have "(ad_slot d', data_root k') \<le> (ad_slot d, r)"
      if "k' \<in> set keys" "validator_id k' = v" "?data (data_root k') = Some d'" for k' d'
    proof -
      have "(v, data_root k', d') \<in> set ?res" using that by (auto simp: res)
      with max show ?thesis by (fastforce simp: x)
    qed
    with k Some x show ?thesis by (auto simp: get)
  qed
qed

theorem extract_latest_votes_witness:
  "case tbl_get (extract_attestations_from_aggregated_payloads [SignatureKey 1 3002] (ls_db demo_store2)) 1 of
     None \<Rightarrow> False | Some d \<Rightarrow> d = aa_message (demo_att 1 [])"
  using extract_latest_votes [where keys = "[SignatureKey 1 3002]" and db = "ls_db demo_store2" and v = 1]
  by (auto simp: demo_store2_def split: option.splits)

end
