(* ===== verification/Lean_Vote_Theorems.thy ===== *)
theory Lean_Vote_Theorems
  imports Lean_Store_Example
begin

text \<open>
  The vote tables of the store: they stay sorted without repeated keys, accepting new votes keeps
  the latest vote of each validator, and pruning drops exactly the old data no vote refers to.
\<close>

section \<open>The vote tables stay well formed\<close>

definition votes_wf :: "lean_store \<Rightarrow> bool" where
  "votes_wf st \<longleftrightarrow>
     tbl_wf (db_new_payloads (ls_db st)) \<and> tbl_wf (db_known_payloads (ls_db st)) \<and>
     tbl_wf (db_attestation_data (ls_db st)) \<and> tbl_wf (db_gossip_signatures (ls_db st))"

definition keeps_votes_wf :: "lean_store \<Rightarrow> lean_store \<Rightarrow> bool" where
  "keeps_votes_wf st st' \<longleftrightarrow> (votes_wf st \<longrightarrow> votes_wf st')"

interpretation vw: store_frame keeps_votes_wf
  by unfold_locales (simp_all add: keeps_votes_wf_def)

lemma vw_get_db: "keeps keeps_votes_wf (get_db f)"
  by (simp add: get_db_def vw.keeps_pread)

lemma vw_put_db:
  "(\<And>st. votes_wf st \<Longrightarrow> votes_wf (st\<lparr> ls_db := f (ls_db st) \<rparr>)) \<Longrightarrow> keeps keeps_votes_wf (put_db f)"
  by (auto simp: put_db_def keeps_votes_wf_def intro!: vw.keeps_pmodify)

lemma vw_pmodify: "(\<And>st. votes_wf st \<Longrightarrow> votes_wf (f st)) \<Longrightarrow> keeps keeps_votes_wf (pmodify f)"
  by (auto simp: keeps_votes_wf_def intro!: vw.keeps_pmodify)

lemmas vw_intros = vw_get_db vw_put_db vw_pmodify ka_prod keeps_case_option vw.keeps_preturn vw.keeps_plift
  vw.keeps_pread vw.keeps_pbind vw.keeps_if

lemma tbl_wf_push [simp]: "tbl_wf t \<Longrightarrow> tbl_wf (tbl_push k x t)"
  by (simp add: tbl_push_def)

lemma tbl_wf_fold: "(\<And>x t. tbl_wf t \<Longrightarrow> tbl_wf (f x t)) \<Longrightarrow> tbl_wf t \<Longrightarrow> tbl_wf (fold f xs t)"
  by (induction xs arbitrary: t) simp_all

lemma merge_payloads_wf: "tbl_wf known \<Longrightarrow> tbl_wf (merge_payloads new known)"
  unfolding merge_payloads_def by (rule tbl_wf_fold) auto

lemma accept_payloads_wf: "votes_wf st \<Longrightarrow> votes_wf (st\<lparr> ls_db := accept_payloads (ls_db st) \<rparr>)"
  by (auto simp: votes_wf_def accept_payloads_def Let_def payload_drain_eq merge_payloads_wf)

lemma vw_update_head: "keeps keeps_votes_wf update_head"
  unfolding update_head_def by (intro vw_intros) (simp_all add: votes_wf_def)

lemma vw_accept: "keeps keeps_votes_wf accept_new_attestations"
  unfolding accept_new_attestations_def
  by (intro vw.keeps_pbind vw_put_db vw_update_head accept_payloads_wf)

lemma vw_on_tick: "keeps keeps_votes_wf (on_tick N time hp agg)"
proof -
  have "keeps keeps_votes_wf (tick_interval hp agg)" for hp agg
    unfolding tick_interval_def update_safe_target_def Let_def
    by (intro vw_intros vw_accept) (simp_all add: votes_wf_def)
  then have "keeps keeps_votes_wf (tick_loop fuel target hp agg)" for fuel target
    by (induction fuel) (auto intro!: vw.keeps_plift vw.keeps_pbind vw_get_db vw.keeps_preturn)
  then show ?thesis unfolding on_tick_def Let_def by (intro vw_intros)
qed

lemma add_new_payload_wf:
  "votes_wf st \<Longrightarrow> votes_wf (st\<lparr> ls_db := fold (\<lambda>v. add_new_payload slot root v p) vs (ls_db st) \<rparr>)"
proof (induction vs arbitrary: st)
  case (Cons v vs)
  from Cons.prems have "votes_wf (st\<lparr> ls_db := add_new_payload slot root v p (ls_db st) \<rparr>)"
    by (simp add: votes_wf_def add_new_payload_def)
  from Cons.IH [OF this] show ?case by simp
qed simp

lemma add_block_payload_wf:
  "votes_wf st \<Longrightarrow> votes_wf (st\<lparr> ls_db := fold (add_block_payload E) atts (ls_db st) \<rparr>)"
proof (induction atts arbitrary: st)
  case (Cons a atts)
  from Cons.prems have "votes_wf (st\<lparr> ls_db := add_block_payload E a (ls_db st) \<rparr>)"
    by (simp add: votes_wf_def add_block_payload_def Let_def tbl_wf_fold)
  from Cons.IH [OF this] show ?case by simp
qed simp

lemma vw_on_block: "keeps keeps_votes_wf (on_block E Q sb verify)"
  unfolding on_block_def Let_def
  by (intro vw_intros vw_update_head add_block_payload_wf) (simp_all add: votes_wf_def block_insert_ref_def Let_def)

lemma vw_aggregate_apply: "keeps keeps_votes_wf (aggregate_apply E signed_atts)"
proof -
  have "tbl_wf (fold (\<lambda>(key, proofs) t. tbl_insert key (f proofs t key) t) kvs t)" if "tbl_wf t"
    for f and kvs :: payloads and t :: payloads
    by (rule tbl_wf_fold [OF _ that]) auto
  then show ?thesis
    unfolding aggregate_apply_def by (intro vw_put_db) (simp add: votes_wf_def gossip_retain_def)
qed

lemma vw_aggregate: "keeps keeps_votes_wf (aggregate E Q)"
  unfolding aggregate_def
  by (intro vw_intros) (auto simp: votes_wf_def gossip_retain_def payload_drain_eq case_prod_beta intro!: tbl_wf_fold)

lemma vw_handle: "keeps keeps_votes_wf (handle E Q N ev)"
proof (cases ev)
  case (Attest sa agg)
  then show ?thesis
    by (simp add: on_gossip_attestation_def Let_def) (intro vw_intros; simp add: votes_wf_def)
next
  case (Aggregated saa verify)
  then show ?thesis
    by (simp add: on_gossip_aggregated_attestation_core_def Let_def)
      (intro vw.keeps_pbind vw_get_db vw_put_db add_new_payload_wf; simp add: votes_wf_def)
next
  case Aggregate
  then show ?thesis by (simp add: vw.keeps_pbind vw_aggregate vw.keeps_preturn)
next
  case Prune
  then show ?thesis
    by (simp add: prune_split prune_votes_def) (intro vw_intros; simp add: votes_wf_def gossip_retain_def)
next
  case (Propose slot vid)
  then show ?thesis
    by (simp add: produce_block_with_signatures_def get_proposal_head_def Let_def)
      (intro vw.keeps_pbind vw_on_tick vw_accept vw_get_db vw.keeps_pread vw.keeps_preturn)
qed (simp_all add: vw_on_tick vw_on_block vw_aggregate_apply)

lemma reachable_votes_wf: "reachable_store E Q N sb s st \<Longrightarrow> votes_wf st"
proof (induction rule: reachable_store.induct)
  case (start time vid st)
  then show ?case
    by (auto simp: get_forkchoice_store_def result_simps Let_def block_insert_ref_def empty_db_def votes_wf_def)
next
  case (strategy st strategy)
  then show ?case by (simp add: with_block_production_strategy_def votes_wf_def)
next
  case (event st ev r st')
  from keepsD [OF vw_handle event.hyps(2)] event.IH show ?case by (simp add: keeps_votes_wf_def)
qed

section \<open>Accepting new votes\<close>

lemma merge_payloads_get:
  "distinct (map fst new) \<Longrightarrow>
   tbl_get (merge_payloads new known) k =
     (case tbl_get new k of None \<Rightarrow> tbl_get known k
      | Some ps \<Rightarrow> Some ((case tbl_get known k of None \<Rightarrow> [] | Some qs \<Rightarrow> qs) @ ps))"
proof (induction new arbitrary: known)
  case Nil
  then show ?case by (simp add: merge_payloads_def)
next
  case (Cons x new)
  obtain key ps where x: "x = (key, ps)" by force
  let ?known = "tbl_insert key ((case tbl_get known key of None \<Rightarrow> [] | Some qs \<Rightarrow> qs) @ ps) known"
  have "merge_payloads (x # new) known = merge_payloads new ?known" by (simp add: merge_payloads_def x)
  moreover have "tbl_get new key = None" using Cons.prems by (simp add: x map_of_eq_None_iff)
  ultimately show ?case
    using Cons.IH [of ?known] Cons.prems by (simp add: x table_simps split: option.splits)
qed

lemma validator_max_slot_correct:
  "case tbl_get (validator_max_slot db known) v of
     None \<Rightarrow> \<forall>k \<in> fst ` set known. validator_id k \<noteq> v
   | Some m \<Rightarrow> (\<exists>k \<in> fst ` set known. validator_id k = v \<and> key_slot db k = m) \<and>
       (\<forall>k \<in> fst ` set known. validator_id k = v \<longrightarrow> key_slot db k \<le> m)"
proof (induction known rule: rev_induct)
  case (snoc x known)
  obtain key ps where x: "x = (key, ps)" by force
  let ?m = "validator_max_slot db known"
  have step: "validator_max_slot db (known @ [x]) =
      (case tbl_get ?m (validator_id key) of
         Some mx \<Rightarrow> tbl_insert (validator_id key) (max mx (key_slot db key)) ?m
       | None \<Rightarrow> tbl_insert (validator_id key) (key_slot db key) ?m)"
    unfolding validator_max_slot_def x by (simp split: option.splits)
  show ?case
  proof (cases "validator_id key = v")
    case False
    then have "tbl_get (validator_max_slot db (known @ [x])) v = tbl_get ?m v"
      by (auto simp: step table_simps split: option.splits)
    with snoc False show ?thesis by (auto simp: x split: option.splits)
  next
    case True
    show ?thesis
    proof (cases "tbl_get ?m v")
      case None
      with True have get: "tbl_get (validator_max_slot db (known @ [x])) v = Some (key_slot db key)"
        by (simp add: step table_simps)
      from snoc None True show ?thesis unfolding get option.case by (auto simp: x)
    next
      case (Some m)
      with True have get: "tbl_get (validator_max_slot db (known @ [x])) v = Some (max m (key_slot db key))"
        by (simp add: step table_simps)
      from snoc Some have "\<exists>k \<in> fst ` set known. validator_id k = v \<and> key_slot db k = m"
        and "\<forall>k \<in> fst ` set known. validator_id k = v \<longrightarrow> key_slot db k \<le> m" by simp_all
      with True show ?thesis unfolding get option.case by (auto simp: x max_def)
    qed
  qed
qed (simp add: validator_max_slot_def)

lemma superseded_iff:
  "k \<in> set (superseded db known) \<longleftrightarrow>
     k \<in> fst ` set known \<and> (\<exists>k' \<in> fst ` set known. validator_id k' = validator_id k \<and> key_slot db k < key_slot db k')"
  using validator_max_slot_correct [where db = db and known = known and v = "validator_id k"]
  by (auto simp: superseded_def split: option.splits)

text \<open>C14. Accepting new votes empties the table of new votes and keeps, of the new and the known
  votes together, exactly those no later vote of the same validator supersedes; the proofs of a vote
  that is in both tables are kept from both.\<close>

theorem accept_keeps_latest_votes:
  assumes "reachable_store E Q N sb s st"
  defines "all \<equiv> \<lambda>k. case tbl_get (db_new_payloads (ls_db st)) k of
       None \<Rightarrow> tbl_get (db_known_payloads (ls_db st)) k
     | Some ps \<Rightarrow> Some ((case tbl_get (db_known_payloads (ls_db st)) k of None \<Rightarrow> [] | Some qs \<Rightarrow> qs) @ ps)"
  shows "db_new_payloads (accept_payloads (ls_db st)) = [] \<and>
    tbl_get (db_known_payloads (accept_payloads (ls_db st))) k =
      (if \<exists>k'. all k' \<noteq> None \<and> validator_id k' = validator_id k \<and> key_slot (ls_db st) k < key_slot (ls_db st) k'
       then None else all k)"
proof -
  let ?db = "ls_db st"
  from reachable_votes_wf [OF assms(1)] have wf: "tbl_wf (db_new_payloads ?db)" "tbl_wf (db_known_payloads ?db)"
    by (auto simp: votes_wf_def)
  let ?merged = "merge_payloads (db_new_payloads ?db) (db_known_payloads ?db)"
  have get: "tbl_get ?merged k = all k" for k
    unfolding all_def by (rule merge_payloads_get [OF tbl_wf_distinct [OF wf(1)]])
  have wfm: "tbl_wf ?merged" using merge_payloads_wf [OF wf(2)] .
  have keys: "x \<in> fst ` set ?merged \<longleftrightarrow> all x \<noteq> None" for x
    unfolding get [symmetric] by (rule tbl_get_keys [symmetric])
  have old: "k \<in> set (superseded ?db ?merged) \<longleftrightarrow>
      all k \<noteq> None \<and> (\<exists>k'. all k' \<noteq> None \<and> validator_id k' = validator_id k \<and> key_slot ?db k < key_slot ?db k')" for k
    unfolding superseded_iff Bex_def keys by blast
  have "tbl_retain (\<lambda>key _. key \<notin> set (superseded ?db ?merged)) ?merged =
      (if superseded ?db ?merged = [] then ?merged
       else tbl_retain (\<lambda>key _. key \<notin> set (superseded ?db ?merged)) ?merged)"
    by (simp add: tbl_retain_def)
  then have known: "db_known_payloads (accept_payloads ?db) =
      tbl_retain (\<lambda>key _. key \<notin> set (superseded ?db ?merged)) ?merged"
    and new: "db_new_payloads (accept_payloads ?db) = []"
    by (auto simp: accept_payloads_def Let_def payload_drain_eq [OF wf(1)])
  have "tbl_get (db_known_payloads (accept_payloads ?db)) k =
      (case all k of None \<Rightarrow> None | Some v \<Rightarrow> if k \<notin> set (superseded ?db ?merged) then Some v else None)"
    unfolding known tbl_get_retain [OF tbl_wf_distinct [OF wfm]] get ..
  then show ?thesis using new unfolding old by (cases "all k") auto
qed

section \<open>Pruning\<close>

text \<open>Pruning succeeds and drops exactly the attestation data that no vote refers to and that is
  stale: its target is not after the finalized slot, or its slot is before the finalized slot or before
  the retention window of the head. No vote is lost.\<close>

theorem prune_drops_unused_stale_data:
  assumes "reachable_store E Q N sb s st" and "env_ok E N (sb_block sb) s"
    and "db_latest_finalized (ls_db st) = Some fin"
  defines "used \<equiv> \<lambda>r. \<exists>k. (tbl_get (db_new_payloads (ls_db st)) k \<noteq> None \<or>
        tbl_get (db_known_payloads (ls_db st)) k \<noteq> None) \<and> data_root k = r"
    and "cutoff \<equiv> max (cp_slot fin)
        (saturating_sub (cp_slot (ls_head_checkpoint st)) ATTESTATION_RETENTION_SLOTS)"
  shows "\<exists>st'. prune_stale_attestation_data st = (Inr (), st') \<and>
    db_new_payloads (ls_db st') = db_new_payloads (ls_db st) \<and>
    db_known_payloads (ls_db st') = db_known_payloads (ls_db st) \<and>
    (\<forall>r. tbl_get (db_attestation_data (ls_db st')) r =
      (case tbl_get (db_attestation_data (ls_db st)) r of None \<Rightarrow> None
       | Some d \<Rightarrow> if (cp_slot (ad_target d) \<le> cp_slot fin \<or> ad_slot d < cutoff) \<and> \<not> used r then None else Some d))"
proof -
  let ?db = "ls_db st"
  from reachable_votes_wf [OF assms(1)] have wf: "tbl_wf (db_new_payloads ?db)" "tbl_wf (db_known_payloads ?db)"
    "tbl_wf (db_attestation_data ?db)"
    by (auto simp: votes_wf_def)
  define db1 where "db1 = ?db\<lparr> db_children_index := snd (prune_finalized (cp_slot fin) (db_children_index ?db)) \<rparr>"
  let ?stale = "stale_roots db1 (cp_slot fin) cutoff"
  have used: "used r \<longleftrightarrow> r \<in> set (map data_root (payload_iter_keys (db_known_payloads db1)) @
      map (\<lambda>(key, _). data_root key) (db_new_payloads db1))" for r
    unfolding used_def db1_def payload_iter_keys_def using tbl_get_keys [of "db_new_payloads ?db"]
      tbl_get_keys [of "db_known_payloads ?db"] by (force simp: image_iff)
  have stale: "r \<in> set ?stale \<longleftrightarrow> (\<exists>d. tbl_get (db_attestation_data ?db) r = Some d \<and>
      (cp_slot (ad_target d) \<le> cp_slot fin \<or> ad_slot d < cutoff) \<and> \<not> used r)" for r
    unfolding stale_roots_def Let_def used [symmetric]
    using tbl_wf_distinct [OF wf(3)] by (force simp: db1_def image_iff)
  have unused: "\<not> used r" if "r \<in> set ?stale" for r using that stale by blast
  have keep: "tbl_retain (\<lambda>key _. data_root key \<notin> set ?stale) t = t"
    if "\<And>k. k \<in> fst ` set t \<Longrightarrow> used (data_root k)" for t :: payloads
    unfolding tbl_retain_def using that unused by (force simp: filter_id_conv)
  have used_new: "used (data_root k)" if "k \<in> fst ` set (db_new_payloads ?db)" for k
    using that unfolding used_def tbl_get_keys by blast
  have used_known: "used (data_root k)" if "k \<in> fst ` set (db_known_payloads ?db)" for k
    using that unfolding used_def tbl_get_keys by blast
  have run: "prune_stale_attestation_data st = prune_votes (cp_slot fin) (st\<lparr> ls_db := db1 \<rparr>)"
    using assms(3) by (simp add: db1_def prune_split pbind_def get_db_def pread_def put_db_def pmodify_def
        get_finalized_def field_get_def ok_or_def)
  define db2 where "db2 = (if ?stale = [] then db1 else db1\<lparr>
       db_attestation_data := tbl_retain (\<lambda>root _. root \<notin> set ?stale) (db_attestation_data db1),
       db_new_payloads := tbl_retain (\<lambda>key _. data_root key \<notin> set ?stale) (db_new_payloads db1),
       db_known_payloads := tbl_retain (\<lambda>key _. data_root key \<notin> set ?stale) (db_known_payloads db1),
       db_gossip_signatures := gossip_retain (\<lambda>key. data_root key \<notin> set ?stale) (db_gossip_signatures db1) \<rparr>)"
  have "prune_stale_attestation_data st = (Inr (), st\<lparr> ls_db := db2 \<rparr>)"
    unfolding run by (simp add: prune_votes_def pbind_def pread_def get_db_def put_db_def pmodify_def preturn_def
        db2_def cutoff_def)
  moreover have "db_new_payloads db2 = db_new_payloads ?db" "db_known_payloads db2 = db_known_payloads ?db"
    using keep [OF used_new] keep [OF used_known] by (simp_all add: db2_def db1_def)
  moreover have "tbl_get (db_attestation_data db2) r = (case tbl_get (db_attestation_data ?db) r of None \<Rightarrow> None
       | Some d \<Rightarrow> if (cp_slot (ad_target d) \<le> cp_slot fin \<or> ad_slot d < cutoff) \<and> \<not> used r then None else Some d)" for r
  proof -
    have "db_attestation_data db2 = tbl_retain (\<lambda>root _. root \<notin> set ?stale) (db_attestation_data ?db)"
      by (simp add: db2_def db1_def tbl_retain_def)
    then show ?thesis
      by (simp only: tbl_get_retain [OF tbl_wf_distinct [OF wf(3)]] stale) (auto split: option.splits)
  qed
  ultimately show ?thesis by simp
qed

section \<open>Evaluation\<close>

theorem accept_keeps_latest_votes_witness:
  "tbl_get (db_known_payloads (accept_payloads (ls_db demo_store2))) (SignatureKey 0 3002) = Some [demo_vote1]"
proof -
  have new: "tbl_get (db_new_payloads (ls_db demo_store2)) k = None" for k
    by (simp add: demo_store2_def demo_store1_def demo_store0_def empty_db_def)
  have known: "tbl_get (db_known_payloads (ls_db demo_store2)) k =
      (if k = SignatureKey 0 3002 \<or> k = SignatureKey 1 3002 then Some [demo_vote1] else None)" for k
    by (simp add: demo_store2_def)
  show ?thesis
    using conjunct2 [OF accept_keeps_latest_votes [OF demo_reachable(3), of "SignatureKey 0 3002"]]
    by (auto simp: new known split: if_splits)
qed

theorem prune_drops_unused_stale_data_witness:
  "\<exists>st'. prune_stale_attestation_data demo_store2 = (Inr (), st') \<and>
     tbl_get (db_attestation_data (ls_db st')) 3002 = Some (aa_message (demo_att 1 []))"
proof -
  have fin: "db_latest_finalized (ls_db demo_store2) = Some (demo_cp 0)"
    by (simp add: demo_store2_def demo_store1_def demo_store0_def)
  have data: "tbl_get (db_attestation_data (ls_db demo_store2)) 3002 = Some (aa_message (demo_att 1 []))"
    by (simp add: demo_store2_def)
  have "\<exists>k. (tbl_get (db_new_payloads (ls_db demo_store2)) k \<noteq> None \<or>
      tbl_get (db_known_payloads (ls_db demo_store2)) k \<noteq> None) \<and> data_root k = 3002"
    by (rule exI [of _ "SignatureKey 0 3002"]) (simp add: demo_store2_def)
  with prune_drops_unused_stale_data [OF demo_reachable(3) demo_env_conditions fin] data show ?thesis
    by (auto split: option.splits)
qed

end
