(* ===== verification/Lean_Production_Theorems.thy ===== *)
theory Lean_Production_Theorems
  imports Lean_Attestation_Theorems
begin

text \<open>
  The properties of block production: the sealed block passes the state transition, the selected
  proofs cover the selected votes, the tiered selection takes the best candidate, and where the
  produced block is not what an importing node accepts.
\<close>

section \<open>Selected proofs\<close>

definition entry_of ::
  "payloads \<Rightarrow> b256 \<Rightarrow> attestation_data \<Rightarrow> u64 set \<Rightarrow> aggregated_attestation \<Rightarrow> single_message_aggregate \<Rightarrow> bool" where
  "entry_of known root d us a p \<longleftrightarrow>
     aa_message a = d \<and> aggregation_bits a = participants p \<and>
     (\<exists>v \<in> us. \<exists>ps. tbl_get known (SignatureKey v root) = Some ps \<and> p \<in> set ps) \<and>
     (\<exists>v \<in> us. v \<in> set (to_validator_indices p))"

lemma entry_of_mono: "entry_of known root d us a p \<Longrightarrow> us \<subseteq> us' \<Longrightarrow> entry_of known root d us' a p"
  unfolding entry_of_def by blast

lemma best_cover_member:
  assumes "best_cover us ps None = Some (q, m)" and "v \<in> set m"
  shows "v \<in> set us" "v \<in> set (to_validator_indices q)"
proof -
  have "v \<in> set (filter (\<lambda>v. v \<in> set (to_validator_indices q)) us)"
    using assms(2) unfolding best_cover_Some(2) [OF assms(1), symmetric] .
  then show "v \<in> set us" "v \<in> set (to_validator_indices q)" by auto
qed

lemma cover_loop_entries:
  "(a, p) \<in> set (cover_loop known root d us) \<Longrightarrow> entry_of known root d (set us) a p"
proof (induction known root d us rule: cover_loop.induct)
  case (2 known root d t us)
  let ?rest = "\<lambda>m. filter (\<lambda>v. v \<notin> set m) (t # us)"
  have mono: "set us \<subseteq> set (t # us)" "set (?rest m) \<subseteq> set (t # us)" for m by auto
  show ?case
  proof (cases "tbl_get known (SignatureKey t root)")
    case None
    with 2(4) have "(a, p) \<in> set (cover_loop known root d us)" by simp
    from entry_of_mono [OF 2(1) [OF None this] mono(1)] show ?thesis .
  next
    case (Some ps)
    show ?thesis
    proof (cases "best_cover (t # us) ps None")
      case None
      with 2(4) Some have "(a, p) \<in> set (cover_loop known root d us)" by simp
      from entry_of_mono [OF 2(2) [OF Some None this] mono(1)] show ?thesis .
    next
      case best: (Some c)
      obtain q m where c: "c = (q, m)" by force
      note best' = best [unfolded c]
      from 2(4) Some best' consider "a = \<lparr> aggregation_bits = participants q, aa_message = d \<rparr>" "p = q"
        | "(a, p) \<in> set (cover_loop known root d (?rest m))" by auto
      then show ?thesis
      proof cases
        case 1
        obtain v where v: "v \<in> set m" using best_cover_Some(1) [OF best'] by (cases m) auto
        from best_cover_member [OF best' v] have "\<exists>v \<in> set (t # us). v \<in> set (to_validator_indices q)" by blast
        moreover have "\<exists>v \<in> set (t # us). \<exists>ps. tbl_get known (SignatureKey v root) = Some ps \<and> q \<in> set ps"
          using Some best_cover_Some(3) [OF best'] by auto
        ultimately show ?thesis unfolding entry_of_def 1 by simp
      next
        case rest: 2
        from entry_of_mono [OF 2(3) [OF Some best c [symmetric] rest] mono(2)] show ?thesis .
      qed
    qed
  qed
qed simp

lemma best_cover_mono: "best \<noteq> None \<Longrightarrow> best_cover us ps best \<noteq> None"
  by (induction ps arbitrary: best) (auto simp: Let_def)

lemma best_cover_hit:
  assumes "p \<in> set ps" and "t \<in> set (to_validator_indices p)"
  shows "best_cover (t # us) ps None \<noteq> None"
  using assms(1)
proof (induction ps)
  case (Cons q ps)
  show ?case
  proof (cases "p = q")
    case True
    then show ?thesis using assms(2) best_cover_mono by (simp add: Let_def)
  next
    case False
    then show ?thesis using Cons best_cover_mono by (auto simp: Let_def)
  qed
qed simp

lemma cover_loop_covers:
  "v \<in> set us \<Longrightarrow> tbl_get known (SignatureKey v root) = Some ps \<Longrightarrow> p \<in> set ps \<Longrightarrow> v \<in> set (to_validator_indices p) \<Longrightarrow>
   \<exists>(a, q) \<in> set (cover_loop known root d us). v \<in> set (to_validator_indices q)"
proof (induction known root d us rule: cover_loop.induct)
  case (2 known root d t us)
  show ?case
  proof (cases "tbl_get known (SignatureKey t root)")
    case None
    with 2(1) [OF None] 2(4-7) show ?thesis by auto
  next
    case (Some cs)
    show ?thesis
    proof (cases "best_cover (t # us) cs None")
      case None
      have "v \<noteq> t" using best_cover_hit [of p cs t us] 2(5-7) Some None by auto
      with 2(2) [OF Some None] 2(4-7) Some None show ?thesis by auto
    next
      case best: (Some c)
      obtain q m where c: "c = (q, m)" by force
      show ?thesis
      proof (cases "v \<in> set m")
        case True
        then have "v \<in> set (to_validator_indices q)" by (rule best_cover_member(2) [OF best [unfolded c]])
        then show ?thesis using Some best c by auto
      next
        case False
        with 2(3) [OF Some best c [symmetric]] 2(4-7) Some best c show ?thesis by auto
      qed
    qed
  qed
qed simp

lemma group_by_data_spec:
  "(d, ids) \<in> set (group_by_data atts) \<Longrightarrow>
     ids \<noteq> [] \<and> set ids = {ags_validator_id a | a. a \<in> set atts \<and> ags_data a = d}"
  "distinct (map fst (group_by_data atts))"
  "fst ` set (group_by_data atts) = ags_data ` set atts"
proof -
  have all: "distinct (map fst (group_by_data atts)) \<and> fst ` set (group_by_data atts) = ags_data ` set atts \<and>
     (\<forall>d ids. map_of (group_by_data atts) d = Some ids \<longrightarrow>
        ids \<noteq> [] \<and> set ids = {ags_validator_id a | a. a \<in> set atts \<and> ags_data a = d})"
  proof (induction atts rule: rev_induct)
    case (snoc a atts)
    let ?m = "group_by_data atts"
    have step: "group_by_data (atts @ [a]) = al_entry (ags_data a) [] (\<lambda>ids. ids @ [ags_validator_id a]) ?m"
      by (simp add: group_by_data_def)
    have none: "map_of ?m (ags_data a) = None \<Longrightarrow> {ags_validator_id x | x. x \<in> set atts \<and> ags_data x = ags_data a} = {}"
      using snoc by (auto simp: map_of_eq_None_iff) (metis imageI)
    have "ids \<noteq> [] \<and> set ids = {ags_validator_id x | x. x \<in> set (atts @ [a]) \<and> ags_data x = d}"
      if get: "map_of (group_by_data (atts @ [a])) d = Some ids" for d ids
    proof (cases "d = ags_data a")
      case False
      with get snoc show ?thesis by (auto simp: step al_entry_get)
    next
      case True
      show ?thesis
      proof (cases "map_of ?m d")
        case None
        with get True have "ids = [ags_validator_id a]" by (simp add: step al_entry_get)
        with none None True show ?thesis by auto
      next
        case (Some js)
        with get True have "ids = js @ [ags_validator_id a]" by (simp add: step al_entry_get)
        with snoc Some True show ?thesis by auto
      qed
    qed
    moreover have "distinct (map fst (group_by_data (atts @ [a])))" using snoc by (simp add: step al_entry_distinct)
    moreover have "fst ` set (group_by_data (atts @ [a])) = ags_data ` set (atts @ [a])"
      using snoc by (simp add: step al_entry_keys)
    ultimately show ?case by blast
  qed (simp add: group_by_data_def)
  then show "distinct (map fst (group_by_data atts))" "fst ` set (group_by_data atts) = ags_data ` set atts" by blast+
  show "ids \<noteq> [] \<and> set ids = {ags_validator_id a | a. a \<in> set atts \<and> ags_data a = d}"
    if "(d, ids) \<in> set (group_by_data atts)"
    using all map_of_is_SomeI [OF _ that] by blast
qed

definition selected_pairs ::
  "lean_db \<Rightarrow> lean_env \<Rightarrow> aggregated_attestations list \<Rightarrow> (aggregated_attestation \<times> single_message_aggregate) list" where
  "selected_pairs db E atts =
     concat (map (\<lambda>(d, ids). cover_loop (db_known_payloads db) (hash_attestation_data E d) d (sort (remdups ids)))
       (group_by_data atts))"

lemma select_pairs: "select_aggregated_proofs db E atts = (map fst (selected_pairs db E atts), map snd (selected_pairs db E atts))"
  by (simp add: select_aggregated_proofs_def selected_pairs_def Let_def)

lemma selected_pairs_iff:
  "x \<in> set (selected_pairs db E atts) \<longleftrightarrow> (\<exists>(d, ids) \<in> set (group_by_data atts).
     x \<in> set (cover_loop (db_known_payloads db) (hash_attestation_data E d) d (sort (remdups ids))))"
  by (auto simp: selected_pairs_def)

lemma select_bits:
  "map aggregation_bits (fst (select_aggregated_proofs db E atts)) = map participants (snd (select_aggregated_proofs db E atts))"
proof -
  have "aggregation_bits (fst x) = participants (snd x)" if "x \<in> set (selected_pairs db E atts)" for x
    using that cover_loop_entries [of "fst x" "snd x"] unfolding selected_pairs_iff entry_of_def by auto
  then show ?thesis by (simp add: select_pairs)
qed

text \<open>Proof selection: every selected pair carries a stored proof of a requested vote's data, with
  the participants of the proof as its bits and at least one requested validator among them; and
  every requested vote for which a stored proof of its own includes the validator is covered by a
  selected proof.\<close>

theorem select_aggregated_proofs_covers:
  "(\<forall>(a, p) \<in> set (zip (fst (select_aggregated_proofs db E atts)) (snd (select_aggregated_proofs db E atts))).
      aggregation_bits a = participants p \<and>
      (\<exists>x \<in> set atts. aa_message a = ags_data x \<and> ags_validator_id x \<in> set (to_validator_indices p)) \<and>
      (\<exists>v ps. tbl_get (db_known_payloads db) (SignatureKey v (hash_attestation_data E (aa_message a))) = Some ps \<and>
         p \<in> set ps)) \<and>
   (\<forall>x \<in> set atts. \<forall>ps p.
      tbl_get (db_known_payloads db) (SignatureKey (ags_validator_id x) (hash_attestation_data E (ags_data x))) = Some ps \<and>
      p \<in> set ps \<and> ags_validator_id x \<in> set (to_validator_indices p) \<longrightarrow>
      (\<exists>(a, q) \<in> set (zip (fst (select_aggregated_proofs db E atts)) (snd (select_aggregated_proofs db E atts))).
         aa_message a = ags_data x \<and> ags_validator_id x \<in> set (to_validator_indices q)))"
proof -
  let ?known = "db_known_payloads db"
  have zip: "zip (fst (select_aggregated_proofs db E atts)) (snd (select_aggregated_proofs db E atts)) = selected_pairs db E atts"
    by (simp add: select_pairs zip_map_fst_snd)
  have "aggregation_bits a = participants p \<and>
      (\<exists>x \<in> set atts. aa_message a = ags_data x \<and> ags_validator_id x \<in> set (to_validator_indices p)) \<and>
      (\<exists>v ps. tbl_get ?known (SignatureKey v (hash_attestation_data E (aa_message a))) = Some ps \<and> p \<in> set ps)"
    if "(a, p) \<in> set (selected_pairs db E atts)" for a p
  proof -
    from that obtain d ids where g: "(d, ids) \<in> set (group_by_data atts)"
      and c: "(a, p) \<in> set (cover_loop ?known (hash_attestation_data E d) d (sort (remdups ids)))"
      unfolding selected_pairs_iff by blast
    note e = cover_loop_entries [OF c, unfolded entry_of_def] and s = group_by_data_spec(1) [OF g]
    from e obtain v where "v \<in> set ids" "v \<in> set (to_validator_indices p)" by auto
    with s obtain x where "x \<in> set atts" "ags_data x = d" "ags_validator_id x = v" by auto
    with e \<open>v \<in> set (to_validator_indices p)\<close> show ?thesis by auto
  qed
  moreover have "\<exists>(a, q) \<in> set (selected_pairs db E atts). aa_message a = ags_data x \<and>
      ags_validator_id x \<in> set (to_validator_indices q)"
    if x: "x \<in> set atts"
      and ps: "tbl_get ?known (SignatureKey (ags_validator_id x) (hash_attestation_data E (ags_data x))) = Some ps" "p \<in> set ps"
        "ags_validator_id x \<in> set (to_validator_indices p)" for x ps p
  proof -
    have "ags_data x \<in> fst ` set (group_by_data atts)" using x by (simp add: group_by_data_spec(3))
    then obtain ids where g: "(ags_data x, ids) \<in> set (group_by_data atts)" by force
    have "ags_validator_id x \<in> set (sort (remdups ids))" using group_by_data_spec(1) [OF g] x by auto
    from cover_loop_covers [OF this ps, of "ags_data x"] obtain a q where
      aq: "(a, q) \<in> set (cover_loop ?known (hash_attestation_data E (ags_data x)) (ags_data x) (sort (remdups ids)))"
        "ags_validator_id x \<in> set (to_validator_indices q)" by blast
    moreover have "(a, q) \<in> set (selected_pairs db E atts)" unfolding selected_pairs_iff using g aq(1) by blast
    ultimately show ?thesis using cover_loop_entries [OF aq(1)] unfolding entry_of_def by blast
  qed
  ultimately show ?thesis unfolding zip by blast
qed

section \<open>The sealed block\<close>

lemma process_block_state_root:
  "process_block E (b\<lparr> blk_state_root := r \<rparr>) s = process_block E b s"
  by (simp add: process_block_def process_block_header_def Let_def)

lemma seal_block_transition:
  assumes "seal_block E db s atts slot proposer parent = Inr (b, proofs, post)"
  shows "state_transition E b True s = Inr post"
    and "blk_slot b = slot" "blk_proposer_index b = proposer" "blk_parent_root b = parent"
    and "attestations (blk_body b) = fst (select_aggregated_proofs db E atts)"
    and "proofs = snd (select_aggregated_proofs db E atts)"
proof -
  obtain as ps where sel: "select_aggregated_proofs db E atts = (as, ps)" by force
  let ?c = "\<lparr> blk_slot = slot, blk_proposer_index = proposer, blk_parent_root = parent, blk_state_root = 0,
     blk_body = \<lparr> attestations = as \<rparr> \<rparr>"
  from assms have b: "b = ?c\<lparr> blk_state_root := hash_state E post \<rparr>" and "proofs = ps" and adv: "advance E s ?c = Inr post"
    by (auto simp: seal_block_def sel Let_def result_simps vl_new_def split: if_splits)
  then show "proofs = snd (select_aggregated_proofs db E atts)"
    "attestations (blk_body b) = fst (select_aggregated_proofs db E atts)"
    "blk_slot b = slot" "blk_proposer_index b = proposer" "blk_parent_root b = parent"
    by (simp_all add: sel)
  from adv obtain s1 where "process_slots E slot s = Inr s1" "process_block E ?c s1 = Inr post"
    by (auto simp: advance_def result_simps)
  then show "state_transition E b True s = Inr post"
    unfolding b state_transition_Inr process_block_state_root by simp
qed

text \<open>C15. The block that either production strategy builds on a parent is accepted by the state
  transition from the parent's state, and the state it was built with is the post-state: slot,
  proposer, parent and state root are those every node checks.\<close>

theorem built_block_passes_transition:
  assumes "build_block E db strategy slot proposer parent atts = Inr (b, proofs, post)"
  shows "\<exists>s. tbl_get (db_states db) parent = Some s \<and> state_transition E b True s = Inr post \<and>
    blk_slot b = slot \<and> blk_proposer_index b = proposer \<and> blk_parent_root b = parent \<and>
    length (attestations (blk_body b)) = length proofs \<and>
    map aggregation_bits (attestations (blk_body b)) = map participants proofs"
proof -
  from assms obtain s selected where s: "tbl_get (db_states db) parent = Some s"
    and seal: "seal_block E db s selected slot proposer parent = Inr (b, proofs, post)"
    by (auto simp: build_block_def load_build_context_def get_state_def result_simps Let_def)
  note t = seal_block_transition [OF seal]
  have "map aggregation_bits (fst (select_aggregated_proofs db E selected)) =
      map participants (snd (select_aggregated_proofs db E selected))"
    by (rule select_bits)
  then show ?thesis using s t by (auto dest: map_eq_imp_length_eq)
qed

section \<open>Round-based selection\<close>

text \<open>No handler ever writes the table of known attestations the round-based selection draws its
  candidates from, so on every reachable store the selection returns the votes it was given, whatever
  they are: nothing is filtered, counted or added.\<close>

theorem round_based_selection_is_identity:
  assumes "reachable_store E Q N sb s st" and "load_build_context (ls_db st) parent = Inr ctx"
  shows "select_round_based E ctx hashes (Some votes) slot proposer parent = Inr (votes, 0)"
proof -
  have "bc_available ctx = []"
    using assms(2) reachable_known_empty [OF assms(1)]
    by (auto simp: load_build_context_def Let_def result_simps get_all_attestations_def)
  then show ?thesis by (simp add: select_round_based_def round_candidates_def Let_def)
qed

section \<open>Tiered selection\<close>

text \<open>The tiered selection takes a scored candidate of the pool whose ordering key (tier, then more new
  voters, then the earlier target, the earlier slot and the smaller data root) is smallest among all
  scored candidates.\<close>

theorem best_candidate_minimal:
  assumes "best_candidate E ctx hashes v pool None = Some (root, score, new_voters)"
  shows "(\<exists>entry. (root, entry) \<in> set pool \<and> score_candidate E ctx hashes v root entry = Some (score, new_voters)) \<and>
    (\<forall>(r, entry) \<in> set pool. \<forall>sc nv. score_candidate E ctx hashes v r entry = Some (sc, nv) \<longrightarrow>
       ordering_key score root \<le> ordering_key sc r)"
proof -
  let ?key = "\<lambda>(r, sc, _ :: u64 list). ordering_key sc r"
  let ?g = "\<lambda>c. map_option (Pair (fst c)) (score_candidate E ctx hashes v (fst c) (snd c))"
  let ?scored = "\<lambda>pool. set (List.map_filter ?g pool)"
  have "x \<in> ?scored pool \<union> set_option best \<and> (\<forall>y \<in> ?scored pool \<union> set_option best. ?key x \<le> ?key y)"
    if "best_candidate E ctx hashes v pool best = Some x" for best x
    using that
  proof (induction pool arbitrary: best)
    case (Cons c pool)
    obtain r e where c: "c = (r, e)" by (cases c)
    show ?case
    proof (cases "score_candidate E ctx hashes v r e")
      case None
      then have "?scored (c # pool) = ?scored pool" by (simp add: c List.map_filter_def)
      moreover have "best_candidate E ctx hashes v pool best = Some x" using Cons.prems None by (simp add: c)
      ultimately show ?thesis using Cons.IH by simp
    next
      case (Some p)
      obtain sc nv where p: "p = (sc, nv)" by (cases p)
      let ?c = "(r, sc, nv)"
      have all: "?scored (c # pool) = insert ?c (?scored pool)" using Some by (simp add: c p List.map_filter_def)
      let ?best' = "if (case best of None \<Rightarrow> True | Some (br, bs, _) \<Rightarrow> ordering_key sc r < ordering_key bs br)
        then Some ?c else best"
      have "best_candidate E ctx hashes v pool ?best' = Some x" using Cons.prems Some by (simp add: c p)
      note IH = Cons.IH [OF this]
      consider "?best' = Some ?c" "\<forall>y \<in> set_option best. ?key ?c \<le> ?key y"
        | "?best' = best" "\<exists>y \<in> set_option best. ?key y \<le> ?key ?c"
      proof (cases best)
        case None
        then show ?thesis using that(1) by simp
      next
        case (Some b)
        obtain br bs bn where b: "b = (br, bs, bn)" by (cases b)
        show ?thesis
          by (cases "ordering_key sc r < ordering_key bs br") (use that Some b in simp_all)
      qed
      then show ?thesis
      proof cases
        case 1
        with IH have "x \<in> insert ?c (?scored pool)" "\<forall>y \<in> insert ?c (?scored pool). ?key x \<le> ?key y" by auto
        moreover have "\<forall>y \<in> set_option best. ?key x \<le> ?key y" using calculation 1(2) order_trans by blast
        ultimately show ?thesis unfolding all by blast
      next
        case 2
        with IH have "x \<in> ?scored pool \<union> set_option best" "\<forall>y \<in> ?scored pool \<union> set_option best. ?key x \<le> ?key y"
          by auto
        moreover have "?key x \<le> ?key ?c" using calculation(2) 2(2) order_trans by blast
        ultimately show ?thesis unfolding all by blast
      qed
    qed
  qed auto
  note main = this [OF assms]
  have "(root, score, new_voters) \<in> ?scored pool" using main by auto
  then obtain c where "c \<in> set pool" "?g c = Some (root, score, new_voters)"
    by (auto simp: List.map_filter_def)
  then have "\<exists>entry. (root, entry) \<in> set pool \<and> score_candidate E ctx hashes v root entry = Some (score, new_voters)"
    by (intro exI [of _ "snd c"]) auto
  moreover have "ordering_key score root \<le> ordering_key sc r"
    if "(r, entry) \<in> set pool" "score_candidate E ctx hashes v r entry = Some (sc, nv)" for r entry sc nv
  proof -
    have "(r, sc, nv) \<in> ?scored pool" using that by (force simp: List.map_filter_def)
    with main show ?thesis by fastforce
  qed
  ultimately show ?thesis by blast
qed

section \<open>Evaluation\<close>

text \<open>Two proofs are known for the data of slot two, each with the vote of one validator.\<close>

definition demo_single :: "bool list \<Rightarrow> single_message_aggregate" where
  "demo_single bits = \<lparr> participants = bits, sma_proof = [] \<rparr>"

definition demo_split_db :: lean_db where
  "demo_split_db = (ls_db demo_store2)\<lparr>
     db_known_payloads := [(SignatureKey 0 3004, [demo_single [True, False, False]]),
                           (SignatureKey 1 3004, [demo_single [False, True, False]])] \<rparr>"

definition demo_votes :: "u64 list \<Rightarrow> aggregated_attestations list" where
  "demo_votes = map (\<lambda>v. \<lparr> ags_validator_id = v, ags_data = aa_message (demo_att 2 []) \<rparr>)"

lemmas demo_selection_eval = select_aggregated_proofs_def group_by_data_def demo_votes_def demo_split_db_def
  demo_single_def demo_env_simps intersects_def to_validator_indices_def bits_indices_def enumerate_eq_zip upt_rec Let_def

theorem select_aggregated_proofs_covers_witness:
  "\<exists>(a, q) \<in> set (zip (fst (select_aggregated_proofs demo_split_db demo_env (demo_votes [0, 1])))
                     (snd (select_aggregated_proofs demo_split_db demo_env (demo_votes [0, 1])))).
     aa_message a = aa_message (demo_att 2 []) \<and> 1 \<in> set (to_validator_indices q)"
proof -
  let ?x = "\<lparr> ags_validator_id = 1, ags_data = aa_message (demo_att 2 []) \<rparr>"
  have "?x \<in> set (demo_votes [0, 1])" by (simp add: demo_votes_def)
  moreover have "tbl_get (db_known_payloads demo_split_db)
      (SignatureKey (ags_validator_id ?x) (hash_attestation_data demo_env (ags_data ?x))) =
      Some [demo_single [False, True, False]]"
    by (simp add: demo_split_db_def demo_env_simps demo_att_def demo_cp_def)
  moreover have "ags_validator_id ?x \<in> set (to_validator_indices (demo_single [False, True, False]))"
    by (simp add: demo_selection_eval)
  moreover have "demo_single [False, True, False] \<in> set [demo_single [False, True, False]]" by simp
  ultimately show ?thesis
    using conjunct2 [OF select_aggregated_proofs_covers [where db = demo_split_db and E = demo_env and atts = "demo_votes [0, 1]"]]
    by fastforce
qed

lemma demo_built_block:
  "build_block demo_env (ls_db demo_store2) RoundBased 3 0 1002 (Some []) =
     Inr (demo_block 3 [], [], demo_state 3 1 0 [True, False] 0)"
proof -
  have "advance demo_env demo_state2 \<lparr> blk_slot = 3, blk_proposer_index = 0, blk_parent_root = 1002, blk_state_root = 0,
      blk_body = \<lparr> attestations = [] \<rparr> \<rparr> = Inr (demo_state 3 1 0 [True, False] 0)"
    by (simp add: advance_def demo_eval demo_state2_def demo_state_def Let_def)
  moreover have "load_build_context (ls_db demo_store2) 1002 = Inr \<lparr> bc_head_state = demo_state2, bc_available = [],
      bc_blocks = db_blocks (ls_db demo_store2), bc_known_payloads = db_known_payloads (ls_db demo_store2) \<rparr>"
    by (simp add: load_build_context_def get_state_def get_all_attestations_def demo_store2_def demo_store1_def
        demo_store0_def empty_db_def)
  ultimately show ?thesis
    by (simp add: build_block_def Let_def select_round_based_def round_candidates_def seal_block_def
        select_aggregated_proofs_def group_by_data_def vl_new_def demo_env_simps demo_block_def demo_state_def)
qed

theorem built_block_passes_transition_witness:
  "\<exists>s. tbl_get (db_states (ls_db demo_store2)) 1002 = Some s \<and>
     state_transition demo_env (demo_block 3 []) True s = Inr (demo_state 3 1 0 [True, False] 0)"
  using built_block_passes_transition [OF demo_built_block] by blast

theorem round_based_selection_is_identity_witness:
  "\<exists>ctx. load_build_context (ls_db demo_store2) 1002 = Inr ctx \<and>
     select_round_based demo_env ctx [] (Some (demo_votes [7])) 3 0 1002 = Inr (demo_votes [7], 0)"
proof -
  have "load_build_context (ls_db demo_store2) 1002 = Inr \<lparr> bc_head_state = demo_state2, bc_available = [],
      bc_blocks = db_blocks (ls_db demo_store2), bc_known_payloads = db_known_payloads (ls_db demo_store2) \<rparr>"
    by (simp add: load_build_context_def get_state_def get_all_attestations_def demo_store2_def demo_store1_def
        demo_store0_def empty_db_def)
  with round_based_selection_is_identity [OF demo_reachable(3) this] show ?thesis by blast
qed

definition demo_context :: build_context where
  "demo_context = \<lparr> bc_head_state = demo_state2, bc_available = [], bc_blocks = db_blocks (ls_db demo_store2),
     bc_known_payloads = db_known_payloads demo_split_db \<rparr>"

definition demo_pool :: proof_pool where
  "demo_pool = [(3002, aa_message (demo_att 1 []), [demo_single [False, False, True]]),
     (3004, aa_message (demo_att 2 []), [demo_single [True, False, False], demo_single [False, True, False]])]"

definition demo_view :: tiered_view where
  "demo_view = \<lparr> tv_finalized_slot = 0, tv_justified_slots = [True], tv_votes = [], tv_processed = [], tv_selected = [] \<rparr>"

lemma demo_best:
  "best_candidate demo_env demo_context [1000, 1001, 1002] demo_view demo_pool None =
     Some (3004, \<lparr> score_tier = Finalize, new_voter_count = 2, target_slot = 2, attestation_slot = 2 \<rparr>, [0, 1])"
  by (simp add: demo_pool_def demo_view_def demo_context_def score_candidate_def Let_def demo_att_def demo_cp_def
      demo_store2_def table_contains_key_def attestation_data_matches_chain_def is_projected_slot_justified_def
      justified_index_after_def checked_sub_def is_justifiable_after_iff justifiable_distance_def pool_voters_def
      demo_single_def set_extend_def set_insert_def to_validator_indices_def bits_indices_def enumerate_eq_zip upt_rec
      demo_env_simps demo_state2_def demo_state_def u64_range_def ordering_key_def less_attestation_score_tier_def)
    (simp add: word_le_nat_alt)

theorem best_candidate_minimal_witness:
  "\<exists>entry. (3004, entry) \<in> set demo_pool \<and>
     score_candidate demo_env demo_context [1000, 1001, 1002] demo_view 3004 entry =
       Some (\<lparr> score_tier = Finalize, new_voter_count = 2, target_slot = 2, attestation_slot = 2 \<rparr>, [0, 1])"
  using best_candidate_minimal [OF demo_best] by blast

section \<open>Data proved in parts\<close>

text \<open>A vote one of whose own known proofs includes its validator.\<close>

definition has_known_proof :: "lean_db \<Rightarrow> lean_env \<Rightarrow> aggregated_attestations \<Rightarrow> bool" where
  "has_known_proof db E x \<longleftrightarrow>
     (\<exists>ps p. tbl_get (db_known_payloads db) (SignatureKey (ags_validator_id x) (hash_attestation_data E (ags_data x))) = Some ps \<and>
        p \<in> set ps \<and> ags_validator_id x \<in> set (to_validator_indices p))"

lemma two_entries:
  assumes "(a, p) \<in> set (zip xs ys)" and "(a', p') \<in> set (zip xs ys)" and "p \<noteq> p'" and "f a = f a'"
  shows "\<not> distinct (map f xs)"
proof -
  from assms(1,2) obtain i j where "i < length xs" "j < length xs" "xs ! i = a" "xs ! j = a'" "ys ! i = p" "ys ! j = p'"
    by (auto simp: set_zip)
  moreover from this assms(3) have "i \<noteq> j" by auto
  ultimately show ?thesis using assms(4) by (auto simp: distinct_conv_nth)
qed

lemma sealed_attestations:
  assumes "ssz_ok E" and "seal_block E db head_state votes slot proposer parent = Inr (b, proofs, post)"
  shows "attestations (blk_body b) = fst (select_aggregated_proofs db E votes)"
  using assms(2)
  by (auto simp: seal_block_def Let_def result_simps vl_new_Some [OF assms(1)] split: prod.splits)

text \<open>C39. Two votes of a sealed block for the same data, each with a known proof, while no known proof
  for that data includes both validators: the selection takes a proof for each, the block carries the
  data twice, and every node that does not have the block yet refuses to import it.\<close>

theorem split_proofs_repeat_data:
  assumes "ssz_ok E" and "x \<in> set votes" and "y \<in> set votes" and "ags_data x = ags_data y"
    and "has_known_proof db E x" and "has_known_proof db E y"
    and "\<forall>v ps p. tbl_get (db_known_payloads db) (SignatureKey v (hash_attestation_data E (ags_data x))) = Some ps \<and>
      p \<in> set ps \<longrightarrow> \<not> {ags_validator_id x, ags_validator_id y} \<subseteq> set (to_validator_indices p)"
    and "seal_block E db head_state votes slot proposer parent = Inr (b, proofs, post)"
    and "sb_block sb = b" and "\<not> stored (ls_db st) (hash_block E b)"
  shows "fst (on_block E Q sb verify st) \<noteq> Inr ()"
proof -
  let ?z = "zip (fst (select_aggregated_proofs db E votes)) (snd (select_aggregated_proofs db E votes))"
  note covers = select_aggregated_proofs_covers [of db E votes]
  from covers assms(2,5) obtain a p where a: "(a, p) \<in> set ?z" "aa_message a = ags_data x"
    "ags_validator_id x \<in> set (to_validator_indices p)" unfolding has_known_proof_def by blast
  from covers assms(3,6) obtain a' p' where a': "(a', p') \<in> set ?z" "aa_message a' = ags_data y"
    "ags_validator_id y \<in> set (to_validator_indices p')" unfolding has_known_proof_def by blast
  have "p \<noteq> p'" using covers a a' assms(7) by fastforce
  from two_entries [OF a(1) a'(1) this, of "\<lambda>a. hash_attestation_data E (aa_message a)"] a(2) a'(2) assms(4)
  have "\<not> distinct (map (\<lambda>a. hash_attestation_data E (aa_message a)) (attestations (blk_body b)))"
    by (simp add: sealed_attestations [OF assms(1,8)])
  then show ?thesis using assms(9,10)
    by (auto simp: on_block_eq check_duplicates_iff stored_def table_contains_key_def split: sum.splits)
qed

text \<open>The vote of the third validator for slot one arrives in an aggregate of its own, after the block
  with the votes of the other two; the next proposal accepts it.\<close>

definition demo_late :: signed_aggregated_attestation where
  "demo_late = \<lparr> saa_data = aa_message (demo_att 1 []), saa_proof = demo_single [False, False, True] \<rparr>"

definition demo_store3 :: lean_store where
  "demo_store3 = demo_store2\<lparr> ls_db := (ls_db demo_store2)\<lparr>
     db_new_payloads := [(SignatureKey 2 3002, [demo_single [False, False, True]])] \<rparr> \<rparr>"

definition demo_store4 :: lean_store where
  "demo_store4 = demo_store2\<lparr> ls_db := (ls_db demo_store2)\<lparr>
     db_known_payloads := [(SignatureKey 0 3002, [demo_vote1]), (SignatureKey 1 3002, [demo_vote1]),
       (SignatureKey 2 3002, [demo_single [False, False, True]])] \<rparr> \<rparr>"

lemma demo_late_indices: "to_validator_indices (demo_single [False, False, True]) = [2]"
  by (simp add: demo_single_def to_validator_indices_def bits_indices_def enumerate_eq_zip upt_rec)

lemmas demo_stores = demo_store2_def demo_store1_def demo_store0_def empty_db_def

lemma demo_apply: "handle demo_env demo_pq demo_net (ApplyAggregates [demo_late]) demo_store2 = (Inr (), demo_store3)"
  by (simp add: aggregate_apply_def put_db_def pmodify_def set_extend_def set_insert_def next_new_payloads_def
      demo_late_indices tbl_push_def demo_env_simps demo_att_def demo_cp_def demo_store3_def demo_late_def aggregated_roots_def)
   (simp add: demo_stores gossip_retain_def tbl_retain_def)

lemma demo_late_tick: "on_tick demo_net 22 True False demo_store3 = (Inr (), demo_store3)"
  by (simp add: on_tick_def pbind_def get_db_def pread_def checked_sub_def demo_net_def tick_interval_time_def INTERVALS_PER_SLOT_def
      store_genesis_time_def get_head_def field_get_def get_state_def get_time_def preturn_def Let_def
      demo_store3_def demo_stores demo_state2_def demo_state_def)

lemma demo_late_accept: "accept_payloads (ls_db demo_store3) = ls_db demo_store4"
  by (simp add: accept_payloads_def Let_def payload_drain_def superseded_def merge_payloads_def demo_store3_def demo_store4_def)
    (simp add: demo_stores less_signature_key_def validator_max_slot_def key_slot_def)

lemma demo_late_head: "update_head demo_store4 = (Inr (), demo_store4)"
  by (simp add: demo_store_eval demo_stores demo_store4_def demo_state2_def demo_state_def demo_block2_signed_def demo_att_def demo_vote1_def)

lemma demo_late_reachable: "reachable_store demo_env demo_pq demo_net demo_anchor demo_genesis demo_store4"
proof -
  have st3: "reachable_store demo_env demo_pq demo_net demo_anchor demo_genesis demo_store3"
    by (rule reachable_store.event [OF demo_reachable(3) demo_apply])
  have "demo_store3\<lparr> ls_db := ls_db demo_store4 \<rparr> = demo_store4" by (simp add: demo_store3_def demo_store4_def)
  then have "accept_new_attestations demo_store3 = (Inr (), demo_store4)"
    by (simp add: accept_new_attestations_def pbind_def put_db_def pmodify_def demo_late_accept demo_late_head)
  with demo_late_tick have "get_proposal_head demo_net 3 demo_store3 = (get_head (ls_db demo_store4), demo_store4)"
    by (simp add: get_proposal_head_def pbind_def get_db_def pread_def demo_net_def)
  then have "snd (handle demo_env demo_pq demo_net (Propose 3 0) demo_store3) = demo_store4"
    by (simp add: produce_block_with_signatures_def pbind_def preturn_def get_db_def pread_def split: sum.splits)
  then show ?thesis by (metis reachable_store.event [OF st3] prod.collapse)
qed

definition demo_late_votes :: "aggregated_attestations list" where
  "demo_late_votes = map (\<lambda>v. \<lparr> ags_validator_id = v, ags_data = aa_message (demo_att 1 []) \<rparr>) [0, 1, 2]"

lemma demo_late_known: "known_votes (ls_db demo_store4) = demo_late_votes"
  by (simp add: known_votes_def demo_late_votes_def demo_store_eval demo_stores demo_store4_def demo_att_def)

definition demo_late_block :: block where
  "demo_late_block = demo_block 3 [demo_att 1 [True, True, False], demo_att 1 [False, False, True]]"

lemma demo_late_selection: "select_aggregated_proofs (ls_db demo_store4) demo_env demo_late_votes =
   ([demo_att 1 [True, True, False], demo_att 1 [False, False, True]], [demo_vote1, demo_single [False, False, True]])"
  by (simp add: select_aggregated_proofs_def group_by_data_def demo_late_votes_def demo_vote1_def
  demo_single_def demo_env_simps intersects_def to_validator_indices_def bits_indices_def enumerate_eq_zip upt_rec Let_def
   demo_store4_def demo_att_def demo_cp_def)

lemma demo_late_sealed:
  "\<exists>post. seal_block demo_env (ls_db demo_store4) demo_state2 demo_late_votes 3 0 1002 =
     Inr (demo_late_block, [demo_vote1, demo_single [False, False, True]], post)"
  by (simp add: seal_block_def demo_late_selection advance_def demo_eval demo_state2_def demo_state_def demo_late_block_def Let_def)

theorem split_proofs_repeat_data_witness:
  "reachable_store demo_env demo_pq demo_net demo_anchor demo_genesis demo_store4 \<and>
   known_votes (ls_db demo_store4) = demo_late_votes \<and>
   (\<exists>post. seal_block demo_env (ls_db demo_store4) demo_state2 demo_late_votes 3 0 1002 =
     Inr (demo_late_block, [demo_vote1, demo_single [False, False, True]], post)) \<and>
   fst (on_block demo_env demo_pq \<lparr> sb_block = demo_late_block, sb_proof = \<lparr> mma_proof = [] \<rparr> \<rparr> False demo_store2) \<noteq> Inr ()"
proof -
  let ?x = "\<lparr> ags_validator_id = 0, ags_data = aa_message (demo_att 1 []) \<rparr>"
  let ?y = "\<lparr> ags_validator_id = 2, ags_data = aa_message (demo_att 1 []) \<rparr>"
  from demo_late_sealed obtain post where b: "seal_block demo_env (ls_db demo_store4) demo_state2 demo_late_votes 3 0 1002 =
     Inr (demo_late_block, [demo_vote1, demo_single [False, False, True]], post)" ..
  have i: "to_validator_indices demo_vote1 = [0, 1]"
    by (simp add: demo_vote1_def to_validator_indices_def bits_indices_def enumerate_eq_zip upt_rec)
  have h: "hash_attestation_data demo_env (aa_message (demo_att 1 [])) = 3002" by (simp add: demo_eval)
  have "has_known_proof (ls_db demo_store4) demo_env ?x" "has_known_proof (ls_db demo_store4) demo_env ?y"
    by (simp_all add: has_known_proof_def demo_store4_def h i demo_late_indices)
  moreover have "\<forall>v ps p. tbl_get (db_known_payloads (ls_db demo_store4)) (SignatureKey v (hash_attestation_data demo_env (ags_data ?x))) = Some ps \<and>
      p \<in> set ps \<longrightarrow> \<not> {ags_validator_id ?x, ags_validator_id ?y} \<subseteq> set (to_validator_indices p)"
    by (auto simp: h demo_store4_def i demo_late_indices split: if_splits)
  moreover have "?x \<in> set demo_late_votes" "?y \<in> set demo_late_votes" by (simp_all add: demo_late_votes_def)
  moreover have "\<not> stored (ls_db demo_store2) (hash_block demo_env demo_late_block)"
    by (simp add: stored_def demo_stores demo_late_block_def demo_eval)
  ultimately show ?thesis
    using b split_proofs_repeat_data [OF demo_env_ok _ _ _ _ _ _ b, of ?x ?y "\<lparr> sb_block = demo_late_block, sb_proof = \<lparr> mma_proof = [] \<rparr> \<rparr>" demo_store2]
      demo_late_reachable demo_late_known by simp
qed

end
