(* ===== verification/Yields.thy ===== *)
theory Yields
  imports Prelude
begin

text \<open>
  What a fallible computation establishes when it returns: \<open>yields P r\<close> says that \<open>P\<close> holds of the
  value of \<open>r\<close>, if there is one. The rules follow the combinators of the prelude; those of the locale
  \<open>store_frame\<close> chain a reflexive and transitive relation between the state before and after.
\<close>

definition yields :: "('a \<Rightarrow> bool) \<Rightarrow> 'e + 'a \<Rightarrow> bool" where
  "yields P r \<longleftrightarrow> (\<forall>x. r = Inr x \<longrightarrow> P x)"

lemma yieldsI: "(\<And>x. r = Inr x \<Longrightarrow> P x) \<Longrightarrow> yields P r"
  by (simp add: yields_def)

lemma yieldsD: "yields P r \<Longrightarrow> r = Inr x \<Longrightarrow> P x"
  by (simp add: yields_def)

lemma yields_Inl [simp]: "yields P (Inl e)"
  by (simp add: yields_def)

lemma yields_Inr [simp]: "yields P (Inr x) \<longleftrightarrow> P x"
  by (simp add: yields_def)

lemma yields_mono: "yields P r \<Longrightarrow> (\<And>x. P x \<Longrightarrow> Q x) \<Longrightarrow> yields Q r"
  by (simp add: yields_def)

lemma yields_conj: "yields P r \<Longrightarrow> yields Q r \<Longrightarrow> yields (\<lambda>x. P x \<and> Q x) r"
  by (simp add: yields_def)

lemma yields_conjE:
  "yields (\<lambda>x. P x \<and> Q x) r \<Longrightarrow> yields P r"
  "yields (\<lambda>x. P x \<and> Q x) r \<Longrightarrow> yields Q r"
  by (simp_all add: yields_def)

lemma yields_and_then: "yields P r \<Longrightarrow> (\<And>x. P x \<Longrightarrow> yields Q (f x)) \<Longrightarrow> yields Q (and_then r f)"
  by (auto simp: yields_def result_simps)

lemma yields_and_then_eq: "(\<And>x. r = Inr x \<Longrightarrow> yields Q (f x)) \<Longrightarrow> yields Q (and_then r f)"
  by (auto simp: yields_def result_simps)

lemma yields_read: "(\<And>x. yields Q (f x)) \<Longrightarrow> yields Q (and_then r f)"
  by (auto simp: yields_def result_simps)

lemma yields_if: "(b \<Longrightarrow> yields P r) \<Longrightarrow> (\<not> b \<Longrightarrow> yields P q) \<Longrightarrow> yields P (if b then r else q)"
  by simp

lemma yields_let: "(\<And>x. x = a \<Longrightarrow> yields P (f x)) \<Longrightarrow> yields P (let x = a in f x)"
  by (simp add: Let_def)

lemma yields_option:
  "(m = None \<Longrightarrow> yields P r) \<Longrightarrow> (\<And>x. m = Some x \<Longrightarrow> yields P (f x))
   \<Longrightarrow> yields P (case m of None \<Rightarrow> r | Some x \<Rightarrow> f x)"
  by (cases m) simp_all

lemma yields_prod: "(\<And>x y. p = (x, y) \<Longrightarrow> yields P (f x y)) \<Longrightarrow> yields P (case p of (x, y) \<Rightarrow> f x y)"
  by (cases p) simp

lemma yields_fold:
  "P s \<Longrightarrow> (\<And>s x. x \<in> set xs \<Longrightarrow> P s \<Longrightarrow> yields P (f s x)) \<Longrightarrow> yields P (try_fold f s xs)"
proof (induction xs arbitrary: s)
  case (Cons x xs)
  have "yields P (f s x)" using Cons.prems by simp
  then show ?case
    unfolding try_fold.simps by (rule yields_and_then) (rule Cons.IH, use Cons.prems in auto)
qed simp

lemma and_then_assoc: "and_then (and_then r f) g = and_then r (\<lambda>x. and_then (f x) g)"
  by (cases r) simp_all

lemma try_fold_map: "try_fold f s (map g xs) = try_fold (\<lambda>s x. f s (g x)) s xs"
  by (induction xs arbitrary: s) simp_all

context store_frame
begin

lemma yields_refl: "yields (R s) (Inr s)"
  by (simp add: refl)

lemma yields_seq: "yields (R s) r \<Longrightarrow> (\<And>t. yields (R t) (f t)) \<Longrightarrow> yields (R s) (and_then r f)"
  unfolding yields_def by (auto simp: result_simps intro: trans)

lemma yields_seq_pair:
  "yields (\<lambda>(x, t). R s t) r \<Longrightarrow> (\<And>x t. yields (R t) (f (x, t))) \<Longrightarrow> yields (R s) (and_then r f)"
  unfolding yields_def by (force simp: result_simps intro: trans)

lemma yields_after: "R s t \<Longrightarrow> yields (R t) r \<Longrightarrow> yields (R s) r"
  unfolding yields_def by (blast intro: trans)

lemma yields_after_pair: "R s t \<Longrightarrow> yields (\<lambda>(x, u). R t u) r \<Longrightarrow> yields (\<lambda>(x, u). R s u) r"
  unfolding yields_def by (auto intro: trans)

lemma yields_try_fold:
  "(\<And>t x. x \<in> set xs \<Longrightarrow> yields (R t) (f t x)) \<Longrightarrow> yields (R s) (try_fold f s xs)"
proof (induction xs arbitrary: s)
  case Nil
  then show ?case by (simp add: refl)
next
  case (Cons x xs)
  have "yields (R s) (f s x)" using Cons.prems by simp
  then show ?case
    unfolding try_fold.simps by (rule yields_seq) (rule Cons.IH, use Cons.prems in auto)
qed

lemma yields_fold_pure:
  "(\<And>t x. x \<in> set xs \<Longrightarrow> R t (f x t)) \<Longrightarrow> R s (fold f xs s)"
proof (induction xs arbitrary: s)
  case (Cons x xs)
  then have "R s (f x s)" "R (f x s) (fold f xs (f x s))" by simp_all
  then show ?case by (simp add: trans)
qed (simp add: refl)

end

end
