(* ===== verification/Beacon_Shuffling.thy ===== *)
theory Beacon_Shuffling
  imports Prelude "HOL-Library.Multiset"
begin

text \<open>
  The swap-or-not shuffling of \<open>misc.rs\<close>: the shuffling of one index, the in-place shuffling of a
  whole list with its cached hashes, and the committees cut out of it. SHA-256 is the argument \<open>H\<close>,
  a function from bytes to 32 bytes.
\<close>

section \<open>Bytes\<close>

type_synonym sha256 = "byte list \<Rightarrow> b256"

text \<open>\<open>B256::as_slice\<close>: the 32 bytes of a hash.\<close>

definition b256_bytes :: "b256 \<Rightarrow> byte list" where
  "b256_bytes w = map (\<lambda>i. ucast (drop_bit (8 * (31 - i)) w)) [0..<32]"

text \<open>The first four bytes of \<open>to_le_bytes\<close>.\<close>

definition le_bytes4 :: "nat \<Rightarrow> byte list" where
  "le_bytes4 n = map (\<lambda>i. of_nat (n div 256 ^ i)) [0..<4]"

definition bytes_to_int64 :: "byte list \<Rightarrow> u64" where
  "bytes_to_int64 bs = foldr (\<lambda>b acc. ucast b + 256 * acc) (take 8 bs) 0"

section \<open>One index\<close>

definition SHUFFLE_ROUND_COUNT :: nat where
  "SHUFFLE_ROUND_COUNT = 90"

datatype shuffle_error = IndexTooLarge | IndexOutOfBounds | PanicDivision

definition round_pivot :: "sha256 \<Rightarrow> b256 \<Rightarrow> nat \<Rightarrow> nat \<Rightarrow> nat" where
  "round_pivot H seed index_count round =
     unat (bytes_to_int64 (b256_bytes (H (b256_bytes seed @ [of_nat round]))) mod of_nat index_count)"

definition shuffle_round :: "sha256 \<Rightarrow> b256 \<Rightarrow> nat \<Rightarrow> nat \<Rightarrow> nat \<Rightarrow> nat" where
  "shuffle_round H seed index_count round index =
     (let pivot = round_pivot H seed index_count round;
          flip = (pivot + (index_count - index)) mod index_count;
          position = max index flip;
          source = H (b256_bytes seed @ [of_nat round] @ le_bytes4 (position div 256));
          b = b256_bytes source ! ((position mod 256) div 8);
          bit = drop_bit (position mod 8) b mod 2
      in if bit = 1 then flip else index)"

definition compute_shuffled_index :: "sha256 \<Rightarrow> nat \<Rightarrow> nat \<Rightarrow> b256 \<Rightarrow> shuffle_error + nat" where
  "compute_shuffled_index H index index_count seed =
     and_then (ensure (index < index_count) IndexTooLarge) (\<lambda>_.
     Inr (fold (shuffle_round H seed index_count) [0..<SHUFFLE_ROUND_COUNT] index))"

section \<open>The whole list\<close>

text \<open>\<open>source_for\<close>: the hash of the buffer of 37 bytes, which holds the seed, the round and the
  position it was last filled with.\<close>

definition source_for :: "sha256 \<Rightarrow> b256 \<Rightarrow> nat \<Rightarrow> nat \<Rightarrow> b256" where
  "source_for H seed round position = H (b256_bytes seed @ [of_nat round] @ le_bytes4 (drop_bit 8 position))"

definition swap :: "'a list \<Rightarrow> nat \<Rightarrow> nat \<Rightarrow> 'a list" where
  "swap xs i j = xs[i := xs ! j, j := xs ! i]"

text \<open>One pair: the source is hashed again at every 256th position, the byte read again at every
  eighth.\<close>

definition swap_or_not ::
  "sha256 \<Rightarrow> b256 \<Rightarrow> nat \<Rightarrow> nat \<times> nat \<Rightarrow> u64 list \<times> b256 \<times> byte \<Rightarrow> u64 list \<times> b256 \<times> byte" where
  "swap_or_not H seed round = (\<lambda>(i, j) (list, source, b).
     (let source' = (if j AND 255 = 255 then source_for H seed round j else source);
          b' = (if j AND 7 = 7 then b256_bytes source' ! drop_bit 3 (j AND 255) else b)
      in (if drop_bit (j AND 7) b' AND 1 = 1 then swap list i j else list, source', b')))"

definition half_round :: "sha256 \<Rightarrow> b256 \<Rightarrow> nat \<Rightarrow> nat \<Rightarrow> (nat \<times> nat) list \<Rightarrow> u64 list \<Rightarrow> u64 list" where
  "half_round H seed round start pairs list =
     (let source = source_for H seed round start;
          b = b256_bytes source ! drop_bit 3 (start AND 255)
      in fst (fold (swap_or_not H seed round) pairs (list, source, b)))"

definition list_round :: "sha256 \<Rightarrow> b256 \<Rightarrow> nat \<Rightarrow> u64 list \<Rightarrow> u64 list" where
  "list_round H seed round list =
     (let list_size = length list;
          pivot = round_pivot H seed list_size round;
          mirror = drop_bit 1 (pivot + 1);
          list1 = half_round H seed round pivot (map (\<lambda>i. (i, pivot - i)) [0..<mirror]) list;
          mirror2 = drop_bit 1 (pivot + list_size + 1);
          last_index = list_size - 1
      in half_round H seed round last_index
           (map (\<lambda>(offset, i). (i, last_index - offset)) (List.enumerate 0 [pivot + 1..<mirror2])) list1)"

definition compute_shuffled_list :: "sha256 \<Rightarrow> u64 list \<Rightarrow> b256 \<Rightarrow> u64 list" where
  "compute_shuffled_list H indices seed =
     (if length indices \<le> 1 then indices
      else fold (list_round H seed) (rev [0..<SHUFFLE_ROUND_COUNT]) indices)"

section \<open>Committees\<close>

definition compute_committee :: "sha256 \<Rightarrow> u64 list \<Rightarrow> b256 \<Rightarrow> u64 \<Rightarrow> u64 \<Rightarrow> shuffle_error + u64 list" where
  "compute_committee H indices seed index cnt =
     (let len = of_nat (length indices) :: u64 in
      if cnt = 0 then Inl PanicDivision
      else
        (let start = len * index div cnt; stop = len * (index + 1) div cnt in
         try_map (\<lambda>i. and_then (compute_shuffled_index H (unat i) (length indices) seed) (\<lambda>shuffled_index.
                      ok_or (list_get indices shuffled_index) IndexOutOfBounds))
           (u64_range start stop)))"


section \<open>The rule of one round\<close>

lemma and_255: "(j::nat) AND 255 = j mod 256"
  using take_bit_eq_mask [of 8 j] by (simp add: take_bit_eq_mod mask_eq_exp_minus_1)

lemma and_7: "(j::nat) AND 7 = j mod 8"
  using take_bit_eq_mask [of 3 j] by (simp add: take_bit_eq_mod mask_eq_exp_minus_1)

lemma block_of_byte: "(j::nat) div 256 = j div 8 div 32" "j mod 256 div 8 = j div 8 mod 32"
proof -
  show "j div 256 = j div 8 div 32" using div_mult2_eq [of j 8 32] by simp
  have "j mod 256 = 8 * (j div 8 mod 32) + j mod 8" using mod_mult2_eq [of j 8 32] by simp
  then show "j mod 256 div 8 = j div 8 mod 32" by simp
qed

lemma byte_and_one: "(b::byte) AND 1 = b mod 2"
  by (simp add: and_one_eq)

text \<open>The byte and the bit that decide about a position.\<close>

definition byte_at :: "sha256 \<Rightarrow> b256 \<Rightarrow> nat \<Rightarrow> nat \<Rightarrow> byte" where
  "byte_at H seed round position =
     b256_bytes (H (b256_bytes seed @ [of_nat round] @ le_bytes4 (position div 256))) ! (position mod 256 div 8)"

definition bit_at :: "sha256 \<Rightarrow> b256 \<Rightarrow> nat \<Rightarrow> nat \<Rightarrow> bool" where
  "bit_at H seed round position \<longleftrightarrow> drop_bit (position mod 8) (byte_at H seed round position) mod 2 = 1"

definition flip_at :: "nat \<Rightarrow> nat \<Rightarrow> nat \<Rightarrow> nat" where
  "flip_at pivot n i = (if i \<le> pivot then pivot - i else pivot + n - i)"

lemma flip_at_mod:
  assumes "i < n" and "pivot < n"
  shows "(pivot + (n - i)) mod n = flip_at pivot n i"
proof (cases "i \<le> pivot")
  case True
  then have "pivot + (n - i) = (pivot - i) + n" using assms by simp
  moreover have "(pivot - i + n) mod n = pivot - i" using assms by simp
  ultimately show ?thesis using True by (simp add: flip_at_def)
next
  case False
  then show ?thesis using assms by (simp add: flip_at_def)
qed

lemma flip_at_less: "i < n \<Longrightarrow> pivot < n \<Longrightarrow> flip_at pivot n i < n"
  by (auto simp: flip_at_def)

lemma flip_at_flip_at: "i < n \<Longrightarrow> pivot < n \<Longrightarrow> flip_at pivot n (flip_at pivot n i) = i"
  by (auto simp: flip_at_def)

lemma round_pivot_less: "0 < n \<Longrightarrow> n < 2 ^ 64 \<Longrightarrow> round_pivot H seed n round < n"
proof -
  assume n: "0 < n" "n < 2 ^ 64"
  let ?x = "bytes_to_int64 (b256_bytes (H (b256_bytes seed @ [of_nat round])))"
  have u: "unat (of_nat n :: u64) = n" using n by (intro unat_of_nat_small) simp
  then have "0 < (of_nat n :: u64)" using n by (simp add: word_less_nat_alt)
  then have "?x mod of_nat n < of_nat n" by (rule word_mod_less_divisor)
  then show ?thesis using u by (simp add: round_pivot_def word_less_nat_alt)
qed

lemma shuffle_round_eq:
  assumes "i < n" and "round_pivot H seed n round < n"
  shows "shuffle_round H seed n round i =
    (let f = flip_at (round_pivot H seed n round) n i in if bit_at H seed round (max i f) then f else i)"
  unfolding shuffle_round_def Let_def flip_at_mod [OF assms] bit_at_def byte_at_def ..

lemma shuffle_round_less: "i < n \<Longrightarrow> n < 2 ^ 64 \<Longrightarrow> shuffle_round H seed n round i < n"
  using round_pivot_less [of n H seed round] by (simp add: shuffle_round_eq Let_def flip_at_less)

lemma shuffle_round_involution:
  assumes "i < n" and "n < 2 ^ 64"
  shows "shuffle_round H seed n round (shuffle_round H seed n round i) = i"
proof -
  have p: "round_pivot H seed n round < n" using assms by (intro round_pivot_less) auto
  show ?thesis
    using assms(1) p flip_at_less [OF assms(1) p] flip_at_flip_at [OF assms(1) p]
    by (simp add: shuffle_round_eq Let_def max.commute)
qed

lemma rounds_less: "i < n \<Longrightarrow> n < 2 ^ 64 \<Longrightarrow> fold (shuffle_round H seed n) rounds i < n"
  by (induction rounds arbitrary: i) (auto simp: shuffle_round_less)

lemma rounds_inverse:
  "i < n \<Longrightarrow> n < 2 ^ 64 \<Longrightarrow>
   fold (shuffle_round H seed n) (rev rounds) (fold (shuffle_round H seed n) rounds i) = i"
  by (induction rounds arbitrary: i) (auto simp: shuffle_round_less shuffle_round_involution)

lemma rounds_bij:
  assumes "n < 2 ^ 64"
  shows "bij_betw (fold (shuffle_round H seed n) rounds) {0..<n} {0..<n}"
proof (rule bij_betw_byWitness [where f' = "fold (shuffle_round H seed n) (rev rounds)"])
  show "\<forall>i \<in> {0..<n}. fold (shuffle_round H seed n) (rev rounds) (fold (shuffle_round H seed n) rounds i) = i"
    using assms by (simp add: rounds_inverse)
  show "\<forall>i \<in> {0..<n}. fold (shuffle_round H seed n) rounds (fold (shuffle_round H seed n) (rev rounds) i) = i"
    using rounds_inverse [of _ n H seed "rev rounds"] assms by simp
qed (use assms rounds_less in auto)

section \<open>The round on the list\<close>

lemma length_swap [simp]: "length (swap xs i j) = length xs"
  by (simp add: swap_def)

lemma nth_swap:
  "i < length xs \<Longrightarrow> j < length xs \<Longrightarrow>
   swap xs i j ! k = (if k = j then xs ! i else if k = i then xs ! j else xs ! k)"
  by (simp add: swap_def nth_list_update)

text \<open>The cache is right for every position that does not fill it again.\<close>

definition cache_ok :: "sha256 \<Rightarrow> b256 \<Rightarrow> nat \<Rightarrow> nat \<Rightarrow> b256 \<Rightarrow> byte \<Rightarrow> bool" where
  "cache_ok H seed round j source b \<longleftrightarrow>
     (j mod 256 \<noteq> 255 \<longrightarrow> source = source_for H seed round j) \<and> (j mod 8 \<noteq> 7 \<longrightarrow> b = byte_at H seed round j)"

lemma source_byte_at: "b256_bytes (source_for H seed round j) ! (j mod 256 div 8) = byte_at H seed round j"
  by (simp add: byte_at_def source_for_def drop_bit_eq_div)

lemma cache_ok_start:
  "cache_ok H seed round j (source_for H seed round j) (b256_bytes (source_for H seed round j) ! drop_bit 3 (j AND 255))"
  by (simp add: cache_ok_def and_255 drop_bit_eq_div source_byte_at)

lemma cache_ok_step:
  assumes "cache_ok H seed round j source b"
  shows "\<exists>source' b'. swap_or_not H seed round (i, j) (list, source, b) =
      (if bit_at H seed round j then swap list i j else list, source', b') \<and>
    cache_ok H seed round (j - 1) source' b'"
proof -
  let ?s = "source_for H seed round j" and ?b = "byte_at H seed round j"
  have source: "(if j AND 255 = 255 then ?s else source) = ?s"
    using assms by (simp add: cache_ok_def and_255)
  have b: "(if j AND 7 = 7 then b256_bytes ?s ! drop_bit 3 (j AND 255) else b) = ?b"
    using assms by (cases "j mod 8 = 7") (simp_all add: cache_ok_def and_255 and_7 drop_bit_eq_div source_byte_at)
  have step: "swap_or_not H seed round (i, j) (list, source, b) =
      (if bit_at H seed round j then swap list i j else list, ?s, ?b)"
    unfolding swap_or_not_def prod.case Let_def source b by (simp add: bit_at_def and_7 byte_and_one)
  have "cache_ok H seed round (j - 1) ?s ?b"
  proof (cases j)
    case (Suc k)
    have "k mod 256 \<noteq> 255 \<Longrightarrow> Suc k div 256 = k div 256" by (simp add: div_Suc mod_Suc split: if_splits)
    moreover have "k mod 8 \<noteq> 7 \<Longrightarrow> Suc k div 256 = k div 256 \<and> Suc k mod 256 div 8 = k mod 256 div 8"
      unfolding block_of_byte by (simp add: div_Suc mod_Suc split: if_splits)
    ultimately show ?thesis
      by (auto simp: Suc cache_ok_def source_for_def drop_bit_eq_div byte_at_def)
  qed (simp add: cache_ok_def)
  with step show ?thesis by blast
qed

text \<open>The swaps of a half round without the cache.\<close>

definition mirror_swaps :: "sha256 \<Rightarrow> b256 \<Rightarrow> nat \<Rightarrow> nat \<Rightarrow> nat \<Rightarrow> nat \<Rightarrow> 'a list \<Rightarrow> 'a list" where
  "mirror_swaps H seed round a b m list =
     fold (\<lambda>k list. if bit_at H seed round (b - k) then swap list (a + k) (b - k) else list) [0..<m] list"

lemma mirror_swaps_Suc:
  "mirror_swaps H seed round a b (Suc m) list =
     (let list' = mirror_swaps H seed round a b m list
      in if bit_at H seed round (b - m) then swap list' (a + m) (b - m) else list')"
  by (simp add: mirror_swaps_def Let_def)

lemma half_round_mirror:
  "half_round H seed round b (map (\<lambda>k. (a + k, b - k)) [0..<m]) list = mirror_swaps H seed round a b m list"
proof -
  have "\<exists>source' b'. fold (swap_or_not H seed round) (map (\<lambda>k. (a + k, b - k)) [0..<m]) (list, source, c) =
      (mirror_swaps H seed round a b m list, source', b') \<and> cache_ok H seed round (b - m) source' b'"
    if "cache_ok H seed round b source c" for source c
  proof (induction m)
    case 0
    then show ?case using that by (simp add: mirror_swaps_def)
  next
    case (Suc m)
    then obtain source' b' where f: "fold (swap_or_not H seed round) (map (\<lambda>k. (a + k, b - k)) [0..<m]) (list, source, c) =
        (mirror_swaps H seed round a b m list, source', b')" and ok: "cache_ok H seed round (b - m) source' b'" by blast
    from cache_ok_step [OF ok, of "a + m" "mirror_swaps H seed round a b m list"] show ?case
      by (auto simp: f mirror_swaps_Suc Let_def)
  qed
  from this [OF cache_ok_start] show ?thesis by (auto simp: half_round_def Let_def)
qed

lemma length_mirror_swaps [simp]: "length (mirror_swaps H seed round a b m list) = length list"
  by (induction m) (simp_all add: mirror_swaps_Suc Let_def mirror_swaps_def [of _ _ _ _ _ 0])

lemma nth_mirror_swaps:
  assumes "a + 2 * m \<le> b + 1" and "b < length list"
  shows "mirror_swaps H seed round a b m list ! x =
    (if (a \<le> x \<and> x < a + m \<or> b < x + m \<and> x \<le> b) \<and> bit_at H seed round (max x (a + b - x))
     then list ! (a + b - x) else list ! x)"
  using assms(1)
proof (induction m arbitrary: x)
  case 0
  then show ?case by (auto simp: mirror_swaps_def)
next
  case (Suc m)
  let ?l = "mirror_swaps H seed round a b m list"
  have IH: "?l ! y = (if (a \<le> y \<and> y < a + m \<or> b < y + m \<and> y \<le> b) \<and> bit_at H seed round (max y (a + b - y))
     then list ! (a + b - y) else list ! y)" for y using Suc.IH Suc.prems by simp
  have sw: "mirror_swaps H seed round a b (Suc m) list ! x =
      (if bit_at H seed round (b - m) then
         (if x = b - m then ?l ! (a + m) else if x = a + m then ?l ! (b - m) else ?l ! x) else ?l ! x)"
    using Suc.prems assms(2) by (simp add: mirror_swaps_Suc Let_def nth_swap)
  have fresh: "?l ! (a + m) = list ! (a + m)" "?l ! (b - m) = list ! (b - m)"
    unfolding IH using Suc.prems by auto
  consider "x = b - m" | "x = a + m" | "x \<noteq> b - m" "x \<noteq> a + m" by blast
  then show ?case
  proof cases
    case 1
    moreover have "max (b - m) (a + b - (b - m)) = b - m" "a + b - (b - m) = a + m" using Suc.prems by auto
    ultimately show ?thesis unfolding sw fresh using Suc.prems by (simp add: fresh)
  next
    case 2
    moreover have "max (a + m) (a + b - (a + m)) = b - m" "a + b - (a + m) = b - m" using Suc.prems by auto
    ultimately show ?thesis unfolding sw fresh using Suc.prems by (auto simp: fresh)
  next
    case 3
    then have "(a \<le> x \<and> x < a + Suc m \<or> b < x + Suc m \<and> x \<le> b) = (a \<le> x \<and> x < a + m \<or> b < x + m \<and> x \<le> b)"
      using Suc.prems by auto
    then show ?thesis unfolding sw using 3 by (auto simp: IH)
  qed
qed

lemma enumerate_pairs:
  "map (\<lambda>(offset, i). (i, e - offset)) (List.enumerate 0 [a..<c]) = map (\<lambda>k. (a + k, e - k)) [0..<c - a]"
  by (rule nth_equalityI) (auto simp: enumerate_eq_zip)

lemma list_round_mirror:
  assumes "pivot = round_pivot H seed (length list) round"
  shows "list_round H seed round list =
    mirror_swaps H seed round (pivot + 1) (length list - 1) ((pivot + length list + 1) div 2 - (pivot + 1))
      (mirror_swaps H seed round 0 pivot ((pivot + 1) div 2) list)"
proof -
  have first: "half_round H seed round b (map (\<lambda>i. (i, b - i)) [0..<m]) l = mirror_swaps H seed round 0 b m l" for b m l
    using half_round_mirror [of H seed round b 0 m l] by simp
  show ?thesis
    unfolding list_round_def Let_def enumerate_pairs half_round_mirror first drop_bit_eq_div power_one_right assms ..
qed

lemma nth_list_round:
  assumes "i < length list" and "length list < 2 ^ 64"
  shows "list_round H seed round list ! i = list ! shuffle_round H seed (length list) round i"
proof -
  let ?n = "length list"
  define pivot where "pivot = round_pivot H seed ?n round"
  have pivot: "pivot < ?n" unfolding pivot_def using assms by (intro round_pivot_less) auto
  define list1 where "list1 = mirror_swaps H seed round 0 pivot ((pivot + 1) div 2) list"
  let ?m = "(pivot + ?n + 1) div 2 - (pivot + 1)"
  have one: "list1 ! x = (if x \<le> pivot \<and> bit_at H seed round (max x (pivot - x)) then list ! (pivot - x) else list ! x)" for x
    unfolding list1_def using pivot
    by (subst nth_mirror_swaps) (auto intro!: arg_cong [of _ _ "nth list"])
  have two: "list_round H seed round list ! x =
      (if pivot < x \<and> x < ?n \<and> bit_at H seed round (max x (pivot + ?n - x)) then list1 ! (pivot + ?n - x) else list1 ! x)" for x
    unfolding list_round_mirror [OF pivot_def] list1_def [symmetric] using pivot
    by (subst nth_mirror_swaps) (auto simp: list1_def intro!: arg_cong [of _ _ "nth _"])
  show ?thesis
    using assms(1) pivot by (auto simp: two one shuffle_round_eq flip_at_def Let_def simp flip: pivot_def)
qed

lemma length_list_round [simp]: "length (list_round H seed round list) = length list"
  by (simp add: list_round_mirror [OF refl])

lemma rounds_list:
  assumes "length list < 2 ^ 64"
  shows "length (fold (list_round H seed) (rev rounds) list) = length list \<and>
    (\<forall>i < length list. fold (list_round H seed) (rev rounds) list ! i =
       list ! fold (shuffle_round H seed (length list)) rounds i)"
proof (induction rounds)
  case (Cons r rounds)
  then show ?case using assms by (auto simp: nth_list_round shuffle_round_less)
qed simp

text \<open>The shuffling of one index is a permutation of the indices: it returns for every index in range,
  and every index is the result of exactly one.\<close>

theorem compute_shuffled_index_permutation:
  assumes "index_count < 2 ^ 64"
  shows "\<exists>f. bij_betw f {0..<index_count} {0..<index_count} \<and>
    (\<forall>index. compute_shuffled_index H index index_count seed =
       (if index < index_count then Inr (f index) else Inl IndexTooLarge))"
  using rounds_bij [OF assms, of H seed "[0..<SHUFFLE_ROUND_COUNT]"]
  by (intro exI conjI) (auto simp: compute_shuffled_index_def)

lemma shuffled_list_nth:
  assumes "length indices < 2 ^ 64"
  shows "length (compute_shuffled_list H indices seed) = length indices \<and>
    (\<forall>i < length indices. \<exists>j. compute_shuffled_index H i (length indices) seed = Inr j \<and> j < length indices \<and>
       compute_shuffled_list H indices seed ! i = indices ! j)"
proof (cases "length indices \<le> 1")
  case True
  have "fold (shuffle_round H seed (length indices)) rounds 0 < 1" if "length indices = 1" for rounds
    using rounds_less [of 0 "length indices"] assms that by simp
  then show ?thesis
    using True by (cases "length indices") (auto simp: compute_shuffled_list_def compute_shuffled_index_def)
next
  case False
  then show ?thesis
    using rounds_list [OF assms, of H seed "[0..<SHUFFLE_ROUND_COUNT]"] rounds_less [OF _ assms]
    by (auto simp: compute_shuffled_list_def compute_shuffled_index_def)
qed

lemma shuffled_list_mset:
  assumes "length indices < 2 ^ 64"
  shows "mset (compute_shuffled_list H indices seed) = mset indices"
proof -
  let ?n = "length indices" and ?L = "compute_shuffled_list H indices seed"
  let ?f = "fold (shuffle_round H seed ?n) [0..<SHUFFLE_ROUND_COUNT]"
  have nth: "length ?L = ?n" "\<And>i. i < ?n \<Longrightarrow> ?L ! i = indices ! ?f i"
    using shuffled_list_nth [OF assms, of H seed] by (auto simp: compute_shuffled_index_def)
  have "?L = map (\<lambda>i. indices ! ?f i) [0..<?n]" using nth by (intro nth_equalityI) auto
  then have "mset ?L = image_mset (nth indices) (image_mset ?f (mset [0..<?n]))" by (simp add: image_mset.compositionality comp_def)
  also have "image_mset ?f (mset [0..<?n]) = mset [0..<?n]"
    using rounds_bij [OF assms, of H seed "[0..<SHUFFLE_ROUND_COUNT]"]
    by (simp add: bij_betw_def image_mset_mset_set flip: mset_set_upto_eq_mset_upto)
  also have "image_mset (nth indices) (mset [0..<?n]) = mset indices" by (metis map_nth mset_map)
  finally show ?thesis .
qed

text \<open>C31. The in-place shuffling of a list, with its cached hashes and its rounds in reverse order, puts at
  every position the element the shuffling of one index names for it.\<close>

theorem compute_shuffled_list_correct:
  assumes "length indices < 2 ^ 64"
  shows "length (compute_shuffled_list H indices seed) = length indices \<and>
    (\<forall>i < length indices. \<exists>j. compute_shuffled_index H i (length indices) seed = Inr j \<and> j < length indices \<and>
       compute_shuffled_list H indices seed ! i = indices ! j)"
  using assms by (rule shuffled_list_nth)

section \<open>Committees are slices\<close>

lemma concat_slices:
  assumes "\<And>i. i < c \<Longrightarrow> s i \<le> s (Suc i)"
  shows "concat (map (\<lambda>i. map f [s i..<s (Suc i)]) [0..<c]) = map f [s 0..<s c]"
proof -
  have "s 0 \<le> s k \<and> concat (map (\<lambda>i. map f [s i..<s (Suc i)]) [0..<k]) = map f [s 0..<s k]" if "k \<le> c" for k
    using that
  proof (induction k)
    case (Suc k)
    then have le: "s 0 \<le> s k" "s k \<le> s (Suc k)" using assms [of k] by auto
    then have "[s 0..<s (Suc k)] = [s 0..<s k] @ [s k..<s (Suc k)]"
      using upt_add_eq_append [of "s 0" "s k" "s (Suc k) - s k"] by simp
    with Suc le show ?case by (simp add: Suc_le_eq)
  qed simp
  then show ?thesis by simp
qed

lemma committee_slice:
  assumes "length indices * unat cnt < 2 ^ 64" and "length indices < 2 ^ 64" and "i < unat cnt"
  shows "compute_committee H indices seed (of_nat i) cnt =
    Inr (map (nth (compute_shuffled_list H indices seed))
      [length indices * i div unat cnt..<length indices * Suc i div unat cnt])"
proof -
  let ?n = "length indices" and ?c = "unat cnt" and ?L = "compute_shuffled_list H indices seed"
  have mul: "?n * k < 2 ^ 64" if "k \<le> ?c" for k
    using assms(1) that by (meson le_less_trans mult_le_mono2)
  have small: "unat (of_nat ?n * of_nat k div cnt) = ?n * k div ?c" if "k \<le> ?c" for k
  proof -
    have "unat (of_nat ?n * of_nat k :: u64) = ?n * k"
      unfolding of_nat_mult [symmetric] using mul [OF that] by (intro unat_of_nat_small) simp
    then show ?thesis by (simp add: unat_div)
  qed
  have lookup: "and_then (compute_shuffled_index H k ?n seed) (\<lambda>j. ok_or (list_get indices j) IndexOutOfBounds) = Inr (?L ! k)"
    if "k < ?n" for k
    using shuffled_list_nth [OF assms(2), of H seed] that by (fastforce simp: list_get_def)
  have bound: "k < ?n" if "k < ?n * Suc i div ?c" for k
  proof -
    have "?n * Suc i div ?c \<le> ?n * ?c div ?c" using assms(3) by (intro div_le_mono mult_le_mono2) simp
    with that assms(3) show ?thesis by simp
  qed
  have range: "u64_range (of_nat ?n * of_nat i div cnt) (of_nat ?n * (of_nat i + 1) div cnt) =
      map of_nat [?n * i div ?c..<?n * Suc i div ?c]"
    unfolding u64_range_def using small [of i] small [of "Suc i"] assms(3) by (simp add: algebra_simps)
  have "k < 2 ^ 64" if "k < ?n" for k using that assms(2) by simp
  then have "list_all2 (\<lambda>x y. and_then (compute_shuffled_index H (unat x) ?n seed)
      (\<lambda>j. ok_or (list_get indices j) IndexOutOfBounds) = Inr y)
      (map (of_nat :: nat \<Rightarrow> u64) [?n * i div ?c..<?n * Suc i div ?c])
      (map (nth ?L) [?n * i div ?c..<?n * Suc i div ?c])"
    using bound lookup by (auto simp: list_all2_map1 list_all2_map2 list_all2_same unat_of_nat_small)
  then show ?thesis
    using assms(3) by (auto simp: compute_committee_def Let_def range try_map_eq_Inr)
qed

text \<open>C34. The committees of an epoch are the consecutive slices of the shuffled list: together they are a
  permutation of the active validators, so each of them is in exactly one committee.\<close>

theorem committees_partition:
  assumes "length indices * unat cnt < 2 ^ 64" and "length indices < 2 ^ 64" and "0 < unat cnt"
  shows "\<exists>committees.
    try_map (\<lambda>index. compute_committee H indices seed index cnt) (map of_nat [0..<unat cnt]) = Inr committees \<and>
    concat committees = compute_shuffled_list H indices seed \<and> mset (concat committees) = mset indices"
proof -
  let ?n = "length indices" and ?c = "unat cnt" and ?L = "compute_shuffled_list H indices seed"
  let ?s = "\<lambda>i. ?n * i div ?c"
  define cs where "cs = map (\<lambda>i. map (nth ?L) [?s i..<?s (Suc i)]) [0..<?c]"
  have "try_map (\<lambda>index. compute_committee H indices seed index cnt) (map of_nat [0..<?c]) = Inr cs"
    using committee_slice [OF assms(1,2)]
    by (auto simp: try_map_eq_Inr cs_def list_all2_map1 list_all2_map2 list_all2_same)
  note committees = this
  have len: "length ?L = ?n" using shuffled_list_nth [OF assms(2)] by blast
  have "concat cs = map (nth ?L) [?s 0..<?s ?c]"
    unfolding cs_def by (rule concat_slices) (simp add: div_le_mono)
  also have "[?s 0..<?s ?c] = [0..<length ?L]" using assms(3) len by simp
  finally have cs: "concat cs = ?L" by (simp only: map_nth)
  have "mset ?L = mset indices" by (rule shuffled_list_mset [OF assms(2)])
  with committees cs show ?thesis by auto
qed

section \<open>Evaluation\<close>

definition demo_hash :: sha256 where
  "demo_hash bs = of_nat (length bs) * 0x0101010101010101010101010101010101010101010101010101010101010101"

theorem compute_shuffled_index_permutation_witness:
  "\<exists>f. bij_betw f {0..<3 :: nat} {0..<3} \<and> compute_shuffled_index demo_hash 2 3 7 = Inr (f 2) \<and>
     compute_shuffled_index demo_hash 5 3 7 = Inl IndexTooLarge"
  using compute_shuffled_index_permutation [of 3 demo_hash 7] by auto

theorem compute_shuffled_list_correct_witness:
  "length (compute_shuffled_list demo_hash [10, 20, 30] 7) = 3 \<and>
   (\<exists>j. compute_shuffled_index demo_hash 2 3 7 = Inr j \<and>
      compute_shuffled_list demo_hash [10, 20, 30] 7 ! 2 = [10, 20, 30] ! j)"
proof -
  have "length [10, 20, 30 :: u64] < 2 ^ 64" by simp
  from compute_shuffled_list_correct [OF this, of demo_hash 7]
  have len: "length (compute_shuffled_list demo_hash [10, 20, 30] 7) = length [10, 20, 30 :: u64]"
    and nth: "\<forall>i < length [10, 20, 30 :: u64]. \<exists>j. compute_shuffled_index demo_hash i (length [10, 20, 30 :: u64]) 7 = Inr j \<and>
      j < length [10, 20, 30 :: u64] \<and> compute_shuffled_list demo_hash [10, 20, 30] 7 ! i = [10, 20, 30] ! j"
    by blast+
  have three: "length [10, 20, 30 :: u64] = 3" by simp
  from nth [rule_format, of 2] obtain j where "compute_shuffled_index demo_hash 2 3 7 = Inr j"
    "compute_shuffled_list demo_hash [10, 20, 30] 7 ! 2 = [10, 20, 30] ! j" unfolding three by auto
  with len show ?thesis unfolding three by blast
qed

theorem committees_partition_witness:
  "\<exists>committees. try_map (\<lambda>index. compute_committee demo_hash [10, 20, 30] 7 index 2) [0, 1] = Inr committees \<and>
     mset (concat committees) = {#10, 20, 30#}"
proof -
  have two: "map of_nat [0..<unat (2 :: u64)] = ([0, 1] :: u64 list)" by (simp add: upt_rec)
  have "length [10, 20, 30 :: u64] * unat (2 :: u64) < 2 ^ 64" "length [10, 20, 30 :: u64] < 2 ^ 64" "0 < unat (2 :: u64)"
    by simp_all
  from committees_partition [OF this, of demo_hash 7] obtain cs where
    "try_map (\<lambda>index. compute_committee demo_hash [10, 20, 30] 7 index 2) [0, 1] = Inr cs"
    "mset (concat cs) = mset [10, 20, 30]" unfolding two by blast
  then show ?thesis by (intro exI [of _ cs]) simp
qed

end
