(* ===== verification/Beacon_Types.thy ===== *)
theory Beacon_Types
  imports Beacon_Shuffling
begin

text \<open>
  The containers of the Beacon chain (\<open>consensus/misc/src\<close> and \<open>consensus/beacon/src\<close>), one record
  per struct with the fields in the source's order, the constants of \<open>constants/beacon.rs\<close> and the
  environment of third-party code: SHA-256, Merkle roots (\<open>tree_hash\<close>), BLS signatures, the bounded
  SSZ lists, the execution engine and the network configuration. A \<open>FixedVector\<close> and a
  \<open>VariableList\<close> are the lists of their elements, a \<open>BitVector\<close> and a \<open>BitList\<close> the lists of their
  bits. The \<open>caches\<close> of a state are derived data and not part of the record.
\<close>

section \<open>Errors\<close>

text \<open>An \<open>anyhow\<close> error is its message (without the values formatted into it); an index out of range
  panics; a loop that never ends is the value \<open>Hangs\<close>.\<close>

datatype beacon_error = Anyhow string | Panic | Hangs

definition get_or :: "'a list \<Rightarrow> nat \<Rightarrow> string \<Rightarrow> beacon_error + 'a" where
  "get_or xs i msg = ok_or (list_get xs i) (Anyhow msg)"

text \<open>\<open>xs[i]\<close>\<close>

definition idx :: "'a list \<Rightarrow> nat \<Rightarrow> beacon_error + 'a" where
  "idx xs i = ok_or (list_get xs i) Panic"

definition require :: "bool \<Rightarrow> string \<Rightarrow> beacon_error + unit" where
  "require b msg = ensure b (Anyhow msg)"

section \<open>Containers\<close>

type_synonym bls_public_key = "384 word"
type_synonym bls_signature = "768 word"
type_synonym address = "160 word"
type_synonym b32 = "32 word"
type_synonym kzg_commitment = "384 word"

record fork =
  previous_version :: b32
  current_version :: b32
  fork_epoch :: u64

record beacon_checkpoint =
  cp_epoch :: u64
  bcp_root :: b256

record beacon_block_header =
  bh_slot :: u64
  bh_proposer_index :: u64
  bh_parent_root :: b256
  bh_state_root :: b256
  bh_body_root :: b256

record signed_beacon_block_header =
  sbh_message :: beacon_block_header
  sbh_signature :: bls_signature

record beacon_validator =
  v_public_key :: bls_public_key
  withdrawal_credentials :: b256
  effective_balance :: u64
  slashed :: bool
  activation_eligibility_epoch :: u64
  activation_epoch :: u64
  exit_epoch :: u64
  withdrawable_epoch :: u64

record eth1_data =
  e1_deposit_root :: b256
  e1_deposit_count :: u64
  e1_block_hash :: b256

record beacon_attestation_data =
  bad_slot :: u64
  bad_index :: u64
  beacon_block_root :: b256
  bad_source :: beacon_checkpoint
  bad_target :: beacon_checkpoint

record beacon_attestation =
  ba_aggregation_bits :: "bool list"
  ba_data :: beacon_attestation_data
  ba_signature :: bls_signature
  ba_committee_bits :: "bool list"

record indexed_attestation =
  attesting_indices :: "u64 list"
  ia_data :: beacon_attestation_data
  ia_signature :: bls_signature

record attester_slashing =
  attestation_1 :: indexed_attestation
  attestation_2 :: indexed_attestation

record proposer_slashing =
  signed_header_1 :: signed_beacon_block_header
  signed_header_2 :: signed_beacon_block_header

record deposit_data =
  dd_public_key :: bls_public_key
  dd_withdrawal_credentials :: b256
  dd_amount :: u64
  dd_signature :: bls_signature

record deposit_message =
  dm_public_key :: bls_public_key
  dm_withdrawal_credentials :: b256
  dm_amount :: u64

record deposit =
  dep_proof :: "b256 list"
  dep_data :: deposit_data

record voluntary_exit =
  ve_epoch :: u64
  ve_validator_index :: u64

record signed_voluntary_exit =
  sve_message :: voluntary_exit
  sve_signature :: bls_signature

record bls_to_execution_change =
  bc_validator_index :: u64
  from_bls_public_key :: bls_public_key
  to_execution_address :: address

record signed_bls_to_execution_change =
  sbc_message :: bls_to_execution_change
  sbc_signature :: bls_signature

record sync_aggregate =
  sync_committee_bits :: "bool list"
  sync_committee_signature :: bls_signature

record sync_committee =
  public_keys :: "bls_public_key list"
  aggregate_public_key :: bls_public_key

record withdrawal =
  wd_index :: u64
  wd_validator_index :: u64
  wd_address :: address
  wd_amount :: u64

record deposit_request =
  dr_public_key :: bls_public_key
  dr_withdrawal_credentials :: b256
  dr_amount :: u64
  dr_signature :: bls_signature
  dr_index :: u64

record withdrawal_request =
  wr_source_address :: address
  wr_validator_public_key :: bls_public_key
  wr_amount :: u64

record consolidation_request =
  cr_source_address :: address
  cr_source_public_key :: bls_public_key
  cr_target_public_key :: bls_public_key

record execution_requests =
  er_deposits :: "deposit_request list"
  er_withdrawals :: "withdrawal_request list"
  er_consolidations :: "consolidation_request list"

record pending_deposit =
  pd_public_key :: bls_public_key
  pd_withdrawal_credentials :: b256
  pd_amount :: u64
  pd_signature :: bls_signature
  pd_slot :: u64

record pending_partial_withdrawal =
  pw_validator_index :: u64
  pw_amount :: u64
  pw_withdrawable_epoch :: u64

record pending_consolidation =
  pc_source_index :: u64
  pc_target_index :: u64

record historical_summary =
  block_summary_root :: b256
  state_summary_root :: b256

record execution_payload =
  ep_parent_hash :: b256
  ep_fee_recipient :: address
  ep_state_root :: b256
  ep_receipts_root :: b256
  ep_logs_bloom :: "byte list"
  ep_prev_randao :: b256
  ep_block_number :: u64
  ep_gas_limit :: u64
  ep_gas_used :: u64
  ep_timestamp :: u64
  ep_extra_data :: "byte list"
  ep_base_fee_per_gas :: b256
  ep_block_hash :: b256
  ep_transactions :: "byte list list"
  ep_withdrawals :: "withdrawal list"
  ep_blob_gas_used :: u64
  ep_excess_blob_gas :: u64

record execution_payload_header =
  eh_parent_hash :: b256
  eh_fee_recipient :: address
  eh_state_root :: b256
  eh_receipts_root :: b256
  eh_logs_bloom :: "byte list"
  eh_prev_randao :: b256
  eh_block_number :: u64
  eh_gas_limit :: u64
  eh_gas_used :: u64
  eh_timestamp :: u64
  eh_extra_data :: "byte list"
  eh_base_fee_per_gas :: b256
  eh_block_hash :: b256
  eh_transactions_root :: b256
  eh_withdrawals_root :: b256
  eh_blob_gas_used :: u64
  eh_excess_blob_gas :: u64

record beacon_block_body =
  randao_reveal :: bls_signature
  bb_eth1_data :: eth1_data
  graffiti :: b256
  proposer_slashings :: "proposer_slashing list"
  attester_slashings :: "attester_slashing list"
  bb_attestations :: "beacon_attestation list"
  bb_deposits :: "deposit list"
  voluntary_exits :: "signed_voluntary_exit list"
  bb_sync_aggregate :: sync_aggregate
  bb_execution_payload :: execution_payload
  bls_to_execution_changes :: "signed_bls_to_execution_change list"
  blob_kzg_commitments :: "kzg_commitment list"
  bb_execution_requests :: execution_requests

record beacon_block =
  bb_slot :: u64
  bb_proposer_index :: u64
  bb_parent_root :: b256
  bb_state_root :: b256
  bb_body :: beacon_block_body

record signed_beacon_block =
  sbb_message :: beacon_block
  sbb_signature :: bls_signature

section \<open>The state\<close>

record beacon_state =
  bs_genesis_time :: u64
  bs_genesis_validators_root :: b256
  bs_slot :: u64
  bs_fork :: fork
  bs_latest_block_header :: beacon_block_header
  bs_block_roots :: "b256 list"
  bs_state_roots :: "b256 list"
  bs_historical_roots :: "b256 list"
  bs_eth1_data :: eth1_data
  bs_eth1_data_votes :: "eth1_data list"
  bs_eth1_deposit_index :: u64
  bs_validators :: "beacon_validator list"
  bs_balances :: "u64 list"
  bs_randao_mixes :: "b256 list"
  bs_slashings :: "u64 list"
  bs_previous_epoch_participation :: "byte list"
  bs_current_epoch_participation :: "byte list"
  bs_justification_bits :: "bool list"
  bs_previous_justified_checkpoint :: beacon_checkpoint
  bs_current_justified_checkpoint :: beacon_checkpoint
  bs_finalized_checkpoint :: beacon_checkpoint
  bs_inactivity_scores :: "u64 list"
  bs_current_sync_committee :: sync_committee
  bs_next_sync_committee :: sync_committee
  bs_latest_execution_payload_header :: execution_payload_header
  bs_next_withdrawal_index :: u64
  bs_next_withdrawal_validator_index :: u64
  bs_historical_summaries :: "historical_summary list"
  bs_deposit_requests_start_index :: u64
  bs_deposit_balance_to_consume :: u64
  bs_exit_balance_to_consume :: u64
  bs_earliest_exit_epoch :: u64
  bs_consolidation_balance_to_consume :: u64
  bs_earliest_consolidation_epoch :: u64
  bs_pending_deposits :: "pending_deposit list"
  bs_pending_partial_withdrawals :: "pending_partial_withdrawal list"
  bs_pending_consolidations :: "pending_consolidation list"
  bs_proposer_lookahead :: "u64 list"

section \<open>Capacities and constants\<close>

abbreviation ValidatorRegistryLimit :: nat where
  "ValidatorRegistryLimit \<equiv> 1099511627776"

abbreviation PENDING_DEPOSITS_CAPACITY :: nat where
  "PENDING_DEPOSITS_CAPACITY \<equiv> 134217728"

abbreviation HISTORICAL_SUMMARIES_CAPACITY :: nat where
  "HISTORICAL_SUMMARIES_CAPACITY \<equiv> 16777216"

abbreviation ETH1_VOTES_CAPACITY :: nat where
  "ETH1_VOTES_CAPACITY \<equiv> 2048"

named_theorems beacon_consts \<open>the constants of the Beacon chain\<close>

definition SLOTS_PER_EPOCH :: u64 where [beacon_consts]: "SLOTS_PER_EPOCH = 32"
definition SLOTS_PER_HISTORICAL_ROOT :: u64 where [beacon_consts]: "SLOTS_PER_HISTORICAL_ROOT = 8192"
definition EPOCHS_PER_HISTORICAL_VECTOR :: u64 where [beacon_consts]: "EPOCHS_PER_HISTORICAL_VECTOR = 65536"
definition EPOCHS_PER_SLASHINGS_VECTOR :: u64 where [beacon_consts]: "EPOCHS_PER_SLASHINGS_VECTOR = 8192"
definition EPOCHS_PER_ETH1_VOTING_PERIOD :: u64 where [beacon_consts]: "EPOCHS_PER_ETH1_VOTING_PERIOD = 64"
definition EPOCHS_PER_SYNC_COMMITTEE_PERIOD :: u64 where [beacon_consts]: "EPOCHS_PER_SYNC_COMMITTEE_PERIOD = 256"
definition GENESIS_SLOT :: u64 where [beacon_consts]: "GENESIS_SLOT = 0"
definition GENESIS_EPOCH :: u64 where [beacon_consts]: "GENESIS_EPOCH = 0"
definition FAR_FUTURE_EPOCH :: u64 where [beacon_consts]: "FAR_FUTURE_EPOCH = 18446744073709551615"
definition UNSET_DEPOSIT_REQUESTS_START_INDEX :: u64 where [beacon_consts]: "UNSET_DEPOSIT_REQUESTS_START_INDEX = 18446744073709551615"
definition UINT64_MAX :: u64 where [beacon_consts]: "UINT64_MAX = 18446744073709551615"
definition UINT64_MAX_SQRT :: u64 where [beacon_consts]: "UINT64_MAX_SQRT = 4294967295"
definition MAX_SEED_LOOKAHEAD :: u64 where [beacon_consts]: "MAX_SEED_LOOKAHEAD = 4"
definition MIN_SEED_LOOKAHEAD :: u64 where [beacon_consts]: "MIN_SEED_LOOKAHEAD = 1"
definition TARGET_COMMITTEE_SIZE :: u64 where [beacon_consts]: "TARGET_COMMITTEE_SIZE = 128"
definition MAX_COMMITTEES_PER_SLOT :: u64 where [beacon_consts]: "MAX_COMMITTEES_PER_SLOT = 64"
definition MAX_DEPOSITS :: u64 where [beacon_consts]: "MAX_DEPOSITS = 16"
definition MAX_RANDOM_VALUE :: u64 where [beacon_consts]: "MAX_RANDOM_VALUE = 65535"
definition MAX_EFFECTIVE_BALANCE_ELECTRA :: u64 where [beacon_consts]: "MAX_EFFECTIVE_BALANCE_ELECTRA = 2048000000000"
definition MIN_ACTIVATION_BALANCE :: u64 where [beacon_consts]: "MIN_ACTIVATION_BALANCE = 32000000000"
definition EFFECTIVE_BALANCE_INCREMENT :: u64 where [beacon_consts]: "EFFECTIVE_BALANCE_INCREMENT = 1000000000"
definition EJECTION_BALANCE :: u64 where [beacon_consts]: "EJECTION_BALANCE = 16000000000"
definition MIN_VALIDATOR_WITHDRAWABILITY_DELAY :: u64 where [beacon_consts]: "MIN_VALIDATOR_WITHDRAWABILITY_DELAY = 256"
definition SHARD_COMMITTEE_PERIOD :: u64 where [beacon_consts]: "SHARD_COMMITTEE_PERIOD = 256"
definition MIN_PER_EPOCH_CHURN_LIMIT :: u64 where [beacon_consts]: "MIN_PER_EPOCH_CHURN_LIMIT = 4"
definition CHURN_LIMIT_QUOTIENT :: u64 where [beacon_consts]: "CHURN_LIMIT_QUOTIENT = 65536"
definition MAX_PER_EPOCH_ACTIVATION_EXIT_CHURN_LIMIT :: u64 where [beacon_consts]: "MAX_PER_EPOCH_ACTIVATION_EXIT_CHURN_LIMIT = 256000000000"
definition MIN_PER_EPOCH_CHURN_LIMIT_ELECTRA :: u64 where [beacon_consts]: "MIN_PER_EPOCH_CHURN_LIMIT_ELECTRA = 128000000000"
definition MIN_SLASHING_PENALTY_QUOTIENT_ELECTRA :: u64 where [beacon_consts]: "MIN_SLASHING_PENALTY_QUOTIENT_ELECTRA = 4096"
definition WHISTLEBLOWER_REWARD_QUOTIENT_ELECTRA :: u64 where [beacon_consts]: "WHISTLEBLOWER_REWARD_QUOTIENT_ELECTRA = 4096"
definition PROPORTIONAL_SLASHING_MULTIPLIER_BELLATRIX :: u64 where [beacon_consts]: "PROPORTIONAL_SLASHING_MULTIPLIER_BELLATRIX = 3"
definition PROPOSER_WEIGHT :: u64 where [beacon_consts]: "PROPOSER_WEIGHT = 8"
definition SYNC_REWARD_WEIGHT :: u64 where [beacon_consts]: "SYNC_REWARD_WEIGHT = 2"
definition WEIGHT_DENOMINATOR :: u64 where [beacon_consts]: "WEIGHT_DENOMINATOR = 64"
definition BASE_REWARD_FACTOR :: u64 where [beacon_consts]: "BASE_REWARD_FACTOR = 64"
definition TIMELY_SOURCE_FLAG_INDEX :: byte where [beacon_consts]: "TIMELY_SOURCE_FLAG_INDEX = 0"
definition TIMELY_TARGET_FLAG_INDEX :: byte where [beacon_consts]: "TIMELY_TARGET_FLAG_INDEX = 1"
definition TIMELY_HEAD_FLAG_INDEX :: byte where [beacon_consts]: "TIMELY_HEAD_FLAG_INDEX = 2"
definition PARTICIPATION_FLAG_WEIGHTS :: "u64 list" where [beacon_consts]: "PARTICIPATION_FLAG_WEIGHTS = [14, 26, 14]"
definition MIN_EPOCHS_TO_INACTIVITY_PENALTY :: u64 where [beacon_consts]: "MIN_EPOCHS_TO_INACTIVITY_PENALTY = 4"
definition INACTIVITY_SCORE_BIAS :: u64 where [beacon_consts]: "INACTIVITY_SCORE_BIAS = 4"
definition INACTIVITY_SCORE_RECOVERY_RATE :: u64 where [beacon_consts]: "INACTIVITY_SCORE_RECOVERY_RATE = 16"
definition INACTIVITY_PENALTY_QUOTIENT_BELLATRIX :: u64 where [beacon_consts]: "INACTIVITY_PENALTY_QUOTIENT_BELLATRIX = 16777216"
definition HYSTERESIS_QUOTIENT :: u64 where [beacon_consts]: "HYSTERESIS_QUOTIENT = 4"
definition HYSTERESIS_DOWNWARD_MULTIPLIER :: u64 where [beacon_consts]: "HYSTERESIS_DOWNWARD_MULTIPLIER = 1"
definition HYSTERESIS_UPWARD_MULTIPLIER :: u64 where [beacon_consts]: "HYSTERESIS_UPWARD_MULTIPLIER = 5"
definition JUSTIFICATION_BITS_LENGTH :: nat where [beacon_consts]: "JUSTIFICATION_BITS_LENGTH = 4"
definition MIN_ATTESTATION_INCLUSION_DELAY :: u64 where [beacon_consts]: "MIN_ATTESTATION_INCLUSION_DELAY = 1"
definition MAX_WITHDRAWALS_PER_PAYLOAD :: u64 where [beacon_consts]: "MAX_WITHDRAWALS_PER_PAYLOAD = 16"
definition MAX_VALIDATORS_PER_WITHDRAWALS_SWEEP :: nat where [beacon_consts]: "MAX_VALIDATORS_PER_WITHDRAWALS_SWEEP = 16384"
definition MAX_PENDING_PARTIALS_PER_WITHDRAWALS_SWEEP :: u64 where [beacon_consts]: "MAX_PENDING_PARTIALS_PER_WITHDRAWALS_SWEEP = 8"
definition MAX_PENDING_DEPOSITS_PER_EPOCH :: u64 where [beacon_consts]: "MAX_PENDING_DEPOSITS_PER_EPOCH = 16"
definition PENDING_PARTIAL_WITHDRAWALS_LIMIT :: u64 where [beacon_consts]: "PENDING_PARTIAL_WITHDRAWALS_LIMIT = 134217728"
definition PENDING_CONSOLIDATIONS_LIMIT :: u64 where [beacon_consts]: "PENDING_CONSOLIDATIONS_LIMIT = 262144"
definition FULL_EXIT_REQUEST_AMOUNT :: u64 where [beacon_consts]: "FULL_EXIT_REQUEST_AMOUNT = 0"
definition DEPOSIT_CONTRACT_TREE_DEPTH :: u64 where [beacon_consts]: "DEPOSIT_CONTRACT_TREE_DEPTH = 32"
definition SYNC_COMMITTEE_SIZE :: u64 where [beacon_consts]: "SYNC_COMMITTEE_SIZE = 512"
definition BLS_WITHDRAWAL_PREFIX :: byte where [beacon_consts]: "BLS_WITHDRAWAL_PREFIX = 0"
definition ETH1_ADDRESS_WITHDRAWAL_PREFIX :: byte where [beacon_consts]: "ETH1_ADDRESS_WITHDRAWAL_PREFIX = 1"
definition COMPOUNDING_WITHDRAWAL_PREFIX :: byte where [beacon_consts]: "COMPOUNDING_WITHDRAWAL_PREFIX = 2"
definition DOMAIN_BEACON_PROPOSER :: b32 where "DOMAIN_BEACON_PROPOSER = 0x00000000"
definition DOMAIN_BEACON_ATTESTER :: b32 where "DOMAIN_BEACON_ATTESTER = 0x01000000"
definition DOMAIN_RANDAO :: b32 where "DOMAIN_RANDAO = 0x02000000"
definition DOMAIN_DEPOSIT :: b32 where "DOMAIN_DEPOSIT = 0x03000000"
definition DOMAIN_VOLUNTARY_EXIT :: b32 where "DOMAIN_VOLUNTARY_EXIT = 0x04000000"
definition DOMAIN_SYNC_COMMITTEE :: b32 where "DOMAIN_SYNC_COMMITTEE = 0x07000000"
definition DOMAIN_BLS_TO_EXECUTION_CHANGE :: b32 where "DOMAIN_BLS_TO_EXECUTION_CHANGE = 0x0A000000"
definition GENESIS_FORK_VERSION :: b32 where "GENESIS_FORK_VERSION = 0x00000000"

section \<open>Third-party code\<close>

record blob_parameters =
  bp_epoch :: u64
  max_blobs_per_block :: u64

record beacon_env =
  be_hash :: sha256
  be_node_hash :: "b256 \<Rightarrow> b256 \<Rightarrow> b256"
  root_fork_data :: "b32 \<Rightarrow> b256 \<Rightarrow> b256"
  root_signing_data :: "b256 \<Rightarrow> b256 \<Rightarrow> b256"
  root_header :: "beacon_block_header \<Rightarrow> b256"
  root_body :: "beacon_block_body \<Rightarrow> b256"
  root_block :: "beacon_block \<Rightarrow> b256"
  root_state :: "beacon_state \<Rightarrow> b256"
  root_attestation_data :: "beacon_attestation_data \<Rightarrow> b256"
  root_voluntary_exit :: "voluntary_exit \<Rightarrow> b256"
  root_bls_change :: "bls_to_execution_change \<Rightarrow> b256"
  root_deposit_message :: "deposit_message \<Rightarrow> b256"
  root_deposit_data :: "deposit_data \<Rightarrow> b256"
  root_u64 :: "u64 \<Rightarrow> b256"
  root_b256 :: "b256 \<Rightarrow> b256"
  root_vector :: "b256 list \<Rightarrow> b256"
  root_transactions :: "byte list list \<Rightarrow> b256"
  root_withdrawals :: "withdrawal list \<Rightarrow> b256"
  blst_signature_ok :: "bls_signature \<Rightarrow> bool"
  blst_key_ok :: "bls_public_key \<Rightarrow> bool"
  blst_verify :: "bls_signature \<Rightarrow> b256 \<Rightarrow> bls_public_key \<Rightarrow> bool"
  blst_fast_aggregate_verify :: "bls_signature \<Rightarrow> b256 \<Rightarrow> bls_public_key list \<Rightarrow> bool"
  blst_aggregate_keys :: "bls_public_key list \<Rightarrow> bls_public_key option"
  list_fits :: "nat \<Rightarrow> nat \<Rightarrow> bool"
  versioned_hash :: "kzg_commitment \<Rightarrow> b256"
  genesis_fork_version :: b32
  capella_fork_version :: b32
  blob_schedule :: "blob_parameters list"
  electra_fork_epoch :: u64
  max_blobs_per_block_electra :: u64
  slot_duration_ms :: u64
  fulu_fork_epoch :: u64
  thread_count :: nat

text \<open>What the code relies on: the limit of a \<open>VariableList\<close>, and that \<open>available_parallelism\<close> is not
  zero.\<close>

definition beacon_env_ok :: "beacon_env \<Rightarrow> bool" where
  "beacon_env_ok E \<longleftrightarrow> (\<forall>limit n. list_fits E limit n \<longleftrightarrow> n \<le> limit) \<and> 0 < thread_count E"

text \<open>\<open>VariableList::push\<close>\<close>

definition vl_push :: "beacon_env \<Rightarrow> nat \<Rightarrow> string \<Rightarrow> 'a list \<Rightarrow> 'a \<Rightarrow> beacon_error + 'a list" where
  "vl_push E limit msg xs x =
     (if list_fits E limit (Suc (length xs)) then Inr (xs @ [x]) else Inl (Anyhow msg))"

section \<open>Evaluation\<close>

lemma get_or_eq_Inr [result_simps]: "get_or xs i msg = Inr x \<longleftrightarrow> i < length xs \<and> x = xs ! i"
  by (auto simp: get_or_def result_simps list_get_Some)

lemma idx_eq_Inr [result_simps]: "idx xs i = Inr x \<longleftrightarrow> i < length xs \<and> x = xs ! i"
  by (auto simp: idx_def result_simps list_get_Some)

lemma idx_in [simp]: "i < length xs \<Longrightarrow> idx xs i = Inr (xs ! i)"
  by (simp add: result_simps)

lemma get_or_in [simp]: "i < length xs \<Longrightarrow> get_or xs i msg = Inr (xs ! i)"
  by (simp add: result_simps)

lemma idx_out [simp]: "\<not> i < length xs \<Longrightarrow> idx xs i = Inl Panic"
  by (simp add: idx_def list_get_def)

lemma get_or_out [simp]: "\<not> i < length xs \<Longrightarrow> get_or xs i msg = Inl (Anyhow msg)"
  by (simp add: get_or_def list_get_def)

lemma require_eq_Inr [result_simps]: "require b msg = Inr u \<longleftrightarrow> b"
  by (simp add: require_def result_simps)

lemma require_simps [simp]: "require True msg = Inr ()" "require False msg = Inl (Anyhow msg)"
  by (simp_all add: require_def)

lemma vl_push_eq_Inr [result_simps]:
  "vl_push E limit msg xs x = Inr ys \<longleftrightarrow> list_fits E limit (Suc (length xs)) \<and> ys = xs @ [x]"
  by (auto simp: vl_push_def)

end
