(* ===== verification/Beacon_Accessors.thy ===== *)
theory Beacon_Accessors
  imports Beacon_Types
begin

text \<open>
  The read-only half of \<open>electra/beacon_state.rs\<close>: epochs, roots, the randao mix, committees, the
  proposer, balances and domains, with the methods of \<open>validator.rs\<close>, the helpers of \<open>misc.rs\<close> and
  the signature wrappers of \<open>crypto/bls\<close> they call. A method that reads a cache is modelled as the
  computation it caches.
\<close>

section \<open>Slots and epochs\<close>

definition compute_epoch_at_slot :: "u64 \<Rightarrow> u64" where
  "compute_epoch_at_slot slot = slot div SLOTS_PER_EPOCH"

definition compute_start_slot_at_epoch :: "u64 \<Rightarrow> u64" where
  "compute_start_slot_at_epoch epoch = epoch * SLOTS_PER_EPOCH"

definition compute_activation_exit_epoch :: "u64 \<Rightarrow> u64" where
  "compute_activation_exit_epoch epoch = epoch + 1 + MAX_SEED_LOOKAHEAD"

definition get_current_epoch :: "beacon_state \<Rightarrow> u64" where
  "get_current_epoch s = compute_epoch_at_slot (bs_slot s)"

definition get_previous_epoch :: "beacon_state \<Rightarrow> u64" where
  "get_previous_epoch s =
     (let current_epoch = get_current_epoch s
      in if current_epoch = GENESIS_EPOCH then GENESIS_EPOCH else current_epoch - 1)"

section \<open>Validators\<close>

text \<open>The first byte of a withdrawal credential.\<close>

definition credential_prefix :: "b256 \<Rightarrow> byte" where
  "credential_prefix wc = b256_bytes wc ! 0"

definition has_eth1_withdrawal_credential :: "beacon_validator \<Rightarrow> bool" where
  "has_eth1_withdrawal_credential v \<longleftrightarrow>
     credential_prefix (withdrawal_credentials v) = ETH1_ADDRESS_WITHDRAWAL_PREFIX"

definition is_compounding_withdrawal_credential :: "b256 \<Rightarrow> bool" where
  "is_compounding_withdrawal_credential wc \<longleftrightarrow> credential_prefix wc = COMPOUNDING_WITHDRAWAL_PREFIX"

definition has_compounding_withdrawal_credential :: "beacon_validator \<Rightarrow> bool" where
  "has_compounding_withdrawal_credential v \<longleftrightarrow>
     is_compounding_withdrawal_credential (withdrawal_credentials v)"

definition has_execution_withdrawal_credential :: "beacon_validator \<Rightarrow> bool" where
  "has_execution_withdrawal_credential v \<longleftrightarrow>
     has_compounding_withdrawal_credential v \<or> has_eth1_withdrawal_credential v"

definition get_max_effective_balance :: "beacon_validator \<Rightarrow> u64" where
  "get_max_effective_balance v =
     (if has_compounding_withdrawal_credential v then MAX_EFFECTIVE_BALANCE_ELECTRA
      else MIN_ACTIVATION_BALANCE)"

definition is_fully_withdrawable_validator :: "beacon_validator \<Rightarrow> u64 \<Rightarrow> u64 \<Rightarrow> bool" where
  "is_fully_withdrawable_validator v balance epoch \<longleftrightarrow>
     has_execution_withdrawal_credential v \<and> withdrawable_epoch v \<le> epoch \<and> balance > 0"

definition is_partially_withdrawable_validator :: "beacon_validator \<Rightarrow> u64 \<Rightarrow> bool" where
  "is_partially_withdrawable_validator v balance \<longleftrightarrow>
     (let max_effective_balance = get_max_effective_balance v
      in has_execution_withdrawal_credential v \<and> effective_balance v = max_effective_balance
         \<and> balance > max_effective_balance)"

definition is_slashable_validator :: "beacon_validator \<Rightarrow> u64 \<Rightarrow> bool" where
  "is_slashable_validator v epoch \<longleftrightarrow>
     \<not> slashed v \<and> activation_epoch v \<le> epoch \<and> epoch < withdrawable_epoch v"

definition is_active_validator :: "beacon_validator \<Rightarrow> u64 \<Rightarrow> bool" where
  "is_active_validator v epoch \<longleftrightarrow> activation_epoch v \<le> epoch \<and> epoch < exit_epoch v"

definition is_eligible_for_activation_queue :: "beacon_validator \<Rightarrow> bool" where
  "is_eligible_for_activation_queue v \<longleftrightarrow>
     activation_eligibility_epoch v = FAR_FUTURE_EPOCH \<and> effective_balance v \<ge> MIN_ACTIVATION_BALANCE"

definition is_eligible_for_rewards :: "beacon_validator \<Rightarrow> u64 \<Rightarrow> bool" where
  "is_eligible_for_rewards v previous_epoch \<longleftrightarrow>
     is_active_validator v previous_epoch
     \<or> (slashed v \<and> previous_epoch + 1 < withdrawable_epoch v)"

section \<open>Roots, mixes and seeds\<close>

definition get_block_root_at_slot :: "beacon_state \<Rightarrow> u64 \<Rightarrow> beacon_error + b256" where
  "get_block_root_at_slot s slot =
     and_then (require (slot < bs_slot s \<and> bs_slot s \<le> slot + SLOTS_PER_HISTORICAL_ROOT)
       ''slot given was outside of block_roots range'') (\<lambda>_.
     idx (bs_block_roots s) (unat (slot mod SLOTS_PER_HISTORICAL_ROOT)))"

definition get_block_root :: "beacon_state \<Rightarrow> u64 \<Rightarrow> beacon_error + b256" where
  "get_block_root s epoch = get_block_root_at_slot s (compute_start_slot_at_epoch epoch)"

definition get_randao_mix :: "beacon_state \<Rightarrow> u64 \<Rightarrow> beacon_error + b256" where
  "get_randao_mix s epoch = idx (bs_randao_mixes s) (unat (epoch mod EPOCHS_PER_HISTORICAL_VECTOR))"

definition b32_bytes :: "b32 \<Rightarrow> byte list" where
  "b32_bytes w = map (\<lambda>i. ucast (drop_bit (8 * (3 - i)) w)) [0..<4]"

definition le_bytes8 :: "u64 \<Rightarrow> byte list" where
  "le_bytes8 w = map (\<lambda>i. ucast (drop_bit (8 * i) w)) [0..<8]"

definition b256_of_bytes :: "byte list \<Rightarrow> b256" where
  "b256_of_bytes bs = foldl (\<lambda>acc b. acc * 256 + ucast b) 0 bs"

definition get_seed :: "beacon_env \<Rightarrow> beacon_state \<Rightarrow> u64 \<Rightarrow> b32 \<Rightarrow> beacon_error + b256" where
  "get_seed E s epoch domain_type =
     and_then (get_randao_mix s (epoch + EPOCHS_PER_HISTORICAL_VECTOR - MIN_SEED_LOOKAHEAD - 1)) (\<lambda>mix.
     Inr (be_hash E (b32_bytes domain_type @ le_bytes8 epoch @ b256_bytes mix)))"

section \<open>Committees\<close>

definition get_active_validator_indices :: "beacon_state \<Rightarrow> u64 \<Rightarrow> u64 list" where
  "get_active_validator_indices s epoch =
     map (\<lambda>(i, v). of_nat i)
       (filter (\<lambda>(i, v). is_active_validator v epoch) (List.enumerate 0 (bs_validators s)))"

definition get_validator_churn_limit :: "beacon_state \<Rightarrow> u64" where
  "get_validator_churn_limit s =
     max MIN_PER_EPOCH_CHURN_LIMIT
       (of_nat (length (get_active_validator_indices s (get_current_epoch s))) div CHURN_LIMIT_QUOTIENT)"

definition committee_count_per_slot :: "nat \<Rightarrow> u64" where
  "committee_count_per_slot active_validator_count =
     min (max (of_nat active_validator_count div SLOTS_PER_EPOCH div TARGET_COMMITTEE_SIZE) 1)
       MAX_COMMITTEES_PER_SLOT"

text \<open>\<open>xs[a..b].to_vec()\<close>\<close>

definition sub_slice :: "'a list \<Rightarrow> nat \<Rightarrow> nat \<Rightarrow> beacon_error + 'a list" where
  "sub_slice xs a b = (if a \<le> b \<and> b \<le> length xs then Inr (take (b - a) (drop a xs)) else Inl Panic)"

definition committee_in_shuffling :: "u64 list \<Rightarrow> u64 \<Rightarrow> u64 \<Rightarrow> beacon_error + u64 list" where
  "committee_in_shuffling shuffled slot index =
     (let committees_per_slot = committee_count_per_slot (length shuffled);
          cnt = committees_per_slot * SLOTS_PER_EPOCH;
          committee = (slot mod SLOTS_PER_EPOCH) * committees_per_slot + index
      in and_then (require (committee < cnt) ''Committee index is out of range'') (\<lambda>_.
         let len = of_nat (length shuffled);
             start = unat (len * committee div cnt);
             stop = unat (len * (committee + 1) div cnt)
         in sub_slice shuffled start stop))"

definition get_shuffled_active_validator_indices :: "beacon_env \<Rightarrow> beacon_state \<Rightarrow> u64 \<Rightarrow> beacon_error + u64 list" where
  "get_shuffled_active_validator_indices E s epoch =
     and_then (get_seed E s epoch DOMAIN_BEACON_ATTESTER) (\<lambda>seed.
     Inr (compute_shuffled_list (be_hash E) (get_active_validator_indices s epoch) seed))"

definition get_committee_count_per_slot :: "beacon_env \<Rightarrow> beacon_state \<Rightarrow> u64 \<Rightarrow> beacon_error + u64" where
  "get_committee_count_per_slot E s epoch =
     and_then (get_shuffled_active_validator_indices E s epoch) (\<lambda>shuffled.
     Inr (committee_count_per_slot (length shuffled)))"

definition get_beacon_committee :: "beacon_env \<Rightarrow> beacon_state \<Rightarrow> u64 \<Rightarrow> u64 \<Rightarrow> beacon_error + u64 list" where
  "get_beacon_committee E s slot index =
     and_then (get_shuffled_active_validator_indices E s (compute_epoch_at_slot slot)) (\<lambda>shuffled.
     committee_in_shuffling shuffled slot index)"

definition get_committee_indices :: "bool list \<Rightarrow> u64 list" where
  "get_committee_indices committee_bits =
     map (\<lambda>(i, b). of_nat i) (filter snd (List.enumerate 0 committee_bits))"

section \<open>Proposers\<close>

text \<open>One round of the sampling loop: the candidate and whether it is taken.\<close>

definition proposer_candidate ::
  "beacon_env \<Rightarrow> beacon_state \<Rightarrow> u64 list \<Rightarrow> b256 \<Rightarrow> nat \<Rightarrow> beacon_error + (u64 \<times> bool)" where
  "proposer_candidate E s indices seed i =
     (let total = length indices in
      and_then (map_err (\<lambda>_. Anyhow ''Index must be less than index_count'')
        (compute_shuffled_index (be_hash E) (i mod total) total seed)) (\<lambda>shuffled_index.
      and_then (idx indices shuffled_index) (\<lambda>candidate_index.
      let random_bytes = b256_bytes (be_hash E (b256_bytes seed @ le_bytes8 (of_nat (i div 16))));
          offset = i mod 16 * 2;
          random_value = bytes_to_int64 (take 2 (drop offset random_bytes))
      in and_then (idx (bs_validators s) (unat candidate_index)) (\<lambda>v.
         Inr (candidate_index,
              effective_balance v * MAX_RANDOM_VALUE \<ge> MAX_EFFECTIVE_BALANCE_ELECTRA * random_value)))))"

partial_function (option) proposer_loop ::
  "beacon_env \<Rightarrow> beacon_state \<Rightarrow> u64 list \<Rightarrow> b256 \<Rightarrow> nat \<Rightarrow> (beacon_error + u64) option" where
  "proposer_loop E s indices seed i =
     (case proposer_candidate E s indices seed i of
        Inl e \<Rightarrow> Some (Inl e)
      | Inr (candidate_index, taken) \<Rightarrow>
          if taken then Some (Inr candidate_index) else proposer_loop E s indices seed (i + 1))"

definition compute_proposer_index :: "beacon_env \<Rightarrow> beacon_state \<Rightarrow> u64 list \<Rightarrow> b256 \<Rightarrow> beacon_error + u64" where
  "compute_proposer_index E s indices seed =
     and_then (require (indices \<noteq> []) ''Index must be less than index_count'') (\<lambda>_.
     case proposer_loop E s indices seed 0 of None \<Rightarrow> Inl Hangs | Some r \<Rightarrow> r)"

definition get_beacon_proposer_index :: "beacon_env \<Rightarrow> beacon_state \<Rightarrow> u64 option \<Rightarrow> beacon_error + u64" where
  "get_beacon_proposer_index E s slot_opt =
     (let (epoch, slot) = (case slot_opt of
            Some slot \<Rightarrow> (compute_epoch_at_slot slot, slot)
          | None \<Rightarrow> (get_current_epoch s, bs_slot s));
          start_slot = compute_start_slot_at_epoch (get_current_epoch s)
      in case (if slot \<ge> start_slot then list_get (bs_proposer_lookahead s) (unat (slot - start_slot)) else None) of
           Some proposer_index \<Rightarrow> Inr proposer_index
         | None \<Rightarrow>
             and_then (get_seed E s epoch DOMAIN_BEACON_PROPOSER) (\<lambda>epoch_seed.
             let seed = be_hash E (b256_bytes epoch_seed @ le_bytes8 slot);
                 indices = get_active_validator_indices s epoch
             in compute_proposer_index E s indices seed))"

definition compute_proposer_indices ::
  "beacon_env \<Rightarrow> beacon_state \<Rightarrow> u64 \<Rightarrow> b256 \<Rightarrow> u64 list \<Rightarrow> beacon_error + u64 list" where
  "compute_proposer_indices E s epoch seed indices =
     (let start_slot = compute_start_slot_at_epoch epoch in
      try_map (\<lambda>i. let slot = start_slot + i;
                       seed_for_slot = be_hash E (b256_bytes seed @ le_bytes8 slot)
                   in compute_proposer_index E s indices seed_for_slot)
        (u64_range 0 SLOTS_PER_EPOCH))"

definition get_beacon_proposer_indices :: "beacon_env \<Rightarrow> beacon_state \<Rightarrow> u64 \<Rightarrow> beacon_error + u64 list" where
  "get_beacon_proposer_indices E s epoch =
     (let indices = get_active_validator_indices s epoch in
      and_then (get_seed E s epoch DOMAIN_BEACON_PROPOSER) (\<lambda>seed.
      compute_proposer_indices E s epoch seed indices))"

section \<open>Balances\<close>

text \<open>The set of indices is a list without duplicates.\<close>

definition get_total_balance :: "beacon_state \<Rightarrow> u64 list \<Rightarrow> beacon_error + u64" where
  "get_total_balance s indices =
     and_then (try_map (\<lambda>i. and_then (idx (bs_validators s) (unat i)) (\<lambda>v. Inr (effective_balance v))) indices)
       (\<lambda>bals. Inr (max EFFECTIVE_BALANCE_INCREMENT (sum_list bals)))"

definition get_total_active_balance :: "beacon_state \<Rightarrow> beacon_error + u64" where
  "get_total_active_balance s =
     get_total_balance s (remdups (get_active_validator_indices s (get_current_epoch s)))"

section \<open>Domains and signatures\<close>

definition compute_domain :: "beacon_env \<Rightarrow> b32 \<Rightarrow> b32 option \<Rightarrow> b256 option \<Rightarrow> b256" where
  "compute_domain E domain_type fork_version validators_root =
     (let fork_data_root = root_fork_data E (case fork_version of Some v \<Rightarrow> v | None \<Rightarrow> GENESIS_FORK_VERSION)
                             (case validators_root of Some r \<Rightarrow> r | None \<Rightarrow> 0)
      in b256_of_bytes (b32_bytes domain_type @ take 28 (b256_bytes fork_data_root)))"

text \<open>\<open>compute_signing_root\<close>, given the root of the object.\<close>

definition compute_signing_root :: "beacon_env \<Rightarrow> b256 \<Rightarrow> b256 \<Rightarrow> b256" where
  "compute_signing_root E object_root domain = root_signing_data E object_root domain"

definition get_domain :: "beacon_env \<Rightarrow> beacon_state \<Rightarrow> b32 \<Rightarrow> u64 option \<Rightarrow> b256" where
  "get_domain E s domain_type epoch_opt =
     (let epoch = (case epoch_opt of Some epoch \<Rightarrow> epoch | None \<Rightarrow> get_current_epoch s);
          fork_version = (if epoch < fork_epoch (bs_fork s) then previous_version (bs_fork s)
                          else current_version (bs_fork s))
      in compute_domain E domain_type (Some fork_version) (Some (bs_genesis_validators_root s)))"

definition voluntary_exit_domain :: "beacon_env \<Rightarrow> b256 \<Rightarrow> b256" where
  "voluntary_exit_domain E validators_root =
     compute_domain E DOMAIN_VOLUNTARY_EXIT (Some (capella_fork_version E)) (Some validators_root)"

definition bls_verify :: "beacon_env \<Rightarrow> bls_signature \<Rightarrow> bls_public_key \<Rightarrow> b256 \<Rightarrow> beacon_error + bool" where
  "bls_verify E sg public_key message =
     and_then (require (blst_signature_ok E sg) ''BlstError'') (\<lambda>_.
     and_then (require (blst_key_ok E public_key) ''BlstError'') (\<lambda>_.
     Inr (blst_verify E sg message public_key)))"

definition bls_fast_aggregate_verify ::
  "beacon_env \<Rightarrow> bls_signature \<Rightarrow> bls_public_key list \<Rightarrow> b256 \<Rightarrow> beacon_error + bool" where
  "bls_fast_aggregate_verify E sg keys message =
     and_then (require (blst_signature_ok E sg) ''BlstError'') (\<lambda>_.
     and_then (require (list_all (blst_key_ok E) keys) ''BlstError'') (\<lambda>_.
     Inr (blst_fast_aggregate_verify E sg message keys)))"

definition aggregate_keys :: "beacon_env \<Rightarrow> bls_public_key list \<Rightarrow> beacon_error + bls_public_key" where
  "aggregate_keys E keys =
     and_then (require (list_all (blst_key_ok E) keys) ''BlstError'') (\<lambda>_.
     ok_or (blst_aggregate_keys E keys) (Anyhow ''Failed to aggregate and validate public keys''))"

definition infinity_signature :: bls_signature where
  "infinity_signature = push_bit 760 0xc0"

definition eth_fast_aggregate_verify ::
  "beacon_env \<Rightarrow> bls_public_key list \<Rightarrow> b256 \<Rightarrow> bls_signature \<Rightarrow> beacon_error + bool" where
  "eth_fast_aggregate_verify E keys message sg =
     (if keys = [] \<and> sg = infinity_signature then Inr True
      else bls_fast_aggregate_verify E sg keys message)"

definition eth_aggregate_public_keys :: "beacon_env \<Rightarrow> bls_public_key list \<Rightarrow> beacon_error + bls_public_key" where
  "eth_aggregate_public_keys E keys =
     and_then (require (keys \<noteq> []) ''Public keys list cannot be empty'') (\<lambda>_. aggregate_keys E keys)"

definition is_valid_deposit_signature ::
  "beacon_env \<Rightarrow> bls_public_key \<Rightarrow> b256 \<Rightarrow> u64 \<Rightarrow> bls_signature \<Rightarrow> beacon_error + bool" where
  "is_valid_deposit_signature E public_key credentials amount sg =
     (let message = \<lparr> dm_public_key = public_key, dm_withdrawal_credentials = credentials, dm_amount = amount \<rparr>;
          domain = compute_domain E DOMAIN_DEPOSIT (Some (genesis_fork_version E)) None;
          signing_root = compute_signing_root E (root_deposit_message E message) domain
      in bls_verify E sg public_key signing_root)"

section \<open>Attestations\<close>

definition is_sorted_and_unique :: "nat list \<Rightarrow> bool" where
  "is_sorted_and_unique indices = list_all (\<lambda>(a, b). a < b) (zip indices (tl indices))"

definition is_valid_indexed_attestation :: "beacon_env \<Rightarrow> beacon_state \<Rightarrow> indexed_attestation \<Rightarrow> beacon_error + bool" where
  "is_valid_indexed_attestation E s ia =
     (let indices = map unat (attesting_indices ia) in
      if indices = [] \<or> \<not> is_sorted_and_unique indices then Inr False
      else
        (let domain = get_domain E s DOMAIN_BEACON_ATTESTER (Some (cp_epoch (bad_target (ia_data ia))));
             signing_root = compute_signing_root E (root_attestation_data E (ia_data ia)) domain
         in and_then (try_map (\<lambda>i. and_then (get_or (bs_validators s) i ''Invalid index'') (\<lambda>v. Inr (v_public_key v))) indices) (\<lambda>keys.
            bls_fast_aggregate_verify E (ia_signature ia) keys signing_root)))"

text \<open>The attesters of one committee, whose bits start at \<open>committee_offset\<close>.\<close>

definition committee_attesters ::
  "beacon_env \<Rightarrow> beacon_state \<Rightarrow> beacon_attestation \<Rightarrow> u64 list \<times> nat \<Rightarrow> u64 \<Rightarrow> beacon_error + (u64 list \<times> nat)" where
  "committee_attesters E s a = (\<lambda>(output, committee_offset) committee_index.
     and_then (get_beacon_committee E s (bad_slot (ba_data a)) committee_index) (\<lambda>committee.
     and_then (try_fold (\<lambda>out (i, attester_index).
         and_then (get_or (ba_aggregation_bits a) (committee_offset + i) ''Failed to get aggregation_bit'') (\<lambda>bit.
         Inr (if bit then List.insert attester_index out else out)))
       output (List.enumerate 0 committee)) (\<lambda>output'.
     Inr (output', committee_offset + length committee))))"

definition get_attesting_indices :: "beacon_env \<Rightarrow> beacon_state \<Rightarrow> beacon_attestation \<Rightarrow> beacon_error + u64 list" where
  "get_attesting_indices E s a =
     and_then (try_fold (committee_attesters E s a) ([], 0) (get_committee_indices (ba_committee_bits a)))
       (\<lambda>(output, _). Inr output)"

definition get_indexed_attestation :: "beacon_env \<Rightarrow> beacon_state \<Rightarrow> beacon_attestation \<Rightarrow> beacon_error + indexed_attestation" where
  "get_indexed_attestation E s a =
     and_then (get_attesting_indices E s a) (\<lambda>indices.
     and_then (require (list_fits E 131072 (length indices)) ''Failed to convert attesting_indices to VariableList'') (\<lambda>_.
     Inr \<lparr> attesting_indices = sort indices, ia_data = ba_data a, ia_signature = ba_signature a \<rparr>))"

definition is_slashable_attestation_data :: "beacon_attestation_data \<Rightarrow> beacon_attestation_data \<Rightarrow> bool" where
  "is_slashable_attestation_data data_1 data_2 \<longleftrightarrow>
     (data_1 \<noteq> data_2 \<and> cp_epoch (bad_target data_1) = cp_epoch (bad_target data_2))
     \<or> (cp_epoch (bad_source data_1) < cp_epoch (bad_source data_2)
        \<and> cp_epoch (bad_target data_2) < cp_epoch (bad_target data_1))"

end
