(* ===== verification/Beacon_Mutators.thy ===== *)
theory Beacon_Mutators
  imports Beacon_Accessors
begin

text \<open>
  The building blocks of \<open>electra/beacon_state.rs\<close> that change the state: balances, the churn of exits
  and consolidations, exits, slashings, new validators and the lookup of validators by public key.
  A method that fails returns the error; its caller drops the state, so only the state of a
  successful run is kept.
\<close>

section \<open>Integers\<close>

text \<open>Division panics on zero.\<close>

definition div_u64 :: "u64 \<Rightarrow> u64 \<Rightarrow> beacon_error + u64" where
  "div_u64 a b = (if b = 0 then Inl Panic else Inr (a div b))"

definition mod_u64 :: "u64 \<Rightarrow> u64 \<Rightarrow> beacon_error + u64" where
  "mod_u64 a b = (if b = 0 then Inl Panic else Inr (a mod b))"

definition checked_add :: "u64 \<Rightarrow> u64 \<Rightarrow> u64 option" where
  "checked_add a b = (if unat a + unat b < 2 ^ 64 then Some (a + b) else None)"

text \<open>Newton's iteration, which stops when it no longer decreases.\<close>

function squareroot_loop :: "u64 \<Rightarrow> u64 \<Rightarrow> u64 \<Rightarrow> u64" where
  "squareroot_loop n x y = (if y < x then squareroot_loop n y ((y + n div y) div 2) else x)"
  by auto
termination
  by (relation "measure (\<lambda>(n, x, y). unat x)") (auto simp: word_less_nat_alt)

declare squareroot_loop.simps [simp del]

definition integer_squareroot :: "u64 \<Rightarrow> u64" where
  "integer_squareroot n =
     (if n = UINT64_MAX then UINT64_MAX_SQRT else squareroot_loop n n (div_ceil n 2))"

section \<open>Balances\<close>

definition increase_balance :: "u64 \<Rightarrow> u64 \<Rightarrow> beacon_state \<Rightarrow> beacon_error + beacon_state" where
  "increase_balance index delta s =
     and_then (get_or (bs_balances s) (unat index) ''failed to increase balance'') (\<lambda>balance.
     Inr (s\<lparr> bs_balances := (bs_balances s)[unat index := balance + delta] \<rparr>))"

definition decrease_balance :: "u64 \<Rightarrow> u64 \<Rightarrow> beacon_state \<Rightarrow> beacon_error + beacon_state" where
  "decrease_balance index delta s =
     and_then (get_or (bs_balances s) (unat index) ''failed to decrease balance'') (\<lambda>balance.
     Inr (s\<lparr> bs_balances := (bs_balances s)[unat index := saturating_sub balance delta] \<rparr>))"

section \<open>Churn\<close>

definition get_balance_churn_limit :: "beacon_state \<Rightarrow> beacon_error + u64" where
  "get_balance_churn_limit s =
     and_then (get_total_active_balance s) (\<lambda>total.
     let churn = max MIN_PER_EPOCH_CHURN_LIMIT_ELECTRA (total div CHURN_LIMIT_QUOTIENT)
     in Inr (churn - churn mod EFFECTIVE_BALANCE_INCREMENT))"

definition get_activation_exit_churn_limit :: "beacon_state \<Rightarrow> beacon_error + u64" where
  "get_activation_exit_churn_limit s =
     and_then (get_balance_churn_limit s) (\<lambda>limit.
     Inr (min MAX_PER_EPOCH_ACTIVATION_EXIT_CHURN_LIMIT limit))"

definition get_consolidation_churn_limit :: "beacon_state \<Rightarrow> beacon_error + u64" where
  "get_consolidation_churn_limit s =
     and_then (get_balance_churn_limit s) (\<lambda>limit.
     and_then (get_activation_exit_churn_limit s) (\<lambda>exit_limit.
     Inr (limit - exit_limit)))"

definition compute_exit_epoch_and_update_churn ::
  "u64 \<Rightarrow> beacon_state \<Rightarrow> beacon_error + (u64 \<times> beacon_state)" where
  "compute_exit_epoch_and_update_churn exit_balance s =
     (let earliest = max (bs_earliest_exit_epoch s) (compute_activation_exit_epoch (get_current_epoch s)) in
      and_then (get_activation_exit_churn_limit s) (\<lambda>per_epoch_churn.
      let to_consume = (if bs_earliest_exit_epoch s < earliest then per_epoch_churn
                        else bs_exit_balance_to_consume s)
      in
      and_then
        (if exit_balance > to_consume
         then (let balance_to_process = exit_balance - to_consume in
               and_then (div_u64 (balance_to_process - 1) per_epoch_churn) (\<lambda>q.
               let additional_epochs = q + 1
               in Inr (earliest + additional_epochs, to_consume + additional_epochs * per_epoch_churn)))
         else Inr (earliest, to_consume))
        (\<lambda>(earliest', to_consume').
      Inr (earliest', s\<lparr> bs_exit_balance_to_consume := to_consume' - exit_balance,
                         bs_earliest_exit_epoch := earliest' \<rparr>))))"

definition compute_consolidation_epoch_and_update_churn ::
  "u64 \<Rightarrow> beacon_state \<Rightarrow> beacon_error + (u64 \<times> beacon_state)" where
  "compute_consolidation_epoch_and_update_churn consolidation_balance s =
     (let earliest = max (bs_earliest_consolidation_epoch s) (compute_activation_exit_epoch (get_current_epoch s)) in
      and_then (get_consolidation_churn_limit s) (\<lambda>per_epoch_churn.
      let to_consume = (if bs_earliest_consolidation_epoch s < earliest then per_epoch_churn
                        else bs_consolidation_balance_to_consume s)
      in
      and_then
        (if consolidation_balance > to_consume
         then (let balance_to_process = consolidation_balance - to_consume in
               and_then (div_u64 (balance_to_process - 1) per_epoch_churn) (\<lambda>q.
               let additional_epochs = q + 1
               in Inr (earliest + additional_epochs, to_consume + additional_epochs * per_epoch_churn)))
         else Inr (earliest, to_consume))
        (\<lambda>(earliest', to_consume').
      Inr (earliest', s\<lparr> bs_consolidation_balance_to_consume := to_consume' - consolidation_balance,
                         bs_earliest_consolidation_epoch := earliest' \<rparr>))))"

section \<open>Exits and slashings\<close>

text \<open>Changing one validator in place.\<close>

definition update_validator :: "nat \<Rightarrow> (beacon_validator \<Rightarrow> beacon_validator) \<Rightarrow> beacon_state \<Rightarrow> beacon_state" where
  "update_validator i f s = s\<lparr> bs_validators := (bs_validators s)[i := f (bs_validators s ! i)] \<rparr>"

definition initiate_validator_exit :: "u64 \<Rightarrow> beacon_state \<Rightarrow> beacon_error + beacon_state" where
  "initiate_validator_exit index s =
     and_then (get_or (bs_validators s) (unat index) ''could not get validator'') (\<lambda>v.
     if exit_epoch v \<noteq> FAR_FUTURE_EPOCH then Inr s
     else
       and_then (compute_exit_epoch_and_update_churn (effective_balance v) s) (\<lambda>(exit_queue_epoch, s1).
       and_then (ok_or (checked_add exit_queue_epoch MIN_VALIDATOR_WITHDRAWABILITY_DELAY)
         (Anyhow ''Failed to set withdrawable epoch'')) (\<lambda>withdrawable.
       Inr (update_validator (unat index)
              (\<lambda>v. v\<lparr> exit_epoch := exit_queue_epoch, withdrawable_epoch := withdrawable \<rparr>) s1))))"

definition slash_validator :: "beacon_env \<Rightarrow> u64 \<Rightarrow> u64 option \<Rightarrow> beacon_state \<Rightarrow> beacon_error + beacon_state" where
  "slash_validator E slashed_index whistleblower s =
     (let epoch = get_current_epoch s in
      and_then (initiate_validator_exit slashed_index s) (\<lambda>s1.
      and_then (get_or (bs_validators s1) (unat slashed_index) ''Validator not found'') (\<lambda>v.
      let s2 = update_validator (unat slashed_index)
                 (\<lambda>v. v\<lparr> slashed := True,
                         withdrawable_epoch := max (withdrawable_epoch v) (epoch + EPOCHS_PER_SLASHINGS_VECTOR) \<rparr>) s1;
          validator_effective_balance = effective_balance v;
          si = unat (epoch mod EPOCHS_PER_SLASHINGS_VECTOR)
      in
      and_then (idx (bs_slashings s2) si) (\<lambda>sl.
      let s3 = s2\<lparr> bs_slashings := (bs_slashings s2)[si := sl + validator_effective_balance] \<rparr> in
      and_then (decrease_balance slashed_index
        (validator_effective_balance div MIN_SLASHING_PENALTY_QUOTIENT_ELECTRA) s3) (\<lambda>s4.
      and_then (get_beacon_proposer_index E s4 None) (\<lambda>proposer_index.
      let whistleblower_index = (case whistleblower of Some w \<Rightarrow> w | None \<Rightarrow> proposer_index);
          whistleblower_reward = validator_effective_balance div WHISTLEBLOWER_REWARD_QUOTIENT_ELECTRA;
          proposer_reward = whistleblower_reward * PROPOSER_WEIGHT div WEIGHT_DENOMINATOR
      in
      and_then (increase_balance proposer_index proposer_reward s4) (\<lambda>s5.
      increase_balance whistleblower_index (whistleblower_reward - proposer_reward) s5)))))))"

section \<open>The registry\<close>

definition get_validator_from_deposit :: "bls_public_key \<Rightarrow> b256 \<Rightarrow> u64 \<Rightarrow> beacon_validator" where
  "get_validator_from_deposit public_key credentials amount =
     (let v = \<lparr> v_public_key = public_key, withdrawal_credentials = credentials,
               effective_balance = 0, slashed = False,
               activation_eligibility_epoch = FAR_FUTURE_EPOCH, activation_epoch = FAR_FUTURE_EPOCH,
               exit_epoch = FAR_FUTURE_EPOCH, withdrawable_epoch = FAR_FUTURE_EPOCH \<rparr>
      in v\<lparr> effective_balance := min (amount - amount mod EFFECTIVE_BALANCE_INCREMENT) (get_max_effective_balance v) \<rparr>)"

definition add_validator_to_registry ::
  "beacon_env \<Rightarrow> bls_public_key \<Rightarrow> b256 \<Rightarrow> u64 \<Rightarrow> beacon_state \<Rightarrow> beacon_error + beacon_state" where
  "add_validator_to_registry E public_key credentials amount s =
     and_then (require (length (bs_validators s) < ValidatorRegistryLimit) ''Couldn't push to validators'') (\<lambda>_.
     let vs = bs_validators s @ [get_validator_from_deposit public_key credentials amount] in
     and_then (vl_push E ValidatorRegistryLimit ''Couldn't push to balances'' (bs_balances s) amount) (\<lambda>bals.
     and_then (vl_push E ValidatorRegistryLimit ''Couldn't push to previous_epoch_participation''
       (bs_previous_epoch_participation s) 0) (\<lambda>prev.
     and_then (vl_push E ValidatorRegistryLimit ''Couldn't push to current_epoch_participation''
       (bs_current_epoch_participation s) 0) (\<lambda>cur.
     and_then (vl_push E ValidatorRegistryLimit ''Couldn't push to inactivity_scores''
       (bs_inactivity_scores s) 0) (\<lambda>scores.
     Inr (s\<lparr> bs_validators := vs, bs_balances := bals, bs_previous_epoch_participation := prev,
            bs_current_epoch_participation := cur, bs_inactivity_scores := scores \<rparr>))))))"

definition push_pending_deposit :: "beacon_env \<Rightarrow> string \<Rightarrow> pending_deposit \<Rightarrow> beacon_state \<Rightarrow> beacon_error + beacon_state" where
  "push_pending_deposit E msg d s =
     and_then (vl_push E PENDING_DEPOSITS_CAPACITY msg (bs_pending_deposits s) d) (\<lambda>ds.
     Inr (s\<lparr> bs_pending_deposits := ds \<rparr>))"

definition queue_excess_active_balance :: "beacon_env \<Rightarrow> u64 \<Rightarrow> beacon_state \<Rightarrow> beacon_error + beacon_state" where
  "queue_excess_active_balance E index s =
     and_then (get_or (bs_balances s) (unat index) ''Balance index out of bounds'') (\<lambda>balance.
     if balance > MIN_ACTIVATION_BALANCE
     then (let excess_balance = balance - MIN_ACTIVATION_BALANCE;
               s1 = s\<lparr> bs_balances := (bs_balances s)[unat index := MIN_ACTIVATION_BALANCE] \<rparr>
           in and_then (get_or (bs_validators s1) (unat index) ''Validator index out of bounds'') (\<lambda>v.
              push_pending_deposit E ''Failed to push excess active balance to pending deposits''
                \<lparr> pd_public_key = v_public_key v, pd_withdrawal_credentials = withdrawal_credentials v,
                  pd_amount = excess_balance, pd_signature = infinity_signature, pd_slot = GENESIS_SLOT \<rparr> s1))
     else Inr s)"

text \<open>The credential with its first byte replaced by the compounding prefix.\<close>

definition compounding_credential :: "b256 \<Rightarrow> b256" where
  "compounding_credential wc = b256_of_bytes (COMPOUNDING_WITHDRAWAL_PREFIX # drop 1 (b256_bytes wc))"

definition switch_to_compounding_validator :: "beacon_env \<Rightarrow> u64 \<Rightarrow> beacon_state \<Rightarrow> beacon_error + beacon_state" where
  "switch_to_compounding_validator E index s =
     and_then (get_or (bs_validators s) (unat index) ''Validator index out of bounds'') (\<lambda>v.
     queue_excess_active_balance E index
       (update_validator (unat index)
         (\<lambda>v. v\<lparr> withdrawal_credentials := compounding_credential (withdrawal_credentials v) \<rparr>) s))"

definition get_pending_balance_to_withdraw :: "beacon_state \<Rightarrow> u64 \<Rightarrow> u64" where
  "get_pending_balance_to_withdraw s validator_index =
     sum_list (map pw_amount
       (filter (\<lambda>w. pw_validator_index w = validator_index) (bs_pending_partial_withdrawals s)))"

section \<open>Lookup by public key\<close>

text \<open>The registry is stored in chunks, which are scanned in parallel; the results keep the order.\<close>

definition CHUNK_SIZE :: nat where
  "CHUNK_SIZE = 1024"

fun chunks_of :: "nat \<Rightarrow> 'a list \<Rightarrow> 'a list list" where
  "chunks_of n xs = (if n = 0 \<or> xs = [] then [] else take n xs # chunks_of n (drop n xs))"

declare chunks_of.simps [simp del]

text \<open>\<open>parallel_map\<close> on \<open>threads\<close> cores: the workers' results are joined in order.\<close>

definition parallel_map :: "nat \<Rightarrow> nat \<Rightarrow> ('a \<Rightarrow> 'b) \<Rightarrow> 'a list \<Rightarrow> 'b list" where
  "parallel_map threads threshold f items =
     (if threads = 1 \<or> length items < threshold then map f items
      else concat (map (map f) (chunks_of ((length items + threads - 1) div threads) items)))"

definition public_key_prefix :: "bls_public_key \<Rightarrow> u64" where
  "public_key_prefix key = bytes_to_int64 (map (\<lambda>i. ucast (drop_bit (8 * (47 - i)) key)) [0..<8])"

definition scan_chunk ::
  "bls_public_key list \<Rightarrow> beacon_validator list list \<Rightarrow> nat \<Rightarrow> (nat \<times> bls_public_key) list" where
  "scan_chunk keys chunks chunk =
     (let prefixes = map public_key_prefix keys in
      map (\<lambda>(offset, v). (chunk * CHUNK_SIZE + offset, v_public_key v))
        (filter (\<lambda>(_, v). public_key_prefix (v_public_key v) \<in> set prefixes \<and> v_public_key v \<in> set keys)
          (List.enumerate 0 (chunks ! chunk))))"

definition find_validator_indices ::
  "beacon_env \<Rightarrow> beacon_validator list \<Rightarrow> bls_public_key list \<Rightarrow> (bls_public_key \<times> nat) list" where
  "find_validator_indices E vs keys =
     (if keys = [] then []
      else
        (let chunks = chunks_of CHUNK_SIZE vs;
             matches = concat (parallel_map (thread_count E) 2 (scan_chunk keys chunks) [0..<length chunks])
         in foldl (\<lambda>indices (index, key).
              if map_of indices key = None then (key, index) # indices else indices) [] matches))"

definition find_validator_index :: "beacon_env \<Rightarrow> beacon_validator list \<Rightarrow> bls_public_key \<Rightarrow> nat option" where
  "find_validator_index E vs key = map_of (find_validator_indices E vs [key]) key"

end
