(* ===== verification/Beacon_Epoch.thy ===== *)
theory Beacon_Epoch
  imports Beacon_Mutators
begin

text \<open>
  Epoch processing of \<open>electra/beacon_state.rs\<close>: participation, justification and finality, inactivity
  scores, rewards and penalties, the registry, slashings, pending deposits and consolidations,
  effective balances, the resets, the sync committee and the proposer lookahead.
\<close>

section \<open>Participation\<close>

definition add_flag :: "byte \<Rightarrow> byte \<Rightarrow> byte" where
  "add_flag flags flag_index = flags OR push_bit (unat flag_index) 1"

definition has_flag :: "byte \<Rightarrow> byte \<Rightarrow> bool" where
  "has_flag flags flag_index \<longleftrightarrow> (let flag = push_bit (unat flag_index) 1 in flags AND flag = flag)"

definition epoch_participation :: "beacon_state \<Rightarrow> u64 \<Rightarrow> byte list" where
  "epoch_participation s epoch =
     (if epoch = get_current_epoch s then bs_current_epoch_participation s
      else bs_previous_epoch_participation s)"

definition get_unslashed_participating_indices :: "beacon_state \<Rightarrow> byte \<Rightarrow> u64 \<Rightarrow> beacon_error + u64 list" where
  "get_unslashed_participating_indices s flag_index epoch =
     and_then (require (epoch = get_previous_epoch s \<or> epoch = get_current_epoch s)
       ''Epoch must be either the previous or current epoch'') (\<lambda>_.
     and_then (try_fold (\<lambda>acc i. and_then (idx (epoch_participation s epoch) (unat i)) (\<lambda>flags.
         Inr (if has_flag flags flag_index then acc @ [i] else acc)))
       [] (get_active_validator_indices s epoch)) (\<lambda>participating.
     and_then (try_fold (\<lambda>acc i. and_then (idx (bs_validators s) (unat i)) (\<lambda>v.
         Inr (if slashed v then acc else acc @ [i]))) [] participating) (\<lambda>unslashed.
     Inr (remdups unslashed))))"

definition participates :: "byte \<Rightarrow> u64 \<Rightarrow> beacon_validator \<times> byte \<Rightarrow> bool" where
  "participates flag_index epoch = (\<lambda>(v, flags).
     is_active_validator v epoch \<and> \<not> slashed v \<and> has_flag flags flag_index)"

definition get_unslashed_participating_mask ::
  "beacon_state \<Rightarrow> byte \<Rightarrow> u64 \<Rightarrow> beacon_error + (bool list \<times> u64)" where
  "get_unslashed_participating_mask s flag_index epoch =
     and_then (require (epoch = get_previous_epoch s \<or> epoch = get_current_epoch s)
       ''Epoch must be either the previous or current epoch'') (\<lambda>_.
     let pairs = zip (bs_validators s) (epoch_participation s epoch);
         mask = map (participates flag_index epoch) pairs;
         balance = foldl (\<lambda>balance (v, flags).
           if participates flag_index epoch (v, flags) then balance + effective_balance v else balance) 0 pairs
     in Inr (mask, max EFFECTIVE_BALANCE_INCREMENT balance))"

text \<open>\<open>sum\<close>: the balances of one chunk of the registry for the previous and the current epoch.\<close>

definition participating_sum ::
  "byte \<Rightarrow> u64 \<Rightarrow> u64 \<Rightarrow> beacon_validator list \<Rightarrow> byte list \<Rightarrow> byte list \<Rightarrow> u64 \<times> u64" where
  "participating_sum flag_index previous_epoch current_epoch vs previous current =
     foldl (\<lambda>(p, c) ((v, previous_flags), current_flags).
       if slashed v then (p, c)
       else (if is_active_validator v previous_epoch \<and> has_flag previous_flags flag_index
             then p + effective_balance v else p,
             if is_active_validator v current_epoch \<and> has_flag current_flags flag_index
             then c + effective_balance v else c))
       (0, 0) (zip (zip vs previous) current)"

definition get_unslashed_participating_balances :: "beacon_env \<Rightarrow> beacon_state \<Rightarrow> byte \<Rightarrow> u64 \<times> u64" where
  "get_unslashed_participating_balances E s flag_index =
     (let previous_epoch = get_previous_epoch s;
          current_epoch = get_current_epoch s;
          registry_chunks = chunks_of CHUNK_SIZE (bs_validators s);
          previous = bs_previous_epoch_participation s;
          current = bs_current_epoch_participation s;
          sum_chunk = (\<lambda>chunk.
            let vs = registry_chunks ! chunk;
                start = chunk * CHUNK_SIZE;
                stop = start + length vs;
                cut = (\<lambda>xs :: byte list. take (min stop (length xs) - min start (length xs)) (drop (min start (length xs)) xs))
            in participating_sum flag_index previous_epoch current_epoch vs (cut previous) (cut current));
          (p, c) = foldl (\<lambda>(tp, tc) (p, c). (tp + p, tc + c)) (0, 0)
            (parallel_map (thread_count E) 2 sum_chunk [0..<length registry_chunks])
      in (max EFFECTIVE_BALANCE_INCREMENT p, max EFFECTIVE_BALANCE_INCREMENT c))"

section \<open>Justification and finality\<close>

record justification_and_finalization =
  jf_justification_bits :: "bool list"
  jf_previous_justified_checkpoint :: beacon_checkpoint
  jf_current_justified_checkpoint :: beacon_checkpoint
  jf_finalized_checkpoint :: beacon_checkpoint

definition current_justification :: "beacon_state \<Rightarrow> justification_and_finalization" where
  "current_justification s =
     \<lparr> jf_justification_bits = bs_justification_bits s,
       jf_previous_justified_checkpoint = bs_previous_justified_checkpoint s,
       jf_current_justified_checkpoint = bs_current_justified_checkpoint s,
       jf_finalized_checkpoint = bs_finalized_checkpoint s \<rparr>"

definition apply_justification_and_finalization ::
  "justification_and_finalization \<Rightarrow> beacon_state \<Rightarrow> beacon_state" where
  "apply_justification_and_finalization outcome s =
     s\<lparr> bs_justification_bits := jf_justification_bits outcome,
        bs_previous_justified_checkpoint := jf_previous_justified_checkpoint outcome,
        bs_current_justified_checkpoint := jf_current_justified_checkpoint outcome,
        bs_finalized_checkpoint := jf_finalized_checkpoint outcome \<rparr>"

text \<open>\<open>BitVector::get\<close> and \<open>BitVector::set\<close> fail out of range.\<close>

definition set_bit_at :: "nat \<Rightarrow> bool \<Rightarrow> bool list \<Rightarrow> beacon_error + bool list" where
  "set_bit_at i b bits =
     (if i < length bits then Inr (bits[i := b]) else Inl (Anyhow ''Failed to set justification bit''))"

definition shift_bit :: "bool list \<Rightarrow> nat \<Rightarrow> beacon_error + bool list" where
  "shift_bit bits i =
     and_then (get_or bits (i - 1) ''Failed to get justification bit'') (\<lambda>bit. set_bit_at i bit bits)"

definition all_bits :: "bool list \<Rightarrow> nat \<Rightarrow> nat \<Rightarrow> beacon_error + bool" where
  "all_bits bits a b = and_then (sub_slice bits a b) (\<lambda>bs. Inr (list_all id bs))"

definition justification_outcome ::
  "beacon_state \<Rightarrow> u64 \<Rightarrow> u64 \<Rightarrow> u64 \<Rightarrow> beacon_error + justification_and_finalization" where
  "justification_outcome s total_active_balance previous_epoch_target_balance current_epoch_target_balance =
     (let previous_epoch = get_previous_epoch s;
          current_epoch = get_current_epoch s;
          old_previous = bs_previous_justified_checkpoint s;
          old_current = bs_current_justified_checkpoint s
      in
      and_then (try_fold shift_bit (bs_justification_bits s) (rev [1..<JUSTIFICATION_BITS_LENGTH])) (\<lambda>bits1.
      and_then (set_bit_at 0 False bits1) (\<lambda>bits2.
      and_then
        (if previous_epoch_target_balance * 3 \<ge> total_active_balance * 2
         then and_then (get_block_root s previous_epoch) (\<lambda>root.
              and_then (set_bit_at 1 True bits2) (\<lambda>bits.
              Inr (\<lparr> cp_epoch = previous_epoch, bcp_root = root \<rparr>, bits)))
         else Inr (old_current, bits2)) (\<lambda>(justified3, bits3).
      and_then
        (if current_epoch_target_balance * 3 \<ge> total_active_balance * 2
         then and_then (get_block_root s current_epoch) (\<lambda>root.
              and_then (set_bit_at 0 True bits3) (\<lambda>bits.
              Inr (\<lparr> cp_epoch = current_epoch, bcp_root = root \<rparr>, bits)))
         else Inr (justified3, bits3)) (\<lambda>(justified4, bits4).
      and_then (all_bits bits4 1 4) (\<lambda>b14.
      and_then (all_bits bits4 1 3) (\<lambda>b13.
      and_then (all_bits bits4 0 3) (\<lambda>b03.
      and_then (all_bits bits4 0 2) (\<lambda>b02.
      let f0 = bs_finalized_checkpoint s;
          f1 = (if b14 \<and> cp_epoch old_previous + 3 = current_epoch then old_previous else f0);
          f2 = (if b13 \<and> cp_epoch old_previous + 2 = current_epoch then old_previous else f1);
          f3 = (if b03 \<and> cp_epoch old_current + 2 = current_epoch then old_current else f2);
          f4 = (if b02 \<and> cp_epoch old_current + 1 = current_epoch then old_current else f3)
      in Inr \<lparr> jf_justification_bits = bits4, jf_previous_justified_checkpoint = old_current,
               jf_current_justified_checkpoint = justified4, jf_finalized_checkpoint = f4 \<rparr>)))))))))"

definition compute_justification_and_finalization ::
  "beacon_env \<Rightarrow> beacon_state \<Rightarrow> beacon_error + justification_and_finalization" where
  "compute_justification_and_finalization E s =
     (if get_current_epoch s \<le> GENESIS_EPOCH + 1 then Inr (current_justification s)
      else
        and_then (get_total_active_balance s) (\<lambda>total_active_balance.
        let (previous_target_balance, current_target_balance) =
              get_unslashed_participating_balances E s TIMELY_TARGET_FLAG_INDEX
        in justification_outcome s total_active_balance previous_target_balance current_target_balance))"

definition process_justification_and_finalization :: "beacon_env \<Rightarrow> beacon_state \<Rightarrow> beacon_error + beacon_state" where
  "process_justification_and_finalization E s =
     and_then (compute_justification_and_finalization E s) (\<lambda>outcome.
     Inr (apply_justification_and_finalization outcome s))"

section \<open>Inactivity\<close>

definition get_finality_delay :: "beacon_state \<Rightarrow> u64" where
  "get_finality_delay s = get_previous_epoch s - cp_epoch (bs_finalized_checkpoint s)"

definition is_in_inactivity_leak :: "beacon_state \<Rightarrow> bool" where
  "is_in_inactivity_leak s \<longleftrightarrow> get_finality_delay s > MIN_EPOCHS_TO_INACTIVITY_PENALTY"

definition get_eligible_validator_indices :: "beacon_state \<Rightarrow> u64 list" where
  "get_eligible_validator_indices s =
     (let previous_epoch = get_previous_epoch s in
      map (\<lambda>(i, v). of_nat i)
        (filter (\<lambda>(i, v). is_eligible_for_rewards v previous_epoch) (List.enumerate 0 (bs_validators s))))"

definition update_inactivity_score :: "bool list \<Rightarrow> bool \<Rightarrow> u64 list \<Rightarrow> u64 \<Rightarrow> beacon_error + u64 list" where
  "update_inactivity_score unslashed_participating leak scores index =
     and_then (idx unslashed_participating (unat index)) (\<lambda>participating.
     and_then (idx scores (unat index)) (\<lambda>score.
     let score1 = (if participating then score - min 1 score else score + INACTIVITY_SCORE_BIAS);
         score2 = (if \<not> leak then score1 - min INACTIVITY_SCORE_RECOVERY_RATE score1 else score1)
     in Inr (scores[unat index := score2])))"

definition process_inactivity_updates :: "beacon_state \<Rightarrow> beacon_error + beacon_state" where
  "process_inactivity_updates s =
     (if get_current_epoch s = GENESIS_EPOCH then Inr s
      else
        and_then (get_unslashed_participating_mask s TIMELY_TARGET_FLAG_INDEX (get_previous_epoch s))
          (\<lambda>(unslashed_participating, _).
        and_then (try_fold (update_inactivity_score unslashed_participating (is_in_inactivity_leak s))
          (bs_inactivity_scores s) (get_eligible_validator_indices s)) (\<lambda>scores.
        Inr (s\<lparr> bs_inactivity_scores := scores \<rparr>))))"

section \<open>Rewards and penalties\<close>

definition get_base_reward_per_increment :: "beacon_state \<Rightarrow> beacon_error + u64" where
  "get_base_reward_per_increment s =
     and_then (get_total_active_balance s) (\<lambda>total.
     div_u64 (EFFECTIVE_BALANCE_INCREMENT * BASE_REWARD_FACTOR) (integer_squareroot total))"

definition get_base_reward :: "beacon_state \<Rightarrow> nat \<Rightarrow> u64 \<Rightarrow> beacon_error + u64" where
  "get_base_reward s index base_reward_per_increment =
     and_then (idx (bs_validators s) index) (\<lambda>v.
     let increments = effective_balance v div EFFECTIVE_BALANCE_INCREMENT
     in Inr (increments * base_reward_per_increment))"

record epoch_rewards =
  base_reward_per_increment :: u64
  active_increments :: u64
  er_leak :: bool
  er_flags :: "(bool list \<times> u64) list"

definition compute_epoch_rewards :: "beacon_state \<Rightarrow> beacon_error + epoch_rewards" where
  "compute_epoch_rewards s =
     (let previous_epoch = get_previous_epoch s in
      and_then (try_map (\<lambda>flag_index.
          and_then (get_unslashed_participating_mask s (of_nat flag_index) previous_epoch) (\<lambda>(participating, balance).
          Inr (participating, balance div EFFECTIVE_BALANCE_INCREMENT)))
        [0..<length PARTICIPATION_FLAG_WEIGHTS]) (\<lambda>flags.
      and_then (get_base_reward_per_increment s) (\<lambda>brpi.
      and_then (get_total_active_balance s) (\<lambda>total.
      Inr \<lparr> base_reward_per_increment = brpi, active_increments = total div EFFECTIVE_BALANCE_INCREMENT,
            er_leak = is_in_inactivity_leak s, er_flags = flags \<rparr>))))"

definition flag_index_delta :: "beacon_state \<Rightarrow> epoch_rewards \<Rightarrow> nat \<Rightarrow> nat \<Rightarrow> beacon_error + (u64 \<times> u64)" where
  "flag_index_delta s er index flag_index =
     and_then (get_base_reward s index (base_reward_per_increment er)) (\<lambda>base_reward.
     and_then (idx PARTICIPATION_FLAG_WEIGHTS flag_index) (\<lambda>weight.
     and_then (idx (er_flags er) flag_index) (\<lambda>(participating, participating_increments).
     and_then (idx participating index) (\<lambda>took_part.
     if took_part
     then (if er_leak er then Inr (0, 0)
           else and_then (div_u64 (base_reward * weight * participating_increments)
                  (active_increments er * WEIGHT_DENOMINATOR)) (\<lambda>reward. Inr (reward, 0)))
     else if flag_index = unat TIMELY_HEAD_FLAG_INDEX then Inr (0, 0)
     else Inr (0, base_reward * weight div WEIGHT_DENOMINATOR)))))"

definition inactivity_penalty :: "beacon_state \<Rightarrow> epoch_rewards \<Rightarrow> nat \<Rightarrow> beacon_error + u64" where
  "inactivity_penalty s er index =
     and_then (idx (er_flags er) (unat TIMELY_TARGET_FLAG_INDEX)) (\<lambda>(participating, _).
     and_then (idx participating index) (\<lambda>took_part.
     if took_part then Inr 0
     else and_then (idx (bs_validators s) index) (\<lambda>v.
          and_then (idx (bs_inactivity_scores s) index) (\<lambda>score.
          Inr (effective_balance v * score div (INACTIVITY_SCORE_BIAS * INACTIVITY_PENALTY_QUOTIENT_BELLATRIX))))))"

text \<open>The per-list deltas, as the specification of the Beacon chain applies them in turn.\<close>

definition get_flag_index_deltas :: "beacon_state \<Rightarrow> byte \<Rightarrow> beacon_error + (u64 list \<times> u64 list)" where
  "get_flag_index_deltas s flag_index =
     and_then (compute_epoch_rewards s) (\<lambda>er.
     try_fold (\<lambda>(rewards, penalties) index.
         and_then (flag_index_delta s er (unat index) (unat flag_index)) (\<lambda>(reward, penalty).
         Inr (rewards[unat index := rewards ! unat index + reward],
              penalties[unat index := penalties ! unat index + penalty])))
       (replicate (length (bs_validators s)) 0, replicate (length (bs_validators s)) 0)
       (get_eligible_validator_indices s))"

definition get_inactivity_penalty_deltas :: "beacon_state \<Rightarrow> beacon_error + (u64 list \<times> u64 list)" where
  "get_inactivity_penalty_deltas s =
     and_then (compute_epoch_rewards s) (\<lambda>er.
     and_then (try_fold (\<lambda>penalties index.
         and_then (inactivity_penalty s er (unat index)) (\<lambda>penalty.
         Inr (penalties[unat index := penalties ! unat index + penalty])))
       (replicate (length (bs_validators s)) 0) (get_eligible_validator_indices s)) (\<lambda>penalties.
     Inr (replicate (length (bs_validators s)) 0, penalties)))"

text \<open>One validator of the loop of \<open>process_rewards_and_penalties\<close>: the three flags, then the
  inactivity penalty.\<close>

definition reward_validator :: "beacon_state \<Rightarrow> epoch_rewards \<Rightarrow> u64 list \<Rightarrow> nat \<Rightarrow> beacon_error + u64 list" where
  "reward_validator s er balances index =
     and_then (idx (bs_validators s) index) (\<lambda>v.
     if \<not> is_eligible_for_rewards v (get_previous_epoch s) then Inr balances
     else
       and_then (try_fold (\<lambda>bals flag_index.
           and_then (flag_index_delta s er index flag_index) (\<lambda>(reward, penalty).
           and_then (idx bals index) (\<lambda>balance.
           Inr (bals[index := saturating_sub (balance + reward) penalty]))))
         balances [0..<length PARTICIPATION_FLAG_WEIGHTS]) (\<lambda>bals.
       and_then (inactivity_penalty s er index) (\<lambda>penalty.
       and_then (idx bals index) (\<lambda>balance.
       Inr (bals[index := saturating_sub balance penalty])))))"

definition process_rewards_and_penalties :: "beacon_state \<Rightarrow> beacon_error + beacon_state" where
  "process_rewards_and_penalties s =
     (if get_current_epoch s = GENESIS_EPOCH then Inr s
      else
        and_then (require (length (bs_balances s) \<ge> length (bs_validators s))
          ''failed to apply rewards and penalties: fewer balances than validators'') (\<lambda>_.
        and_then (compute_epoch_rewards s) (\<lambda>er.
        and_then (try_fold (reward_validator s er) (bs_balances s) [0..<length (bs_validators s)]) (\<lambda>balances.
        Inr (s\<lparr> bs_balances := balances \<rparr>)))))"

end
