(* ===== verification/Beacon_Registry.thy ===== *)
theory Beacon_Registry
  imports Beacon_Epoch
begin

text \<open>
  The second half of the epoch processing of \<open>electra/beacon_state.rs\<close>: the registry, slashings, the
  queues of pending deposits and consolidations, effective balances, the resets, the sync committee,
  the proposer lookahead, and \<open>process_epoch\<close> as a whole.
\<close>

section \<open>The registry\<close>

definition is_eligible_for_activation :: "u64 \<Rightarrow> beacon_validator \<Rightarrow> bool" where
  "is_eligible_for_activation finalized_checkpoint_epoch v \<longleftrightarrow>
     activation_eligibility_epoch v \<le> finalized_checkpoint_epoch \<and> activation_epoch v = FAR_FUTURE_EPOCH"

text \<open>Which of the three updates a validator gets.\<close>

definition is_ejected :: "u64 \<Rightarrow> beacon_validator \<Rightarrow> bool" where
  "is_ejected current_epoch v \<longleftrightarrow>
     \<not> is_eligible_for_activation_queue v
     \<and> is_active_validator v current_epoch \<and> effective_balance v \<le> EJECTION_BALANCE"

definition is_activated :: "u64 \<Rightarrow> u64 \<Rightarrow> beacon_validator \<Rightarrow> bool" where
  "is_activated current_epoch finalized_checkpoint_epoch v \<longleftrightarrow>
     \<not> is_eligible_for_activation_queue v
     \<and> \<not> (is_active_validator v current_epoch \<and> effective_balance v \<le> EJECTION_BALANCE)
     \<and> is_eligible_for_activation finalized_checkpoint_epoch v"

definition indices_where :: "(beacon_validator \<Rightarrow> bool) \<Rightarrow> beacon_validator list \<Rightarrow> nat list" where
  "indices_where P vs = map fst (filter (\<lambda>(i, v). P v) (List.enumerate 0 vs))"

definition process_registry_updates :: "beacon_state \<Rightarrow> beacon_error + beacon_state" where
  "process_registry_updates s =
     (let current_epoch = get_current_epoch s;
          new_activation_epoch = compute_activation_exit_epoch current_epoch
      in
      and_then (ok_or (checked_add current_epoch 1)
        (Anyhow ''Epoch overflow when setting activation eligibility epoch'')) (\<lambda>eligibility_epoch.
      let finalized_checkpoint_epoch = cp_epoch (bs_finalized_checkpoint s);
          queued = indices_where is_eligible_for_activation_queue (bs_validators s);
          initiate_validator = map of_nat (indices_where (is_ejected current_epoch) (bs_validators s));
          activated = indices_where (is_activated current_epoch finalized_checkpoint_epoch) (bs_validators s);
          s1 = fold (\<lambda>i. update_validator i (\<lambda>v. v\<lparr> activation_eligibility_epoch := eligibility_epoch \<rparr>)) queued s;
          s2 = fold (\<lambda>i. update_validator i (\<lambda>v. v\<lparr> activation_epoch := new_activation_epoch \<rparr>)) activated s1
      in try_fold (\<lambda>st i. initiate_validator_exit i st) s2 initiate_validator))"

section \<open>Slashings\<close>

definition slash_penalty :: "u64 \<Rightarrow> u64 \<Rightarrow> beacon_state \<Rightarrow> nat \<Rightarrow> beacon_error + beacon_state" where
  "slash_penalty epoch penalty_per_increment s index =
     and_then (get_or (bs_validators s) index ''Invalid validator index'') (\<lambda>v.
     if slashed v \<and> epoch + EPOCHS_PER_SLASHINGS_VECTOR div 2 = withdrawable_epoch v
     then (let effective_balance_increments = effective_balance v div EFFECTIVE_BALANCE_INCREMENT;
               penalty = penalty_per_increment * effective_balance_increments
           in decrease_balance (of_nat index) penalty s)
     else Inr s)"

definition process_slashings :: "beacon_state \<Rightarrow> beacon_error + beacon_state" where
  "process_slashings s =
     (let epoch = get_current_epoch s in
      and_then (get_total_active_balance s) (\<lambda>total_balance.
      let adjusted = min (sum_list (bs_slashings s) * PROPORTIONAL_SLASHING_MULTIPLIER_BELLATRIX) total_balance in
      and_then (div_u64 adjusted (total_balance div EFFECTIVE_BALANCE_INCREMENT)) (\<lambda>penalty_per_increment.
      try_fold (slash_penalty epoch penalty_per_increment) s [0..<length (bs_validators s)])))"

section \<open>Pending deposits\<close>

text \<open>\<open>is_valid_deposit_signature(...).unwrap_or_default()\<close>\<close>

definition deposit_signature_ok :: "beacon_env \<Rightarrow> bls_public_key \<Rightarrow> b256 \<Rightarrow> u64 \<Rightarrow> bls_signature \<Rightarrow> bool" where
  "deposit_signature_ok E key credentials amount sg \<longleftrightarrow>
     (case is_valid_deposit_signature E key credentials amount sg of Inr b \<Rightarrow> b | Inl _ \<Rightarrow> False)"

definition apply_pending_deposit_to ::
  "beacon_env \<Rightarrow> pending_deposit \<Rightarrow> nat option \<Rightarrow> beacon_state \<Rightarrow> beacon_error + (nat option \<times> beacon_state)" where
  "apply_pending_deposit_to E d validator_index s =
     (case validator_index of
        Some index \<Rightarrow> and_then (increase_balance (of_nat index) (pd_amount d) s) (\<lambda>s'. Inr (None, s'))
      | None \<Rightarrow>
          if \<not> deposit_signature_ok E (pd_public_key d) (pd_withdrawal_credentials d) (pd_amount d) (pd_signature d)
          then Inr (None, s)
          else and_then (add_validator_to_registry E (pd_public_key d) (pd_withdrawal_credentials d) (pd_amount d) s)
                 (\<lambda>s'. Inr (Some (length (bs_validators s') - 1), s')))"

definition apply_pending_deposit :: "beacon_env \<Rightarrow> pending_deposit \<Rightarrow> beacon_state \<Rightarrow> beacon_error + beacon_state" where
  "apply_pending_deposit E d s =
     and_then (apply_pending_deposit_to E d (find_validator_index E (bs_validators s) (pd_public_key d)) s)
       (\<lambda>(_, s'). Inr s')"

text \<open>The local variables of the loop over the pending deposits.\<close>

record deposit_loop =
  dl_state :: beacon_state
  dl_indices :: "(bls_public_key \<times> nat) list"
  dl_processed_amount :: u64
  dl_next_deposit_index :: u64
  dl_postponed :: "pending_deposit list"
  dl_churn_limit_reached :: bool

definition deposit_stops_at :: "bool \<Rightarrow> u64 \<Rightarrow> pending_deposit \<Rightarrow> bool" where
  "deposit_stops_at is_bridge_pending finalized_slot d \<longleftrightarrow>
     (is_bridge_pending \<and> pd_slot d > GENESIS_SLOT) \<or> pd_slot d > finalized_slot"

text \<open>One pending deposit that is not a stop: \<open>None\<close> is the break at the churn limit.\<close>

definition handle_deposit ::
  "beacon_env \<Rightarrow> u64 \<Rightarrow> u64 \<Rightarrow> pending_deposit \<Rightarrow> deposit_loop \<Rightarrow> beacon_error + deposit_loop option" where
  "handle_deposit E next_epoch available d l =
     (let s = dl_state l;
          validator_index = map_of (dl_indices l) (pd_public_key d);
          (is_exited, is_withdrawn) =
            (case Option.bind validator_index (list_get (bs_validators s)) of
               Some v \<Rightarrow> (exit_epoch v < FAR_FUTURE_EPOCH, withdrawable_epoch v < next_epoch)
             | None \<Rightarrow> (False, False))
      in
      if is_withdrawn
      then and_then (apply_pending_deposit_to E d validator_index s) (\<lambda>(_, s').
           Inr (Some (l\<lparr> dl_state := s', dl_next_deposit_index := dl_next_deposit_index l + 1 \<rparr>)))
      else if is_exited
      then Inr (Some (l\<lparr> dl_postponed := dl_postponed l @ [d],
                         dl_next_deposit_index := dl_next_deposit_index l + 1 \<rparr>))
      else if dl_processed_amount l + pd_amount d > available
      then Inr None
      else and_then (apply_pending_deposit_to E d validator_index s) (\<lambda>(added, s').
           Inr (Some (l\<lparr> dl_state := s',
                         dl_indices := (case added of
                             Some i \<Rightarrow> (pd_public_key d, i) # filter (\<lambda>(k, _). k \<noteq> pd_public_key d) (dl_indices l)
                           | None \<Rightarrow> dl_indices l),
                         dl_processed_amount := dl_processed_amount l + pd_amount d,
                         dl_next_deposit_index := dl_next_deposit_index l + 1,
                         dl_churn_limit_reached := False \<rparr>))))"

fun deposit_steps ::
  "beacon_env \<Rightarrow> bool \<Rightarrow> u64 \<Rightarrow> u64 \<Rightarrow> u64 \<Rightarrow> pending_deposit list \<Rightarrow> deposit_loop \<Rightarrow> beacon_error + deposit_loop" where
  "deposit_steps E bridge finalized_slot next_epoch available [] l = Inr l"
| "deposit_steps E bridge finalized_slot next_epoch available (d # ds) l =
     (if deposit_stops_at bridge finalized_slot d then Inr l
      else if dl_next_deposit_index l \<ge> MAX_PENDING_DEPOSITS_PER_EPOCH then Inr l
      else and_then (handle_deposit E next_epoch available d l) (\<lambda>r.
           case r of None \<Rightarrow> Inr (l\<lparr> dl_churn_limit_reached := True \<rparr>)
           | Some l' \<Rightarrow> deposit_steps E bridge finalized_slot next_epoch available ds l'))"

text \<open>Pushing the remaining elements back into an emptied list.\<close>

definition push_all :: "beacon_env \<Rightarrow> nat \<Rightarrow> string \<Rightarrow> 'a list \<Rightarrow> beacon_error + 'a list" where
  "push_all E limit msg xs = try_fold (vl_push E limit msg) [] xs"

definition process_pending_deposits :: "beacon_env \<Rightarrow> beacon_state \<Rightarrow> beacon_error + beacon_state" where
  "process_pending_deposits E s =
     (let next_epoch = get_current_epoch s + 1 in
      and_then (get_activation_exit_churn_limit s) (\<lambda>limit.
      let available_for_processing = bs_deposit_balance_to_consume s + limit;
          finalized_slot = compute_start_slot_at_epoch (cp_epoch (bs_finalized_checkpoint s));
          is_bridge_pending = (bs_pending_deposits s \<noteq> []
            \<and> bs_eth1_deposit_index s < bs_deposit_requests_start_index s
            \<and> get_current_epoch s < fulu_fork_epoch E);
          batch = map pd_public_key (take (unat MAX_PENDING_DEPOSITS_PER_EPOCH)
            (takeWhile (\<lambda>d. \<not> deposit_stops_at is_bridge_pending finalized_slot d) (bs_pending_deposits s)));
          l0 = \<lparr> dl_state = s, dl_indices = find_validator_indices E (bs_validators s) batch,
                 dl_processed_amount = 0, dl_next_deposit_index = 0, dl_postponed = [],
                 dl_churn_limit_reached = False \<rparr>
      in
      and_then (deposit_steps E is_bridge_pending finalized_slot next_epoch available_for_processing
        (bs_pending_deposits s) l0) (\<lambda>l.
      and_then (push_all E PENDING_DEPOSITS_CAPACITY ''Failed to push deposit to pending deposits''
        (drop (unat (dl_next_deposit_index l)) (bs_pending_deposits (dl_state l)) @ dl_postponed l)) (\<lambda>pending.
      Inr ((dl_state l)\<lparr> bs_pending_deposits := pending,
            bs_deposit_balance_to_consume :=
              (if dl_churn_limit_reached l then available_for_processing - dl_processed_amount l else 0) \<rparr>)))))"

section \<open>Pending consolidations\<close>

text \<open>The loop counts the consolidations that are done and stops at the first that is not due.\<close>

fun consolidation_steps ::
  "u64 \<Rightarrow> pending_consolidation list \<Rightarrow> nat \<Rightarrow> beacon_state \<Rightarrow> beacon_error + (nat \<times> beacon_state)" where
  "consolidation_steps next_epoch [] done s = Inr (done, s)"
| "consolidation_steps next_epoch (c # cs) done s =
     and_then (get_or (bs_validators s) (unat (pc_source_index c)) ''Validator not found'') (\<lambda>v.
     if slashed v then consolidation_steps next_epoch cs (done + 1) s
     else if withdrawable_epoch v > next_epoch then Inr (done, s)
     else and_then (get_or (bs_balances s) (unat (pc_source_index c)) ''Failed to get balance'') (\<lambda>balance.
          let source_effective_balance = min balance (effective_balance v) in
          and_then (decrease_balance (pc_source_index c) source_effective_balance s) (\<lambda>s1.
          and_then (increase_balance (pc_target_index c) source_effective_balance s1) (\<lambda>s2.
          consolidation_steps next_epoch cs (done + 1) s2))))"

definition process_pending_consolidations :: "beacon_env \<Rightarrow> beacon_state \<Rightarrow> beacon_error + beacon_state" where
  "process_pending_consolidations E s =
     (let next_epoch = get_current_epoch s + 1 in
      and_then (consolidation_steps next_epoch (bs_pending_consolidations s) 0 s) (\<lambda>(done, s1).
      and_then (push_all E (unat PENDING_CONSOLIDATIONS_LIMIT) ''Failed to push pending_consolidation''
        (drop done (bs_pending_consolidations s1))) (\<lambda>pending.
      Inr (s1\<lparr> bs_pending_consolidations := pending \<rparr>))))"

section \<open>Effective balances and resets\<close>

definition crosses_threshold :: "beacon_validator \<Rightarrow> u64 \<Rightarrow> bool" where
  "crosses_threshold v balance \<longleftrightarrow>
     (let hysteresis_increment = EFFECTIVE_BALANCE_INCREMENT div HYSTERESIS_QUOTIENT;
          downward_threshold = hysteresis_increment * HYSTERESIS_DOWNWARD_MULTIPLIER;
          upward_threshold = hysteresis_increment * HYSTERESIS_UPWARD_MULTIPLIER
      in balance + downward_threshold < effective_balance v
         \<or> effective_balance v + upward_threshold < balance)"

definition process_effective_balance_updates :: "beacon_state \<Rightarrow> beacon_error + beacon_state" where
  "process_effective_balance_updates s =
     (let updates = map (\<lambda>(index, (v, balance)).
              (index, min (balance - balance mod EFFECTIVE_BALANCE_INCREMENT) (get_max_effective_balance v)))
            (filter (\<lambda>(index, (v, balance)). crosses_threshold v balance)
              (List.enumerate 0 (zip (bs_validators s) (bs_balances s))))
      in Inr (fold (\<lambda>(index, new_balance). update_validator index (\<lambda>v. v\<lparr> effective_balance := new_balance \<rparr>)) updates s))"

definition process_eth1_data_reset :: "beacon_state \<Rightarrow> beacon_error + beacon_state" where
  "process_eth1_data_reset s =
     (let next_epoch = get_current_epoch s + 1
      in Inr (if next_epoch mod EPOCHS_PER_ETH1_VOTING_PERIOD = 0 then s\<lparr> bs_eth1_data_votes := [] \<rparr> else s))"

text \<open>\<open>xs[i] = v\<close>\<close>

definition set_idx :: "'a list \<Rightarrow> nat \<Rightarrow> 'a \<Rightarrow> beacon_error + 'a list" where
  "set_idx xs i v = (if i < length xs then Inr (xs[i := v]) else Inl Panic)"

definition process_slashings_reset :: "beacon_state \<Rightarrow> beacon_error + beacon_state" where
  "process_slashings_reset s =
     (let next_epoch = get_current_epoch s + 1 in
      and_then (set_idx (bs_slashings s) (unat (next_epoch mod EPOCHS_PER_SLASHINGS_VECTOR)) 0) (\<lambda>sl.
      Inr (s\<lparr> bs_slashings := sl \<rparr>)))"

definition process_randao_mixes_reset :: "beacon_state \<Rightarrow> beacon_error + beacon_state" where
  "process_randao_mixes_reset s =
     (let current_epoch = get_current_epoch s;
          next_epoch = current_epoch + 1
      in
      and_then (get_randao_mix s current_epoch) (\<lambda>mix.
      and_then (set_idx (bs_randao_mixes s) (unat (next_epoch mod EPOCHS_PER_HISTORICAL_VECTOR)) mix) (\<lambda>mixes.
      Inr (s\<lparr> bs_randao_mixes := mixes \<rparr>))))"

definition process_historical_summaries_update :: "beacon_env \<Rightarrow> beacon_state \<Rightarrow> beacon_error + beacon_state" where
  "process_historical_summaries_update E s =
     (let next_epoch = get_current_epoch s + 1 in
      if next_epoch mod (SLOTS_PER_HISTORICAL_ROOT div SLOTS_PER_EPOCH) = 0
      then and_then (vl_push E HISTORICAL_SUMMARIES_CAPACITY ''Failed to push historical summary''
             (bs_historical_summaries s)
             \<lparr> block_summary_root = root_vector E (bs_block_roots s),
               state_summary_root = root_vector E (bs_state_roots s) \<rparr>) (\<lambda>summaries.
           Inr (s\<lparr> bs_historical_summaries := summaries \<rparr>))
      else Inr s)"

definition process_participation_flag_updates :: "beacon_env \<Rightarrow> beacon_state \<Rightarrow> beacon_error + beacon_state" where
  "process_participation_flag_updates E s =
     and_then (require (list_fits E ValidatorRegistryLimit (length (bs_validators s)))
       ''Failed to convert validators list to VariableList'') (\<lambda>_.
     Inr (s\<lparr> bs_previous_epoch_participation := bs_current_epoch_participation s,
            bs_current_epoch_participation := replicate (length (bs_validators s)) 0 \<rparr>))"

section \<open>Sync committee and lookahead\<close>

text \<open>The sampling of the sync committee, which keeps drawing until the committee is full.\<close>

partial_function (option) sync_committee_loop ::
  "beacon_env \<Rightarrow> beacon_state \<Rightarrow> u64 list \<Rightarrow> b256 \<Rightarrow> nat \<Rightarrow> u64 list \<Rightarrow> (beacon_error + u64 list) option" where
  "sync_committee_loop E s indices seed i acc =
     (if length acc < unat SYNC_COMMITTEE_SIZE
      then (case proposer_candidate E s indices seed i of
              Inl e \<Rightarrow> Some (Inl e)
            | Inr (candidate_index, taken) \<Rightarrow>
                sync_committee_loop E s indices seed (i + 1) (if taken then acc @ [candidate_index] else acc))
      else Some (Inr acc))"

definition get_next_sync_committee_indices :: "beacon_env \<Rightarrow> beacon_state \<Rightarrow> beacon_error + u64 list" where
  "get_next_sync_committee_indices E s =
     (let epoch = get_current_epoch s + 1;
          active_validator_indices = get_active_validator_indices s epoch
      in
      and_then (get_seed E s epoch DOMAIN_SYNC_COMMITTEE) (\<lambda>seed.
      if active_validator_indices = [] then Inl Panic
      else case sync_committee_loop E s active_validator_indices seed 0 [] of None \<Rightarrow> Inl Hangs | Some r \<Rightarrow> r))"

definition get_next_sync_committee :: "beacon_env \<Rightarrow> beacon_state \<Rightarrow> beacon_error + sync_committee" where
  "get_next_sync_committee E s =
     and_then (get_next_sync_committee_indices E s) (\<lambda>indices.
     and_then (try_map (\<lambda>i. and_then (idx (bs_validators s) (unat i)) (\<lambda>v. Inr (v_public_key v))) indices) (\<lambda>keys.
     and_then (eth_aggregate_public_keys E keys) (\<lambda>aggregate.
     and_then (require (length keys = unat SYNC_COMMITTEE_SIZE) ''Failed to convert public_keys to FixedVector'') (\<lambda>_.
     Inr \<lparr> public_keys = keys, aggregate_public_key = aggregate \<rparr>))))"

definition process_sync_committee_updates :: "beacon_env \<Rightarrow> beacon_state \<Rightarrow> beacon_error + beacon_state" where
  "process_sync_committee_updates E s =
     (let next_epoch = get_current_epoch s + 1 in
      if next_epoch mod EPOCHS_PER_SYNC_COMMITTEE_PERIOD = 0
      then (let s1 = s\<lparr> bs_current_sync_committee := bs_next_sync_committee s \<rparr> in
            and_then (get_next_sync_committee E s1) (\<lambda>committee.
            Inr (s1\<lparr> bs_next_sync_committee := committee \<rparr>)))
      else Inr s)"

definition process_proposer_lookahead :: "beacon_env \<Rightarrow> beacon_state \<Rightarrow> beacon_error + beacon_state" where
  "process_proposer_lookahead E s =
     and_then (sub_slice (bs_proposer_lookahead s) (unat SLOTS_PER_EPOCH) (length (bs_proposer_lookahead s))) (\<lambda>rest.
     let next_epoch = get_current_epoch s + MIN_SEED_LOOKAHEAD + 1 in
     and_then (get_beacon_proposer_indices E s next_epoch) (\<lambda>new_indices.
     and_then (require (length (rest @ new_indices) = 64) ''Failed to update proposer_lookahead'') (\<lambda>_.
     Inr (s\<lparr> bs_proposer_lookahead := rest @ new_indices \<rparr>))))"

section \<open>The epoch\<close>

definition process_epoch :: "beacon_env \<Rightarrow> beacon_state \<Rightarrow> beacon_error + beacon_state" where
  "process_epoch E s =
     and_then (process_justification_and_finalization E s) (\<lambda>s.
     and_then (process_inactivity_updates s) (\<lambda>s.
     and_then (process_rewards_and_penalties s) (\<lambda>s.
     and_then (process_registry_updates s) (\<lambda>s.
     and_then (process_slashings s) (\<lambda>s.
     and_then (process_eth1_data_reset s) (\<lambda>s.
     and_then (process_pending_deposits E s) (\<lambda>s.
     and_then (process_pending_consolidations E s) (\<lambda>s.
     and_then (process_effective_balance_updates s) (\<lambda>s.
     and_then (process_slashings_reset s) (\<lambda>s.
     and_then (process_randao_mixes_reset s) (\<lambda>s.
     and_then (process_historical_summaries_update E s) (\<lambda>s.
     and_then (process_participation_flag_updates E s) (\<lambda>s.
     and_then (process_sync_committee_updates E s) (\<lambda>s.
     process_proposer_lookahead E s))))))))))))))"

end
