(* ===== verification/Merkle.thy ===== *)
theory Merkle
  imports Prelude
begin

text \<open>
  The Merkle trees of \<open>crates/crypto/merkle\<close>: building a tree, the branch of a leaf and its
  verification. The hash of two nodes is the argument \<open>H\<close>.
\<close>

datatype merkle_error = TooManyLeaves | MerkleIndexOutOfBounds | PanicIndex

type_synonym node_hash = "b256 \<Rightarrow> b256 \<Rightarrow> b256"

section \<open>Generalized indices\<close>

text \<open>A shift by a \<open>u64\<close> amount; a release build masks the amount to six bits.\<close>

definition shl :: "u64 \<Rightarrow> u64 \<Rightarrow> u64" where
  "shl x amount = push_bit (unat amount mod 64) x"

definition get_generalized_index_bit :: "u64 \<Rightarrow> u64 \<Rightarrow> bool" where
  "get_generalized_index_bit index position \<longleftrightarrow> 0 < index AND shl 1 position"

definition generalized_index_child :: "u64 \<Rightarrow> bool \<Rightarrow> u64" where
  "generalized_index_child generalized_index right_side = generalized_index * 2 + of_bool right_side"

section \<open>Trees and branches\<close>

definition hash_node :: "node_hash \<Rightarrow> nat \<Rightarrow> b256 list \<Rightarrow> b256 list" where
  "hash_node H i tree = tree[i := H (tree ! (i * 2)) (tree ! (i * 2 + 1))]"

definition merkle_tree :: "node_hash \<Rightarrow> b256 list \<Rightarrow> u64 \<Rightarrow> merkle_error + b256 list" where
  "merkle_tree H leaves depth =
     (let num_of_leaves = length leaves; bottom_length = unat (shl 1 depth) in
      and_then (ensure (num_of_leaves \<le> bottom_length) TooManyLeaves) (\<lambda>_.
      Inr (fold (hash_node H) (rev [1..<bottom_length])
             (replicate bottom_length 0 @ leaves @ replicate (bottom_length - num_of_leaves) 0))))"

text \<open>The loop pushes the siblings from the root down; \<open>tree[..]\<close> panics out of range.\<close>

fun proof_loop :: "b256 list \<Rightarrow> u64 \<Rightarrow> nat \<Rightarrow> u64 \<Rightarrow> b256 list \<Rightarrow> merkle_error + b256 list" where
  "proof_loop tree index 0 current_index result = Inr result"
| "proof_loop tree index (Suc current_depth) current_index result =
     (let left_child_index = generalized_index_child current_index False;
          right_child_index = generalized_index_child current_index True
      in
      if get_generalized_index_bit index (of_nat current_depth)
      then and_then (ok_or (list_get tree (unat left_child_index)) PanicIndex) (\<lambda>node.
           proof_loop tree index current_depth right_child_index (result @ [node]))
      else and_then (ok_or (list_get tree (unat right_child_index)) PanicIndex) (\<lambda>node.
           proof_loop tree index current_depth left_child_index (result @ [node])))"

definition generate_proof :: "b256 list \<Rightarrow> u64 \<Rightarrow> u64 \<Rightarrow> merkle_error + b256 list" where
  "generate_proof tree index depth =
     (let bottom_length = shl 1 depth in
      and_then (ensure (index < bottom_length) MerkleIndexOutOfBounds) (\<lambda>_.
      and_then (proof_loop tree index (unat depth) 1 []) (\<lambda>result.
      Inr (rev result))))"

definition get_root_from_merkle_branch ::
  "node_hash \<Rightarrow> b256 \<Rightarrow> b256 list \<Rightarrow> u64 \<Rightarrow> u64 \<Rightarrow> merkle_error + b256" where
  "get_root_from_merkle_branch H leaf branch depth index =
     try_fold (\<lambda>v i. and_then (ok_or (list_get branch (unat i)) PanicIndex) (\<lambda>node.
         Inr (if get_generalized_index_bit index i then H node v else H v node)))
       leaf (u64_range 0 depth)"

definition is_valid_merkle_branch ::
  "node_hash \<Rightarrow> b256 \<Rightarrow> b256 list \<Rightarrow> u64 \<Rightarrow> u64 \<Rightarrow> b256 \<Rightarrow> bool" where
  "is_valid_merkle_branch H leaf branch depth index root =
     (if length branch \<noteq> unat depth then False
      else get_root_from_merkle_branch H leaf branch depth index = Inr root)"

section \<open>The tree\<close>

lemma unat_shl: "unat depth < 64 \<Longrightarrow> unat (shl 1 depth) = 2 ^ unat depth"
proof -
  assume d: "unat depth < 64"
  then have "(2 :: nat) ^ unat depth < 2 ^ 64" by (intro power_strict_increasing) simp_all
  then have "unat (of_nat (2 ^ unat depth) :: u64) = 2 ^ unat depth" by (intro unat_of_nat_small) simp
  then show ?thesis using d by (simp add: shl_def push_bit_eq_mult)
qed

lemma hash_nodes:
  fixes H :: node_hash
  assumes "length t = 2 * n" and "1 \<le> k" and "k \<le> n"
  defines "T \<equiv> fold (hash_node H) (rev [k..<n]) t"
  shows "length T = length t \<and> (\<forall>i. i < k \<or> n \<le> i \<longrightarrow> T ! i = t ! i) \<and>
    (\<forall>i. k \<le> i \<and> i < n \<longrightarrow> T ! i = H (T ! (2 * i)) (T ! (2 * i + 1)))"
  using assms(3,2) unfolding T_def
proof (induction k rule: inc_induct)
  case base
  then show ?case by auto
next
  case (step k)
  let ?T = "fold (hash_node H) (rev [Suc k..<n]) t"
  have IH: "length ?T = length t" "\<And>i. i < Suc k \<or> n \<le> i \<Longrightarrow> ?T ! i = t ! i"
    "\<And>i. Suc k \<le> i \<Longrightarrow> i < n \<Longrightarrow> ?T ! i = H (?T ! (2 * i)) (?T ! (2 * i + 1))" using step by auto
  have unfold: "fold (hash_node H) (rev [k..<n]) t = hash_node H k ?T"
    using step.hyps by (simp add: upt_conv_Cons)
  show ?case
    unfolding unfold using IH step.hyps step.prems assms(1)
    by (auto simp: hash_node_def nth_list_update mult.commute [of _ 2])
qed

lemma merkle_tree_Inr:
  assumes "merkle_tree H leaves depth = Inr tree" and "unat depth < 64"
  shows "length tree = 2 ^ Suc (unat depth)" and "length leaves \<le> 2 ^ unat depth"
    and "i < 2 ^ unat depth \<Longrightarrow> tree ! (2 ^ unat depth + i) = (if i < length leaves then leaves ! i else 0)"
    and "1 \<le> i \<Longrightarrow> i < 2 ^ unat depth \<Longrightarrow> tree ! i = H (tree ! (2 * i)) (tree ! (2 * i + 1))"
proof -
  let ?n = "2 ^ unat depth"
  let ?t = "replicate ?n 0 @ leaves @ replicate (?n - length leaves) 0"
  have le: "length leaves \<le> ?n" and tree: "tree = fold (hash_node H) (rev [1..<?n]) ?t"
    using assms by (auto simp: merkle_tree_def Let_def unat_shl result_simps)
  have len: "length ?t = 2 * ?n" using le by simp
  note nodes = hash_nodes [OF len, of 1 H, folded tree]
  show "length leaves \<le> ?n" by (rule le)
  show "length tree = 2 ^ Suc (unat depth)" using nodes len by simp
  show "tree ! (?n + i) = (if i < length leaves then leaves ! i else 0)" if "i < ?n"
    using nodes that le by (simp add: nth_append)
  show "tree ! i = H (tree ! (2 * i)) (tree ! (2 * i + 1))" if "1 \<le> i" "i < ?n"
    using nodes that by simp
qed

section \<open>The path of a leaf\<close>

text \<open>The node on the path at a height, and its sibling.\<close>

definition path_node :: "nat \<Rightarrow> nat \<Rightarrow> nat \<Rightarrow> nat" where
  "path_node d x j = (2 ^ d + x) div 2 ^ j"

definition sibling :: "nat \<Rightarrow> nat" where
  "sibling n = (if odd n then n - 1 else n + 1)"

lemma path_node_0: "path_node d x 0 = 2 ^ d + x"
  by (simp add: path_node_def)

lemma path_node_top: "x < 2 ^ d \<Longrightarrow> path_node d x d = 1"
  by (simp add: path_node_def div_add_self1)

lemma path_node_Suc: "path_node d x (Suc j) = path_node d x j div 2"
  unfolding path_node_def power_Suc2 by (rule div_mult2_eq)

lemma path_node_odd:
  assumes "j < d"
  shows "odd (path_node d x j) \<longleftrightarrow> bit x j"
proof -
  have "(2 :: nat) ^ d = 2 ^ (d - j) * 2 ^ j" using assms by (simp flip: power_add)
  then have "path_node d x j = 2 ^ (d - j) + x div 2 ^ j" by (simp add: path_node_def)
  then show ?thesis using assms by (simp add: bit_iff_odd)
qed

lemma path_node_bounds:
  assumes "j \<le> d" and "x < 2 ^ d"
  shows "1 \<le> path_node d x j" "path_node d x j < 2 ^ Suc (d - j)"
proof -
  have d: "(2 :: nat) ^ d = 2 ^ (d - j) * 2 ^ j" using assms(1) by (simp flip: power_add)
  have n: "path_node d x j = 2 ^ (d - j) + x div 2 ^ j" using d by (simp add: path_node_def)
  moreover have "x div 2 ^ j < 2 ^ (d - j)" using assms(2) d by (simp add: less_mult_imp_div_less)
  ultimately show "1 \<le> path_node d x j" "path_node d x j < 2 ^ Suc (d - j)" by simp_all
qed

lemma path_children:
  "j < d \<Longrightarrow> path_node d x j = 2 * path_node d x (Suc j) + of_bool (bit x j)"
  "j < d \<Longrightarrow> sibling (path_node d x j) = 2 * path_node d x (Suc j) + of_bool (\<not> bit x j)"
  using path_node_odd [of j d x] by (auto simp: path_node_Suc sibling_def elim!: evenE oddE)

lemma index_bit: "j < 64 \<Longrightarrow> get_generalized_index_bit index (of_nat j) \<longleftrightarrow> bit (unat index) j"
proof -
  assume j: "j < 64"
  then have "unat (of_nat j :: u64) = j" by (intro unat_of_nat_small) simp
  then have "index AND shl 1 (of_nat j) = 0 \<longleftrightarrow> \<not> bit index j"
    using j by (simp add: shl_def push_bit_eq_mult and_exp_eq_0_iff_not_bit)
  then show ?thesis
    by (simp add: get_generalized_index_bit_def bit_unsigned_iff word_neq_0_conv [symmetric])
qed

section \<open>Branches\<close>

text \<open>The branch of a leaf: the siblings along its path.\<close>

definition path_siblings :: "b256 list \<Rightarrow> nat \<Rightarrow> nat \<Rightarrow> nat \<Rightarrow> b256 list" where
  "path_siblings tree d x j = map (\<lambda>k. tree ! sibling (path_node d x k)) [0..<j]"

lemma child_index:
  assumes "n < 2 ^ 62"
  shows "unat (generalized_index_child (of_nat n) b) = 2 * n + of_bool b"
    and "generalized_index_child (of_nat n) b = of_nat (2 * n + of_bool b)"
proof -
  show eq: "generalized_index_child (of_nat n) b = of_nat (2 * n + of_bool b)"
    by (simp add: generalized_index_child_def mult.commute)
  have "2 * n + of_bool b < 2 ^ 64" using assms by (cases b) simp_all
  then show "unat (generalized_index_child (of_nat n) b) = 2 * n + of_bool b"
    unfolding eq by (intro unat_of_nat_small) simp
qed

lemma proof_loop_siblings:
  assumes "length tree = 2 ^ Suc d" and "d < 62" and "unat index < 2 ^ d"
  shows "j \<le> d \<Longrightarrow> proof_loop tree index j (of_nat (path_node d (unat index) j)) result =
    Inr (result @ rev (path_siblings tree d (unat index) j))"
proof (induction j arbitrary: result)
  case 0
  then show ?case by (simp add: path_siblings_def)
next
  case (Suc j)
  let ?x = "unat index"
  let ?n = "path_node d ?x (Suc j)"
  have "?n < 2 ^ Suc (d - Suc j)" using path_node_bounds [of "Suc j" d ?x] Suc.prems assms(3) by blast
  also have "\<dots> \<le> 2 ^ d" using Suc.prems by (intro power_increasing) simp_all
  finally have n: "?n < 2 ^ d" .
  moreover have "(2 :: nat) ^ d < 2 ^ 62" using assms(2) by (intro power_strict_increasing) simp_all
  ultimately have n62: "?n < 2 ^ 62" by linarith
  have path: "path_node d ?x j = 2 * ?n + of_bool (bit ?x j)" "sibling (path_node d ?x j) = 2 * ?n + of_bool (\<not> bit ?x j)"
    using path_children [of j d ?x] Suc.prems by auto
  have "2 * ?n + of_bool (\<not> bit ?x j) < length tree" using n assms(1) by (cases "bit ?x j") simp_all
  then have sib: "list_get tree (unat (generalized_index_child (of_nat ?n) (\<not> bit ?x j))) =
      Some (tree ! sibling (path_node d ?x j))"
    unfolding child_index(1) [OF n62] path(2) by (simp add: list_get_def)
  have cur: "generalized_index_child (of_nat ?n) (bit ?x j) = of_nat (path_node d ?x j)"
    unfolding child_index(2) [OF n62] path(1) ..
  have turn: "get_generalized_index_bit index (of_nat j) = bit ?x j" using Suc.prems assms(2) by (intro index_bit) simp
  have rest: "rev (path_siblings tree d ?x (Suc j)) = tree ! sibling (path_node d ?x j) # rev (path_siblings tree d ?x j)"
    by (simp add: path_siblings_def)
  show ?case
    using sib cur Suc.IH [of "result @ [tree ! sibling (path_node d ?x j)]"] Suc.prems turn
    unfolding rest by (cases "bit ?x j") (simp_all add: Let_def)
qed

lemma generate_proof_siblings:
  assumes "length tree = 2 ^ Suc (unat depth)" and "unat depth < 62" and "index < shl 1 depth"
  shows "generate_proof tree index depth = Inr (path_siblings tree (unat depth) (unat index) (unat depth))"
proof -
  have x: "unat index < 2 ^ unat depth" using assms by (simp add: word_less_nat_alt unat_shl)
  have "proof_loop tree index (unat depth) 1 [] = Inr (rev (path_siblings tree (unat depth) (unat index) (unat depth)))"
    using proof_loop_siblings [OF assms(1,2) x, of "unat depth" "[]"] path_node_top [OF x] by simp
  then show ?thesis using assms(3) by (simp add: generate_proof_def Let_def)
qed

text \<open>The node a branch computes at height \<open>j\<close> and the pair of children hashed there.\<close>

fun branch_node :: "node_hash \<Rightarrow> b256 \<Rightarrow> b256 list \<Rightarrow> u64 \<Rightarrow> nat \<Rightarrow> b256" where
  "branch_node H leaf branch index 0 = leaf"
| "branch_node H leaf branch index (Suc j) =
     (if get_generalized_index_bit index (of_nat j)
      then H (branch ! j) (branch_node H leaf branch index j)
      else H (branch_node H leaf branch index j) (branch ! j))"

definition branch_children :: "node_hash \<Rightarrow> b256 \<Rightarrow> b256 list \<Rightarrow> u64 \<Rightarrow> nat \<Rightarrow> b256 \<times> b256" where
  "branch_children H leaf branch index j =
     (if get_generalized_index_bit index (of_nat j)
      then (branch ! j, branch_node H leaf branch index j)
      else (branch_node H leaf branch index j, branch ! j))"

lemma branch_node_Suc: "branch_node H leaf branch index (Suc j) = case_prod H (branch_children H leaf branch index j)"
  by (simp add: branch_children_def)

lemma root_of_branch:
  assumes "length branch = unat depth"
  shows "get_root_from_merkle_branch H leaf branch depth index = Inr (branch_node H leaf branch index (unat depth))"
proof -
  let ?f = "\<lambda>v i. and_then (ok_or (list_get branch (unat i)) PanicIndex) (\<lambda>node.
      Inr (if get_generalized_index_bit index i then H node v else H v node))"
  have "try_fold ?f leaf (map of_nat [0..<j]) = Inr (branch_node H leaf branch index j)" if "j \<le> unat depth" for j
    using that
  proof (induction j)
    case (Suc j)
    have "unat (of_nat j :: u64) = j"
      using Suc.prems unat_bound [of depth] by (intro unat_of_nat_small) linarith
    with Suc show ?case by (simp add: try_fold_append result_simps list_get_def assms)
  qed simp
  then show ?thesis by (simp add: get_root_from_merkle_branch_def u64_range_def)
qed

text \<open>The same node by the bits of the index as a number, for depths below 64.\<close>

fun branch_value :: "node_hash \<Rightarrow> b256 \<Rightarrow> b256 list \<Rightarrow> nat \<Rightarrow> nat \<Rightarrow> b256" where
  "branch_value H leaf branch x 0 = leaf"
| "branch_value H leaf branch x (Suc j) =
     (if bit x j then H (branch ! j) (branch_value H leaf branch x j)
      else H (branch_value H leaf branch x j) (branch ! j))"

lemma root_from_branch:
  assumes "length branch = unat depth" and "unat depth < 64"
  shows "get_root_from_merkle_branch H leaf branch depth index =
    Inr (branch_value H leaf branch (unat index) (unat depth))"
proof -
  have "branch_node H leaf branch index j = branch_value H leaf branch (unat index) j" if "j \<le> unat depth" for j
    using that assms(2) by (induction j) (simp_all add: index_bit)
  then show ?thesis by (simp add: root_of_branch [OF assms(1)])
qed

lemma branch_value_path:
  assumes "\<And>i. 1 \<le> i \<Longrightarrow> i < 2 ^ d \<Longrightarrow> tree ! i = H (tree ! (2 * i)) (tree ! (2 * i + 1))" and "x < 2 ^ d"
  shows "j \<le> d \<Longrightarrow> branch_value H (tree ! (2 ^ d + x)) (path_siblings tree d x d) x j = tree ! path_node d x j"
proof (induction j)
  case 0
  then show ?case by (simp add: path_node_0)
next
  case (Suc j)
  let ?n = "path_node d x (Suc j)"
  have "?n < 2 ^ Suc (d - Suc j)" "1 \<le> ?n" using path_node_bounds [of "Suc j" d x] Suc.prems assms(2) by blast+
  moreover have "(2 :: nat) ^ Suc (d - Suc j) \<le> 2 ^ d" using Suc.prems by (intro power_increasing) simp_all
  ultimately have "tree ! ?n = H (tree ! (2 * ?n)) (tree ! (2 * ?n + 1))" by (intro assms(1)) linarith+
  with Suc path_children [of j d x] show ?case by (auto simp: path_siblings_def)
qed

text \<open>C32. Round trip of Merkle proofs: for every leaf of a tree that was built, a proof is generated and
  verifies against the root of the tree, for that leaf (or the zero padding) at that index.\<close>

theorem merkle_proof_roundtrip:
  assumes "merkle_tree H leaves depth = Inr tree" and "unat depth < 62" and "index < shl 1 depth"
  shows "\<exists>branch. generate_proof tree index depth = Inr branch \<and> length branch = unat depth \<and>
    is_valid_merkle_branch H (if unat index < length leaves then leaves ! unat index else 0) branch depth index (tree ! 1)"
proof -
  let ?d = "unat depth" and ?x = "unat index"
  have d64: "?d < 64" using assms(2) by simp
  have x: "?x < 2 ^ ?d" using assms(2,3) by (simp add: word_less_nat_alt unat_shl)
  note tree = merkle_tree_Inr [OF assms(1) d64]
  let ?b = "path_siblings tree ?d ?x ?d"
  have len: "length ?b = ?d" by (simp add: path_siblings_def)
  have "branch_value H (tree ! (2 ^ ?d + ?x)) ?b ?x ?d = tree ! 1"
    using branch_value_path [of ?d tree H ?x ?d] tree(4) x path_node_top [OF x] by simp
  then have "is_valid_merkle_branch H (tree ! (2 ^ ?d + ?x)) ?b depth index (tree ! 1)"
    by (simp add: is_valid_merkle_branch_def len root_from_branch [OF len d64])
  with generate_proof_siblings [OF tree(1) assms(2,3)] len tree(3) [OF x] show ?thesis by auto
qed

section \<open>Binding\<close>

lemma first_agreement:
  assumes "f (0 :: nat) \<noteq> g 0" and "f n = g n"
  shows "\<exists>j < n. f j \<noteq> g j \<and> f (Suc j) = g (Suc j)"
  using assms by (induction n) (auto simp: less_Suc_eq)

text \<open>C33. A branch is bound to its leaf: when two branches of the same depth verify at the same index
  against the same root for different leaves, then at some height of the path the two computations
  hash different pairs of children to the same node, a collision of the hash.\<close>

theorem merkle_branch_binding:
  assumes "is_valid_merkle_branch H leaf branch depth index root"
    and "is_valid_merkle_branch H leaf' branch' depth index root" and "leaf \<noteq> leaf'"
  shows "\<exists>j < unat depth. branch_children H leaf branch index j \<noteq> branch_children H leaf' branch' index j \<and>
    case_prod H (branch_children H leaf branch index j) = case_prod H (branch_children H leaf' branch' index j)"
proof -
  let ?f = "branch_node H leaf branch index" and ?g = "branch_node H leaf' branch' index"
  have "?f (unat depth) = ?g (unat depth)"
    using assms(1,2) by (auto simp: is_valid_merkle_branch_def root_of_branch split: if_splits)
  then obtain j where j: "j < unat depth" "?f j \<noteq> ?g j" "?f (Suc j) = ?g (Suc j)"
    using first_agreement [of ?f ?g] assms(3) by auto
  then have "branch_children H leaf branch index j \<noteq> branch_children H leaf' branch' index j"
    by (auto simp: branch_children_def split: if_splits)
  with j(1,3) show ?thesis unfolding branch_node_Suc by blast
qed

section \<open>Evaluation\<close>

definition demo_node_hash :: node_hash where
  "demo_node_hash l r = 3 * l + r + 1"

lemma shl_two: "shl 1 2 = 4"
  by (simp add: shl_def push_bit_eq_mult)

lemma demo_tree: "merkle_tree demo_node_hash [5, 6, 7] 2 = Inr [0, 89, 22, 22, 5, 6, 7, 0]"
  by code_simp

theorem merkle_proof_roundtrip_witness:
  "\<exists>branch. generate_proof [0, 89, 22, 22, 5, 6, 7, 0] 1 2 = Inr branch \<and> length branch = 2 \<and>
     is_valid_merkle_branch demo_node_hash 6 branch 2 1 89"
  using merkle_proof_roundtrip [OF demo_tree, of 1] by (simp add: shl_two)

theorem merkle_branch_binding_witness:
  "\<exists>j < 2. branch_children demo_node_hash 6 [5, 22] 1 j \<noteq> branch_children demo_node_hash 3 [6, 22] 1 j \<and>
     case_prod demo_node_hash (branch_children demo_node_hash 6 [5, 22] 1 j) =
     case_prod demo_node_hash (branch_children demo_node_hash 3 [6, 22] 1 j)"
proof -
  have "is_valid_merkle_branch demo_node_hash 6 [5, 22] 2 1 89"
    and "is_valid_merkle_branch demo_node_hash 3 [6, 22] 2 1 89" by code_simp+
  from merkle_branch_binding [OF this] show ?thesis by simp
qed

end
