(* ===== verification/Beacon_Operations.thy ===== *)
theory Beacon_Operations
  imports Beacon_Registry Merkle
begin

text \<open>
  Block processing of \<open>electra/beacon_state.rs\<close>: the header, withdrawals, the execution payload, the
  randao reveal, Eth1 data, the operations of a block body (slashings, attestations, deposits, exits,
  credential changes and the requests of the execution layer) and the sync aggregate.
\<close>

section \<open>The header\<close>

definition beacon_process_block_header :: "beacon_env \<Rightarrow> beacon_block \<Rightarrow> beacon_state \<Rightarrow> beacon_error + beacon_state" where
  "beacon_process_block_header E b s =
     and_then (require (bs_slot s = bb_slot b) ''State slot must be equal to block slot'') (\<lambda>_.
     and_then (require (bb_slot b > bh_slot (bs_latest_block_header s))
       ''Block slot must be greater than latest block header slot of state'') (\<lambda>_.
     and_then (get_beacon_proposer_index E s None) (\<lambda>proposer_index.
     and_then (require (bb_proposer_index b = proposer_index)
       ''Block proposer index must be equal to beacon proposer index'') (\<lambda>_.
     and_then (require (bb_parent_root b = root_header E (bs_latest_block_header s))
       ''Block Parent Root must be equal root of latest block header'') (\<lambda>_.
     let s1 = s\<lparr> bs_latest_block_header :=
                \<lparr> bh_slot = bb_slot b, bh_proposer_index = bb_proposer_index b,
                  bh_parent_root = bb_parent_root b, bh_state_root = 0,
                  bh_body_root = root_body E (bb_body b) \<rparr> \<rparr>
     in
     and_then (idx (bs_validators s1) (unat (bb_proposer_index b))) (\<lambda>proposer.
     and_then (require (\<not> slashed proposer) ''Block proposer must not be slashed'') (\<lambda>_.
     Inr s1)))))))"

section \<open>Withdrawals\<close>

text \<open>\<open>Address::from_slice(&withdrawal_credentials[12..])\<close>: the last 20 bytes.\<close>

definition credential_address :: "b256 \<Rightarrow> address" where
  "credential_address wc = foldl (\<lambda>acc b. acc * 256 + ucast b) 0 (drop 12 (b256_bytes wc))"

definition withdrawn_from :: "withdrawal list \<Rightarrow> u64 \<Rightarrow> u64" where
  "withdrawn_from ws validator_index =
     sum_list (map wd_amount (filter (\<lambda>w. wd_validator_index w = validator_index) ws))"

text \<open>The local variables of the two loops: the withdrawals so far, the next withdrawal index.\<close>

fun partial_withdrawal_steps ::
  "beacon_state \<Rightarrow> u64 \<Rightarrow> pending_partial_withdrawal list \<Rightarrow> withdrawal list \<Rightarrow> u64 \<Rightarrow> u64
   \<Rightarrow> beacon_error + (withdrawal list \<times> u64 \<times> u64)" where
  "partial_withdrawal_steps s epoch [] ws withdrawal_index processed = Inr (ws, withdrawal_index, processed)"
| "partial_withdrawal_steps s epoch (p # ps) ws withdrawal_index processed =
     (if pw_withdrawable_epoch p > epoch
         \<or> of_nat (length ws) = MAX_PENDING_PARTIALS_PER_WITHDRAWALS_SWEEP
      then Inr (ws, withdrawal_index, processed)
      else
        and_then (get_or (bs_validators s) (unat (pw_validator_index p)) ''Validator index out of bounds'') (\<lambda>v.
        and_then (get_or (bs_balances s) (unat (pw_validator_index p)) ''Balance index out of bounds'') (\<lambda>b.
        let balance = b - withdrawn_from ws (pw_validator_index p) in
        if exit_epoch v = FAR_FUTURE_EPOCH \<and> effective_balance v \<ge> MIN_ACTIVATION_BALANCE
           \<and> balance > MIN_ACTIVATION_BALANCE
        then
          (let withdrawable_balance = min (balance - MIN_ACTIVATION_BALANCE) (pw_amount p);
               w = \<lparr> wd_index = withdrawal_index, wd_validator_index = pw_validator_index p,
                     wd_address = credential_address (withdrawal_credentials v),
                     wd_amount = withdrawable_balance \<rparr>
           in partial_withdrawal_steps s epoch ps (ws @ [w]) (withdrawal_index + 1) (processed + 1))
        else partial_withdrawal_steps s epoch ps ws withdrawal_index (processed + 1))))"

text \<open>The sweep over at most \<open>bound\<close> validators.\<close>

fun withdrawal_sweep ::
  "beacon_state \<Rightarrow> u64 \<Rightarrow> nat \<Rightarrow> u64 \<Rightarrow> withdrawal list \<Rightarrow> u64 \<Rightarrow> beacon_error + withdrawal list" where
  "withdrawal_sweep s epoch 0 validator_index ws withdrawal_index = Inr ws"
| "withdrawal_sweep s epoch (Suc bound) validator_index ws withdrawal_index =
     and_then (get_or (bs_validators s) (unat validator_index) ''Validator index out of bounds'') (\<lambda>v.
     and_then (get_or (bs_balances s) (unat validator_index) ''Balance index out of bounds'') (\<lambda>b.
     let balance = b - withdrawn_from ws validator_index;
         new = (\<lambda>amount. \<lparr> wd_index = withdrawal_index, wd_validator_index = validator_index,
                 wd_address = credential_address (withdrawal_credentials v), wd_amount = amount \<rparr>);
         (ws', withdrawal_index') =
           (if is_fully_withdrawable_validator v balance epoch
            then (ws @ [new balance], withdrawal_index + 1)
            else if is_partially_withdrawable_validator v balance
            then (ws @ [new (balance - get_max_effective_balance v)], withdrawal_index + 1)
            else (ws, withdrawal_index))
     in
     if length ws' = unat MAX_WITHDRAWALS_PER_PAYLOAD then Inr ws'
     else and_then (mod_u64 (validator_index + 1) (of_nat (length (bs_validators s)))) (\<lambda>next.
          withdrawal_sweep s epoch bound next ws' withdrawal_index')))"

definition get_expected_withdrawals :: "beacon_state \<Rightarrow> beacon_error + (withdrawal list \<times> u64)" where
  "get_expected_withdrawals s =
     (let epoch = get_current_epoch s in
      and_then (partial_withdrawal_steps s epoch (bs_pending_partial_withdrawals s) []
        (bs_next_withdrawal_index s) 0) (\<lambda>(ws, withdrawal_index, processed).
      let bound = min (length (bs_validators s)) MAX_VALIDATORS_PER_WITHDRAWALS_SWEEP in
      and_then (withdrawal_sweep s epoch bound (bs_next_withdrawal_validator_index s) ws withdrawal_index) (\<lambda>ws'.
      Inr (ws', processed))))"

definition process_withdrawals :: "beacon_env \<Rightarrow> execution_payload \<Rightarrow> beacon_state \<Rightarrow> beacon_error + beacon_state" where
  "process_withdrawals E payload s =
     and_then (get_expected_withdrawals s) (\<lambda>(expected, processed).
     and_then (require (ep_withdrawals payload = expected) ''Withdrawals do not match expected withdrawals'') (\<lambda>_.
     and_then (try_fold (\<lambda>st w. decrease_balance (wd_validator_index w) (wd_amount w) st) s expected) (\<lambda>s1.
     and_then (push_all E (unat PENDING_PARTIAL_WITHDRAWALS_LIMIT)
       ''Failed to push partial_withdrawal to pending_partial_withdrawals''
       (drop (unat processed) (bs_pending_partial_withdrawals s1))) (\<lambda>pending.
     let s2 = s1\<lparr> bs_pending_partial_withdrawals := pending \<rparr>;
         s3 = (if expected \<noteq> [] then s2\<lparr> bs_next_withdrawal_index := wd_index (last expected) + 1 \<rparr> else s2)
     in
     and_then (mod_u64
         (if length expected = unat MAX_WITHDRAWALS_PER_PAYLOAD
          then wd_validator_index (last expected) + 1
          else bs_next_withdrawal_validator_index s3 + of_nat MAX_VALIDATORS_PER_WITHDRAWALS_SWEEP)
         (of_nat (length (bs_validators s3)))) (\<lambda>next_validator_index.
     Inr (s3\<lparr> bs_next_withdrawal_validator_index := next_validator_index \<rparr>))))))"

section \<open>The execution payload\<close>

definition to_execution_payload_header :: "beacon_env \<Rightarrow> execution_payload \<Rightarrow> execution_payload_header" where
  "to_execution_payload_header E p =
     \<lparr> eh_parent_hash = ep_parent_hash p, eh_fee_recipient = ep_fee_recipient p,
       eh_state_root = ep_state_root p, eh_receipts_root = ep_receipts_root p,
       eh_logs_bloom = ep_logs_bloom p, eh_prev_randao = ep_prev_randao p,
       eh_block_number = ep_block_number p, eh_gas_limit = ep_gas_limit p, eh_gas_used = ep_gas_used p,
       eh_timestamp = ep_timestamp p, eh_extra_data = ep_extra_data p,
       eh_base_fee_per_gas = ep_base_fee_per_gas p, eh_block_hash = ep_block_hash p,
       eh_transactions_root = root_transactions E (ep_transactions p),
       eh_withdrawals_root = root_withdrawals E (ep_withdrawals p),
       eh_blob_gas_used = ep_blob_gas_used p, eh_excess_blob_gas = ep_excess_blob_gas p \<rparr>"

text \<open>\<open>BeaconNetworkSpec::seconds_per_slot\<close>\<close>

definition seconds_per_slot :: "beacon_env \<Rightarrow> u64" where
  "seconds_per_slot E = slot_duration_ms E div 1000"

definition compute_timestamp_at_slot :: "beacon_env \<Rightarrow> beacon_state \<Rightarrow> u64 \<Rightarrow> u64" where
  "compute_timestamp_at_slot E s slot =
     (let slots_since_genesis = slot - GENESIS_SLOT
      in bs_genesis_time s + slots_since_genesis * seconds_per_slot E)"

definition get_blob_parameters :: "blob_parameters list \<Rightarrow> blob_parameters \<Rightarrow> u64 \<Rightarrow> blob_parameters" where
  "get_blob_parameters schedule electra epoch =
     (case List.find (\<lambda>entry. epoch \<ge> bp_epoch entry) (rev schedule) of
        Some entry \<Rightarrow> entry | None \<Rightarrow> electra)"

definition network_blob_parameters :: "beacon_env \<Rightarrow> u64 \<Rightarrow> blob_parameters" where
  "network_blob_parameters E epoch =
     get_blob_parameters (blob_schedule E)
       \<lparr> bp_epoch = electra_fork_epoch E, max_blobs_per_block = max_blobs_per_block_electra E \<rparr> epoch"

definition verify_execution_payload_consistency :: "beacon_env \<Rightarrow> beacon_block_body \<Rightarrow> beacon_state \<Rightarrow> beacon_error + unit" where
  "verify_execution_payload_consistency E body s =
     (let payload = bb_execution_payload body in
      and_then (require (ep_parent_hash payload = eh_block_hash (bs_latest_execution_payload_header s)) ''parent_hash'') (\<lambda>_.
      and_then (get_randao_mix s (get_current_epoch s)) (\<lambda>mix.
      and_then (require (ep_prev_randao payload = mix) ''prev_randao'') (\<lambda>_.
      and_then (require (ep_timestamp payload = compute_timestamp_at_slot E s (bs_slot s)) ''timestamp'') (\<lambda>_.
      require (length (blob_kzg_commitments body)
               \<le> unat (max_blobs_per_block (network_blob_parameters E (get_current_epoch s)))) ''blob_kzg_commitments'')))))"

record new_payload_request =
  np_execution_payload :: execution_payload
  np_versioned_hashes :: "b256 list"
  np_parent_beacon_block_root :: b256
  np_execution_requests :: execution_requests

text \<open>The execution engine answers a request with a verdict or an error.\<close>

type_synonym execution_api = "new_payload_request \<Rightarrow> beacon_error + bool"

definition notify_new_payload :: "beacon_env \<Rightarrow> execution_api \<Rightarrow> beacon_block_body \<Rightarrow> b256 \<Rightarrow> beacon_error + bool" where
  "notify_new_payload E engine body parent_root =
     engine \<lparr> np_execution_payload = bb_execution_payload body,
              np_versioned_hashes = map (versioned_hash E) (blob_kzg_commitments body),
              np_parent_beacon_block_root = parent_root,
              np_execution_requests = bb_execution_requests body \<rparr>"

definition process_execution_payload ::
  "beacon_env \<Rightarrow> execution_api option \<Rightarrow> beacon_block_body \<Rightarrow> beacon_state \<Rightarrow> beacon_error + beacon_state" where
  "process_execution_payload E engine body s =
     and_then (verify_execution_payload_consistency E body s) (\<lambda>_.
     and_then (case engine of
         None \<Rightarrow> Inr ()
       | Some api \<Rightarrow>
           and_then (notify_new_payload E api body (bh_parent_root (bs_latest_block_header s))) (\<lambda>valid.
           require valid ''notify_new_payload'')) (\<lambda>_.
     Inr (s\<lparr> bs_latest_execution_payload_header := to_execution_payload_header E (bb_execution_payload body) \<rparr>)))"

section \<open>Randao and Eth1\<close>

text \<open>\<open>hash(randao_reveal)\<close>: the 96 bytes of a signature.\<close>

definition signature_bytes :: "bls_signature \<Rightarrow> byte list" where
  "signature_bytes w = map (\<lambda>i. ucast (drop_bit (8 * (95 - i)) w)) [0..<96]"

definition public_key_bytes :: "bls_public_key \<Rightarrow> byte list" where
  "public_key_bytes w = map (\<lambda>i. ucast (drop_bit (8 * (47 - i)) w)) [0..<48]"

definition xor_bytes :: "byte list \<Rightarrow> byte list \<Rightarrow> b256" where
  "xor_bytes bytes_1 bytes_2 = b256_of_bytes (map (\<lambda>i. bytes_1 ! i XOR bytes_2 ! i) [0..<32])"

definition process_randao_inner :: "beacon_env \<Rightarrow> beacon_block_body \<Rightarrow> bool \<Rightarrow> beacon_state \<Rightarrow> beacon_error + beacon_state" where
  "process_randao_inner E body verify_signature s =
     (let epoch = get_current_epoch s in
      and_then (get_beacon_proposer_index E s None) (\<lambda>proposer_index.
      case list_get (bs_validators s) (unat proposer_index) of
        None \<Rightarrow> Inr s
      | Some proposer \<Rightarrow>
          and_then (if verify_signature
            then (let signing_root = compute_signing_root E (root_u64 E epoch) (get_domain E s DOMAIN_RANDAO (Some epoch)) in
                  and_then (bls_verify E (randao_reveal body) (v_public_key proposer) signing_root) (\<lambda>ok.
                  require ok ''BLS Signature verification failed!''))
            else Inr ()) (\<lambda>_.
          and_then (get_randao_mix s epoch) (\<lambda>old_mix.
          let mix = xor_bytes (b256_bytes old_mix) (b256_bytes (be_hash E (signature_bytes (randao_reveal body)))) in
          and_then (set_idx (bs_randao_mixes s) (unat (epoch mod EPOCHS_PER_HISTORICAL_VECTOR)) mix) (\<lambda>mixes.
          Inr (s\<lparr> bs_randao_mixes := mixes \<rparr>))))))"

definition process_eth1_data :: "beacon_env \<Rightarrow> beacon_block_body \<Rightarrow> beacon_state \<Rightarrow> beacon_error + beacon_state" where
  "process_eth1_data E body s =
     and_then (vl_push E ETH1_VOTES_CAPACITY ''Can't push eth1_data'' (bs_eth1_data_votes s) (bb_eth1_data body)) (\<lambda>votes.
     let s1 = s\<lparr> bs_eth1_data_votes := votes \<rparr>;
         cnt = of_nat (length (filter (\<lambda>d. d = bb_eth1_data body) votes)) :: u64
     in Inr (if cnt * 2 > EPOCHS_PER_ETH1_VOTING_PERIOD * SLOTS_PER_EPOCH
             then s1\<lparr> bs_eth1_data := bb_eth1_data body \<rparr> else s1))"

section \<open>Slashings\<close>

definition verify_slashed_header :: "beacon_env \<Rightarrow> beacon_state \<Rightarrow> bls_public_key \<Rightarrow> signed_beacon_block_header \<Rightarrow> beacon_error + unit" where
  "verify_slashed_header E s key sh =
     (let domain = get_domain E s DOMAIN_BEACON_PROPOSER (Some (compute_epoch_at_slot (bh_slot (sbh_message sh))));
          signing_root = compute_signing_root E (root_header E (sbh_message sh)) domain
      in and_then (bls_verify E (sbh_signature sh) key signing_root) (\<lambda>ok.
         require ok ''BLS Signature verification failed!''))"

definition validate_proposer_slashing :: "beacon_env \<Rightarrow> proposer_slashing \<Rightarrow> beacon_state \<Rightarrow> beacon_error + u64" where
  "validate_proposer_slashing E ps s =
     (let header_1 = sbh_message (signed_header_1 ps);
          header_2 = sbh_message (signed_header_2 ps)
      in
      and_then (require (bh_slot header_1 = bh_slot header_2) ''Header slots must match'') (\<lambda>_.
      and_then (require (bh_proposer_index header_1 = bh_proposer_index header_2) ''Proposer indices must match'') (\<lambda>_.
      and_then (require (header_1 \<noteq> header_2) ''Headers must be different'') (\<lambda>_.
      and_then (get_or (bs_validators s) (unat (bh_proposer_index header_1)) ''Invalid proposer index'') (\<lambda>proposer.
      and_then (require (is_slashable_validator proposer (get_current_epoch s)) ''Proposer is not slashable'') (\<lambda>_.
      and_then (verify_slashed_header E s (v_public_key proposer) (signed_header_1 ps)) (\<lambda>_.
      and_then (verify_slashed_header E s (v_public_key proposer) (signed_header_2 ps)) (\<lambda>_.
      Inr (bh_proposer_index header_1)))))))))"

definition process_proposer_slashing :: "beacon_env \<Rightarrow> beacon_state \<Rightarrow> proposer_slashing \<Rightarrow> beacon_error + beacon_state" where
  "process_proposer_slashing E s ps =
     and_then (validate_proposer_slashing E ps s) (\<lambda>proposer_index. slash_validator E proposer_index None s)"

text \<open>The two sets of indices are lists without duplicates.\<close>

definition get_slashable_attester_indices :: "beacon_env \<Rightarrow> attester_slashing \<Rightarrow> beacon_state \<Rightarrow> beacon_error + (u64 list \<times> u64 list)" where
  "get_slashable_attester_indices E sl s =
     (let a1 = attestation_1 sl; a2 = attestation_2 sl in
      and_then (require (is_slashable_attestation_data (ia_data a1) (ia_data a2)) ''Attestations are not slashable'') (\<lambda>_.
      and_then (is_valid_indexed_attestation E s a1) (\<lambda>valid_1.
      and_then (require valid_1 ''First attestation is invalid'') (\<lambda>_.
      and_then (is_valid_indexed_attestation E s a2) (\<lambda>valid_2.
      and_then (require valid_2 ''Second attestation is invalid'') (\<lambda>_.
      Inr (remdups (attesting_indices a1), remdups (attesting_indices a2))))))))"

definition slash_if_slashable :: "beacon_env \<Rightarrow> u64 \<Rightarrow> bool \<times> beacon_state \<Rightarrow> u64 \<Rightarrow> beacon_error + (bool \<times> beacon_state)" where
  "slash_if_slashable E current_epoch = (\<lambda>(slashed_any, s) index.
     and_then (idx (bs_validators s) (unat index)) (\<lambda>v.
     if is_slashable_validator v current_epoch
     then and_then (slash_validator E index None s) (\<lambda>s'. Inr (True, s'))
     else Inr (slashed_any, s)))"

definition process_attester_slashing :: "beacon_env \<Rightarrow> beacon_state \<Rightarrow> attester_slashing \<Rightarrow> beacon_error + beacon_state" where
  "process_attester_slashing E s sl =
     and_then (get_slashable_attester_indices E sl s) (\<lambda>(indices_1, indices_2).
     let current_epoch = get_current_epoch s in
     and_then (try_fold (slash_if_slashable E current_epoch) (False, s)
       (sort (filter (\<lambda>i. i \<in> set indices_2) indices_1))) (\<lambda>(slashed_any, s').
     and_then (require slashed_any ''No validator was slashed'') (\<lambda>_.
     Inr s')))"

end
