(* ===== verification/Beacon_Requests.thy ===== *)
theory Beacon_Requests
  imports Beacon_Operations
begin

text \<open>
  The other operations of a block body in \<open>electra/beacon_state.rs\<close>: attestations, deposits, exits,
  credential changes, and the deposit, withdrawal and consolidation requests of the execution layer.
\<close>

section \<open>Attestations\<close>

definition get_attestation_participation_flag_indices ::
  "beacon_state \<Rightarrow> beacon_attestation_data \<Rightarrow> u64 \<Rightarrow> beacon_error + byte list" where
  "get_attestation_participation_flag_indices s d inclusion_delay =
     (let justified_checkpoint =
            (if cp_epoch (bad_target d) = get_current_epoch s then bs_current_justified_checkpoint s
             else bs_previous_justified_checkpoint s);
          is_matching_source = (bad_source d = justified_checkpoint)
      in
      and_then (if is_matching_source
        then and_then (get_block_root s (cp_epoch (bad_target d))) (\<lambda>root. Inr (bcp_root (bad_target d) = root))
        else Inr False) (\<lambda>is_matching_target.
      and_then (if is_matching_target
        then and_then (get_block_root_at_slot s (bad_slot d)) (\<lambda>root. Inr (beacon_block_root d = root))
        else Inr False) (\<lambda>is_matching_head.
      and_then (require is_matching_source ''is_matching_source'') (\<lambda>_.
      Inr ((if is_matching_source \<and> inclusion_delay \<le> integer_squareroot SLOTS_PER_EPOCH
            then [TIMELY_SOURCE_FLAG_INDEX] else [])
           @ (if is_matching_target then [TIMELY_TARGET_FLAG_INDEX] else [])
           @ (if is_matching_head \<and> inclusion_delay = MIN_ATTESTATION_INCLUSION_DELAY
              then [TIMELY_HEAD_FLAG_INDEX] else []))))))"

text \<open>One flag of one attester: the flags of the attester and the numerator of the proposer's reward.\<close>

definition mark_flag ::
  "beacon_state \<Rightarrow> u64 \<Rightarrow> byte list \<Rightarrow> u64 \<Rightarrow> byte \<times> u64 \<Rightarrow> nat \<times> u64 \<Rightarrow> beacon_error + (byte \<times> u64)" where
  "mark_flag s brpi flag_indices index = (\<lambda>(epoch_part, numerator) (flag_index, weight).
     (let flag_index = of_nat flag_index :: byte in
      if flag_index \<in> set flag_indices \<and> \<not> has_flag epoch_part flag_index
      then and_then (get_base_reward s (unat index) brpi) (\<lambda>base_reward.
           Inr (add_flag epoch_part flag_index, numerator + base_reward * weight))
      else Inr (epoch_part, numerator)))"

definition mark_attester ::
  "beacon_state \<Rightarrow> u64 \<Rightarrow> byte list \<Rightarrow> byte list \<times> u64 \<Rightarrow> u64 \<Rightarrow> beacon_error + (byte list \<times> u64)" where
  "mark_attester s brpi flag_indices = (\<lambda>(participation, numerator) index.
     and_then (get_or participation (unat index) ''Validator index out of bounds in epoch_participation'') (\<lambda>epoch_part.
     and_then (try_fold (mark_flag s brpi flag_indices index) (epoch_part, numerator)
       (List.enumerate 0 PARTICIPATION_FLAG_WEIGHTS)) (\<lambda>(epoch_part', numerator').
     Inr (participation[unat index := epoch_part'], numerator'))))"

definition mark_participation ::
  "beacon_state \<Rightarrow> byte list \<Rightarrow> u64 list \<Rightarrow> byte list \<Rightarrow> beacon_error + (byte list \<times> u64)" where
  "mark_participation s participation indices flag_indices =
     and_then (get_base_reward_per_increment s) (\<lambda>brpi.
     and_then (try_fold (mark_attester s brpi flag_indices) (participation, 0) indices) (\<lambda>(participation', numerator).
     let proposer_reward_denominator = (WEIGHT_DENOMINATOR - PROPOSER_WEIGHT) * WEIGHT_DENOMINATOR div PROPOSER_WEIGHT
     in Inr (participation', numerator div proposer_reward_denominator)))"

text \<open>One committee of an attestation has at least one attester; the result is the offset of the next.\<close>

definition check_committee ::
  "beacon_env \<Rightarrow> beacon_state \<Rightarrow> beacon_attestation \<Rightarrow> nat \<Rightarrow> u64 \<Rightarrow> beacon_error + nat" where
  "check_committee E s a committee_offset committee_index =
     and_then (get_committee_count_per_slot E s (cp_epoch (bad_target (ba_data a)))) (\<lambda>cnt.
     and_then (require (committee_index < cnt) ''committee_index'') (\<lambda>_.
     and_then (get_beacon_committee E s (bad_slot (ba_data a)) committee_index) (\<lambda>committee.
     and_then (try_fold (\<lambda>has_attester i.
         and_then (get_or (ba_aggregation_bits a) (committee_offset + i) ''Failed to get aggregation bit'') (\<lambda>bit.
         Inr (has_attester \<or> bit))) False [0..<length committee]) (\<lambda>has_attester.
     and_then (require has_attester ''Committee attesters must not be empty'') (\<lambda>_.
     Inr (committee_offset + length committee))))))"

text \<open>The checks of \<open>process_attestation_with\<close>, with the flags and the attesters they compute.\<close>

definition check_attestation ::
  "beacon_env \<Rightarrow> bool \<Rightarrow> beacon_state \<Rightarrow> beacon_attestation \<Rightarrow> beacon_error + (byte list \<times> indexed_attestation)" where
  "check_attestation E verify_signatures s a =
     (let d = ba_data a; target_epoch = cp_epoch (bad_target d) in
      and_then (require (target_epoch = get_previous_epoch s \<or> target_epoch = get_current_epoch s)
        ''Target epoch must be the previous or current epoch'') (\<lambda>_.
      and_then (require (target_epoch = compute_epoch_at_slot (bad_slot d))
        ''Target epoch must match the computed epoch at slot'') (\<lambda>_.
      and_then (require (bad_slot d + MIN_ATTESTATION_INCLUSION_DELAY \<le> bs_slot s)
        ''Attestation must be included after the minimum delay'') (\<lambda>_.
      and_then (get_committee_count_per_slot E s target_epoch) (\<lambda>cnt.
      and_then (require (bad_index d < cnt) ''Committee index must be within bounds'') (\<lambda>_.
      and_then (require (bad_index d = 0) ''data.index == 0'') (\<lambda>_.
      and_then (try_fold (check_committee E s a) 0 (get_committee_indices (ba_committee_bits a))) (\<lambda>committee_offset.
      and_then (require (length (ba_aggregation_bits a) = committee_offset)
        ''Aggregation bits length must match committee size'') (\<lambda>_.
      and_then (get_attestation_participation_flag_indices s d (bs_slot s - bad_slot d)) (\<lambda>flag_indices.
      and_then (get_indexed_attestation E s a) (\<lambda>indexed.
      and_then (if verify_signatures then is_valid_indexed_attestation E s indexed else Inr True) (\<lambda>valid.
      and_then (require valid ''Attestation signature must be valid'') (\<lambda>_.
      Inr (flag_indices, indexed))))))))))))))"

definition process_attestation_with ::
  "beacon_env \<Rightarrow> bool \<Rightarrow> beacon_state \<Rightarrow> beacon_attestation \<Rightarrow> beacon_error + beacon_state" where
  "process_attestation_with E verify_signatures s a =
     and_then (check_attestation E verify_signatures s a) (\<lambda>(flag_indices, indexed).
     let is_current = (cp_epoch (bad_target (ba_data a)) = get_current_epoch s);
         participation = (if is_current then bs_current_epoch_participation s else bs_previous_epoch_participation s)
     in
     and_then (mark_participation s participation (attesting_indices indexed) flag_indices) (\<lambda>(participation', proposer_reward).
     let s1 = (if is_current then s\<lparr> bs_current_epoch_participation := participation' \<rparr>
               else s\<lparr> bs_previous_epoch_participation := participation' \<rparr>)
     in
     and_then (get_beacon_proposer_index E s1 None) (\<lambda>proposer_index.
     increase_balance proposer_index proposer_reward s1)))"

section \<open>Deposits\<close>

definition apply_deposit ::
  "beacon_env \<Rightarrow> bls_public_key \<Rightarrow> b256 \<Rightarrow> u64 \<Rightarrow> bls_signature \<Rightarrow> beacon_state \<Rightarrow> beacon_error + beacon_state" where
  "apply_deposit E key credentials amount sg s =
     (let push = push_pending_deposit E ''Couldn't push to pending_deposits''
            \<lparr> pd_public_key = key, pd_withdrawal_credentials = credentials, pd_amount = amount,
              pd_signature = sg, pd_slot = GENESIS_SLOT \<rparr>
      in
      if find_validator_index E (bs_validators s) key = None
      then (if deposit_signature_ok E key credentials amount sg
            then and_then (add_validator_to_registry E key credentials 0 s) push
            else Inr s)
      else push s)"

definition process_deposit :: "beacon_env \<Rightarrow> beacon_state \<Rightarrow> deposit \<Rightarrow> beacon_error + beacon_state" where
  "process_deposit E s d =
     and_then (require (is_valid_merkle_branch (be_node_hash E) (root_deposit_data E (dep_data d)) (dep_proof d)
       (DEPOSIT_CONTRACT_TREE_DEPTH + 1) (bs_eth1_deposit_index s) (e1_deposit_root (bs_eth1_data s)))
       ''is_valid_merkle_branch'') (\<lambda>_.
     let s1 = s\<lparr> bs_eth1_deposit_index := bs_eth1_deposit_index s + 1 \<rparr>
     in apply_deposit E (dd_public_key (dep_data d)) (dd_withdrawal_credentials (dep_data d))
          (dd_amount (dep_data d)) (dd_signature (dep_data d)) s1)"

section \<open>Exits and credential changes\<close>

definition validate_voluntary_exit :: "beacon_env \<Rightarrow> signed_voluntary_exit \<Rightarrow> beacon_state \<Rightarrow> beacon_error + unit" where
  "validate_voluntary_exit E sve s =
     (let ve = sve_message sve in
      and_then (get_or (bs_validators s) (unat (ve_validator_index ve)) ''Invalid validator index'') (\<lambda>v.
      and_then (require (is_active_validator v (get_current_epoch s)) ''Validator is not active'') (\<lambda>_.
      and_then (require (exit_epoch v = FAR_FUTURE_EPOCH) ''Exit has already been initiated'') (\<lambda>_.
      and_then (require (get_current_epoch s \<ge> ve_epoch ve) ''Exit is not yet valid'') (\<lambda>_.
      and_then (require (get_pending_balance_to_withdraw s (ve_validator_index ve) = 0)
        ''Validator has pending withdrawals'') (\<lambda>_.
      and_then (ok_or (checked_add (activation_epoch v) SHARD_COMMITTEE_PERIOD)
        (Anyhow ''Failed to calculate earliest exit epoch'')) (\<lambda>earliest.
      and_then (require (get_current_epoch s \<ge> earliest) ''Validator has not been active long enough'') (\<lambda>_.
      let domain = voluntary_exit_domain E (bs_genesis_validators_root s);
          signing_root = compute_signing_root E (root_voluntary_exit E ve) domain
      in
      and_then (bls_verify E (sve_signature sve) (v_public_key v) signing_root) (\<lambda>ok.
      require ok ''BLS Signature verification failed!'')))))))))"

definition process_voluntary_exit :: "beacon_env \<Rightarrow> beacon_state \<Rightarrow> signed_voluntary_exit \<Rightarrow> beacon_error + beacon_state" where
  "process_voluntary_exit E s sve =
     and_then (validate_voluntary_exit E sve s) (\<lambda>_.
     initiate_validator_exit (ve_validator_index (sve_message sve)) s)"

definition validate_bls_to_execution_change ::
  "beacon_env \<Rightarrow> signed_bls_to_execution_change \<Rightarrow> beacon_state \<Rightarrow> beacon_error + unit" where
  "validate_bls_to_execution_change E sc s =
     (let c = sbc_message sc in
      and_then (require (bc_validator_index c < of_nat (length (bs_validators s))) ''validator_index'') (\<lambda>_.
      and_then (idx (bs_validators s) (unat (bc_validator_index c))) (\<lambda>v.
      and_then (require (credential_prefix (withdrawal_credentials v) = BLS_WITHDRAWAL_PREFIX) ''BLS_WITHDRAWAL_PREFIX'') (\<lambda>_.
      and_then (require (drop 1 (b256_bytes (withdrawal_credentials v))
                         = drop 1 (b256_bytes (be_hash E (public_key_bytes (from_bls_public_key c)))))
        ''withdrawal_credentials'') (\<lambda>_.
      let domain = compute_domain E DOMAIN_BLS_TO_EXECUTION_CHANGE (Some (genesis_fork_version E))
            (Some (bs_genesis_validators_root s));
          signing_root = compute_signing_root E (root_bls_change E c) domain
      in
      and_then (bls_verify E (sbc_signature sc) (from_bls_public_key c) signing_root) (\<lambda>ok.
      require ok ''BLS Signature verification failed!''))))))"

definition address_bytes :: "address \<Rightarrow> byte list" where
  "address_bytes w = map (\<lambda>i. ucast (drop_bit (8 * (19 - i)) w)) [0..<20]"

definition eth1_credential :: "address \<Rightarrow> b256" where
  "eth1_credential a = b256_of_bytes ([ETH1_ADDRESS_WITHDRAWAL_PREFIX] @ replicate 11 0 @ address_bytes a)"

definition process_bls_to_execution_change ::
  "beacon_env \<Rightarrow> beacon_state \<Rightarrow> signed_bls_to_execution_change \<Rightarrow> beacon_error + beacon_state" where
  "process_bls_to_execution_change E s sc =
     and_then (validate_bls_to_execution_change E sc s) (\<lambda>_.
     let c = sbc_message sc in
     and_then (idx (bs_validators s) (unat (bc_validator_index c))) (\<lambda>_.
     Inr (update_validator (unat (bc_validator_index c))
            (\<lambda>v. v\<lparr> withdrawal_credentials := eth1_credential (to_execution_address c) \<rparr>) s)))"

section \<open>Requests of the execution layer\<close>

definition process_deposit_request :: "beacon_env \<Rightarrow> beacon_state \<Rightarrow> deposit_request \<Rightarrow> beacon_error + beacon_state" where
  "process_deposit_request E s r =
     (let s1 = (if bs_deposit_requests_start_index s = UNSET_DEPOSIT_REQUESTS_START_INDEX
                then s\<lparr> bs_deposit_requests_start_index := dr_index r \<rparr> else s)
      in push_pending_deposit E ''Failed to push PendingDeposit to pending_deposits''
           \<lparr> pd_public_key = dr_public_key r, pd_withdrawal_credentials = dr_withdrawal_credentials r,
             pd_amount = dr_amount r, pd_signature = dr_signature r, pd_slot = bs_slot s1 \<rparr> s1)"

text \<open>The accepted part of a partial withdrawal request.\<close>

definition queue_partial_withdrawal :: "beacon_env \<Rightarrow> nat \<Rightarrow> u64 \<Rightarrow> beacon_state \<Rightarrow> beacon_error + beacon_state" where
  "queue_partial_withdrawal E index to_withdraw s =
     and_then (compute_exit_epoch_and_update_churn to_withdraw s) (\<lambda>(exit_queue_epoch, s1).
     and_then (vl_push E (unat PENDING_PARTIAL_WITHDRAWALS_LIMIT)
       ''Failed to push PendingPartialWithdrawal to pending_partial_withdrawals''
       (bs_pending_partial_withdrawals s1)
       \<lparr> pw_validator_index = of_nat index, pw_amount = to_withdraw,
         pw_withdrawable_epoch = exit_queue_epoch + MIN_VALIDATOR_WITHDRAWABILITY_DELAY \<rparr>) (\<lambda>ps.
     Inr (s1\<lparr> bs_pending_partial_withdrawals := ps \<rparr>)))"

definition process_withdrawal_request :: "beacon_env \<Rightarrow> beacon_state \<Rightarrow> withdrawal_request \<Rightarrow> beacon_error + beacon_state" where
  "process_withdrawal_request E s r =
     (let amount = wr_amount r;
          is_full_exit_request = (amount = FULL_EXIT_REQUEST_AMOUNT)
      in
      if of_nat (length (bs_pending_partial_withdrawals s)) = PENDING_PARTIAL_WITHDRAWALS_LIMIT \<and> \<not> is_full_exit_request
      then Inr s
      else case find_validator_index E (bs_validators s) (wr_validator_public_key r) of
        None \<Rightarrow> Inr s
      | Some index \<Rightarrow>
          and_then (idx (bs_validators s) index) (\<lambda>v.
          if \<not> (has_execution_withdrawal_credential v
                \<and> credential_address (withdrawal_credentials v) = wr_source_address r) then Inr s
          else if \<not> is_active_validator v (get_current_epoch s) then Inr s
          else if exit_epoch v \<noteq> FAR_FUTURE_EPOCH then Inr s
          else if get_current_epoch s < activation_epoch v + SHARD_COMMITTEE_PERIOD then Inr s
          else
            (let pending = get_pending_balance_to_withdraw s (of_nat index) in
             if is_full_exit_request
             then (if pending = 0 then initiate_validator_exit (of_nat index) s else Inr s)
             else
               and_then (get_or (bs_balances s) index ''Failed to get balance'') (\<lambda>balance.
               if has_compounding_withdrawal_credential v \<and> effective_balance v \<ge> MIN_ACTIVATION_BALANCE
                  \<and> balance > MIN_ACTIVATION_BALANCE + pending
               then queue_partial_withdrawal E index
                      (min (balance - MIN_ACTIVATION_BALANCE - pending) amount) s
               else Inr s))))"

definition is_valid_switch_with_source ::
  "beacon_state \<Rightarrow> consolidation_request \<Rightarrow> nat option \<Rightarrow> beacon_error + bool" where
  "is_valid_switch_with_source s r source_index =
     (if cr_source_public_key r \<noteq> cr_target_public_key r then Inr False
      else case source_index of
        None \<Rightarrow> Inr False
      | Some index \<Rightarrow>
          and_then (idx (bs_validators s) index) (\<lambda>v.
          Inr (credential_address (withdrawal_credentials v) = cr_source_address r
               \<and> has_eth1_withdrawal_credential v
               \<and> is_active_validator v (get_current_epoch s)
               \<and> exit_epoch v = FAR_FUTURE_EPOCH)))"

text \<open>The conditions under which a consolidation request with two known validators is accepted.\<close>

definition consolidation_allowed ::
  "beacon_state \<Rightarrow> consolidation_request \<Rightarrow> nat \<Rightarrow> beacon_validator \<Rightarrow> beacon_validator \<Rightarrow> bool" where
  "consolidation_allowed s r source_index source target \<longleftrightarrow>
     (let current_epoch = get_current_epoch s in
      has_execution_withdrawal_credential source
      \<and> credential_address (withdrawal_credentials source) = cr_source_address r
      \<and> has_compounding_withdrawal_credential target
      \<and> is_active_validator source current_epoch \<and> is_active_validator target current_epoch
      \<and> exit_epoch source = FAR_FUTURE_EPOCH \<and> exit_epoch target = FAR_FUTURE_EPOCH
      \<and> \<not> current_epoch < activation_epoch source + SHARD_COMMITTEE_PERIOD
      \<and> \<not> get_pending_balance_to_withdraw s (of_nat source_index) > 0)"

text \<open>The accepted part of a consolidation request: the source exits and the consolidation is queued.\<close>

definition queue_consolidation :: "beacon_env \<Rightarrow> nat \<Rightarrow> nat \<Rightarrow> beacon_validator \<Rightarrow> beacon_state \<Rightarrow> beacon_error + beacon_state" where
  "queue_consolidation E source_index target_index source s =
     and_then (compute_consolidation_epoch_and_update_churn (effective_balance source) s)
       (\<lambda>(new_exit_epoch, s1).
     let s2 = update_validator source_index
           (\<lambda>v. v\<lparr> exit_epoch := new_exit_epoch,
                   withdrawable_epoch := new_exit_epoch + MIN_VALIDATOR_WITHDRAWABILITY_DELAY \<rparr>) s1
     in
     and_then (vl_push E (unat PENDING_CONSOLIDATIONS_LIMIT)
       ''Failed to push PendingConsolidation to pending_consolidations''
       (bs_pending_consolidations s2)
       \<lparr> pc_source_index = of_nat source_index, pc_target_index = of_nat target_index \<rparr>) (\<lambda>cs.
     Inr (s2\<lparr> bs_pending_consolidations := cs \<rparr>)))"

definition process_consolidation_request ::
  "beacon_env \<Rightarrow> beacon_state \<Rightarrow> consolidation_request \<Rightarrow> beacon_error + beacon_state" where
  "process_consolidation_request E s r =
     (if cr_source_public_key r = cr_target_public_key r
      then
        (let source_index = find_validator_index E (bs_validators s) (cr_source_public_key r) in
         and_then (is_valid_switch_with_source s r source_index) (\<lambda>valid.
         if valid
         then and_then (ok_or source_index (Anyhow ''Validator not found'')) (\<lambda>index.
              switch_to_compounding_validator E (of_nat index) s)
         else Inr s))
      else if of_nat (length (bs_pending_consolidations s)) = PENDING_CONSOLIDATIONS_LIMIT then Inr s
      else
        and_then (get_consolidation_churn_limit s) (\<lambda>churn_limit.
        if churn_limit \<le> MIN_ACTIVATION_BALANCE then Inr s
        else
          (let indices = find_validator_indices E (bs_validators s)
                 [cr_source_public_key r, cr_target_public_key r]
           in case (map_of indices (cr_source_public_key r), map_of indices (cr_target_public_key r)) of
                (Some source_index, Some target_index) \<Rightarrow>
                  and_then (idx (bs_validators s) source_index) (\<lambda>source.
                  and_then (idx (bs_validators s) target_index) (\<lambda>target.
                  if \<not> consolidation_allowed s r source_index source target then Inr s
                  else queue_consolidation E source_index target_index source s))
              | _ \<Rightarrow> Inr s)))"

section \<open>The operations of a body\<close>

definition check_deposit_count :: "beacon_block_body \<Rightarrow> beacon_state \<Rightarrow> beacon_error + unit" where
  "check_deposit_count body s =
     (let eth1_deposit_index_limit = min (e1_deposit_count (bs_eth1_data s)) (bs_deposit_requests_start_index s)
      in if bs_eth1_deposit_index s < eth1_deposit_index_limit
         then require (of_nat (length (bb_deposits body))
                       = min MAX_DEPOSITS (eth1_deposit_index_limit - bs_eth1_deposit_index s)) ''deposits''
         else require (bb_deposits body = []) ''deposits'')"

definition process_operations_with :: "beacon_env \<Rightarrow> bool \<Rightarrow> beacon_block_body \<Rightarrow> beacon_state \<Rightarrow> beacon_error + beacon_state" where
  "process_operations_with E verify_signatures body s =
     and_then (check_deposit_count body s) (\<lambda>_.
     and_then (try_fold (process_proposer_slashing E) s (proposer_slashings body)) (\<lambda>s.
     and_then (try_fold (process_attester_slashing E) s (attester_slashings body)) (\<lambda>s.
     and_then (try_fold (process_attestation_with E verify_signatures) s (bb_attestations body)) (\<lambda>s.
     and_then (try_fold (process_deposit E) s (bb_deposits body)) (\<lambda>s.
     and_then (try_fold (process_voluntary_exit E) s (voluntary_exits body)) (\<lambda>s.
     and_then (try_fold (process_bls_to_execution_change E) s (bls_to_execution_changes body)) (\<lambda>s.
     and_then (try_fold (process_deposit_request E) s (er_deposits (bb_execution_requests body))) (\<lambda>s.
     and_then (try_fold (process_withdrawal_request E) s (er_withdrawals (bb_execution_requests body))) (\<lambda>s.
     try_fold (process_consolidation_request E) s (er_consolidations (bb_execution_requests body)))))))))))"

end
