(* ===== verification/Beacon_Frame.thy ===== *)
theory Beacon_Frame
  imports Yields Beacon_Requests
begin

text \<open>
  How the operations of the Beacon state may change it. \<open>evolves s t\<close>: the slot, the genesis data and
  the fork stay, the justified and finalized checkpoints stay, validators are only added, the life
  cycle of a validator only moves forward, and a well-formed state stays well formed. Every operation
  of epoch and block processing is shown to keep to it, except justification, which keeps to all of it
  but the checkpoints (\<open>epoch_evolves\<close>); the rules of the locale \<open>store_frame\<close> chain the steps.
\<close>

section \<open>Well-formed states\<close>

definition beacon_wf :: "beacon_state \<Rightarrow> bool" where
  "beacon_wf s \<longleftrightarrow>
     length (bs_validators s) \<le> ValidatorRegistryLimit
     \<and> length (bs_balances s) = length (bs_validators s)
     \<and> length (bs_previous_epoch_participation s) = length (bs_validators s)
     \<and> length (bs_current_epoch_participation s) = length (bs_validators s)
     \<and> length (bs_inactivity_scores s) = length (bs_validators s)
     \<and> length (bs_block_roots s) = 8192 \<and> length (bs_state_roots s) = 8192
     \<and> length (bs_randao_mixes s) = 65536 \<and> length (bs_slashings s) = 8192
     \<and> length (bs_justification_bits s) = 4 \<and> length (bs_proposer_lookahead s) = 64
     \<and> length (public_keys (bs_current_sync_committee s)) = 512
     \<and> length (public_keys (bs_next_sync_committee s)) = 512"

section \<open>Life cycle\<close>

definition lifecycle :: "beacon_validator \<Rightarrow> beacon_validator \<Rightarrow> bool" where
  "lifecycle v w \<longleftrightarrow>
     v_public_key w = v_public_key v
     \<and> (slashed v \<longrightarrow> slashed w)
     \<and> (activation_eligibility_epoch v \<noteq> FAR_FUTURE_EPOCH \<longrightarrow>
          activation_eligibility_epoch w = activation_eligibility_epoch v)
     \<and> (activation_epoch v \<noteq> FAR_FUTURE_EPOCH \<longrightarrow> activation_epoch w = activation_epoch v)
     \<and> (exit_epoch v \<noteq> FAR_FUTURE_EPOCH \<longrightarrow>
          exit_epoch w = exit_epoch v \<and> withdrawable_epoch v \<le> withdrawable_epoch w)"

lemma lifecycle_refl [simp]: "lifecycle v v"
  by (simp add: lifecycle_def)

lemma lifecycle_trans: "lifecycle u v \<Longrightarrow> lifecycle v w \<Longrightarrow> lifecycle u w"
  by (auto simp: lifecycle_def)

definition epoch_evolves :: "beacon_state \<Rightarrow> beacon_state \<Rightarrow> bool" where
  "epoch_evolves s t \<longleftrightarrow>
     bs_slot t = bs_slot s \<and> bs_genesis_time t = bs_genesis_time s
     \<and> bs_genesis_validators_root t = bs_genesis_validators_root s \<and> bs_fork t = bs_fork s
     \<and> length (bs_validators s) \<le> length (bs_validators t)
     \<and> (\<forall>i < length (bs_validators s). lifecycle (bs_validators s ! i) (bs_validators t ! i))
     \<and> (beacon_wf s \<longrightarrow> beacon_wf t)"

definition evolves :: "beacon_state \<Rightarrow> beacon_state \<Rightarrow> bool" where
  "evolves s t \<longleftrightarrow>
     bs_slot t = bs_slot s \<and> bs_genesis_time t = bs_genesis_time s
     \<and> bs_genesis_validators_root t = bs_genesis_validators_root s \<and> bs_fork t = bs_fork s
     \<and> bs_justification_bits t = bs_justification_bits s
     \<and> bs_previous_justified_checkpoint t = bs_previous_justified_checkpoint s
     \<and> bs_current_justified_checkpoint t = bs_current_justified_checkpoint s
     \<and> bs_finalized_checkpoint t = bs_finalized_checkpoint s
     \<and> length (bs_validators s) \<le> length (bs_validators t)
     \<and> (\<forall>i < length (bs_validators s). lifecycle (bs_validators s ! i) (bs_validators t ! i))
     \<and> (beacon_wf s \<longrightarrow> beacon_wf t)"

lemma evolves_refl [simp]: "evolves s s"
  by (simp add: evolves_def)

lemma evolves_trans: "evolves s t \<Longrightarrow> evolves t u \<Longrightarrow> evolves s u"
  unfolding evolves_def by (auto intro: lifecycle_trans order_less_le_trans)

interpretation evo: store_frame evolves
  by unfold_locales (auto intro: evolves_trans)

lemma epoch_evolves_refl [simp]: "epoch_evolves s s"
  by (simp add: epoch_evolves_def)

lemma epoch_evolves_trans: "epoch_evolves s t \<Longrightarrow> epoch_evolves t u \<Longrightarrow> epoch_evolves s u"
  unfolding epoch_evolves_def by (auto intro: lifecycle_trans order_less_le_trans)

lemma evolves_epoch: "evolves s t \<Longrightarrow> epoch_evolves s t"
  by (simp add: evolves_def epoch_evolves_def)

text \<open>Fields outside the registry and the fixed vectors may change freely.\<close>

lemma evolves_fields [simp]:
  "evolves s (s\<lparr> bs_latest_block_header := h \<rparr>)"
  "evolves s (s\<lparr> bs_eth1_data := e \<rparr>)"
  "evolves s (s\<lparr> bs_eth1_data_votes := vs \<rparr>)"
  "evolves s (s\<lparr> bs_eth1_deposit_index := n \<rparr>)"
  "evolves s (s\<lparr> bs_latest_execution_payload_header := ph \<rparr>)"
  "evolves s (s\<lparr> bs_next_withdrawal_index := n \<rparr>)"
  "evolves s (s\<lparr> bs_next_withdrawal_validator_index := n \<rparr>)"
  "evolves s (s\<lparr> bs_historical_summaries := hs \<rparr>)"
  "evolves s (s\<lparr> bs_deposit_requests_start_index := n \<rparr>)"
  "evolves s (s\<lparr> bs_deposit_balance_to_consume := n \<rparr>)"
  "evolves s (s\<lparr> bs_exit_balance_to_consume := n \<rparr>)"
  "evolves s (s\<lparr> bs_earliest_exit_epoch := n \<rparr>)"
  "evolves s (s\<lparr> bs_exit_balance_to_consume := n, bs_earliest_exit_epoch := m \<rparr>)"
  "evolves s (s\<lparr> bs_consolidation_balance_to_consume := n, bs_earliest_consolidation_epoch := m \<rparr>)"
  "evolves s (s\<lparr> bs_pending_deposits := pd \<rparr>)"
  "evolves s (s\<lparr> bs_pending_deposits := pd, bs_deposit_balance_to_consume := n \<rparr>)"
  "evolves s (s\<lparr> bs_pending_partial_withdrawals := pp \<rparr>)"
  "evolves s (s\<lparr> bs_pending_consolidations := pc \<rparr>)"
  by (simp_all add: evolves_def beacon_wf_def)

text \<open>Lists that keep their length may change too.\<close>

lemma evolves_lists [simp]:
  "length bs = length (bs_balances s) \<Longrightarrow> evolves s (s\<lparr> bs_balances := bs \<rparr>)"
  "length ps = length (bs_previous_epoch_participation s) \<Longrightarrow> evolves s (s\<lparr> bs_previous_epoch_participation := ps \<rparr>)"
  "length ps = length (bs_current_epoch_participation s) \<Longrightarrow> evolves s (s\<lparr> bs_current_epoch_participation := ps \<rparr>)"
  "length is = length (bs_inactivity_scores s) \<Longrightarrow> evolves s (s\<lparr> bs_inactivity_scores := is \<rparr>)"
  "length rs = length (bs_randao_mixes s) \<Longrightarrow> evolves s (s\<lparr> bs_randao_mixes := rs \<rparr>)"
  "length sl = length (bs_slashings s) \<Longrightarrow> evolves s (s\<lparr> bs_slashings := sl \<rparr>)"
  by (simp_all add: evolves_def beacon_wf_def)

lemma update_validator_evolves:
  assumes "i < length (bs_validators s) \<Longrightarrow> lifecycle (bs_validators s ! i) (f (bs_validators s ! i))"
  shows "evolves s (update_validator i f s)"
proof -
  have "lifecycle (bs_validators s ! j) ((bs_validators s)[i := f (bs_validators s ! i)] ! j)"
    if "j < length (bs_validators s)" for j
    using assms that by (cases "i = j") simp_all
  then show ?thesis by (simp add: evolves_def update_validator_def beacon_wf_def)
qed

section \<open>Building blocks\<close>

named_theorems evolves_intros \<open>operations that only let the state evolve\<close>

lemma increase_balance_evolves [evolves_intros]: "yields (evolves s) (increase_balance i d s)"
  by (auto simp: increase_balance_def intro: yields_read)

lemma decrease_balance_evolves [evolves_intros]: "yields (evolves s) (decrease_balance i d s)"
  by (auto simp: decrease_balance_def intro: yields_read)

lemma exit_churn_evolves [evolves_intros]:
  "yields (\<lambda>(e, t). evolves s t) (compute_exit_epoch_and_update_churn b s)"
  unfolding compute_exit_epoch_and_update_churn_def Let_def by (intro yields_read) auto

lemma consolidation_churn_evolves [evolves_intros]:
  "yields (\<lambda>(e, t). evolves s t) (compute_consolidation_epoch_and_update_churn b s)"
  unfolding compute_consolidation_epoch_and_update_churn_def Let_def by (intro yields_read) auto

text \<open>The churn computations leave the registry alone.\<close>

lemma exit_churn_validators:
  "yields (\<lambda>(e, t). bs_validators t = bs_validators s) (compute_exit_epoch_and_update_churn b s)"
  unfolding compute_exit_epoch_and_update_churn_def Let_def by (intro yields_read) auto

lemma consolidation_churn_validators:
  "yields (\<lambda>(e, t). bs_validators t = bs_validators s) (compute_consolidation_epoch_and_update_churn b s)"
  unfolding compute_consolidation_epoch_and_update_churn_def Let_def by (intro yields_read) auto

lemma initiate_exit_evolves [evolves_intros]: "yields (evolves s) (initiate_validator_exit i s)"
proof -
  have "yields (evolves s)
    (and_then (compute_exit_epoch_and_update_churn b s) (\<lambda>(e, s1).
     and_then (g e) (\<lambda>w. Inr (update_validator (unat i) (\<lambda>v. v\<lparr> exit_epoch := e, withdrawable_epoch := w \<rparr>) s1))))"
    if "unat i < length (bs_validators s)" and "exit_epoch (bs_validators s ! unat i) = FAR_FUTURE_EPOCH"
    for b and g :: "u64 \<Rightarrow> beacon_error + u64"
  proof (rule yields_and_then [OF yields_conj [OF exit_churn_evolves exit_churn_validators]])
    fix p :: "u64 \<times> beacon_state"
    assume p: "(case p of (e, t) \<Rightarrow> evolves s t) \<and> (case p of (e, t) \<Rightarrow> bs_validators t = bs_validators s)"
    obtain e t where [simp]: "p = (e, t)" by (cases p)
    have "evolves t (update_validator (unat i) (\<lambda>v. v\<lparr> exit_epoch := e, withdrawable_epoch := w \<rparr>) t)" for w
      by (rule update_validator_evolves) (use p that in \<open>simp add: lifecycle_def\<close>)
    then show "yields (evolves s) (case p of (e, s1) \<Rightarrow> and_then (g e) (\<lambda>w.
        Inr (update_validator (unat i) (\<lambda>v. v\<lparr> exit_epoch := e, withdrawable_epoch := w \<rparr>) s1)))"
      using p evolves_trans [of s t] by (auto intro!: yields_read)
  qed
  then show ?thesis
    unfolding initiate_validator_exit_def
    by (intro yields_and_then_eq) (auto simp: result_simps)
qed

lemma vl_push_yields: "yields (\<lambda>ys. length ys = Suc (length xs)) (vl_push E n m xs x)"
  by (auto simp: yields_def result_simps)

lemma add_validator_evolves [evolves_intros]:
  "yields (evolves s) (add_validator_to_registry E k c a s)"
  unfolding add_validator_to_registry_def Let_def
  by (auto simp: yields_def result_simps evolves_def beacon_wf_def nth_append)

lemma push_pending_deposit_evolves [evolves_intros]: "yields (evolves s) (push_pending_deposit E m d s)"
  unfolding push_pending_deposit_def by (intro yields_read) simp

lemma queue_excess_evolves [evolves_intros]: "yields (evolves s) (queue_excess_active_balance E i s)"
  unfolding queue_excess_active_balance_def Let_def
  by (intro yields_read yields_if evo.yields_after [OF _ push_pending_deposit_evolves]) simp_all

lemma switch_evolves [evolves_intros]: "yields (evolves s) (switch_to_compounding_validator E i s)"
  unfolding switch_to_compounding_validator_def
  by (intro yields_read evo.yields_after [OF update_validator_evolves queue_excess_evolves])
    (simp add: lifecycle_def)

lemma slash_validator_evolves [evolves_intros]: "yields (evolves s) (slash_validator E i w s)"
proof -
  have "evolves t (update_validator j (\<lambda>v. v\<lparr> slashed := True, withdrawable_epoch := max (withdrawable_epoch v) m \<rparr>) t)"
    for t j m by (rule update_validator_evolves) (simp add: lifecycle_def)
  from evolves_trans [OF this evolves_lists(6)] show ?thesis
    unfolding slash_validator_def Let_def
    by (intro evo.yields_seq yields_read evolves_intros evo.yields_after [OF _ decrease_balance_evolves]) simp_all
qed

section \<open>Epoch processing\<close>

lemma set_bit_length [simp]: "yields (\<lambda>bs. length bs = length bits) (set_bit_at i b bits)"
  by (simp add: set_bit_at_def)

lemma set_bit_length_eq: "length bits = n \<Longrightarrow> yields (\<lambda>bs. length bs = n) (set_bit_at i b bits)"
  by (simp add: set_bit_at_def)

lemma justification_outcome_length:
  "yields (\<lambda>out. length (jf_justification_bits out) = length (bs_justification_bits s))
     (justification_outcome s a b c)"
proof -
  let ?n = "length (bs_justification_bits s)"
  have shift: "yields (\<lambda>bits. length bits = ?n) (try_fold shift_bit (bs_justification_bits s) xs)" for xs
    by (rule yields_fold) (auto simp: shift_bit_def intro!: yields_read set_bit_length_eq)
  have justify: "yields (\<lambda>(c, bits). length bits = ?n)
      (if q then and_then (get_block_root s e) (\<lambda>root. and_then (set_bit_at i True bits) (\<lambda>bits. Inr (g root, bits)))
       else Inr (c, bits))" if "length bits = ?n" for q e i bits c and g :: "b256 \<Rightarrow> beacon_checkpoint"
    using that by (auto simp: yields_def result_simps set_bit_at_def split: if_splits)
  show ?thesis
    unfolding justification_outcome_def Let_def
    apply (rule yields_and_then [OF shift])
    apply (rule yields_and_then [OF set_bit_length_eq], assumption)
    apply (rule yields_and_then [OF justify], assumption, clarify)
    apply (rule yields_and_then [OF justify], assumption, clarify)
    apply (intro yields_read)
    apply simp
    done
qed

lemma justification_evolves: "yields (epoch_evolves s) (process_justification_and_finalization E s)"
proof -
  have apply_out: "epoch_evolves s (apply_justification_and_finalization out s)"
    if "length (jf_justification_bits out) = length (bs_justification_bits s)" for out
    using that by (simp add: epoch_evolves_def beacon_wf_def apply_justification_and_finalization_def)
  have "yields (\<lambda>out. length (jf_justification_bits out) = length (bs_justification_bits s))
    (compute_justification_and_finalization E s)"
    unfolding compute_justification_and_finalization_def Let_def
    by (auto intro!: yields_read justification_outcome_length split: prod.split simp: current_justification_def)
  then show ?thesis
    unfolding process_justification_and_finalization_def
    by (rule yields_and_then) (simp add: apply_out)
qed

lemma inactivity_evolves [evolves_intros]: "yields (evolves s) (process_inactivity_updates s)"
proof -
  have "yields (\<lambda>scores. length scores = length (bs_inactivity_scores s))
    (try_fold (update_inactivity_score m l) (bs_inactivity_scores s) is)" for m l "is"
    by (rule yields_fold) (auto simp: update_inactivity_score_def Let_def intro!: yields_read)
  then show ?thesis
    unfolding process_inactivity_updates_def
    by (intro yields_if) (auto simp: yields_def result_simps)
qed

lemma rewards_evolves [evolves_intros]: "yields (evolves s) (process_rewards_and_penalties s)"
proof -
  have flags: "yields (\<lambda>bals. length bals = n)
      (try_fold (\<lambda>bals fi. and_then (flag_index_delta s er i fi) (\<lambda>(r, p). and_then (idx bals i) (\<lambda>b.
         Inr (bals[i := saturating_sub (b + r) p])))) bs is)" if "length bs = n" for er i bs "is" n
    by (rule yields_fold) (use that in \<open>auto intro!: yields_read yields_prod\<close>)
  have "yields (\<lambda>bals. length bals = n) (reward_validator s er bs i)" if "length bs = n" for er bs i n
    unfolding reward_validator_def
    by (intro yields_read yields_if yields_and_then [OF flags]) (use that in auto)
  then have "yields (\<lambda>bals. length bals = length (bs_balances s)) (try_fold (reward_validator s er) (bs_balances s) is)"
    for er "is" by (intro yields_fold) auto
  then show ?thesis
    unfolding process_rewards_and_penalties_def
    by (intro yields_if) (auto simp: yields_def result_simps)
qed

text \<open>Updating each of several distinct validators.\<close>

lemma fold_update_validator:
  assumes "distinct is"
  shows "fold (\<lambda>i. update_validator i (f i)) is s =
    s\<lparr> bs_validators := map (\<lambda>j. if j \<in> set is then f j (bs_validators s ! j) else bs_validators s ! j)
        [0..<length (bs_validators s)] \<rparr>"
  using assms
proof (induction "is" arbitrary: s)
  case Nil
  then show ?case by (simp add: map_nth)
next
  case (Cons i "is")
  have len: "length (bs_validators (update_validator i (f i) s)) = length (bs_validators s)"
    by (simp add: update_validator_def)
  have IH: "fold (\<lambda>i. update_validator i (f i)) is (update_validator i (f i) s) =
     (update_validator i (f i) s)\<lparr> bs_validators := map (\<lambda>j. if j \<in> set is then f j (bs_validators (update_validator i (f i) s) ! j)
         else bs_validators (update_validator i (f i) s) ! j) [0..<length (bs_validators s)] \<rparr>"
    using Cons.IH [of "update_validator i (f i) s"] Cons.prems by (simp only: len distinct.simps)
  have "map (\<lambda>j. if j \<in> set is then f j (bs_validators (update_validator i (f i) s) ! j)
         else bs_validators (update_validator i (f i) s) ! j) [0..<length (bs_validators s)]
      = map (\<lambda>j. if j \<in> set (i # is) then f j (bs_validators s ! j) else bs_validators s ! j)
        [0..<length (bs_validators s)]"
    using Cons.prems by (auto simp: update_validator_def nth_list_update) (metis nth_list_update_neq)
  moreover have "(update_validator i (f i) s)\<lparr> bs_validators := vs \<rparr> = s\<lparr> bs_validators := vs \<rparr>" for vs
    by (simp add: update_validator_def)
  ultimately show ?case unfolding fold_simps IH by simp
qed

lemma fold_update_validator_evolves:
  assumes "distinct is"
    and "\<And>i. i \<in> set is \<Longrightarrow> i < length (bs_validators s) \<Longrightarrow> lifecycle (bs_validators s ! i) (f i (bs_validators s ! i))"
  shows "evolves s (fold (\<lambda>i. update_validator i (f i)) is s)"
  unfolding fold_update_validator [OF assms(1)]
  using assms(2) by (auto simp: evolves_def beacon_wf_def)

lemma indices_where_distinct [simp]: "distinct (indices_where P vs)"
  by (simp add: indices_where_def distinct_map_filter)

lemma set_indices_where: "set (indices_where P vs) = {i. i < length vs \<and> P (vs ! i)}"
  by (force simp: indices_where_def in_set_enumerate_eq)

lemma registry_updates_evolves [evolves_intros]: "yields (evolves s) (process_registry_updates s)"
proof -
  let ?q = "indices_where is_eligible_for_activation_queue (bs_validators s)"
  let ?a = "indices_where (is_activated (get_current_epoch s) (cp_epoch (bs_finalized_checkpoint s))) (bs_validators s)"
  have q: "evolves s (fold (\<lambda>i. update_validator i (\<lambda>v. v\<lparr> activation_eligibility_epoch := e \<rparr>)) ?q s)" (is "evolves s (?s1 e)") for e
    by (rule fold_update_validator_evolves)
      (auto simp: set_indices_where lifecycle_def is_eligible_for_activation_queue_def)
  have "activation_epoch (bs_validators (?s1 e) ! i) = FAR_FUTURE_EPOCH" if "i \<in> set ?a" for e i
    using that by (auto simp: set_indices_where fold_update_validator is_activated_def is_eligible_for_activation_def)
  then have a: "evolves (?s1 e) (fold (\<lambda>i. update_validator i (\<lambda>v. v\<lparr> activation_epoch := e' \<rparr>)) ?a (?s1 e))" for e e'
    by (intro fold_update_validator_evolves) (simp_all add: lifecycle_def)
  show ?thesis
    unfolding process_registry_updates_def Let_def
    by (intro yields_read evo.yields_after [OF evolves_trans [OF q a] evo.yields_try_fold]
        initiate_exit_evolves)
qed

lemma slashings_evolves [evolves_intros]: "yields (evolves s) (process_slashings s)"
  unfolding process_slashings_def slash_penalty_def Let_def
  by (intro yields_read evo.yields_try_fold yields_if decrease_balance_evolves) simp

lemma apply_pending_deposit_to_evolves [evolves_intros]:
  "yields (\<lambda>(a, t). evolves s t) (apply_pending_deposit_to E d i s)"
proof (cases i)
  case None
  then show ?thesis
    unfolding apply_pending_deposit_to_def
    by (auto intro: yields_and_then [OF add_validator_evolves])
next
  case (Some j)
  then show ?thesis
    unfolding apply_pending_deposit_to_def
    by (auto intro: yields_and_then [OF increase_balance_evolves])
qed

lemma handle_deposit_evolves:
  "yields (\<lambda>r. case r of Some l' \<Rightarrow> evolves (dl_state l) (dl_state l') | None \<Rightarrow> True) (handle_deposit E e a d l)"
  unfolding handle_deposit_def Let_def
  by (auto split: prod.split intro!: yields_if yields_and_then [OF apply_pending_deposit_to_evolves])

lemma deposit_steps_evolves:
  "yields (\<lambda>l'. evolves (dl_state l) (dl_state l')) (deposit_steps E b f e a ds l)"
proof (induction ds arbitrary: l)
  case (Cons d ds)
  have "yields (\<lambda>l''. evolves (dl_state l) (dl_state l'')) (deposit_steps E b f e a ds l')"
    if "evolves (dl_state l) (dl_state l')" for l'
    using Cons.IH [of l'] by (rule yields_mono) (rule evolves_trans [OF that])
  then show ?case
    by (auto intro!: yields_and_then [OF handle_deposit_evolves] split: option.split)
qed simp

lemma pending_deposits_evolves [evolves_intros]: "yields (evolves s) (process_pending_deposits E s)"
proof -
  have "yields (\<lambda>l. evolves s (dl_state l)) (deposit_steps E b f e a ds l0)" if "dl_state l0 = s" for b f e a ds l0
    using deposit_steps_evolves [of l0] that by simp
  note steps = this
  show ?thesis
    unfolding process_pending_deposits_def Let_def
    by (rule yields_read, rule yields_and_then [OF steps], simp, rule yields_read)
      (auto intro: evolves_trans [OF _ evolves_fields(16)])
qed

lemma consolidation_steps_evolves: "yields (\<lambda>(n, t). evolves s t) (consolidation_steps e cs n s)"
proof (induction cs arbitrary: n s)
  case (Cons c cs)
  have "yields (\<lambda>(n, u). evolves s u) (consolidation_steps e cs m t)" if "evolves s t" for m t
    using evo.yields_after_pair [OF that Cons.IH] .
  note after = this
  show ?case
    unfolding consolidation_steps.simps Let_def
    by (rule yields_read, rule yields_if, rule Cons.IH, rule yields_if, simp, rule yields_read,
        rule yields_and_then [OF decrease_balance_evolves], rule yields_and_then [OF increase_balance_evolves],
        rule after, rule evolves_trans)
qed simp

lemma pending_consolidations_evolves [evolves_intros]: "yields (evolves s) (process_pending_consolidations E s)"
  unfolding process_pending_consolidations_def Let_def
  by (rule yields_and_then [OF consolidation_steps_evolves], clarify, rule yields_read)
    (auto intro: evolves_trans [OF _ evolves_fields(18)])

lemma effective_balance_updates_evolves [evolves_intros]: "yields (evolves s) (process_effective_balance_updates s)"
proof -
  have "evolves t (update_validator i (\<lambda>v. v\<lparr> effective_balance := b \<rparr>) t)" for t i b
    by (rule update_validator_evolves) (simp add: lifecycle_def)
  then show ?thesis
    unfolding process_effective_balance_updates_def Let_def
    by (auto intro!: evo.yields_fold_pure)
qed

lemma set_idx_length: "yields (\<lambda>ys. length ys = length xs) (set_idx xs i v)"
  by (simp add: set_idx_def)

lemma resets_evolve [evolves_intros]:
  "yields (evolves s) (process_eth1_data_reset s)"
  "yields (evolves s) (process_slashings_reset s)"
  "yields (evolves s) (process_randao_mixes_reset s)"
  "yields (evolves s) (process_historical_summaries_update E s)"
  "yields (evolves s) (process_participation_flag_updates E s)"
proof -
  show "yields (evolves s) (process_eth1_data_reset s)"
    by (simp add: process_eth1_data_reset_def Let_def)
  show "yields (evolves s) (process_slashings_reset s)"
    unfolding process_slashings_reset_def Let_def by (rule yields_and_then [OF set_idx_length]) simp
  show "yields (evolves s) (process_randao_mixes_reset s)"
    unfolding process_randao_mixes_reset_def Let_def
    by (rule yields_read, rule yields_and_then [OF set_idx_length]) simp
  show "yields (evolves s) (process_historical_summaries_update E s)"
    unfolding process_historical_summaries_update_def Let_def by (intro yields_if yields_read) simp_all
  show "yields (evolves s) (process_participation_flag_updates E s)"
    unfolding process_participation_flag_updates_def
    by (intro yields_read) (simp add: evolves_def beacon_wf_def)
qed

lemma get_next_sync_committee_length: "yields (\<lambda>c. length (public_keys c) = 512) (get_next_sync_committee E s)"
  unfolding get_next_sync_committee_def
  by (auto simp: yields_def result_simps SYNC_COMMITTEE_SIZE_def)

lemma sync_committee_updates_evolves [evolves_intros]: "yields (evolves s) (process_sync_committee_updates E s)"
  unfolding process_sync_committee_updates_def Let_def
  by (intro yields_if yields_and_then [OF get_next_sync_committee_length])
    (auto simp: evolves_def beacon_wf_def)

lemma proposer_lookahead_evolves [evolves_intros]: "yields (evolves s) (process_proposer_lookahead E s)"
  unfolding process_proposer_lookahead_def Let_def
  by (auto simp: yields_def result_simps evolves_def beacon_wf_def)

text \<open>After justification an epoch only lets the state evolve.\<close>

lemma process_epoch_split:
  assumes "process_epoch E s = Inr t"
  obtains u where "process_justification_and_finalization E s = Inr u" and "evolves u t"
proof -
  let ?rest = "\<lambda>s.
     and_then (process_inactivity_updates s) (\<lambda>s.
     and_then (process_rewards_and_penalties s) (\<lambda>s.
     and_then (process_registry_updates s) (\<lambda>s.
     and_then (process_slashings s) (\<lambda>s.
     and_then (process_eth1_data_reset s) (\<lambda>s.
     and_then (process_pending_deposits E s) (\<lambda>s.
     and_then (process_pending_consolidations E s) (\<lambda>s.
     and_then (process_effective_balance_updates s) (\<lambda>s.
     and_then (process_slashings_reset s) (\<lambda>s.
     and_then (process_randao_mixes_reset s) (\<lambda>s.
     and_then (process_historical_summaries_update E s) (\<lambda>s.
     and_then (process_participation_flag_updates E s) (\<lambda>s.
     and_then (process_sync_committee_updates E s) (\<lambda>s.
     process_proposer_lookahead E s)))))))))))))"
  have rest: "yields (evolves u) (?rest u)" for u
    by (intro evo.yields_seq evolves_intros)
  from assms obtain u where "process_justification_and_finalization E s = Inr u" "?rest u = Inr t"
    unfolding process_epoch_def and_then_eq_Inr by blast
  with yieldsD [OF rest] that show thesis by blast
qed

lemma process_epoch_evolves: "yields (epoch_evolves s) (process_epoch E s)"
proof (rule yieldsI)
  fix t
  assume "process_epoch E s = Inr t"
  then obtain u where "process_justification_and_finalization E s = Inr u" "evolves u t"
    by (rule process_epoch_split)
  then show "epoch_evolves s t"
    using yieldsD [OF justification_evolves] evolves_epoch epoch_evolves_trans by blast
qed

section \<open>Block processing\<close>

lemma block_header_evolves [evolves_intros]: "yields (evolves s) (beacon_process_block_header E b s)"
  unfolding beacon_process_block_header_def Let_def by (intro yields_read) simp

lemma withdrawals_evolves [evolves_intros]: "yields (evolves s) (process_withdrawals E p s)"
  unfolding process_withdrawals_def Let_def
  apply (rule yields_read, clarify, rule yields_read, rule evo.yields_seq)
   apply (intro evo.yields_try_fold decrease_balance_evolves)
  apply (intro yields_read)
  apply (auto simp: evolves_def beacon_wf_def)
  done

lemma execution_payload_evolves [evolves_intros]: "yields (evolves s) (process_execution_payload E api body s)"
  unfolding process_execution_payload_def by (intro yields_read) simp

lemma randao_evolves [evolves_intros]: "yields (evolves s) (process_randao_inner E body v s)"
  unfolding process_randao_inner_def Let_def
  by (rule yields_read, rule yields_option, simp, rule yields_read, rule yields_read,
      rule yields_and_then [OF set_idx_length], simp)

lemma eth1_data_evolves [evolves_intros]: "yields (evolves s) (process_eth1_data E body s)"
  unfolding process_eth1_data_def Let_def by (intro yields_read) (simp add: evolves_def beacon_wf_def)

lemma proposer_slashing_evolves [evolves_intros]: "yields (evolves s) (process_proposer_slashing E s ps)"
  unfolding process_proposer_slashing_def by (intro yields_read slash_validator_evolves)

lemma attester_slashing_evolves [evolves_intros]: "yields (evolves s) (process_attester_slashing E s sl)"
proof -
  have step: "yields (\<lambda>(b, t). evolves s t) (slash_if_slashable E e (b, t) i)" if "evolves s t" for e b t i
    unfolding slash_if_slashable_def case_prod_conv
    by (rule yields_read, rule yields_if, rule yields_and_then [OF slash_validator_evolves])
      (use that in \<open>auto intro: evolves_trans\<close>)
  have "yields (\<lambda>(b, t). evolves s t) (try_fold (slash_if_slashable E e) (False, s) is)" for e "is"
    by (rule yields_fold) (auto intro: step)
  then show ?thesis
    unfolding process_attester_slashing_def Let_def
    by (auto simp: yields_def result_simps)
qed

lemma mark_participation_length:
  "yields (\<lambda>(ps, r). length ps = length participation) (mark_participation s participation is fs)"
proof -
  have step: "yields (\<lambda>(ps, r). length ps = n) (mark_attester s b fs (ps, r) i)" if "length ps = n" for b ps r i n
    using that unfolding mark_attester_def by (auto intro!: yields_read yields_prod)
  have "yields (\<lambda>(ps, r). length ps = length participation) (try_fold (mark_attester s b fs) (participation, 0) is)" for b
    by (rule yields_fold) (auto intro: step)
  then show ?thesis
    unfolding mark_participation_def Let_def by (auto simp: yields_def result_simps)
qed

lemma attestation_evolves [evolves_intros]: "yields (evolves s) (process_attestation_with E v s a)"
  unfolding process_attestation_with_def Let_def
  by (rule yields_read, clarify, rule yields_and_then [OF mark_participation_length], clarify,
      rule yields_read, rule evo.yields_after [OF _ increase_balance_evolves]) simp

lemma apply_deposit_evolves [evolves_intros]: "yields (evolves s) (apply_deposit E k c a sg s)"
  unfolding apply_deposit_def Let_def
  by (intro yields_if evo.yields_seq evolves_intros) simp

lemma deposit_evolves [evolves_intros]: "yields (evolves s) (process_deposit E s d)"
  unfolding process_deposit_def Let_def
  by (intro yields_read evo.yields_after [OF _ apply_deposit_evolves]) simp

lemma voluntary_exit_evolves [evolves_intros]: "yields (evolves s) (process_voluntary_exit E s x)"
  unfolding process_voluntary_exit_def by (intro yields_read evolves_intros)

lemma bls_change_evolves [evolves_intros]: "yields (evolves s) (process_bls_to_execution_change E s c)"
  unfolding process_bls_to_execution_change_def Let_def
  by (intro yields_read) (auto intro!: update_validator_evolves simp: lifecycle_def)

lemma deposit_request_evolves [evolves_intros]: "yields (evolves s) (process_deposit_request E s r)"
  unfolding process_deposit_request_def Let_def
  by (rule evo.yields_after [OF _ push_pending_deposit_evolves]) simp

lemma queue_partial_withdrawal_evolves [evolves_intros]: "yields (evolves s) (queue_partial_withdrawal E i b s)"
  unfolding queue_partial_withdrawal_def
  by (rule yields_and_then [OF exit_churn_evolves], clarify, rule yields_read)
    (auto intro: evolves_trans [OF _ evolves_fields(17)])

lemma withdrawal_request_evolves [evolves_intros]: "yields (evolves s) (process_withdrawal_request E s r)"
  unfolding process_withdrawal_request_def Let_def
  by (intro yields_if yields_option yields_read evolves_intros) simp_all

lemma queue_consolidation_evolves:
  assumes "exit_epoch (bs_validators s ! i) = FAR_FUTURE_EPOCH"
  shows "yields (evolves s) (queue_consolidation E i j v s)"
  unfolding queue_consolidation_def Let_def
proof (rule yields_and_then [OF yields_conj [OF consolidation_churn_evolves consolidation_churn_validators]], clarify,
    rule yields_read)
  fix e t cs
  assume t: "evolves s t" "bs_validators t = bs_validators s"
  let ?u = "update_validator i (\<lambda>v. v\<lparr> exit_epoch := e,
    withdrawable_epoch := e + MIN_VALIDATOR_WITHDRAWABILITY_DELAY \<rparr>) t"
  have "evolves t ?u"
    by (rule update_validator_evolves) (use t assms in \<open>simp add: lifecycle_def\<close>)
  then show "yields (evolves s) (Inr (?u\<lparr> bs_pending_consolidations := cs \<rparr>))"
    using evolves_trans [OF t(1) evolves_trans [OF _ evolves_fields(18)]] by simp
qed

lemma consolidation_request_evolves [evolves_intros]: "yields (evolves s) (process_consolidation_request E s r)"
proof -
  have "yields (evolves s) (and_then (idx (bs_validators s) i) (\<lambda>v. and_then (idx (bs_validators s) j) (\<lambda>w.
      if \<not> consolidation_allowed s r i v w then Inr s else queue_consolidation E i j v s)))" for i j
    by (intro yields_and_then_eq)
      (auto simp: result_simps consolidation_allowed_def Let_def intro: queue_consolidation_evolves)
  then show ?thesis
    unfolding process_consolidation_request_def Let_def
    by (intro yields_if yields_read switch_evolves) (auto split: option.split)
qed

lemma operations_evolves [evolves_intros]: "yields (evolves s) (process_operations_with E v body s)"
  unfolding process_operations_with_def
  by (intro yields_read evo.yields_seq evo.yields_try_fold evolves_intros)

end
