(* ===== verification/Beacon_Scan.thy ===== *)
theory Beacon_Scan
  imports Beacon_Frame
begin

text \<open>
  The registry is stored in chunks, and scans of the whole registry run over the chunks in parallel.
  The scans are shown to compute what one pass over the registry computes: the balance of the
  participating validators and the lookup of validators by public key.
\<close>

section \<open>Chunks\<close>

lemma chunks_of_nth:
  "k < length (chunks_of n xs) \<Longrightarrow> chunks_of n xs ! k = take n (drop (k * n) xs)"
proof (induction n xs arbitrary: k rule: chunks_of.induct)
  case (1 n xs)
  show ?case
  proof (cases "n = 0 \<or> xs = []")
    case True
    with 1(2) show ?thesis by (simp add: chunks_of.simps)
  next
    case False
    with 1 show ?thesis
      by (subst chunks_of.simps) (cases k, auto simp: chunks_of.simps [of n xs] ac_simps)
  qed
qed

lemma chunks_of_cover: "0 < n \<Longrightarrow> length xs \<le> length (chunks_of n xs) * n"
proof (induction n xs rule: chunks_of.induct)
  case (1 n xs)
  then show ?case by (cases "xs = []") (auto simp: chunks_of.simps [of n xs])
qed

lemma concat_chunks_of [simp]: "0 < n \<Longrightarrow> concat (chunks_of n xs) = xs"
proof (induction n xs rule: chunks_of.induct)
  case (1 n xs)
  then show ?case by (cases "xs = []") (simp_all add: chunks_of.simps [of n xs] chunks_of.simps [of n "[]"])
qed

lemma concat_take_drop: "concat (map (\<lambda>k. take n (drop (k * n) xs)) [0..<m]) = take (m * n) xs"
proof (induction m)
  case (Suc m)
  have "take (Suc m * n) xs = take (m * n + n) xs" by (simp add: ac_simps)
  then show ?case using Suc by (simp add: take_add)
qed simp

lemma concat_all_chunks:
  "length xs \<le> m * n \<Longrightarrow> concat (map (\<lambda>k. take n (drop (k * n) xs)) [0..<m]) = xs"
  by (simp add: concat_take_drop)

text \<open>Splitting the work among threads does not change its result.\<close>

lemma parallel_map_eq [simp]:
  assumes "0 < threads"
  shows "parallel_map threads threshold f items = map f items"
proof (cases "items = []")
  case True
  then show ?thesis by (simp add: parallel_map_def chunks_of.simps)
next
  case False
  have "threads \<le> length items + threads - 1" using False by (cases items) simp_all
  then have "0 < (length items + threads - 1) div threads" using assms by (simp add: div_greater_zero_iff)
  then show ?thesis by (simp add: parallel_map_def flip: map_concat)
qed

lemma CHUNK_SIZE_pos [simp]: "0 < CHUNK_SIZE"
  by (simp add: CHUNK_SIZE_def)

section \<open>Participating balances\<close>

text \<open>The effective balance of the unslashed validators that are active in an epoch and have a flag.\<close>

definition attesting_balance :: "byte \<Rightarrow> u64 \<Rightarrow> beacon_validator list \<Rightarrow> byte list \<Rightarrow> u64" where
  "attesting_balance flag_index epoch vs participation =
     sum_list (map (\<lambda>(v, flags). effective_balance v) (filter (participates flag_index epoch) (zip vs participation)))"

definition participation_share :: "byte \<Rightarrow> u64 \<Rightarrow> beacon_validator \<times> byte \<Rightarrow> u64" where
  "participation_share flag_index epoch = (\<lambda>(v, flags). if participates flag_index epoch (v, flags) then effective_balance v else 0)"

lemma attesting_balance_shares:
  "attesting_balance flag_index epoch vs ps = sum_list (map (participation_share flag_index epoch) (zip vs ps))"
  by (simp add: attesting_balance_def participation_share_def sum_list_map_filter' case_prod_unfold if_distrib)

lemma participating_sum_shares:
  "participating_sum flag_index e e' vs ps cs =
    (sum_list (map (\<lambda>((v, p), c). participation_share flag_index e (v, p)) (zip (zip vs ps) cs)),
     sum_list (map (\<lambda>((v, p), c). participation_share flag_index e' (v, c)) (zip (zip vs ps) cs)))"
proof -
  have "foldl (\<lambda>(p, c) ((v, previous_flags), current_flags).
       if slashed v then (p, c)
       else (if is_active_validator v e \<and> has_flag previous_flags flag_index then p + effective_balance v else p,
             if is_active_validator v e' \<and> has_flag current_flags flag_index then c + effective_balance v else c))
       (a, b) zs
     = (a + sum_list (map (\<lambda>((v, p), c). participation_share flag_index e (v, p)) zs),
        b + sum_list (map (\<lambda>((v, p), c). participation_share flag_index e' (v, c)) zs))" for a b zs
    by (induction zs arbitrary: a b) (auto simp: participation_share_def participates_def)
  then show ?thesis by (simp add: participating_sum_def)
qed

lemma cut_eq: "take (min (start + n) (length xs) - min start (length xs)) (drop (min start (length xs)) xs)
  = take n (drop start xs)"
  by (cases "start \<le> length xs") (auto simp: min_def)

lemma zip_take_chunk: "length xs \<le> m \<Longrightarrow> zip (take n xs) (take (min m n) ys) = take n (zip xs ys)"
  by (rule nth_equalityI) (auto simp: take_zip)

text \<open>The part of the zipped lists that belongs to one chunk.\<close>

lemma zip_chunk:
  "zip (zip (take n (drop k vs)) (take (length (take n (drop k vs))) (drop k ps))) (take (length (take n (drop k vs))) (drop k cs))
   = take n (drop k (zip (zip vs ps) cs))"
  by (simp add: zip_take_chunk drop_zip)

lemma sum_list_concat: "sum_list (concat xss) = sum_list (map sum_list xss)"
  by (induction xss) simp_all

lemma foldl_add_pairs:
  "foldl (\<lambda>(tp, tc) (p, c). (tp + p, tc + c)) (a, b) (map (\<lambda>k. (f k, g k)) ks)
   = (a + sum_list (map f ks), b + sum_list (map g ks))" for a b :: u64
  by (induction ks arbitrary: a b) (simp_all add: ac_simps)

lemma map_zip_zip:
  assumes "length ps = length vs" and "length cs = length vs"
  shows "map (\<lambda>((v, p), c). f (v, p)) (zip (zip vs ps) cs) = map f (zip vs ps)"
    and "map (\<lambda>((v, p), c). g (v, c)) (zip (zip vs ps) cs) = map g (zip vs cs)"
  using assms by (auto intro!: nth_equalityI)

text \<open>For any number of threads the scan gives what one pass over the registry gives.\<close>

lemma participating_balances_scan:
  assumes "beacon_env_ok E" and "beacon_wf s"
  shows "get_unslashed_participating_balances E s flag_index =
    (max EFFECTIVE_BALANCE_INCREMENT
       (attesting_balance flag_index (get_previous_epoch s) (bs_validators s) (bs_previous_epoch_participation s)),
     max EFFECTIVE_BALANCE_INCREMENT
       (attesting_balance flag_index (get_current_epoch s) (bs_validators s) (bs_current_epoch_participation s)))"
proof -
  let ?vs = "bs_validators s" and ?ps = "bs_previous_epoch_participation s" and ?cs = "bs_current_epoch_participation s"
  let ?m = "length (chunks_of CHUNK_SIZE ?vs)"
  let ?z = "zip (zip ?vs ?ps) ?cs"
  have lens: "length ?ps = length ?vs" "length ?cs = length ?vs" using assms(2) by (simp_all add: beacon_wf_def)
  have z: "concat (map (\<lambda>k. take CHUNK_SIZE (drop (k * CHUNK_SIZE) ?z)) [0..<?m]) = ?z"
    using chunks_of_cover [of CHUNK_SIZE ?vs] by (intro concat_all_chunks) simp
  let ?part = "\<lambda>k. zip (zip (chunks_of CHUNK_SIZE ?vs ! k)
      (take (length (chunks_of CHUNK_SIZE ?vs ! k)) (drop (k * CHUNK_SIZE) ?ps)))
      (take (length (chunks_of CHUNK_SIZE ?vs ! k)) (drop (k * CHUNK_SIZE) ?cs))"
  have "map ?part [0..<?m] = map (\<lambda>k. take CHUNK_SIZE (drop (k * CHUNK_SIZE) ?z)) [0..<?m]"
    by (rule map_cong [OF HOL.refl]) (simp only: chunks_of_nth zip_chunk set_upt atLeastLessThan_iff)
  then have "?z = concat (map ?part [0..<?m])" using z by (simp only:)
  then have "sum_list (map h ?z) = sum_list (map h (concat (map ?part [0..<?m])))"
    for h :: "(beacon_validator \<times> byte) \<times> byte \<Rightarrow> u64" by (simp only:)
  then have sums: "(\<Sum>k\<leftarrow>[0..<?m]. sum_list (map h (?part k))) = sum_list (map h ?z)"
    for h :: "(beacon_validator \<times> byte) \<times> byte \<Rightarrow> u64"
    by (simp add: map_concat sum_list_concat comp_def)
  have "parallel_map (thread_count E) 2 F [0..<?m] = map F [0..<?m]" for F :: "nat \<Rightarrow> u64 \<times> u64"
    using assms(1) by (simp add: beacon_env_ok_def)
  then show ?thesis
    unfolding get_unslashed_participating_balances_def Let_def participating_sum_shares attesting_balance_shares
    by (simp add: cut_eq sums foldl_add_pairs map_zip_zip [OF lens])
qed

section \<open>Lookup by public key\<close>

text \<open>The first validator with a key.\<close>

definition first_index :: "beacon_validator list \<Rightarrow> bls_public_key \<Rightarrow> nat option" where
  "first_index vs key = List.find (\<lambda>i. v_public_key (vs ! i) = key) [0..<length vs]"

lemma first_index_None: "first_index vs key = None \<longleftrightarrow> key \<notin> v_public_key ` set vs"
  by (force simp: first_index_def find_None_iff in_set_conv_nth)

lemma first_index_Some:
  "first_index vs key = Some i \<Longrightarrow> i < length vs \<and> v_public_key (vs ! i) = key \<and> (\<forall>j < i. v_public_key (vs ! j) \<noteq> key)"
  by (auto simp: first_index_def find_Some_iff)

text \<open>Adding a validator at the end does not change the lookup of the keys that are there.\<close>

lemma find_append: "List.find P (xs @ ys) = (case List.find P xs of Some x \<Rightarrow> Some x | None \<Rightarrow> List.find P ys)"
  by (induction xs) simp_all

lemma find_cong_set: "(\<And>x. x \<in> set xs \<Longrightarrow> P x = Q x) \<Longrightarrow> List.find P xs = List.find Q xs"
  by (induction xs) auto

lemma first_index_append:
  "first_index (vs @ [v]) key =
    (case first_index vs key of Some i \<Rightarrow> Some i | None \<Rightarrow> if v_public_key v = key then Some (length vs) else None)"
proof -
  have "List.find (\<lambda>i. v_public_key ((vs @ [v]) ! i) = key) [0..<length vs] = List.find (\<lambda>i. v_public_key (vs ! i) = key) [0..<length vs]"
    by (rule find_cong_set) (simp add: nth_append)
  then show ?thesis by (simp add: first_index_def find_append split: option.split)
qed

text \<open>The scan lists the validators whose key is asked for, in the order of the registry.\<close>

lemma scan_chunk_eq:
  assumes "k < length (chunks_of CHUNK_SIZE vs)"
  shows "scan_chunk keys (chunks_of CHUNK_SIZE vs) k =
    map (\<lambda>i. (i, v_public_key (vs ! i))) (filter (\<lambda>i. v_public_key (vs ! i) \<in> set keys)
      (take CHUNK_SIZE (drop (k * CHUNK_SIZE) [0..<length vs])))"
proof -
  let ?b = "k * CHUNK_SIZE" and ?c = "take CHUNK_SIZE (drop (k * CHUNK_SIZE) vs)"
  have "take CHUNK_SIZE (drop ?b [0..<length vs]) = map ((+) ?b) [0..<length ?c]"
    by (rule nth_equalityI) auto
  moreover have "List.enumerate 0 ?c = map (\<lambda>i. (i, vs ! (?b + i))) [0..<length ?c]"
    by (rule nth_equalityI) (auto simp: nth_enumerate_eq)
  ultimately show ?thesis
    using assms by (auto simp: scan_chunk_def chunks_of_nth filter_map comp_def intro!: arg_cong [where f = "map _"] filter_cong)
qed

lemma scan_chunks:
  "concat (map (scan_chunk keys (chunks_of CHUNK_SIZE vs)) [0..<length (chunks_of CHUNK_SIZE vs)])
   = map (\<lambda>i. (i, v_public_key (vs ! i))) (filter (\<lambda>i. v_public_key (vs ! i) \<in> set keys) [0..<length vs])"
proof -
  let ?m = "length (chunks_of CHUNK_SIZE vs)" and ?f = "\<lambda>i. (i, v_public_key (vs ! i))"
  let ?part = "\<lambda>k. take CHUNK_SIZE (drop (k * CHUNK_SIZE) [0..<length vs])"
  have "map (scan_chunk keys (chunks_of CHUNK_SIZE vs)) [0..<?m]
      = map (\<lambda>k. map ?f (filter (\<lambda>i. v_public_key (vs ! i) \<in> set keys) (?part k))) [0..<?m]"
    by (rule map_cong [OF HOL.refl]) (simp only: scan_chunk_eq set_upt atLeastLessThan_iff)
  also have "concat \<dots> = map ?f (filter (\<lambda>i. v_public_key (vs ! i) \<in> set keys) (concat (map ?part [0..<?m])))"
    by (simp add: map_concat filter_concat comp_def)
  also have "concat (map ?part [0..<?m]) = [0..<length vs]"
    using chunks_of_cover [of CHUNK_SIZE vs] by (intro concat_all_chunks) simp
  finally show ?thesis .
qed

text \<open>The first match of a key is kept.\<close>

lemma keep_first:
  "map_of (foldl (\<lambda>indices (index, key). if map_of indices key = None then (key, index) # indices else indices)
     acc (map (\<lambda>i. (i, f i)) js)) key
   = (case map_of acc key of Some i \<Rightarrow> Some i | None \<Rightarrow> List.find (\<lambda>i. f i = key) js)"
  by (induction js arbitrary: acc) (auto split: option.split)

lemma find_filter: "List.find P (filter Q xs) = List.find (\<lambda>x. Q x \<and> P x) xs"
  by (induction xs) simp_all

lemma find_validator_indices_lookup:
  assumes "beacon_env_ok E"
  shows "map_of (find_validator_indices E vs keys) key = (if key \<in> set keys then first_index vs key else None)"
proof -
  have "List.find (\<lambda>i. v_public_key (vs ! i) \<in> set keys \<and> v_public_key (vs ! i) = key) [0..<length vs]
      = (if key \<in> set keys then first_index vs key else None)"
    by (auto simp: first_index_def find_None_iff intro: find_cong_set)
  then show ?thesis
    using assms by (auto simp: find_validator_indices_def Let_def beacon_env_ok_def scan_chunks keep_first find_filter)
qed

end
