(* ===== verification/Beacon_Transition.thy ===== *)
theory Beacon_Transition
  imports Beacon_Frame
begin

text \<open>
  The state transition of \<open>electra/beacon_state.rs\<close>: the sync aggregate, blocks, slots, and the variants
  of \<open>state_transition\<close>, with \<open>replay_block\<close>. The loop over slots ends because no operation changes the
  slot (theory \<open>Beacon_Frame\<close>).
\<close>

section \<open>The sync aggregate\<close>

text \<open>\<open>collect\<close> into a map keeps the last index of a key.\<close>

definition compute_sync_committee_indices :: "beacon_state \<Rightarrow> sync_committee \<Rightarrow> beacon_error + nat list" where
  "compute_sync_committee_indices s committee =
     (let pubkey_to_index = map_of (rev (map (\<lambda>(i, v). (v_public_key v, i)) (List.enumerate 0 (bs_validators s))))
      in try_map (\<lambda>key. ok_or (pubkey_to_index key) (Anyhow ''Pubkey not found in validator set.''))
           (public_keys committee))"

definition get_proposer_and_participant_rewards :: "beacon_state \<Rightarrow> beacon_error + (u64 \<times> u64)" where
  "get_proposer_and_participant_rewards s =
     and_then (get_total_active_balance s) (\<lambda>total_active_balance.
     and_then (get_base_reward_per_increment s) (\<lambda>brpi.
     let total_active_increments = total_active_balance div EFFECTIVE_BALANCE_INCREMENT;
         total_base_rewards = brpi * total_active_increments;
         max_participant_rewards = total_base_rewards * SYNC_REWARD_WEIGHT div WEIGHT_DENOMINATOR div SLOTS_PER_EPOCH;
         participant_reward = max_participant_rewards div SYNC_COMMITTEE_SIZE;
         proposer_reward = participant_reward * PROPOSER_WEIGHT div (WEIGHT_DENOMINATOR - PROPOSER_WEIGHT)
     in Inr (participant_reward, proposer_reward)))"

text \<open>An \<open>i64\<close> is a word read in two's complement.\<close>

definition i64_positive :: "u64 \<Rightarrow> bool" where
  "i64_positive x \<longleftrightarrow> 0 < sint x"

definition unsigned_abs :: "u64 \<Rightarrow> u64" where
  "unsigned_abs x = (if sint x < 0 then - x else x)"

definition calculate_sync_committee_balance_change ::
  "nat list \<Rightarrow> bool list \<Rightarrow> u64 \<Rightarrow> (u64 \<times> u64 \<times> bool) list" where
  "calculate_sync_committee_balance_change committee_indices bits participant_reward =
     map (\<lambda>(validator_index, participation_bit).
            if participation_bit then (of_nat validator_index, participant_reward, True)
            else (of_nat validator_index, - participant_reward, False))
       (zip committee_indices bits)"

definition apply_sync_change ::
  "u64 \<Rightarrow> u64 \<Rightarrow> beacon_state \<Rightarrow> u64 \<times> u64 \<times> bool \<Rightarrow> beacon_error + beacon_state" where
  "apply_sync_change proposer_index proposer_reward s = (\<lambda>(validator_index, change, is_participant).
     and_then (if i64_positive change then increase_balance validator_index change s
               else decrease_balance validator_index (unsigned_abs change) s) (\<lambda>s1.
     if is_participant then increase_balance proposer_index proposer_reward s1 else Inr s1))"

definition verify_sync_aggregate :: "beacon_env \<Rightarrow> sync_aggregate \<Rightarrow> beacon_state \<Rightarrow> beacon_error + unit" where
  "verify_sync_aggregate E agg s =
     (let participant_public_keys = map fst (filter snd
            (zip (public_keys (bs_current_sync_committee s)) (sync_committee_bits agg)));
          previous_slot = max (bs_slot s) 1 - 1;
          domain = get_domain E s DOMAIN_SYNC_COMMITTEE (Some (compute_epoch_at_slot previous_slot))
      in
      and_then (get_block_root_at_slot s previous_slot) (\<lambda>root.
      let signing_root = compute_signing_root E (root_b256 E root) domain in
      and_then (eth_fast_aggregate_verify E participant_public_keys signing_root (sync_committee_signature agg)) (\<lambda>ok.
      require ok ''Sync aggregate signature verification failed.'')))"

definition process_sync_aggregate_with ::
  "beacon_env \<Rightarrow> bool \<Rightarrow> sync_aggregate \<Rightarrow> beacon_state \<Rightarrow> beacon_error + beacon_state" where
  "process_sync_aggregate_with E verify_signatures agg s =
     and_then (if verify_signatures then verify_sync_aggregate E agg s else Inr ()) (\<lambda>_.
     and_then (compute_sync_committee_indices s (bs_current_sync_committee s)) (\<lambda>committee_indices.
     and_then (get_proposer_and_participant_rewards s) (\<lambda>(participant_reward, proposer_reward).
     and_then (get_beacon_proposer_index E s None) (\<lambda>proposer_index.
     try_fold (apply_sync_change proposer_index proposer_reward) s
       (calculate_sync_committee_balance_change committee_indices (sync_committee_bits agg) participant_reward)))))"

section \<open>Blocks\<close>

definition process_block_after_execution_payload ::
  "beacon_env \<Rightarrow> beacon_block_body \<Rightarrow> bool \<Rightarrow> bool \<Rightarrow> beacon_state \<Rightarrow> beacon_error + beacon_state" where
  "process_block_after_execution_payload E body verify_randao verify_signatures s =
     and_then (process_randao_inner E body verify_randao s) (\<lambda>s.
     and_then (process_eth1_data E body s) (\<lambda>s.
     and_then (process_operations_with E verify_signatures body s) (\<lambda>s.
     process_sync_aggregate_with E verify_signatures (bb_sync_aggregate body) s)))"

definition process_proposed_block ::
  "beacon_env \<Rightarrow> execution_api option \<Rightarrow> beacon_block \<Rightarrow> bool \<Rightarrow> beacon_state \<Rightarrow> beacon_error + beacon_state" where
  "process_proposed_block E engine b verify_randao s =
     and_then (beacon_process_block_header E b s) (\<lambda>s.
     and_then (process_withdrawals E (bb_execution_payload (bb_body b)) s) (\<lambda>s.
     and_then (process_execution_payload E engine (bb_body b) s) (\<lambda>s.
     process_block_after_execution_payload E (bb_body b) verify_randao True s)))"

definition beacon_process_block ::
  "beacon_env \<Rightarrow> execution_api option \<Rightarrow> beacon_block \<Rightarrow> beacon_state \<Rightarrow> beacon_error + beacon_state" where
  "beacon_process_block E engine b s = process_proposed_block E engine b True s"

lemma sync_aggregate_evolves [evolves_intros]: "yields (evolves s) (process_sync_aggregate_with E v agg s)"
proof -
  have "yields (evolves t) (apply_sync_change i r t c)" for t i r c
    by (cases c) (auto simp: apply_sync_change_def intro!: evo.yields_seq evolves_intros split: if_splits)
  then show ?thesis
    unfolding process_sync_aggregate_with_def
    by (intro yields_read yields_prod evo.yields_try_fold)
qed

lemma process_block_after_evolves [evolves_intros]:
  "yields (evolves s) (process_block_after_execution_payload E body r v s)"
  unfolding process_block_after_execution_payload_def by (intro evo.yields_seq evolves_intros)

lemma process_block_evolves [evolves_intros]: "yields (evolves s) (beacon_process_block E engine b s)"
  unfolding beacon_process_block_def process_proposed_block_def by (intro evo.yields_seq evolves_intros)

section \<open>Slots\<close>

definition process_slot_with_root :: "beacon_env \<Rightarrow> b256 option \<Rightarrow> beacon_state \<Rightarrow> beacon_error + beacon_state" where
  "process_slot_with_root E known_state_root s =
     (let previous_state_root = (case known_state_root of Some r \<Rightarrow> r | None \<Rightarrow> root_state E s);
          i = unat (bs_slot s mod SLOTS_PER_HISTORICAL_ROOT)
      in
      and_then (set_idx (bs_state_roots s) i previous_state_root) (\<lambda>roots.
      let s1 = s\<lparr> bs_state_roots := roots \<rparr>;
          header = bs_latest_block_header s1;
          s2 = (if bh_state_root header = 0
                then s1\<lparr> bs_latest_block_header := header\<lparr> bh_state_root := previous_state_root \<rparr> \<rparr> else s1);
          previous_block_root = root_header E (bs_latest_block_header s2)
      in
      and_then (set_idx (bs_block_roots s2) i previous_block_root) (\<lambda>blocks.
      Inr (s2\<lparr> bs_block_roots := blocks \<rparr>))))"

text \<open>One round of the loop.\<close>

definition advance_slot :: "beacon_env \<Rightarrow> b256 option \<Rightarrow> beacon_state \<Rightarrow> beacon_error + beacon_state" where
  "advance_slot E known_state_root s =
     and_then (process_slot_with_root E known_state_root s) (\<lambda>s1.
     and_then (if (bs_slot s1 + 1) mod SLOTS_PER_EPOCH = 0 then process_epoch E s1 else Inr s1) (\<lambda>s2.
     Inr (s2\<lparr> bs_slot := bs_slot s2 + 1 \<rparr>)))"

lemma process_slot_evolves: "yields (evolves s) (process_slot_with_root E r s)"
  unfolding process_slot_with_root_def Let_def
  by (auto simp: yields_def result_simps set_idx_def evolves_def beacon_wf_def split: if_splits)

lemma advance_slot_slot: "advance_slot E r s = Inr t \<Longrightarrow> bs_slot t = bs_slot s + 1"
proof -
  assume "advance_slot E r s = Inr t"
  then obtain u w where u: "process_slot_with_root E r s = Inr u"
    and w: "(if (bs_slot u + 1) mod SLOTS_PER_EPOCH = 0 then process_epoch E u else Inr u) = Inr w"
    and t: "t = w\<lparr> bs_slot := bs_slot w + 1 \<rparr>"
    by (auto simp: advance_slot_def result_simps)
  have "bs_slot u = bs_slot s" using yieldsD [OF process_slot_evolves u] by (simp add: evolves_def)
  moreover have "bs_slot w = bs_slot u"
    using w yieldsD [OF process_epoch_evolves] by (auto simp: epoch_evolves_def split: if_splits)
  ultimately show ?thesis using t by simp
qed

function slots_loop :: "beacon_env \<Rightarrow> u64 \<Rightarrow> b256 option \<Rightarrow> beacon_state \<Rightarrow> beacon_error + beacon_state" where
  "slots_loop E slot known_state_root s =
     (if bs_slot s < slot
      then and_then (advance_slot E known_state_root s) (\<lambda>s'. slots_loop E slot None s')
      else Inr s)"
  by pat_completeness auto
termination
proof (relation "measure (\<lambda>(E, slot, r, s). unat slot - unat (bs_slot s))", goal_cases)
  case (2 E slot r s s')
  then show ?case
    using advance_slot_slot [OF 2(2)] unat_add_one [of "bs_slot s" slot] by (simp add: word_less_nat_alt)
qed simp

declare slots_loop.simps [simp del]

lemma slots_loop_step:
  "bs_slot s < slot \<Longrightarrow> slots_loop E slot r s = and_then (advance_slot E r s) (slots_loop E slot None)"
  by (subst slots_loop.simps) simp

lemma slots_loop_done [simp]: "\<not> bs_slot s < slot \<Longrightarrow> slots_loop E slot r s = Inr s"
  by (subst slots_loop.simps) simp

definition process_slots_from_root :: "beacon_env \<Rightarrow> u64 \<Rightarrow> b256 option \<Rightarrow> beacon_state \<Rightarrow> beacon_error + beacon_state" where
  "process_slots_from_root E slot known_state_root s =
     and_then (require (bs_slot s < slot) ''self.slot < slot'') (\<lambda>_. slots_loop E slot known_state_root s)"

definition beacon_process_slots :: "beacon_env \<Rightarrow> u64 \<Rightarrow> beacon_state \<Rightarrow> beacon_error + beacon_state" where
  "beacon_process_slots E slot s = process_slots_from_root E slot None s"

section \<open>The transition\<close>

definition signed_header :: "beacon_env \<Rightarrow> signed_beacon_block \<Rightarrow> signed_beacon_block_header" where
  "signed_header E sb =
     (let b = sbb_message sb in
      \<lparr> sbh_message = \<lparr> bh_slot = bb_slot b, bh_proposer_index = bb_proposer_index b,
          bh_parent_root = bb_parent_root b, bh_state_root = bb_state_root b,
          bh_body_root = root_body E (bb_body b) \<rparr>,
        sbh_signature = sbb_signature sb \<rparr>)"

definition verify_block_header_signature :: "beacon_env \<Rightarrow> signed_beacon_block_header \<Rightarrow> beacon_state \<Rightarrow> beacon_error + bool" where
  "verify_block_header_signature E sh s =
     and_then (get_or (bs_validators s) (unat (bh_proposer_index (sbh_message sh))) ''Invalid block proposer index'') (\<lambda>proposer.
     let signing_root = compute_signing_root E (root_header E (sbh_message sh))
           (get_domain E s DOMAIN_BEACON_PROPOSER (Some (compute_epoch_at_slot (bh_slot (sbh_message sh)))))
     in bls_verify E (sbh_signature sh) (v_public_key proposer) signing_root)"

definition process_signed_block ::
  "beacon_env \<Rightarrow> execution_api option \<Rightarrow> signed_beacon_block \<Rightarrow> bool \<Rightarrow> beacon_state \<Rightarrow> beacon_error + beacon_state" where
  "process_signed_block E engine sb validate_result s =
     and_then (if validate_result
       then and_then (verify_block_header_signature E (signed_header E sb) s) (\<lambda>ok. require ok ''verify_block_header_signature'')
       else Inr ()) (\<lambda>_.
     and_then (beacon_process_block E engine (sbb_message sb) s) (\<lambda>s'.
     and_then (if validate_result then require (bb_state_root (sbb_message sb) = root_state E s') ''state_root'' else Inr ()) (\<lambda>_.
     Inr s')))"

definition state_transition_from_root ::
  "beacon_env \<Rightarrow> execution_api option \<Rightarrow> signed_beacon_block \<Rightarrow> bool \<Rightarrow> b256 option \<Rightarrow> beacon_state \<Rightarrow> beacon_error + beacon_state" where
  "state_transition_from_root E engine sb validate_result pre_state_root s =
     and_then (process_slots_from_root E (bb_slot (sbb_message sb)) pre_state_root s) (\<lambda>s1.
     process_signed_block E engine sb validate_result s1)"

definition beacon_state_transition ::
  "beacon_env \<Rightarrow> execution_api option \<Rightarrow> signed_beacon_block \<Rightarrow> bool \<Rightarrow> beacon_state \<Rightarrow> beacon_error + beacon_state" where
  "beacon_state_transition E engine sb validate_result s =
     state_transition_from_root E engine sb validate_result None s"

definition state_transition_from_epoch_start ::
  "beacon_env \<Rightarrow> execution_api option \<Rightarrow> signed_beacon_block \<Rightarrow> bool \<Rightarrow> beacon_state \<Rightarrow> beacon_error + beacon_state" where
  "state_transition_from_epoch_start E engine sb validate_result s =
     (let block_slot = bb_slot (sbb_message sb) in
      and_then (require (bs_slot s = compute_start_slot_at_epoch (compute_epoch_at_slot block_slot))
        ''pre-state slot is not the first slot of block slot's epoch'') (\<lambda>_.
      and_then (if bs_slot s < block_slot then beacon_process_slots E block_slot s else Inr s) (\<lambda>s1.
      process_signed_block E engine sb validate_result s1)))"

definition state_transition_keeping_epoch_start ::
  "beacon_env \<Rightarrow> execution_api option \<Rightarrow> signed_beacon_block \<Rightarrow> bool \<Rightarrow> b256 option \<Rightarrow> beacon_state
   \<Rightarrow> beacon_error + (beacon_state option \<times> beacon_state)" where
  "state_transition_keeping_epoch_start E engine sb validate_result pre_state_root s =
     (let block_slot = bb_slot (sbb_message sb);
          block_epoch = compute_epoch_at_slot block_slot
      in
      if get_current_epoch s \<ge> block_epoch
      then and_then (state_transition_from_root E engine sb validate_result pre_state_root s) (\<lambda>s'. Inr (None, s'))
      else
        and_then (process_slots_from_root E (compute_start_slot_at_epoch block_epoch) pre_state_root s) (\<lambda>epoch_start_state.
        and_then (state_transition_from_epoch_start E engine sb validate_result epoch_start_state) (\<lambda>s'.
        Inr (Some epoch_start_state, s'))))"

definition replay_block :: "beacon_env \<Rightarrow> signed_beacon_block \<Rightarrow> b256 option \<Rightarrow> beacon_state \<Rightarrow> beacon_error + beacon_state" where
  "replay_block E sb pre_state_root s =
     (let b = sbb_message sb in
      and_then (process_slots_from_root E (bb_slot b) pre_state_root s) (\<lambda>s.
      and_then (beacon_process_block_header E b s) (\<lambda>s.
      and_then (process_withdrawals E (bb_execution_payload (bb_body b)) s) (\<lambda>s.
      and_then (verify_execution_payload_consistency E (bb_body b) s) (\<lambda>_.
      let s = s\<lparr> bs_latest_execution_payload_header := to_execution_payload_header E (bb_execution_payload (bb_body b)) \<rparr>
      in process_block_after_execution_payload E (bb_body b) False False s)))))"

end
