(* ===== verification/Beacon_Example.thy ===== *)
theory Beacon_Example
  imports Beacon_Transition
begin

text \<open>
  A small concrete Beacon chain on which the definitions are evaluated: an instance of the third-party
  code with trivial hashes and signatures, a state with two validators and a block.
\<close>

definition demo_benv :: beacon_env where
  "demo_benv = \<lparr> be_hash = (\<lambda>_. 0), be_node_hash = (\<lambda>_ _. 0), root_fork_data = (\<lambda>_ _. 0),
     root_signing_data = (\<lambda>_ _. 0), root_header = (\<lambda>_. 0), root_body = (\<lambda>_. 0), root_block = (\<lambda>_. 0),
     root_state = (\<lambda>_. 0), root_attestation_data = (\<lambda>_. 0), root_voluntary_exit = (\<lambda>_. 0),
     root_bls_change = (\<lambda>_. 0), root_deposit_message = (\<lambda>_. 0), root_deposit_data = (\<lambda>_. 0),
     root_u64 = (\<lambda>_. 0), root_b256 = (\<lambda>_. 0), root_vector = (\<lambda>_. 0), root_transactions = (\<lambda>_. 0),
     root_withdrawals = (\<lambda>_. 0), blst_signature_ok = (\<lambda>_. True), blst_key_ok = (\<lambda>_. True),
     blst_verify = (\<lambda>_ _ _. True), blst_fast_aggregate_verify = (\<lambda>_ _ _. True),
     blst_aggregate_keys = (\<lambda>ks. Some (hd ks)), list_fits = (\<lambda>limit n. n \<le> limit),
     versioned_hash = (\<lambda>_. 0), genesis_fork_version = 0, capella_fork_version = 0,
     blob_schedule = [], electra_fork_epoch = 0, max_blobs_per_block_electra = 9,
     slot_duration_ms = 12000, fulu_fork_epoch = 0, thread_count = 1 \<rparr>"

lemma demo_benv_ok: "beacon_env_ok demo_benv"
  by (simp add: beacon_env_ok_def demo_benv_def)

definition demo_bvalidator :: "bls_public_key \<Rightarrow> beacon_validator" where
  "demo_bvalidator key = \<lparr> v_public_key = key, withdrawal_credentials = 0,
     effective_balance = 32000000000, slashed = False, activation_eligibility_epoch = 0,
     activation_epoch = 0, exit_epoch = FAR_FUTURE_EPOCH, withdrawable_epoch = FAR_FUTURE_EPOCH \<rparr>"

definition demo_bheader :: beacon_block_header where
  "demo_bheader = \<lparr> bh_slot = 0, bh_proposer_index = 0, bh_parent_root = 0, bh_state_root = 0, bh_body_root = 0 \<rparr>"

definition demo_bcheckpoint :: beacon_checkpoint where
  "demo_bcheckpoint = \<lparr> cp_epoch = 0, bcp_root = 0 \<rparr>"

definition demo_committee :: sync_committee where
  "demo_committee = \<lparr> public_keys = [], aggregate_public_key = 0 \<rparr>"

definition demo_payload :: execution_payload where
  "demo_payload = \<lparr> ep_parent_hash = 0, ep_fee_recipient = 0, ep_state_root = 0, ep_receipts_root = 0,
     ep_logs_bloom = [], ep_prev_randao = 0, ep_block_number = 0, ep_gas_limit = 0, ep_gas_used = 0,
     ep_timestamp = 12, ep_extra_data = [], ep_base_fee_per_gas = 0, ep_block_hash = 0,
     ep_transactions = [], ep_withdrawals = [], ep_blob_gas_used = 0, ep_excess_blob_gas = 0 \<rparr>"

definition demo_eth1 :: eth1_data where
  "demo_eth1 = \<lparr> e1_deposit_root = 0, e1_deposit_count = 0, e1_block_hash = 0 \<rparr>"

definition demo_bstate :: beacon_state where
  "demo_bstate = \<lparr> bs_genesis_time = 0, bs_genesis_validators_root = 0, bs_slot = 0,
     bs_fork = \<lparr> previous_version = 0, current_version = 0, fork_epoch = 0 \<rparr>,
     bs_latest_block_header = demo_bheader, bs_block_roots = [0], bs_state_roots = [0],
     bs_historical_roots = [], bs_eth1_data = demo_eth1, bs_eth1_data_votes = [], bs_eth1_deposit_index = 0,
     bs_validators = [demo_bvalidator 1, demo_bvalidator 2], bs_balances = [32000000000, 32000000000],
     bs_randao_mixes = [0], bs_slashings = [0], bs_previous_epoch_participation = [0, 0],
     bs_current_epoch_participation = [0, 0], bs_justification_bits = [False, False, False, False],
     bs_previous_justified_checkpoint = demo_bcheckpoint, bs_current_justified_checkpoint = demo_bcheckpoint,
     bs_finalized_checkpoint = demo_bcheckpoint, bs_inactivity_scores = [0, 0],
     bs_current_sync_committee = demo_committee, bs_next_sync_committee = demo_committee,
     bs_latest_execution_payload_header = to_execution_payload_header demo_benv demo_payload,
     bs_next_withdrawal_index = 0, bs_next_withdrawal_validator_index = 0, bs_historical_summaries = [],
     bs_deposit_requests_start_index = 0, bs_deposit_balance_to_consume = 0, bs_exit_balance_to_consume = 0,
     bs_earliest_exit_epoch = 0, bs_consolidation_balance_to_consume = 0, bs_earliest_consolidation_epoch = 0,
     bs_pending_deposits = [], bs_pending_partial_withdrawals = [], bs_pending_consolidations = [],
     bs_proposer_lookahead = [0, 1, 0, 1] \<rparr>"

definition demo_bbody :: beacon_block_body where
  "demo_bbody = \<lparr> randao_reveal = 7, bb_eth1_data = demo_eth1, graffiti = 0, proposer_slashings = [],
     attester_slashings = [], bb_attestations = [], bb_deposits = [], voluntary_exits = [],
     bb_sync_aggregate = \<lparr> sync_committee_bits = [], sync_committee_signature = infinity_signature \<rparr>,
     bb_execution_payload = demo_payload, bls_to_execution_changes = [], blob_kzg_commitments = [],
     bb_execution_requests = \<lparr> er_deposits = [], er_withdrawals = [], er_consolidations = [] \<rparr> \<rparr>"

definition demo_bblock :: signed_beacon_block where
  "demo_bblock = \<lparr> sbb_message = \<lparr> bb_slot = 1, bb_proposer_index = 1, bb_parent_root = 0,
     bb_state_root = 0, bb_body = demo_bbody \<rparr>, sbb_signature = 9 \<rparr>"

text \<open>The state after the block: the slot, the header, the Eth1 vote and the sweep have moved.\<close>

definition demo_bpost :: beacon_state where
  "demo_bpost = demo_bstate\<lparr> bs_slot := 1,
     bs_latest_block_header := demo_bheader\<lparr> bh_slot := 1, bh_proposer_index := 1 \<rparr>,
     bs_eth1_data_votes := [demo_eth1] \<rparr>"

lemmas demo_bdefs = demo_benv_def demo_bvalidator_def demo_bheader_def demo_bcheckpoint_def
  demo_committee_def demo_payload_def demo_eth1_def demo_bstate_def demo_bbody_def demo_bblock_def demo_bpost_def

lemmas epoch_defs = get_current_epoch_def compute_epoch_at_slot_def compute_start_slot_at_epoch_def
  get_previous_epoch_def compute_activation_exit_epoch_def

definition demo_bslot1 :: beacon_state where
  "demo_bslot1 = demo_bstate\<lparr> bs_slot := 1 \<rparr>"

lemma demo_slots: "process_slots_from_root demo_benv 1 None demo_bstate = Inr demo_bslot1"
proof -
  have "advance_slot demo_benv None demo_bstate = Inr demo_bslot1"
    by (simp add: demo_bslot1_def demo_bdefs advance_slot_def process_slot_with_root_def set_idx_def beacon_consts)
  moreover have "bs_slot demo_bstate = 0" "bs_slot demo_bslot1 = 1" by (simp_all add: demo_bslot1_def demo_bdefs)
  ultimately show ?thesis by (simp add: process_slots_from_root_def slots_loop_step)
qed

lemma demo_total: "get_total_active_balance demo_bslot1 = Inr 64000000000"
  by (simp add: get_total_active_balance_def get_total_balance_def get_active_validator_indices_def
      demo_bslot1_def demo_bdefs epoch_defs is_active_validator_def beacon_consts enumerate_eq_zip)

lemma demo_proposer: "get_beacon_proposer_index demo_benv demo_bslot1 None = Inr 1"
  by (simp add: get_beacon_proposer_index_def demo_bslot1_def demo_bdefs epoch_defs beacon_consts list_get_def)

definition demo_bheader1 :: beacon_state where
  "demo_bheader1 = demo_bslot1\<lparr> bs_latest_block_header := demo_bheader\<lparr> bh_slot := 1, bh_proposer_index := 1 \<rparr> \<rparr>"

lemma demo_header: "beacon_process_block_header demo_benv (sbb_message demo_bblock) demo_bslot1 = Inr demo_bheader1"
  using demo_proposer
  by (simp add: beacon_process_block_header_def demo_bheader1_def demo_bslot1_def demo_bdefs)

lemmas withdrawal_sweep_numeral =
  withdrawal_sweep.simps(2) [where bound = "pred_numeral k" for k, folded numeral_eq_Suc]

lemma demo_withdrawals: "process_withdrawals demo_benv (bb_execution_payload (bb_body (sbb_message demo_bblock))) demo_bheader1
  = Inr demo_bheader1"
  by (simp add: process_withdrawals_def get_expected_withdrawals_def demo_bheader1_def demo_bslot1_def demo_bdefs
      epoch_defs beacon_consts withdrawal_sweep_numeral withdrawn_from_def is_fully_withdrawable_validator_def
      is_partially_withdrawable_validator_def has_execution_withdrawal_credential_def has_eth1_withdrawal_credential_def
      has_compounding_withdrawal_credential_def is_compounding_withdrawal_credential_def credential_prefix_def b256_bytes_def
      get_max_effective_balance_def mod_u64_def push_all_def)

lemma demo_execution_payload: "process_execution_payload demo_benv None demo_bbody demo_bheader1 = Inr demo_bheader1"
  by (simp add: process_execution_payload_def verify_execution_payload_consistency_def get_randao_mix_def
      demo_bheader1_def demo_bslot1_def demo_bdefs epoch_defs beacon_consts compute_timestamp_at_slot_def seconds_per_slot_def
      to_execution_payload_header_def)

lemma b256_bytes_0: "b256_bytes 0 = replicate 32 0"
  by (simp add: b256_bytes_def map_replicate_const)

lemma b256_of_zeros: "b256_of_bytes (replicate n 0) = 0"
proof -
  have "foldl (\<lambda>acc b. acc * 256 + ucast (b :: byte)) (0 :: b256) (replicate n 0) = 0" by (induction n) simp_all
  then show ?thesis by (simp add: b256_of_bytes_def)
qed

lemma xor_zeros: "xor_bytes (replicate 32 0) (replicate 32 0) = 0"
proof -
  have "map (\<lambda>i. replicate 32 (0 :: byte) ! i XOR replicate 32 0 ! i) [0..<32] = replicate 32 0"
    by (rule nth_equalityI) (simp_all del: upt_rec_numeral)
  then show ?thesis unfolding xor_bytes_def by (simp only: b256_of_zeros)
qed

lemma demo_proposer1: "get_beacon_proposer_index demo_benv demo_bheader1 None = Inr 1"
  by (simp add: get_beacon_proposer_index_def demo_bheader1_def demo_bslot1_def demo_bdefs epoch_defs beacon_consts list_get_def)

lemma demo_randao: "process_randao_inner demo_benv demo_bbody True demo_bheader1 = Inr demo_bheader1"
proof -
  have "be_hash demo_benv x = 0" "bls_verify demo_benv sg k m = Inr True" for x sg k m
    by (simp_all add: demo_benv_def bls_verify_def)
  moreover have "list_get (bs_validators demo_bheader1) 1 = Some (demo_bvalidator 2)" "get_current_epoch demo_bheader1 = 0"
    "bs_randao_mixes demo_bheader1 = [0]"
    by (simp_all add: demo_bheader1_def demo_bslot1_def demo_bstate_def list_get_def epoch_defs beacon_consts)
  moreover have "demo_bheader1\<lparr> bs_randao_mixes := [0] \<rparr> = demo_bheader1"
    by (simp add: demo_bheader1_def demo_bslot1_def demo_bstate_def)
  ultimately show ?thesis
    using demo_proposer1 by (simp add: process_randao_inner_def get_randao_mix_def set_idx_def b256_bytes_0 xor_zeros)
qed

lemma demo_eth1_data: "process_eth1_data demo_benv demo_bbody demo_bheader1 = Inr demo_bpost"
  by (simp add: process_eth1_data_def demo_bheader1_def demo_bslot1_def demo_bdefs vl_push_def beacon_consts)

lemma demo_operations: "process_operations_with demo_benv v demo_bbody demo_bpost = Inr demo_bpost"
  by (simp add: process_operations_with_def check_deposit_count_def demo_bdefs)

lemma squareroot_demo: "integer_squareroot 64000000000 = 252982"
  by (simp add: integer_squareroot_def UINT64_MAX_def div_ceil_def squareroot_loop.simps)

lemma demo_sync: "process_sync_aggregate_with demo_benv v (bb_sync_aggregate demo_bbody) demo_bpost = Inr demo_bpost"
proof -
  have total: "get_total_active_balance demo_bpost = Inr 64000000000"
    by (simp add: get_total_active_balance_def get_total_balance_def get_active_validator_indices_def
        demo_bdefs epoch_defs is_active_validator_def beacon_consts enumerate_eq_zip)
  have "verify_sync_aggregate demo_benv (bb_sync_aggregate demo_bbody) demo_bpost = Inr ()"
    by (simp add: verify_sync_aggregate_def demo_bdefs get_block_root_at_slot_def beacon_consts eth_fast_aggregate_verify_def)
  moreover have "compute_sync_committee_indices demo_bpost (bs_current_sync_committee demo_bpost) = Inr []"
    by (simp add: compute_sync_committee_indices_def demo_bdefs)
  moreover have "get_beacon_proposer_index demo_benv demo_bpost None = Inr 1"
    by (simp add: get_beacon_proposer_index_def demo_bdefs epoch_defs beacon_consts list_get_def)
  moreover obtain a b where "get_proposer_and_participant_rewards demo_bpost = Inr (a, b)"
    using total by (simp add: get_proposer_and_participant_rewards_def get_base_reward_per_increment_def squareroot_demo div_u64_def Let_def)
  ultimately show ?thesis
    by (simp add: process_sync_aggregate_with_def calculate_sync_committee_balance_change_def)
qed

lemma demo_transition:
  "state_transition_from_root demo_benv None demo_bblock True None demo_bstate = Inr demo_bpost"
proof -
  have "bb_body (sbb_message demo_bblock) = demo_bbody" "bb_slot (sbb_message demo_bblock) = 1"
    "bb_state_root (sbb_message demo_bblock) = root_state demo_benv demo_bpost"
    by (simp_all add: demo_bblock_def demo_benv_def)
  moreover have "verify_block_header_signature demo_benv (signed_header demo_benv demo_bblock) demo_bslot1 = Inr True"
    by (simp add: verify_block_header_signature_def signed_header_def bls_verify_def demo_bslot1_def demo_bdefs)
  ultimately show ?thesis
    using demo_slots demo_header demo_withdrawals demo_execution_payload demo_randao demo_eth1_data demo_operations demo_sync
    by (simp add: state_transition_from_root_def process_signed_block_def beacon_process_block_def
        process_proposed_block_def process_block_after_execution_payload_def)
qed

text \<open>The same state with vectors and committees of full length.\<close>

definition demo_bwide :: beacon_state where
  "demo_bwide = demo_bstate\<lparr> bs_block_roots := replicate 8192 0, bs_state_roots := replicate 8192 0,
     bs_randao_mixes := replicate 65536 0, bs_slashings := replicate 8192 0,
     bs_proposer_lookahead := replicate 64 0,
     bs_current_sync_committee := \<lparr> public_keys = replicate 512 1, aggregate_public_key = 1 \<rparr>,
     bs_next_sync_committee := \<lparr> public_keys = replicate 512 1, aggregate_public_key = 1 \<rparr> \<rparr>"

lemma demo_bwide_wf: "beacon_wf demo_bwide"
  by (simp add: beacon_wf_def demo_bwide_def demo_bstate_def)

lemma demo_bwide_slots: "process_slots_from_root demo_benv 1 None demo_bwide = Inr (demo_bwide\<lparr> bs_slot := 1 \<rparr>)"
proof -
  have "(replicate 8192 (0 :: b256))[0 := 0] = replicate 8192 0"
    using list_update_id [of "replicate 8192 (0 :: b256)" 0] by simp
  then have "advance_slot demo_benv None demo_bwide = Inr (demo_bwide\<lparr> bs_slot := 1 \<rparr>)"
    by (simp add: advance_slot_def process_slot_with_root_def set_idx_def demo_bwide_def demo_bdefs beacon_consts)
  moreover have "bs_slot demo_bwide = 0" by (simp add: demo_bwide_def demo_bstate_def)
  ultimately show ?thesis by (simp add: process_slots_from_root_def slots_loop_step)
qed

end
