(* ===== verification/Beacon_Transition_Theorems.thy ===== *)
theory Beacon_Transition_Theorems
  imports Beacon_Example
begin

text \<open>
  The variants of the Beacon state transition agree: replaying an accepted block without its signature
  checks, stopping at the start of the epoch, and starting from a known state root.
\<close>

section \<open>Replaying a block\<close>

lemma try_fold_weaken:
  assumes "\<And>s x t. f s x = Inr t \<Longrightarrow> g s x = Inr t" and "try_fold f s xs = Inr t"
  shows "try_fold g s xs = Inr t"
  using assms(2) by (induction xs arbitrary: s) (auto simp: result_simps intro: assms(1))

lemma attestation_unverified:
  "process_attestation_with E True s a = Inr t \<Longrightarrow> process_attestation_with E False s a = Inr t"
proof -
  have "check_attestation E True s a = Inr r \<Longrightarrow> check_attestation E False s a = Inr r" for r
    by (auto simp: check_attestation_def Let_def result_simps)
  then show "process_attestation_with E True s a = Inr t \<Longrightarrow> process_attestation_with E False s a = Inr t"
    by (fastforce simp: process_attestation_with_def and_then_eq_Inr)
qed

lemma randao_unverified: "process_randao_inner E body True s = Inr t \<Longrightarrow> process_randao_inner E body False s = Inr t"
  by (auto simp: process_randao_inner_def Let_def result_simps split: option.splits)

lemma operations_unverified:
  "process_operations_with E True body s = Inr t \<Longrightarrow> process_operations_with E False body s = Inr t"
  unfolding process_operations_with_def and_then_eq_Inr
  by (blast intro: try_fold_weaken [where f = "process_attestation_with E True"] attestation_unverified)

lemma sync_aggregate_unverified:
  "process_sync_aggregate_with E True agg s = Inr t \<Longrightarrow> process_sync_aggregate_with E False agg s = Inr t"
  by (auto simp: process_sync_aggregate_with_def result_simps)

lemma block_after_unverified:
  "process_block_after_execution_payload E body True True s = Inr t \<Longrightarrow>
   process_block_after_execution_payload E body False False s = Inr t"
  unfolding process_block_after_execution_payload_def and_then_eq_Inr
  using randao_unverified operations_unverified sync_aggregate_unverified by blast

text \<open>C21. Rebuilding a state by replaying a block gives exactly the state its import gave: whatever
  the execution engine answered, whether or not the result was validated and whether or not the root
  of the state before was known, a block that the transition accepts is replayed without error to the
  same state, although the replay skips the payload, the state root and the randao, attestation and
  sync aggregate signatures.\<close>

theorem replay_block_agrees:
  assumes "state_transition_from_root E engine sb validate pre_root s = Inr t"
  shows "replay_block E sb pre_root s = Inr t"
proof -
  let ?b = "sbb_message sb"
  obtain s1 s2 s3 s4 where steps:
    "process_slots_from_root E (bb_slot ?b) pre_root s = Inr s1"
    "beacon_process_block_header E ?b s1 = Inr s2"
    "process_withdrawals E (bb_execution_payload (bb_body ?b)) s2 = Inr s3"
    "process_execution_payload E engine (bb_body ?b) s3 = Inr s4"
    "process_block_after_execution_payload E (bb_body ?b) True True s4 = Inr t"
    using assms
    by (auto simp: state_transition_from_root_def process_signed_block_def beacon_process_block_def
        process_proposed_block_def and_then_eq_Inr)
  have "verify_execution_payload_consistency E (bb_body ?b) s3 = Inr ()"
    "s4 = s3\<lparr> bs_latest_execution_payload_header := to_execution_payload_header E (bb_execution_payload (bb_body ?b)) \<rparr>"
    using steps(4) by (auto simp: process_execution_payload_def and_then_eq_Inr)
  then show ?thesis
    using steps block_after_unverified [OF steps(5)] by (simp add: replay_block_def Let_def)
qed

theorem replay_block_agrees_witness:
  "replay_block demo_benv demo_bblock None demo_bstate = Inr demo_bpost"
  by (rule replay_block_agrees [OF demo_transition])

section \<open>Stopping at the start of the epoch\<close>

lemma slots_loop_slot: "slots_loop E slot r s = Inr t \<Longrightarrow> bs_slot s \<le> slot \<Longrightarrow> bs_slot t = slot"
proof (induction E slot r s rule: slots_loop.induct)
  case (1 E slot r s)
  show ?case
  proof (cases "bs_slot s < slot")
    case True
    then obtain u where u: "advance_slot E r s = Inr u" "slots_loop E slot None u = Inr t"
      using 1(2) by (subst (asm) slots_loop.simps) (auto simp: and_then_eq_Inr)
    then show ?thesis
      using 1(1) [OF True u(1) u(2)] advance_slot_slot [OF u(1)] True by (simp add: inc_le)
  next
    case False
    then show ?thesis using 1(2,3) by (subst (asm) slots_loop.simps) auto
  qed
qed

lemma slots_loop_split:
  "bs_slot s < a \<Longrightarrow> a \<le> b \<Longrightarrow> slots_loop E b r s = and_then (slots_loop E a r s) (slots_loop E b None)"
proof (induction E a r s rule: slots_loop.induct)
  case (1 E a r s)
  have "slots_loop E b None u = and_then (slots_loop E a None u) (slots_loop E b None)"
    if u: "advance_slot E r s = Inr u" for u
    by (cases "bs_slot u < a") (use 1 u in simp_all)
  then show ?case
    using 1(2,3) by (cases "advance_slot E r s") (auto simp: slots_loop_step)
qed

lemma epoch_start_le: "compute_start_slot_at_epoch (compute_epoch_at_slot slot) \<le> slot"
proof -
  have "unat (slot div 32) * 32 \<le> unat slot" by (simp add: unat_div)
  then have "unat (slot div 32 * 32) \<le> unat slot"
    using unat_less_u64 [of slot] by (simp add: unat_word_ariths)
  then show ?thesis
    by (simp add: compute_start_slot_at_epoch_def compute_epoch_at_slot_def SLOTS_PER_EPOCH_def word_le_nat_alt)
qed

lemma before_epoch_start:
  assumes "compute_epoch_at_slot a < compute_epoch_at_slot b"
  shows "a < compute_start_slot_at_epoch (compute_epoch_at_slot b)"
proof -
  have lt: "unat a div 32 < unat b div 32"
    using assms by (simp add: compute_epoch_at_slot_def SLOTS_PER_EPOCH_def word_less_nat_alt unat_div)
  have "unat (b div 32 * 32) = unat b div 32 * 32"
    using unat_less_u64 [of b] by (simp add: unat_word_ariths unat_div)
  moreover have "unat a < unat b div 32 * 32"
    using lt by (simp add: div_less_iff_less_mult)
  ultimately show ?thesis
    by (simp add: compute_start_slot_at_epoch_def compute_epoch_at_slot_def SLOTS_PER_EPOCH_def word_less_nat_alt)
qed

lemma transition_from_epoch_start:
  assumes "bs_slot s < a" and "a = compute_start_slot_at_epoch (compute_epoch_at_slot (bb_slot (sbb_message sb)))"
  shows "and_then (process_slots_from_root E a r s) (state_transition_from_epoch_start E engine sb v)
    = state_transition_from_root E engine sb v r s"
proof -
  let ?b = "bb_slot (sbb_message sb)"
  have ab: "a \<le> ?b" using assms(2) epoch_start_le by simp
  then have sb: "bs_slot s < ?b" using assms(1) by simp
  have "state_transition_from_epoch_start E engine sb v t
      = and_then (slots_loop E ?b None t) (process_signed_block E engine sb v)" if "bs_slot t = a" for t
    using that assms(2) ab
    by (auto simp: state_transition_from_epoch_start_def Let_def beacon_process_slots_def process_slots_from_root_def)
  then show ?thesis
    using slots_loop_split [OF assms(1) ab, of E r] slots_loop_slot [of E a r s] assms(1) sb
    by (cases "slots_loop E a r s")
      (auto simp: process_slots_from_root_def state_transition_from_root_def)
qed

text \<open>C22. The ways to run the transition agree, errors included. Starting from the known root of the
  state gives the result of the plain transition. Keeping the state at the start of the block's epoch
  does not change the result either: when the block is in a later epoch, the kept state is the
  pre-state advanced to the first slot of that epoch, and otherwise none is kept.\<close>

theorem transition_variants_agree:
  "state_transition_from_root E engine sb v (Some (root_state E s)) s = beacon_state_transition E engine sb v s \<and>
   state_transition_keeping_epoch_start E engine sb v r s =
     (let block_epoch = compute_epoch_at_slot (bb_slot (sbb_message sb)) in
      if get_current_epoch s \<ge> block_epoch
      then and_then (state_transition_from_root E engine sb v r s) (\<lambda>t. Inr (None, t))
      else and_then (process_slots_from_root E (compute_start_slot_at_epoch block_epoch) r s) (\<lambda>u.
           and_then (state_transition_from_root E engine sb v r s) (\<lambda>t. Inr (Some u, t))))"
proof
  let ?e = "compute_epoch_at_slot (bb_slot (sbb_message sb))"
  have "advance_slot E (Some (root_state E s)) s = advance_slot E None s"
    by (simp add: advance_slot_def process_slot_with_root_def)
  then have "slots_loop E slot (Some (root_state E s)) s = slots_loop E slot None s" for slot
    by (subst (1 2) slots_loop.simps) simp
  then show "state_transition_from_root E engine sb v (Some (root_state E s)) s = beacon_state_transition E engine sb v s"
    by (simp add: beacon_state_transition_def state_transition_from_root_def process_slots_from_root_def)
  have late: "and_then (process_slots_from_root E (compute_start_slot_at_epoch ?e) r s) (\<lambda>u.
        and_then (state_transition_from_epoch_start E engine sb v u) (\<lambda>t. Inr (Some u, t)))
      = and_then (process_slots_from_root E (compute_start_slot_at_epoch ?e) r s) (\<lambda>u.
        and_then (state_transition_from_root E engine sb v r s) (\<lambda>t. Inr (Some u, t)))"
    if "get_current_epoch s < ?e"
    using transition_from_epoch_start [OF before_epoch_start refl, of s sb E r engine v, symmetric] that
    by (cases "process_slots_from_root E (compute_start_slot_at_epoch ?e) r s") (simp_all add: get_current_epoch_def)
  show "state_transition_keeping_epoch_start E engine sb v r s =
     (let block_epoch = ?e in
      if get_current_epoch s \<ge> block_epoch
      then and_then (state_transition_from_root E engine sb v r s) (\<lambda>t. Inr (None, t))
      else and_then (process_slots_from_root E (compute_start_slot_at_epoch block_epoch) r s) (\<lambda>u.
           and_then (state_transition_from_root E engine sb v r s) (\<lambda>t. Inr (Some u, t))))"
    using late by (cases "?e \<le> get_current_epoch s") (simp_all add: state_transition_keeping_epoch_start_def Let_def)
qed

section \<open>Reachable states\<close>

text \<open>The states reached from a given one by accepted blocks and by advancing over empty slots.\<close>

inductive beacon_reaches :: "beacon_env \<Rightarrow> beacon_state \<Rightarrow> beacon_state \<Rightarrow> bool" for E where
  start: "beacon_reaches E s s"
| block: "beacon_reaches E s t \<Longrightarrow> state_transition_from_root E engine sb v r t = Inr u \<Longrightarrow> beacon_reaches E s u"
| slots: "beacon_reaches E s t \<Longrightarrow> process_slots_from_root E slot r t = Inr u \<Longrightarrow> beacon_reaches E s u"

text \<open>A relation that every operation and every advance by a slot keeps to, the last slot number
  apart, holds between any state and the states reached from it.\<close>

locale transition_frame = store_frame R for R :: "beacon_state \<Rightarrow> beacon_state \<Rightarrow> bool" +
  assumes operation: "evolves s t \<Longrightarrow> R s t"
    and advance: "bs_slot s < slot \<Longrightarrow> advance_slot E r s = Inr t \<Longrightarrow> R s t"
begin

lemma slots_loop_frame: "yields (R s) (slots_loop E slot r s)"
proof (induction E slot r s rule: slots_loop.induct)
  case (1 E slot r s)
  have "yields (R s) (and_then (advance_slot E r s) (slots_loop E slot None))" if "bs_slot s < slot"
  proof (rule yields_and_then_eq)
    fix u assume u: "advance_slot E r s = Inr u"
    show "yields (R s) (slots_loop E slot None u)"
      using yields_after [OF advance [OF that u] 1 [OF that u]] .
  qed
  then show ?case by (subst slots_loop.simps) (simp add: refl)
qed

lemma process_slots_frame: "yields (R s) (process_slots_from_root E slot r s)"
  unfolding process_slots_from_root_def by (intro yields_read slots_loop_frame)

lemma state_transition_frame: "yields (R s) (state_transition_from_root E engine sb v r s)"
  unfolding state_transition_from_root_def process_signed_block_def
  by (intro yields_seq yields_read process_slots_frame yields_refl
      yields_mono [OF process_block_evolves operation])

lemma reaches_frame: "beacon_reaches E s t \<Longrightarrow> R s t"
  by (induction rule: beacon_reaches.induct)
    (auto intro: refl trans yieldsD [OF state_transition_frame] yieldsD [OF process_slots_frame])

end

section \<open>Well-formed states and the life cycle of validators\<close>

definition registry_evolves :: "beacon_state \<Rightarrow> beacon_state \<Rightarrow> bool" where
  "registry_evolves s t \<longleftrightarrow>
     length (bs_validators s) \<le> length (bs_validators t)
     \<and> (\<forall>i < length (bs_validators s). lifecycle (bs_validators s ! i) (bs_validators t ! i))
     \<and> (beacon_wf s \<longrightarrow> beacon_wf t)"

lemma registry_evolves_trans: "registry_evolves s t \<Longrightarrow> registry_evolves t u \<Longrightarrow> registry_evolves s u"
  unfolding registry_evolves_def by (auto intro: lifecycle_trans order_less_le_trans)

text \<open>An advance by a slot: the roots are recorded, the epoch is processed at its end, and the slot
  moves on.\<close>

lemma advance_slot_cases:
  assumes "advance_slot E r s = Inr t"
  obtains u where "evolves s u" and "t = u\<lparr> bs_slot := bs_slot s + 1 \<rparr>"
      and "(bs_slot s + 1) mod SLOTS_PER_EPOCH \<noteq> 0"
  | u w where "evolves s u" and "process_epoch E u = Inr w" and "t = w\<lparr> bs_slot := bs_slot s + 1 \<rparr>"
      and "(bs_slot s + 1) mod SLOTS_PER_EPOCH = 0"
proof -
  from assms obtain u w where u: "process_slot_with_root E r s = Inr u"
    and w: "(if (bs_slot u + 1) mod SLOTS_PER_EPOCH = 0 then process_epoch E u else Inr u) = Inr w"
    and t: "t = w\<lparr> bs_slot := bs_slot w + 1 \<rparr>"
    by (auto simp: advance_slot_def result_simps)
  have e: "evolves s u" using yieldsD [OF process_slot_evolves u] .
  then have "bs_slot u = bs_slot s" by (simp add: evolves_def)
  moreover have "bs_slot w = bs_slot u"
    using w yieldsD [OF process_epoch_evolves] by (auto simp: epoch_evolves_def split: if_splits)
  ultimately show thesis using that [OF e] w t by (auto split: if_splits)
qed

lemma advance_slot_registry:
  assumes "advance_slot E r s = Inr t"
  shows "registry_evolves s t"
proof -
  have reg: "epoch_evolves a b \<Longrightarrow> registry_evolves a b" "registry_evolves a (a\<lparr> bs_slot := n \<rparr>)" for a b n
    by (simp_all add: epoch_evolves_def registry_evolves_def beacon_wf_def)
  from assms show ?thesis
    by (cases rule: advance_slot_cases)
      (auto intro!: registry_evolves_trans [OF _ reg(2)] intro: registry_evolves_trans reg evolves_epoch
        dest: yieldsD [OF process_epoch_evolves])
qed

interpretation reg: transition_frame registry_evolves
proof unfold_locales
  show "registry_evolves s t" if "evolves s t" for s t
    using that by (simp add: evolves_def registry_evolves_def)
  show "registry_evolves s u" if "registry_evolves s t" "registry_evolves t u" for s t u
    using that by (rule registry_evolves_trans)
qed (simp add: registry_evolves_def, rule advance_slot_registry)

text \<open>C23. The shape of the state is kept: from a state whose per-validator lists have the length of the
  registry and whose vectors have their fixed lengths, every state reached by accepted blocks and
  empty slots, through any number of epochs, is of that shape again.\<close>

theorem beacon_state_stays_wf:
  assumes "beacon_reaches E s t" and "beacon_wf s"
  shows "beacon_wf t"
  using reg.reaches_frame [OF assms(1)] assms(2) by (simp add: registry_evolves_def)

theorem beacon_state_stays_wf_witness: "beacon_wf (demo_bwide\<lparr> bs_slot := 1 \<rparr>)"
  by (rule beacon_state_stays_wf [OF beacon_reaches.slots [OF beacon_reaches.start demo_bwide_slots] demo_bwide_wf])

text \<open>C24. The life cycle of a validator only moves forward. Through any accepted blocks and epochs a
  validator keeps its index and its public key, a slashed validator stays slashed, and the epochs at
  which it became eligible, is activated and exits are set once and never changed; after the exit is
  set the withdrawable epoch never moves to an earlier one.\<close>

theorem validator_lifecycle_forward:
  assumes "beacon_reaches E s t" and "i < length (bs_validators s)"
  shows "i < length (bs_validators t) \<and>
    (let v = bs_validators s ! i; w = bs_validators t ! i in
      v_public_key w = v_public_key v
      \<and> (slashed v \<longrightarrow> slashed w)
      \<and> (activation_eligibility_epoch v \<noteq> FAR_FUTURE_EPOCH \<longrightarrow>
           activation_eligibility_epoch w = activation_eligibility_epoch v)
      \<and> (activation_epoch v \<noteq> FAR_FUTURE_EPOCH \<longrightarrow> activation_epoch w = activation_epoch v)
      \<and> (exit_epoch v \<noteq> FAR_FUTURE_EPOCH \<longrightarrow>
           exit_epoch w = exit_epoch v \<and> withdrawable_epoch v \<le> withdrawable_epoch w))"
  using reg.reaches_frame [OF assms(1)] assms(2)
  by (auto simp: registry_evolves_def lifecycle_def Let_def)

theorem validator_lifecycle_forward_witness:
  "v_public_key (bs_validators demo_bpost ! 0) = 1 \<and> exit_epoch (bs_validators demo_bpost ! 0) = FAR_FUTURE_EPOCH"
proof -
  have "beacon_reaches demo_benv demo_bstate demo_bpost"
    by (rule beacon_reaches.block [OF beacon_reaches.start demo_transition])
  from validator_lifecycle_forward [OF this, of 0] show ?thesis
    by (simp add: Let_def demo_bdefs)
qed

end
