(* ===== verification/Beacon_Finality.thy ===== *)
theory Beacon_Finality
  imports Beacon_Scan Beacon_Transition_Theorems
begin

text \<open>
  Justification and finality of the Beacon chain. The code keeps the justified epochs in four bits that
  are shifted every epoch; an abstract machine keeps them as a set and finalizes a checkpoint when
  every epoch from it to the target of the votes that started from it is justified. Processing an
  epoch is shown to refine the machine, and finality never to revert.
\<close>

section \<open>Stake\<close>

definition stake :: "(beacon_validator \<Rightarrow> bool) \<Rightarrow> beacon_validator list \<Rightarrow> nat" where
  "stake P vs = (\<Sum>v\<leftarrow>filter P vs. unat (effective_balance v))"

lemma unat_sum_list:
  fixes ws :: "u64 list"
  assumes "sum_list (map unat ws) < 2 ^ 64"
  shows "unat (sum_list ws) = sum_list (map unat ws)"
  using assms by (induction ws) (simp_all add: unat_word_ariths)

lemma enumerate_filter_map:
  "map (\<lambda>(i, v). f i) (filter (\<lambda>(i, v). P v) (List.enumerate 0 xs)) = map f (filter (\<lambda>i. P (xs ! i)) [0..<length xs])"
proof -
  have "List.enumerate 0 xs = map (\<lambda>i. (i, xs ! i)) [0..<length xs]"
    by (rule nth_equalityI) (simp_all add: nth_enumerate_eq)
  then show ?thesis by (simp add: filter_map comp_def)
qed

lemma active_indices_eq:
  "get_active_validator_indices s epoch =
    map of_nat (filter (\<lambda>i. is_active_validator (bs_validators s ! i) epoch) [0..<length (bs_validators s)])"
  by (simp add: get_active_validator_indices_def enumerate_filter_map)

lemma unat_of_nat_index: "i < n \<Longrightarrow> n \<le> ValidatorRegistryLimit \<Longrightarrow> unat (of_nat i :: u64) = i"
  by (rule unat_of_nat_small) simp

lemma try_map_Inr: "(\<And>x. x \<in> set xs \<Longrightarrow> f x = Inr (g x)) \<Longrightarrow> try_map f xs = Inr (map g xs)"
  by (induction xs) simp_all

lemma total_active_balance_eq:
  assumes "length (bs_validators s) \<le> ValidatorRegistryLimit"
  shows "get_total_active_balance s =
    Inr (max EFFECTIVE_BALANCE_INCREMENT
      (sum_list (map effective_balance (filter (\<lambda>v. is_active_validator v (get_current_epoch s)) (bs_validators s)))))"
proof -
  let ?vs = "bs_validators s"
  let ?is = "filter (\<lambda>i. is_active_validator (?vs ! i) (get_current_epoch s)) [0..<length ?vs]"
  let ?ws = "map of_nat ?is :: u64 list"
  have u: "unat (of_nat i :: u64) = i" if "i \<in> set ?is" for i
    using that assms by (auto intro: unat_of_nat_index)
  have "inj_on (of_nat :: nat \<Rightarrow> u64) (set ?is)" by (rule inj_on_inverseI [where g = unat]) (rule u)
  then have "remdups (get_active_validator_indices s (get_current_epoch s)) = ?ws"
    by (simp add: active_indices_eq distinct_map distinct_remdups_id)
  moreover have "try_map (\<lambda>i. and_then (idx ?vs (unat i)) (\<lambda>v. Inr (effective_balance v))) ?ws
      = Inr (map (\<lambda>i. effective_balance (?vs ! unat i)) ?ws)"
    by (rule try_map_Inr) (use u in auto)
  moreover have "map (\<lambda>i. effective_balance (?vs ! unat i)) ?ws = map effective_balance (map ((!) ?vs) ?is)"
    using u by simp
  moreover have "map ((!) ?vs) ?is = filter (\<lambda>v. is_active_validator v (get_current_epoch s)) (map ((!) ?vs) [0..<length ?vs])"
    by (simp add: filter_map comp_def)
  ultimately show ?thesis
    by (simp add: get_total_active_balance_def get_total_balance_def map_nth del: map_map)
qed

section \<open>The outcome on four bits\<close>

lemma upt_1_4: "rev [Suc 0..<4] = [3, 2, 1]"
  by (simp add: upt_rec)

lemma justification_outcome_eval:
  assumes "bs_justification_bits s = [b0, b1, b2, b3]"
    and "get_block_root s (get_previous_epoch s) = Inr previous_root"
    and "get_block_root s (get_current_epoch s) = Inr current_root"
  shows "justification_outcome s T previous_target current_target =
    (let p = previous_target * 3 \<ge> T * 2; c = current_target * 3 \<ge> T * 2;
         e = get_current_epoch s;
         old_previous = bs_previous_justified_checkpoint s; old_current = bs_current_justified_checkpoint s
     in Inr \<lparr> jf_justification_bits = [c, p \<or> b0, b1, b2], jf_previous_justified_checkpoint = old_current,
       jf_current_justified_checkpoint =
         (if c then \<lparr> cp_epoch = e, bcp_root = current_root \<rparr>
          else if p then \<lparr> cp_epoch = get_previous_epoch s, bcp_root = previous_root \<rparr> else old_current),
       jf_finalized_checkpoint =
         (if c \<and> (p \<or> b0) \<and> cp_epoch old_current + 1 = e then old_current
          else if c \<and> (p \<or> b0) \<and> b1 \<and> cp_epoch old_current + 2 = e then old_current
          else if (p \<or> b0) \<and> b1 \<and> cp_epoch old_previous + 2 = e then old_previous
          else if (p \<or> b0) \<and> b1 \<and> b2 \<and> cp_epoch old_previous + 3 = e then old_previous
          else bs_finalized_checkpoint s) \<rparr>)"
  using assms unfolding justification_outcome_def Let_def
  by (cases "previous_target * 3 \<ge> T * 2"; cases "current_target * 3 \<ge> T * 2")
    (simp_all add: JUSTIFICATION_BITS_LENGTH_def upt_1_4 shift_bit_def set_bit_at_def all_bits_def sub_slice_def numeral_2_eq_2 numeral_3_eq_3)

section \<open>The abstract machine\<close>

record ffg_state =
  ffg_justified :: "nat set"
  ffg_previous :: beacon_checkpoint
  ffg_current :: beacon_checkpoint
  ffg_finalized :: beacon_checkpoint

text \<open>Votes from the checkpoint of epoch \<open>x\<close> to epoch \<open>y\<close> finalize it when they skip at most one epoch
  and every epoch from \<open>x\<close> to \<open>y\<close> is justified.\<close>

definition finalizes :: "nat set \<Rightarrow> nat \<Rightarrow> nat \<Rightarrow> bool" where
  "finalizes J x y \<longleftrightarrow> x < y \<and> y \<le> x + 2 \<and> {x..y} \<subseteq> J"

text \<open>The end of epoch \<open>e\<close>, in which the votes for the previous epoch have a supermajority (\<open>p\<close>) or
  those for epoch \<open>e\<close> have (\<open>c\<close>). Votes for the previous epoch start from the previous justified
  checkpoint, votes for epoch \<open>e\<close> from the current one.\<close>

definition ffg_step :: "nat \<Rightarrow> (nat \<Rightarrow> beacon_checkpoint) \<Rightarrow> bool \<Rightarrow> bool \<Rightarrow> ffg_state \<Rightarrow> ffg_state" where
  "ffg_step e checkpoint p c A =
     (let J = ffg_justified A \<union> (if p then {e - 1} else {}) \<union> (if c then {e} else {}) in
      \<lparr> ffg_justified = J,
        ffg_previous = ffg_current A,
        ffg_current = (if c then checkpoint e else if p then checkpoint (e - 1) else ffg_current A),
        ffg_finalized =
          (if finalizes J (unat (cp_epoch (ffg_current A))) e then ffg_current A
           else if finalizes J (unat (cp_epoch (ffg_previous A))) (e - 1) then ffg_previous A
           else ffg_finalized A) \<rparr>)"

text \<open>The bits are the last four epochs of the set.\<close>

definition ffg_rel :: "nat \<Rightarrow> beacon_state \<Rightarrow> ffg_state \<Rightarrow> bool" where
  "ffg_rel n s A \<longleftrightarrow>
     bs_justification_bits s = map (\<lambda>i. i \<le> n \<and> n - i \<in> ffg_justified A) [0, 1, 2, 3]
     \<and> ffg_justified A \<subseteq> {..n}
     \<and> bs_previous_justified_checkpoint s = ffg_previous A
     \<and> bs_current_justified_checkpoint s = ffg_current A
     \<and> bs_finalized_checkpoint s = ffg_finalized A
     \<and> unat (cp_epoch (ffg_previous A)) \<le> n \<and> unat (cp_epoch (ffg_current A)) \<le> n"

lemma finalizes_iff:
  "finalizes J x y \<longleftrightarrow> (x + 1 = y \<and> y - 1 \<in> J \<and> y \<in> J) \<or> (x + 2 = y \<and> y - 2 \<in> J \<and> y - 1 \<in> J \<and> y \<in> J)"
proof -
  have "{x..x + 1} = {x, x + 1}" "{x..x + 2} = {x, x + 1, x + 2}" by auto
  moreover have "x < y \<and> y \<le> x + 2 \<longleftrightarrow> x + 1 = y \<or> x + 2 = y" by linarith
  ultimately show ?thesis by (auto simp: finalizes_def)
qed

lemma finalizes_previous:
  assumes "2 \<le> e"
  shows "finalizes J y (e - 1) \<longleftrightarrow>
    e - 1 \<in> J \<and> e - 2 \<in> J \<and> (y + 2 = e \<or> (3 \<le> e \<and> e - 3 \<in> J) \<and> y + 3 = e)"
proof -
  have eqs: "y + 1 = e - 1 \<longleftrightarrow> y + 2 = e" "y + 2 = e - 1 \<longleftrightarrow> y + 3 = e" "e - 1 - 1 = e - 2" "e - 1 - 2 = e - 3"
    using assms by linarith+
  have "y + 3 = e \<Longrightarrow> 3 \<le> e" by simp
  then show ?thesis unfolding finalizes_iff eqs by blast
qed

text \<open>Which of the last epochs are justified after the step.\<close>

lemma ffg_step_bits:
  assumes "2 \<le> e" and "ffg_rel (e - 1) s A" and "bs_justification_bits s = [b0, b1, b2, b3]"
  shows "e \<in> ffg_justified (ffg_step e f p c A) \<longleftrightarrow> c"
    and "e - 1 \<in> ffg_justified (ffg_step e f p c A) \<longleftrightarrow> p \<or> b0"
    and "e - 2 \<in> ffg_justified (ffg_step e f p c A) \<longleftrightarrow> b1"
    and "3 \<le> e \<and> e - 3 \<in> ffg_justified (ffg_step e f p c A) \<longleftrightarrow> b2"
proof -
  have J: "ffg_justified (ffg_step e f p c A) = ffg_justified A \<union> (if p then {e - 1} else {}) \<union> (if c then {e} else {})"
    by (simp add: ffg_step_def Let_def)
  have old: "n \<notin> ffg_justified A" if "e \<le> n" for n using assms(1,2) that by (auto simp: ffg_rel_def)
  have b: "b0 = (e - 1 \<in> ffg_justified A)" "b1 = (e - 2 \<in> ffg_justified A)" "b2 = (3 \<le> e \<and> e - 3 \<in> ffg_justified A)"
    using assms by (auto simp: ffg_rel_def numeral_2_eq_2 numeral_3_eq_3)
  show "e \<in> ffg_justified (ffg_step e f p c A) \<longleftrightarrow> c" "e - 1 \<in> ffg_justified (ffg_step e f p c A) \<longleftrightarrow> p \<or> b0"
    "e - 2 \<in> ffg_justified (ffg_step e f p c A) \<longleftrightarrow> b1" "3 \<le> e \<and> e - 3 \<in> ffg_justified (ffg_step e f p c A) \<longleftrightarrow> b2"
    using old [of e] assms(1) by (auto simp: J b)
qed

lemma epoch_distance:
  fixes w k epoch :: u64
  assumes "unat w \<le> e - 1" and "unat k \<le> 3" and "unat epoch = e" and "e + 2 < 2 ^ 64" and "2 \<le> e"
  shows "w + k = epoch \<longleftrightarrow> unat w + unat k = e"
proof -
  have "unat w + unat k < 2 ^ 64" using assms by linarith
  then have "unat (w + k) = unat w + unat k" by (simp add: unat_word_ariths)
  then show ?thesis using assms(3) by (metis word_unat_eq_iff)
qed

lemma outcome_refines:
  assumes e: "2 \<le> e" "unat epoch = e" "e + 2 < 2 ^ 64" and rel: "ffg_rel (e - 1) s A"
    and out: "bits = [c, p \<or> b0, b1, b2]" "bs_justification_bits s = [b0, b1, b2, b3]"
  shows "bits = map (\<lambda>i. i \<le> e \<and> e - i \<in> ffg_justified (ffg_step e f p c A)) [0, 1, 2, 3]"
    and "(if c \<and> (p \<or> b0) \<and> cp_epoch (ffg_current A) + 1 = epoch then ffg_current A
          else if c \<and> (p \<or> b0) \<and> b1 \<and> cp_epoch (ffg_current A) + 2 = epoch then ffg_current A
          else if (p \<or> b0) \<and> b1 \<and> cp_epoch (ffg_previous A) + 2 = epoch then ffg_previous A
          else if (p \<or> b0) \<and> b1 \<and> b2 \<and> cp_epoch (ffg_previous A) + 3 = epoch then ffg_previous A
          else ffg_finalized A) = ffg_finalized (ffg_step e f p c A)"
proof -
  let ?J = "ffg_justified (ffg_step e f p c A)"
  let ?x = "unat (cp_epoch (ffg_current A))" and ?y = "unat (cp_epoch (ffg_previous A))"
  note new = ffg_step_bits [OF e(1) rel out(2), of f p c]
  have "(0 \<le> e \<and> e - 0 \<in> ?J) = c" "(1 \<le> e \<and> e - 1 \<in> ?J) = (p \<or> b0)" "(2 \<le> e \<and> e - 2 \<in> ?J) = b1"
    using new(1-3) e(1) by auto
  with new(4) show "bits = map (\<lambda>i. i \<le> e \<and> e - i \<in> ?J) [0, 1, 2, 3]"
    unfolding list.map out(1) by (simp only:)
  have xy: "?x \<le> e - 1" "?y \<le> e - 1" using rel by (simp_all add: ffg_rel_def)
  have w: "(cp_epoch (ffg_current A) + 1 = epoch) = (?x + 1 = e)" "(cp_epoch (ffg_current A) + 2 = epoch) = (?x + 2 = e)"
    "(cp_epoch (ffg_previous A) + 2 = epoch) = (?y + 2 = e)" "(cp_epoch (ffg_previous A) + 3 = epoch) = (?y + 3 = e)"
    using epoch_distance [OF xy(1) _ e(2,3,1), of 1] epoch_distance [OF xy(1) _ e(2,3,1), of 2]
      epoch_distance [OF xy(2) _ e(2,3,1), of 2] epoch_distance [OF xy(2) _ e(2,3,1), of 3] by simp_all
  have fin: "ffg_finalized (ffg_step e f p c A) =
      (if finalizes ?J ?x e then ffg_current A else if finalizes ?J ?y (e - 1) then ffg_previous A else ffg_finalized A)"
    by (simp add: ffg_step_def Let_def)
  show "(if c \<and> (p \<or> b0) \<and> cp_epoch (ffg_current A) + 1 = epoch then ffg_current A
          else if c \<and> (p \<or> b0) \<and> b1 \<and> cp_epoch (ffg_current A) + 2 = epoch then ffg_current A
          else if (p \<or> b0) \<and> b1 \<and> cp_epoch (ffg_previous A) + 2 = epoch then ffg_previous A
          else if (p \<or> b0) \<and> b1 \<and> b2 \<and> cp_epoch (ffg_previous A) + 3 = epoch then ffg_previous A
          else ffg_finalized A) = ffg_finalized (ffg_step e f p c A)"
    unfolding fin finalizes_previous [OF e(1)] finalizes_iff [of _ ?x] new w
    by (cases "p \<or> b0"; cases c; cases b1; cases b2) simp_all
qed

section \<open>The epoch refines the machine\<close>

definition attesting_stake :: "u64 \<Rightarrow> beacon_validator list \<Rightarrow> byte list \<Rightarrow> nat" where
  "attesting_stake epoch vs participation =
     (\<Sum>(v, flags)\<leftarrow>filter (participates TIMELY_TARGET_FLAG_INDEX epoch) (zip vs participation). unat (effective_balance v))"

text \<open>At least two thirds of the active stake voted for the target, both at least one increment.\<close>

definition supermajority :: "beacon_state \<Rightarrow> u64 \<Rightarrow> byte list \<Rightarrow> bool" where
  "supermajority s epoch participation \<longleftrightarrow>
     2 * max (unat EFFECTIVE_BALANCE_INCREMENT)
           (stake (\<lambda>v. is_active_validator v (get_current_epoch s)) (bs_validators s))
     \<le> 3 * max (unat EFFECTIVE_BALANCE_INCREMENT) (attesting_stake epoch (bs_validators s) participation)"

text \<open>The checkpoint of an epoch: the block root at its first slot.\<close>

definition epoch_checkpoint :: "beacon_state \<Rightarrow> nat \<Rightarrow> beacon_checkpoint" where
  "epoch_checkpoint s n = \<lparr> cp_epoch = of_nat n, bcp_root = bs_block_roots s ! (n * 32 mod 8192) \<rparr>"

text \<open>A well-formed state at the last slot of an epoch, with a stake whose triple fits in 64 bits.\<close>

definition at_epoch_end :: "beacon_state \<Rightarrow> bool" where
  "at_epoch_end s \<longleftrightarrow> beacon_wf s \<and> unat (bs_slot s) mod 32 = 31 \<and> unat (bs_slot s) < 2 ^ 63
     \<and> 3 * stake (\<lambda>_. True) (bs_validators s) < 2 ^ 64"

lemma stake_le: "stake P vs \<le> stake (\<lambda>_. True) vs"
  by (induction vs) (auto simp: stake_def)

lemma attesting_stake_le: "attesting_stake epoch vs ps \<le> stake (\<lambda>_. True) vs"
proof (induction vs arbitrary: ps)
  case (Cons v vs)
  show ?case using Cons.IH [of "tl ps"] by (cases ps) (auto simp: attesting_stake_def stake_def)
qed (simp add: attesting_stake_def)

lemma unat_max: "unat (max a b) = max (unat a) (unat b)" for a b :: u64
  by (simp add: max_def word_le_nat_alt)

lemma unat_attesting_balance:
  assumes "stake (\<lambda>_. True) vs < 2 ^ 64"
  shows "unat (attesting_balance TIMELY_TARGET_FLAG_INDEX epoch vs ps) = attesting_stake epoch vs ps"
proof -
  have "sum_list (map unat (map (\<lambda>(v, flags). effective_balance v) (filter (participates TIMELY_TARGET_FLAG_INDEX epoch) (zip vs ps))))
    = attesting_stake epoch vs ps"
    by (simp add: attesting_stake_def comp_def case_prod_unfold)
  then show ?thesis
    using attesting_stake_le [of epoch vs ps] assms unfolding attesting_balance_def by (subst unat_sum_list) simp_all
qed

lemma unat_active_balance:
  assumes "stake (\<lambda>_. True) vs < 2 ^ 64"
  shows "unat (sum_list (map effective_balance (filter P vs))) = stake P vs"
  using stake_le [of P vs] assms by (subst unat_sum_list) (simp_all add: stake_def comp_def)

lemma supermajority_word:
  assumes "3 * stake (\<lambda>_. True) (bs_validators s) < 2 ^ 64"
  shows "max EFFECTIVE_BALANCE_INCREMENT (attesting_balance TIMELY_TARGET_FLAG_INDEX epoch (bs_validators s) ps) * 3
     \<ge> max EFFECTIVE_BALANCE_INCREMENT (sum_list (map effective_balance
         (filter (\<lambda>v. is_active_validator v (get_current_epoch s)) (bs_validators s)))) * 2
   \<longleftrightarrow> supermajority s epoch ps"
proof -
  let ?a = "max EFFECTIVE_BALANCE_INCREMENT (attesting_balance TIMELY_TARGET_FLAG_INDEX epoch (bs_validators s) ps)"
  let ?t = "max EFFECTIVE_BALANCE_INCREMENT (sum_list (map effective_balance
         (filter (\<lambda>v. is_active_validator v (get_current_epoch s)) (bs_validators s))))"
  have st: "stake (\<lambda>_. True) (bs_validators s) < 2 ^ 64" using assms by simp
  have a: "unat ?a = max (unat EFFECTIVE_BALANCE_INCREMENT) (attesting_stake epoch (bs_validators s) ps)"
    and t: "unat ?t = max (unat EFFECTIVE_BALANCE_INCREMENT)
      (stake (\<lambda>v. is_active_validator v (get_current_epoch s)) (bs_validators s))"
    by (simp_all add: unat_max unat_attesting_balance [OF st] unat_active_balance [OF st])
  have "unat ?a * 3 < 2 ^ 64" "unat ?t * 2 < 2 ^ 64"
    unfolding a t using assms attesting_stake_le [of epoch "bs_validators s" ps]
      stake_le [of "\<lambda>v. is_active_validator v (get_current_epoch s)" "bs_validators s"]
    by (simp_all add: EFFECTIVE_BALANCE_INCREMENT_def)
  then have "unat (?a * 3) = unat ?a * 3" "unat (?t * 2) = unat ?t * 2" by (simp_all add: unat_word_ariths)
  then show ?thesis unfolding word_le_nat_alt supermajority_def by (simp add: a t ac_simps)
qed

lemma epoch_unat: "unat (get_current_epoch s) = unat (bs_slot s) div 32"
  by (simp add: get_current_epoch_def compute_epoch_at_slot_def SLOTS_PER_EPOCH_def unat_div)

lemma get_block_root_eval:
  assumes "at_epoch_end s" and "unat epoch = n" and "n * 32 < unat (bs_slot s)" and "unat (bs_slot s) \<le> n * 32 + 64"
  shows "get_block_root s epoch = Inr (bs_block_roots s ! (n * 32 mod 8192))"
proof -
  have n: "n * 32 + 8192 < 2 ^ 64" using assms by (simp add: at_epoch_end_def)
  have start: "unat (epoch * 32) = n * 32" using n assms(2) by (simp add: unat_word_ariths)
  moreover have "unat (epoch * 32 + 8192) = n * 32 + 8192" using n start by (simp add: unat_word_ariths)
  moreover have "unat (epoch * 32 mod 8192) = n * 32 mod 8192" using start by (simp add: unat_mod)
  moreover have "length (bs_block_roots s) = 8192" using assms(1) by (simp add: at_epoch_end_def beacon_wf_def)
  ultimately show ?thesis
    using assms(3,4)
    by (simp add: get_block_root_def get_block_root_at_slot_def compute_start_slot_at_epoch_def SLOTS_PER_EPOCH_def
        SLOTS_PER_HISTORICAL_ROOT_def word_less_nat_alt word_le_nat_alt)
qed

lemma epoch_end_epochs:
  assumes "unat (get_current_epoch s) = e" and "2 \<le> e"
  shows "\<not> get_current_epoch s \<le> GENESIS_EPOCH + 1" and "unat (get_previous_epoch s) = e - 1"
    and "get_current_epoch s = of_nat e" and "get_previous_epoch s = of_nat (e - 1)"
proof -
  have big: "get_current_epoch s \<noteq> GENESIS_EPOCH" using assms by (auto simp: GENESIS_EPOCH_def)
  show "\<not> get_current_epoch s \<le> GENESIS_EPOCH + 1" using assms by (simp add: GENESIS_EPOCH_def word_le_nat_alt)
  show prev: "unat (get_previous_epoch s) = e - 1"
    using big assms by (simp add: get_previous_epoch_def Let_def unat_minus_one GENESIS_EPOCH_def)
  show "get_current_epoch s = of_nat e" "get_previous_epoch s = of_nat (e - 1)"
    using assms(1) prev by (metis of_nat_unat ucast_id)+
qed

lemma epoch_end_roots:
  assumes "at_epoch_end s" and "unat (get_current_epoch s) = e" and "2 \<le> e"
  shows "get_block_root s (get_previous_epoch s) = Inr (bs_block_roots s ! ((e - 1) * 32 mod 8192))"
    and "get_block_root s (get_current_epoch s) = Inr (bs_block_roots s ! (e * 32 mod 8192))"
    and "e + 2 < 2 ^ 64"
proof -
  have slot: "unat (bs_slot s) = e * 32 + 31" "unat (bs_slot s) < 2 ^ 63"
    using assms(1,2) epoch_unat [of s] div_mult_mod_eq [of "unat (bs_slot s)" 32] by (simp_all add: at_epoch_end_def)
  then show "get_block_root s (get_previous_epoch s) = Inr (bs_block_roots s ! ((e - 1) * 32 mod 8192))"
    "get_block_root s (get_current_epoch s) = Inr (bs_block_roots s ! (e * 32 mod 8192))" "e + 2 < 2 ^ 64"
    using assms(3) get_block_root_eval [OF assms(1) epoch_end_epochs(2) [OF assms(2,3)]]
      get_block_root_eval [OF assms(1,2)] by simp_all
qed

text \<open>C19. Justification and finality refine the abstract machine over sets of epochs. At the end of every
  epoch from the second on, for any number of threads, processing succeeds; the epochs whose target
  has two thirds of the active stake are justified; a checkpoint is finalized exactly when every epoch
  from it to the target of the votes that start from it is justified and the target is at most two
  epochs later; and the four shifted bits are again the last four epochs of the set.\<close>

theorem justification_refines_ffg:
  assumes "beacon_env_ok E" and "at_epoch_end s" and "unat (get_current_epoch s) = e" and "2 \<le> e"
    and "ffg_rel (e - 1) s A"
  shows "\<exists>t. process_justification_and_finalization E s = Inr t \<and>
    ffg_rel e t (ffg_step e (epoch_checkpoint s)
      (supermajority s (get_previous_epoch s) (bs_previous_epoch_participation s))
      (supermajority s (get_current_epoch s) (bs_current_epoch_participation s)) A)"
proof -
  let ?p = "supermajority s (get_previous_epoch s) (bs_previous_epoch_participation s)"
  let ?c = "supermajority s (get_current_epoch s) (bs_current_epoch_participation s)"
  let ?B = "ffg_step e (epoch_checkpoint s) ?p ?c A"
  have wf: "beacon_wf s" and st: "3 * stake (\<lambda>_. True) (bs_validators s) < 2 ^ 64"
    and len: "length (bs_validators s) \<le> ValidatorRegistryLimit"
    using assms(2) by (simp_all add: at_epoch_end_def beacon_wf_def)
  note epochs = epoch_end_epochs [OF assms(3,4)] and roots = epoch_end_roots [OF assms(2-4)]
  obtain b0 b1 b2 b3 where bits: "bs_justification_bits s = [b0, b1, b2, b3]"
    using assms(5) by (simp add: ffg_rel_def)
  note refines = outcome_refines [OF assms(4,3) roots(3) assms(5) HOL.refl bits, of ?c ?p "epoch_checkpoint s"]
  let ?out = "\<lparr> jf_justification_bits = map (\<lambda>i. i \<le> e \<and> e - i \<in> ffg_justified ?B) [0, 1, 2, 3],
    jf_previous_justified_checkpoint = ffg_current A,
    jf_current_justified_checkpoint = ffg_current ?B, jf_finalized_checkpoint = ffg_finalized ?B \<rparr>"
  have old: "bs_previous_justified_checkpoint s = ffg_previous A" "bs_current_justified_checkpoint s = ffg_current A"
    "bs_finalized_checkpoint s = ffg_finalized A" and le: "unat (cp_epoch (ffg_current A)) \<le> e"
    using assms(5) by (auto simp: ffg_rel_def)
  have cur_cp: "ffg_current ?B =
      (if ?c then \<lparr> cp_epoch = get_current_epoch s, bcp_root = bs_block_roots s ! (e * 32 mod 8192) \<rparr>
       else if ?p then \<lparr> cp_epoch = get_previous_epoch s, bcp_root = bs_block_roots s ! ((e - 1) * 32 mod 8192) \<rparr>
       else ffg_current A)"
    by (simp add: ffg_step_def Let_def epoch_checkpoint_def epochs(3,4))
  have "compute_justification_and_finalization E s = Inr ?out"
    unfolding compute_justification_and_finalization_def participating_balances_scan [OF assms(1) wf]
      total_active_balance_eq [OF len] if_not_P [OF epochs(1)] and_then_Inr Let_def case_prod_conv
      justification_outcome_eval [OF bits roots(1,2)] supermajority_word [OF st] old refines cur_cp
    by (rule HOL.refl)
  then have "process_justification_and_finalization E s = Inr (apply_justification_and_finalization ?out s)"
    by (simp add: process_justification_and_finalization_def)
  moreover have "ffg_rel e (apply_justification_and_finalization ?out s) ?B"
    unfolding ffg_rel_def
  proof (intro conjI)
    show "unat (cp_epoch (ffg_current ?B)) \<le> e" using assms(3) epochs(2) le by (simp add: cur_cp)
    show "ffg_justified ?B \<subseteq> {..e}" "unat (cp_epoch (ffg_previous ?B)) \<le> e"
      using assms(5) by (auto simp: ffg_rel_def ffg_step_def Let_def)
  qed (simp_all add: apply_justification_and_finalization_def ffg_step_def Let_def)
  ultimately show ?thesis by blast
qed

section \<open>Finality never reverts\<close>

definition finality_ordered :: "beacon_state \<Rightarrow> bool" where
  "finality_ordered s \<longleftrightarrow>
     cp_epoch (bs_finalized_checkpoint s) \<le> cp_epoch (bs_previous_justified_checkpoint s)
     \<and> cp_epoch (bs_previous_justified_checkpoint s) \<le> cp_epoch (bs_current_justified_checkpoint s)
     \<and> cp_epoch (bs_current_justified_checkpoint s) \<le> get_previous_epoch s"

definition finality_advances :: "beacon_state \<Rightarrow> beacon_state \<Rightarrow> bool" where
  "finality_advances s t \<longleftrightarrow> (finality_ordered s \<longrightarrow> finality_ordered t
     \<and> cp_epoch (bs_current_justified_checkpoint s) \<le> cp_epoch (bs_current_justified_checkpoint t)
     \<and> cp_epoch (bs_finalized_checkpoint s) \<le> cp_epoch (bs_finalized_checkpoint t))"

lemma justification_outcome_cases:
  "yields (\<lambda>out. jf_previous_justified_checkpoint out = bs_current_justified_checkpoint s
     \<and> (jf_current_justified_checkpoint out = bs_current_justified_checkpoint s
        \<or> cp_epoch (jf_current_justified_checkpoint out) = get_previous_epoch s
        \<or> cp_epoch (jf_current_justified_checkpoint out) = get_current_epoch s)
     \<and> jf_finalized_checkpoint out \<in>
        {bs_finalized_checkpoint s, bs_previous_justified_checkpoint s, bs_current_justified_checkpoint s})
   (justification_outcome s T p c)"
proof -
  have justify: "yields (\<lambda>(cp', bits'). cp' = cp \<or> cp_epoch cp' = e)
      (if q then and_then (get_block_root s e) (\<lambda>root. and_then (set_bit_at i True bits) (\<lambda>bits.
         Inr (\<lparr> cp_epoch = e, bcp_root = root \<rparr>, bits))) else Inr (cp, bits))" for q e i bits cp
    by (auto intro!: yields_read)
  show ?thesis
    unfolding justification_outcome_def Let_def
    apply (rule yields_read, rule yields_read)
    apply (rule yields_and_then [OF justify], clarify)
    apply (rule yields_and_then [OF justify], clarify)
    apply (intro yields_read)
    apply auto
    done
qed

lemma previous_epoch_le: "get_previous_epoch s \<le> get_current_epoch s"
  by (auto simp: get_previous_epoch_def Let_def GENESIS_EPOCH_def word_le_nat_alt unat_minus_one)

lemma justification_advances:
  assumes "process_justification_and_finalization E s = Inr u" and "finality_ordered s"
  shows "cp_epoch (bs_finalized_checkpoint s) \<le> cp_epoch (bs_finalized_checkpoint u)
    \<and> cp_epoch (bs_current_justified_checkpoint s) \<le> cp_epoch (bs_current_justified_checkpoint u)
    \<and> cp_epoch (bs_finalized_checkpoint u) \<le> cp_epoch (bs_previous_justified_checkpoint u)
    \<and> cp_epoch (bs_previous_justified_checkpoint u) \<le> cp_epoch (bs_current_justified_checkpoint u)
    \<and> cp_epoch (bs_current_justified_checkpoint u) \<le> get_current_epoch s"
proof -
  from assms(1) obtain out where u: "u = apply_justification_and_finalization out s"
    and out: "compute_justification_and_finalization E s = Inr out"
    by (auto simp: process_justification_and_finalization_def result_simps)
  note ord = assms(2) [unfolded finality_ordered_def] previous_epoch_le [of s]
  show ?thesis
  proof (cases "get_current_epoch s \<le> GENESIS_EPOCH + 1")
    case True
    then have "u = s" using out by (auto simp: u compute_justification_and_finalization_def
        apply_justification_and_finalization_def current_justification_def)
    with ord show ?thesis by auto
  next
    case False
    obtain p c where "get_unslashed_participating_balances E s TIMELY_TARGET_FLAG_INDEX = (p, c)" by fastforce
    with False out obtain T where "justification_outcome s T p c = Inr out"
      by (auto simp: compute_justification_and_finalization_def result_simps)
    from yieldsD [OF justification_outcome_cases this] show ?thesis
      using ord by (auto simp: u apply_justification_and_finalization_def)
  qed
qed

lemma next_slot_epochs:
  assumes "bs_slot s < slot"
  shows "(bs_slot s + 1) mod SLOTS_PER_EPOCH \<noteq> 0 \<Longrightarrow> get_previous_epoch (u\<lparr> bs_slot := bs_slot s + 1 \<rparr>) = get_previous_epoch s"
    and "(bs_slot s + 1) mod SLOTS_PER_EPOCH = 0 \<Longrightarrow> get_previous_epoch (u\<lparr> bs_slot := bs_slot s + 1 \<rparr>) = get_current_epoch s"
proof -
  have n: "unat (bs_slot s + 1) = unat (bs_slot s) + 1" using assms by (simp add: unat_add_one)
  have d: "unat (compute_epoch_at_slot w) = unat w div 32" for w
    by (simp add: compute_epoch_at_slot_def SLOTS_PER_EPOCH_def unat_div)
  have m: "(bs_slot s + 1) mod SLOTS_PER_EPOCH = 0 \<longleftrightarrow> (unat (bs_slot s) + 1) mod 32 = 0"
    by (simp add: SLOTS_PER_EPOCH_def word_unat_eq_iff unat_mod n)
  show "get_previous_epoch (u\<lparr> bs_slot := bs_slot s + 1 \<rparr>) = get_previous_epoch s" if "(bs_slot s + 1) mod SLOTS_PER_EPOCH \<noteq> 0"
  proof -
    have "(unat (bs_slot s) + 1) div 32 = unat (bs_slot s) div 32" using that m by (simp add: div_Suc)
    then have "compute_epoch_at_slot (bs_slot s + 1) = compute_epoch_at_slot (bs_slot s)"
      by (simp add: word_unat_eq_iff d n)
    then show ?thesis by (simp add: get_previous_epoch_def get_current_epoch_def)
  qed
  show "get_previous_epoch (u\<lparr> bs_slot := bs_slot s + 1 \<rparr>) = get_current_epoch s" if "(bs_slot s + 1) mod SLOTS_PER_EPOCH = 0"
  proof -
    have "(unat (bs_slot s) + 1) div 32 = unat (bs_slot s) div 32 + 1" using that m by (simp add: div_Suc)
    then have "unat (compute_epoch_at_slot (bs_slot s + 1)) = unat (compute_epoch_at_slot (bs_slot s)) + 1" by (simp add: d n)
    then have "compute_epoch_at_slot (bs_slot s + 1) \<noteq> 0"
      "unat (compute_epoch_at_slot (bs_slot s + 1) - 1) = unat (compute_epoch_at_slot (bs_slot s))"
      by (force, subst unat_minus_one, force, simp)
    then show ?thesis by (simp add: get_previous_epoch_def get_current_epoch_def GENESIS_EPOCH_def word_unat_eq_iff)
  qed
qed

lemma ordered_evolves:
  assumes "evolves s t"
  shows "bs_slot t = bs_slot s" and "finality_ordered t = finality_ordered s"
    and "bs_current_justified_checkpoint t = bs_current_justified_checkpoint s"
    and "bs_finalized_checkpoint t = bs_finalized_checkpoint s"
    and "bs_previous_justified_checkpoint t = bs_previous_justified_checkpoint s"
    and "get_current_epoch t = get_current_epoch s"
  using assms by (simp_all add: evolves_def finality_ordered_def get_previous_epoch_def get_current_epoch_def)

lemma advance_slot_finality:
  assumes "bs_slot s < slot" and "advance_slot E r s = Inr t"
  shows "finality_advances s t"
  using assms(2)
proof (cases rule: advance_slot_cases)
  case (1 u)
  note u = ordered_evolves [OF 1(1)]
  have "get_previous_epoch t = get_previous_epoch s" using next_slot_epochs(1) [OF assms(1) 1(3)] 1(2) by simp
  then show ?thesis using u 1(2) by (simp add: finality_advances_def finality_ordered_def)
next
  case (2 u w)
  note u = ordered_evolves [OF 2(1)]
  obtain x where x: "process_justification_and_finalization E u = Inr x" "evolves x w"
    using 2(2) by (rule process_epoch_split)
  have "get_previous_epoch t = get_current_epoch u" using next_slot_epochs(2) [OF assms(1) 2(4)] 2(3) u(6) by simp
  then show ?thesis
    using u justification_advances [OF x(1)] ordered_evolves [OF x(2)] 2(3)
    by (auto simp: finality_advances_def finality_ordered_def)
qed

interpretation fin: transition_frame finality_advances
proof unfold_locales
  show "finality_advances s t" if "evolves s t" for s t
    using ordered_evolves [OF that] by (simp add: finality_advances_def)
  show "finality_advances s t" if "bs_slot s < slot" "advance_slot E r s = Inr t" for s t slot E r
    using that by (rule advance_slot_finality)
qed (auto simp: finality_advances_def)

text \<open>C20. Finality never reverts. Let the finalized epoch be at most the previous justified one, that at
  most the current justified one, and that at most the previous epoch, as at genesis. Then this order
  holds in every state reached by accepted blocks and empty slots through any number of epochs, and
  neither the finalized nor the justified epoch ever decreases.\<close>

theorem beacon_finality_monotone:
  assumes "beacon_reaches E s t" and "finality_ordered s"
  shows "finality_ordered t
    \<and> cp_epoch (bs_current_justified_checkpoint s) \<le> cp_epoch (bs_current_justified_checkpoint t)
    \<and> cp_epoch (bs_finalized_checkpoint s) \<le> cp_epoch (bs_finalized_checkpoint t)"
  using fin.reaches_frame [OF assms(1)] assms(2) by (simp add: finality_advances_def)

theorem beacon_finality_monotone_witness: "finality_ordered demo_bpost"
proof -
  have "beacon_reaches demo_benv demo_bstate demo_bpost"
    by (rule beacon_reaches.block [OF beacon_reaches.start demo_transition])
  moreover have "finality_ordered demo_bstate" by (simp add: finality_ordered_def demo_bdefs epoch_defs beacon_consts)
  ultimately show ?thesis using beacon_finality_monotone by blast
qed

text \<open>A state at the end of epoch 2, with every vote of both epochs.\<close>

definition demo_bvoted :: beacon_state where
  "demo_bvoted = demo_bwide\<lparr> bs_slot := 95, bs_previous_epoch_participation := [2, 2],
     bs_current_epoch_participation := [2, 2] \<rparr>"

definition demo_ffg :: ffg_state where
  "demo_ffg = \<lparr> ffg_justified = {}, ffg_previous = demo_bcheckpoint, ffg_current = demo_bcheckpoint,
     ffg_finalized = demo_bcheckpoint \<rparr>"

lemma demo_bvoted_end: "at_epoch_end demo_bvoted"
  using demo_bwide_wf
  by (simp add: at_epoch_end_def beacon_wf_def demo_bvoted_def stake_def demo_bwide_def demo_bstate_def demo_bvalidator_def)

lemma demo_bvoted_supermajority: "supermajority demo_bvoted 1 [2, 2]" "supermajority demo_bvoted 2 [2, 2]"
  by (simp_all add: supermajority_def attesting_stake_def stake_def participates_def has_flag_def demo_bvoted_def
      demo_bwide_def demo_bdefs epoch_defs beacon_consts is_active_validator_def)

theorem justification_refines_ffg_witness:
  "\<exists>t. process_justification_and_finalization demo_benv demo_bvoted = Inr t
     \<and> cp_epoch (bs_current_justified_checkpoint t) = 2 \<and> bs_justification_bits t = [True, True, False, False]"
proof -
  have e: "get_current_epoch demo_bvoted = 2" "get_previous_epoch demo_bvoted = 1"
    "bs_previous_epoch_participation demo_bvoted = [2, 2]" "bs_current_epoch_participation demo_bvoted = [2, 2]"
    by (simp_all add: demo_bvoted_def epoch_defs beacon_consts)
  have rel: "ffg_rel (2 - 1) demo_bvoted demo_ffg"
    by (simp add: ffg_rel_def demo_ffg_def demo_bvoted_def demo_bwide_def demo_bdefs)
  show ?thesis
    using justification_refines_ffg [OF demo_benv_ok demo_bvoted_end _ _ rel] demo_bvoted_supermajority
    by (auto simp: e ffg_rel_def ffg_step_def Let_def epoch_checkpoint_def demo_ffg_def)
qed

end
