(* ===== verification/Beacon_Rewards.thy ===== *)
theory Beacon_Rewards
  imports Beacon_Finality
begin

text \<open>
  The arithmetic of rewards. The integer square root of \<open>electra/beacon_state.rs\<close> is exact; and the one
  pass over the registry that applies rewards and penalties gives the balances that applying the lists
  of deltas one after the other gives.
\<close>

section \<open>The integer square root\<close>

definition newton :: "nat \<Rightarrow> nat \<Rightarrow> nat" where
  "newton n x = (x + n div x) div 2"

lemma newton_lower:
  assumes "0 < x" and "r * r \<le> n"
  shows "r \<le> newton n x"
proof (rule ccontr)
  assume "\<not> r \<le> newton n x"
  then have "x + n div x < 2 * r" by (simp add: newton_def)
  then have q: "int (n div x) + 1 \<le> 2 * int r - int x" by linarith
  have "int n < int x * (int (n div x) + 1)"
    using assms(1) by (metis dividend_less_div_times mult.commute of_nat_1 of_nat_add of_nat_less_iff of_nat_mult
        mult_Suc_right Suc_eq_plus1 add.commute)
  also have "\<dots> \<le> int x * (2 * int r - int x)"
    using q by (rule mult_left_mono) simp
  also have "\<dots> = int r * int r - (int r - int x) * (int r - int x)" by (simp add: algebra_simps)
  also have "\<dots> \<le> int r * int r" by simp
  finally have "n < r * r" by (simp flip: of_nat_mult)
  with assms(2) show False by simp
qed

lemma newton_stop:
  assumes "0 < x" and "x \<le> newton n x"
  shows "x * x \<le> n"
proof -
  have "2 * x \<le> x + n div x" using assms(2) by (simp add: newton_def)
  then have "x * x \<le> x * (n div x)" by simp
  also have "\<dots> \<le> n" by simp
  finally show ?thesis .
qed

lemma newton_sum_bound:
  fixes x n :: nat
  assumes "0 < x" and "x \<le> n"
  shows "x + n div x \<le> n + 1"
proof -
  obtain a b where "x = a + 1" and "n = x + b"
    using assms by (metis Suc_eq_plus1 gr0_implies_Suc le_Suc_ex)
  then have "n \<le> x * (b + 1)" by (simp add: algebra_simps)
  then have "n div x \<le> b + 1" using assms(1) by (metis div_le_mono nonzero_mult_div_cancel_left not_gr_zero)
  with \<open>n = x + b\<close> show ?thesis by simp
qed

lemma unat_newton:
  assumes "0 < unat x" and "unat x \<le> unat n" and "n \<noteq> UINT64_MAX"
  shows "unat ((x + n div x) div 2) = newton (unat n) (unat x)"
proof -
  have "unat UINT64_MAX = 18446744073709551615" by (simp add: UINT64_MAX_def)
  with assms(3) have "unat n \<noteq> 18446744073709551615" by (metis word_unat_eq_iff)
  then have "unat n + 1 < 2 ^ 64" using unat_less_u64 [of n] by simp
  then have "unat x + unat n div unat x < 2 ^ 64" using newton_sum_bound [OF assms(1,2)] by simp
  then have "unat (x + n div x) = unat x + unat n div unat x"
    by (simp add: unat_word_ariths unat_div)
  then show ?thesis by (simp add: unat_div newton_def)
qed

lemma isqrt_nat_greatest:
  assumes "k * k \<le> n"
  shows "k \<le> isqrt_nat n"
proof (rule ccontr)
  assume "\<not> k \<le> isqrt_nat n"
  then have "(isqrt_nat n + 1) * (isqrt_nat n + 1) \<le> k * k" by (intro mult_le_mono) simp_all
  with assms isqrt_nat_bounds [of n] show False by linarith
qed

lemma squareroot_loop_correct:
  "n \<noteq> UINT64_MAX \<Longrightarrow> 0 < unat x \<Longrightarrow> unat x \<le> unat n \<Longrightarrow> isqrt_nat (unat n) \<le> unat x
    \<Longrightarrow> unat y = newton (unat n) (unat x) \<Longrightarrow> unat (squareroot_loop n x y) = isqrt_nat (unat n)"
proof (induction n x y rule: squareroot_loop.induct)
  case (1 n x y)
  let ?r = "isqrt_nat (unat n)"
  have r: "?r * ?r \<le> unat n" using isqrt_nat_bounds by blast
  show ?case
  proof (cases "y < x")
    case True
    have "?r \<le> unat y" using newton_lower [OF 1(3) r] 1(6) by simp
    moreover have "0 < unat y" using newton_lower [OF 1(3), of 1 "unat n"] 1(3,4,6) by simp
    moreover have "unat y \<le> unat n" using True 1(4) by (simp add: word_less_nat_alt)
    ultimately show ?thesis
      using True 1(1) [OF True 1(2)] unat_newton 1(2) by (subst squareroot_loop.simps) simp
  next
    case False
    then have "unat x * unat x \<le> unat n"
      using newton_stop [OF 1(3)] 1(6) by (simp add: word_less_nat_alt)
    then have "unat x \<le> ?r" by (rule isqrt_nat_greatest)
    with 1(5) False show ?thesis by (subst squareroot_loop.simps) simp
  qed
qed

lemma unat_div_ceil_2: "unat (div_ceil n 2) = (unat n + 1) div 2" for n :: u64
proof -
  have "unat (n mod 2) = unat n mod 2" by (simp add: unat_mod)
  moreover have "unat (n div 2 + 1) = unat n div 2 + 1"
    using unat_less_u64 [of n] by (simp add: unat_word_ariths unat_div)
  ultimately show ?thesis
    by (cases "n mod 2 = 0") (simp_all add: div_ceil_def unat_div word_unat_eq_iff, arith+)
qed

lemma unat_integer_squareroot: "unat (integer_squareroot n) = isqrt_nat (unat n)"
proof -
  consider "n = UINT64_MAX" | "n = 0" | "n \<noteq> UINT64_MAX" "0 < unat n" by (cases "n = 0") (auto simp: unat_gt_0)
  then show ?thesis
  proof cases
    case 1
    then show ?thesis
      by (simp add: integer_squareroot_def UINT64_MAX_def UINT64_MAX_SQRT_def isqrt_nat_unique)
  next
    case 2
    then show ?thesis
      by (simp add: integer_squareroot_def UINT64_MAX_def div_ceil_def squareroot_loop.simps isqrt_nat.simps)
  next
    case 3
    have "unat (div_ceil n 2) = newton (unat n) (unat n)"
      using 3 by (simp add: unat_div_ceil_2 newton_def)
    moreover have "isqrt_nat (unat n) \<le> unat n"
      using isqrt_nat_bounds [of "unat n"] le_square order_trans by blast
    ultimately show ?thesis
      using 3 squareroot_loop_correct [of n n] by (simp add: integer_squareroot_def)
  qed
qed

text \<open>C29. The square root of 64-bit integers is exact for every argument: Newton's iteration, on wrapping
  64-bit arithmetic, ends, and its result is the largest integer whose square does not exceed the
  argument; the largest argument is answered by a constant.\<close>

theorem integer_squareroot_correct:
  "unat (integer_squareroot n) * unat (integer_squareroot n) \<le> unat n
   \<and> unat n < (unat (integer_squareroot n) + 1) * (unat (integer_squareroot n) + 1)"
  unfolding unat_integer_squareroot by (rule isqrt_nat_bounds)

section \<open>Rewards\<close>

text \<open>What an epoch's summary of rewards has to look like, and the deltas of one validator then.\<close>

definition rewards_ok :: "beacon_state \<Rightarrow> epoch_rewards \<Rightarrow> bool" where
  "rewards_ok s er \<longleftrightarrow> length (er_flags er) = 3
     \<and> (\<forall>x \<in> set (er_flags er). length (fst x) = length (bs_validators s))
     \<and> active_increments er * WEIGHT_DENOMINATOR \<noteq> 0"

definition flag_delta :: "beacon_state \<Rightarrow> epoch_rewards \<Rightarrow> nat \<Rightarrow> nat \<Rightarrow> u64 \<times> u64" where
  "flag_delta s er f i =
     (let base_reward = effective_balance (bs_validators s ! i) div EFFECTIVE_BALANCE_INCREMENT * base_reward_per_increment er;
          weight = PARTICIPATION_FLAG_WEIGHTS ! f
      in if fst (er_flags er ! f) ! i
         then (if er_leak er then 0
               else base_reward * weight * snd (er_flags er ! f) div (active_increments er * WEIGHT_DENOMINATOR), 0)
         else (0, if f = 2 then 0 else base_reward * weight div WEIGHT_DENOMINATOR))"

definition inactivity_delta :: "beacon_state \<Rightarrow> epoch_rewards \<Rightarrow> nat \<Rightarrow> u64" where
  "inactivity_delta s er i =
     (if fst (er_flags er ! 1) ! i then 0
      else effective_balance (bs_validators s ! i) * bs_inactivity_scores s ! i
             div (INACTIVITY_SCORE_BIAS * INACTIVITY_PENALTY_QUOTIENT_BELLATRIX))"

lemma flag_index_delta_eq:
  assumes "rewards_ok s er" and "i < length (bs_validators s)" and "f < 3"
  shows "flag_index_delta s er i f = Inr (flag_delta s er f i)"
proof -
  obtain mask incs where m: "er_flags er ! f = (mask, incs)" by fastforce
  have "(mask, incs) \<in> set (er_flags er)" using assms m by (metis nth_mem rewards_ok_def)
  then have "length mask = length (bs_validators s)" using assms(1) by (force simp: rewards_ok_def)
  moreover have "f < length (er_flags er)" "f < length PARTICIPATION_FLAG_WEIGHTS"
    "active_increments er * WEIGHT_DENOMINATOR \<noteq> 0"
    using assms by (simp_all add: rewards_ok_def PARTICIPATION_FLAG_WEIGHTS_def)
  ultimately show ?thesis
    using assms(2) m
    by (simp add: flag_index_delta_def get_base_reward_def flag_delta_def Let_def div_u64_def TIMELY_HEAD_FLAG_INDEX_def)
qed

lemma inactivity_penalty_eq:
  assumes "rewards_ok s er" and "i < length (bs_validators s)" and "length (bs_inactivity_scores s) = length (bs_validators s)"
  shows "inactivity_penalty s er i = Inr (inactivity_delta s er i)"
proof -
  obtain mask incs where m: "er_flags er ! 1 = (mask, incs)" by fastforce
  have "1 < length (er_flags er)" using assms(1) by (simp add: rewards_ok_def)
  with m have "(mask, incs) \<in> set (er_flags er)" by (metis nth_mem)
  then have "length mask = length (bs_validators s)" using assms(1) by (force simp: rewards_ok_def)
  with \<open>1 < length (er_flags er)\<close> show ?thesis
    using assms m by (simp add: inactivity_penalty_def inactivity_delta_def TIMELY_TARGET_FLAG_INDEX_def)
qed

text \<open>On a well-formed state the summary always exists.\<close>

lemma total_active_balance_ge:
  assumes "length (bs_validators s) \<le> ValidatorRegistryLimit"
  obtains T where "get_total_active_balance s = Inr T" and "1000000000 \<le> unat T"
proof -
  have "1000000000 \<le> unat (max EFFECTIVE_BALANCE_INCREMENT w)" for w
    by (simp add: unat_max EFFECTIVE_BALANCE_INCREMENT_def)
  with that total_active_balance_eq [OF assms] show thesis by blast
qed

lemma base_reward_exists:
  assumes "length (bs_validators s) \<le> ValidatorRegistryLimit"
  obtains b where "get_base_reward_per_increment s = Inr b"
proof -
  obtain T where T: "get_total_active_balance s = Inr T" "1000000000 \<le> unat T"
    using total_active_balance_ge [OF assms] .
  have "isqrt_nat (unat T) \<noteq> 0" using T(2) isqrt_nat_greatest [of 1 "unat T"] by simp
  then have "integer_squareroot T \<noteq> 0" using unat_integer_squareroot [of T] by force
  with T(1) that show thesis by (simp add: get_base_reward_per_increment_def div_u64_def)
qed

lemma increments_nonzero:
  assumes "1000000000 \<le> unat T"
  shows "T div EFFECTIVE_BALANCE_INCREMENT * WEIGHT_DENOMINATOR \<noteq> 0"
proof -
  have q: "unat (T div 1000000000) = unat T div 1000000000" by (simp add: unat_div)
  have "unat T div 1000000000 * 64 < 2 ^ 64" using unat_less_u64 [of T] by simp
  then have "unat (T div 1000000000 * 64) = unat T div 1000000000 * 64" by (simp add: unat_word_ariths q)
  moreover have "0 < unat T div 1000000000" using assms by (simp add: div_greater_zero_iff)
  ultimately have "unat (T div 1000000000 * 64) \<noteq> 0" by simp
  then show ?thesis by (auto simp: EFFECTIVE_BALANCE_INCREMENT_def WEIGHT_DENOMINATOR_def simp del: unat_eq_0)
qed

lemma mask_eq:
  assumes "beacon_wf s"
  shows "\<exists>mask b. get_unslashed_participating_mask s flag (get_previous_epoch s) = Inr (mask, b)
    \<and> length mask = length (bs_validators s)"
  using assms by (simp add: get_unslashed_participating_mask_def Let_def epoch_participation_def beacon_wf_def)

lemma epoch_rewards_exist:
  assumes "beacon_wf s"
  obtains er where "compute_epoch_rewards s = Inr er" and "rewards_ok s er"
proof -
  have len: "length (bs_validators s) \<le> ValidatorRegistryLimit" using assms by (simp add: beacon_wf_def)
  obtain T where T: "get_total_active_balance s = Inr T" "1000000000 \<le> unat T"
    using total_active_balance_ge [OF len] .
  obtain b where b: "get_base_reward_per_increment s = Inr b" using base_reward_exists [OF len] .
  obtain m0 m1 m2 b0 b1 b2 where m:
    "get_unslashed_participating_mask s 0 (get_previous_epoch s) = Inr (m0, b0)" "length m0 = length (bs_validators s)"
    "get_unslashed_participating_mask s 1 (get_previous_epoch s) = Inr (m1, b1)" "length m1 = length (bs_validators s)"
    "get_unslashed_participating_mask s 2 (get_previous_epoch s) = Inr (m2, b2)" "length m2 = length (bs_validators s)"
    using mask_eq [OF assms] by metis
  have w: "[0..<length PARTICIPATION_FLAG_WEIGHTS] = [0, 1, 2]"
    by (simp add: PARTICIPATION_FLAG_WEIGHTS_def upt_rec)
  let ?er = "\<lparr> base_reward_per_increment = b, active_increments = T div EFFECTIVE_BALANCE_INCREMENT,
    er_leak = is_in_inactivity_leak s, er_flags = map (\<lambda>(m, b). (m, b div EFFECTIVE_BALANCE_INCREMENT)) [(m0, b0), (m1, b1), (m2, b2)] \<rparr>"
  have "compute_epoch_rewards s = Inr ?er"
    by (simp add: compute_epoch_rewards_def Let_def w m T(1) b)
  moreover have "rewards_ok s ?er"
    by (simp add: rewards_ok_def m increments_nonzero [OF T(2)])
  ultimately show thesis by (rule that)
qed

section \<open>One pass and list by list\<close>

lemma try_fold_update:
  assumes "\<And>i bs. i \<in> set is \<Longrightarrow> length bs = n \<Longrightarrow> f bs i = Inr (bs[i := g i (bs ! i)])"
    and "distinct is" and "length bs = n"
  shows "try_fold f bs is = Inr (map (\<lambda>i. if i \<in> set is then g i (bs ! i) else bs ! i) [0..<n])"
  using assms
proof (induction "is" arbitrary: bs)
  case Nil
  then have "map ((!) bs) [0..<n] = bs" by (metis map_nth)
  then show ?case by simp
next
  case (Cons i "is")
  have "try_fold f (bs[i := g i (bs ! i)]) is
      = Inr (map (\<lambda>j. if j \<in> set is then g j (bs[i := g i (bs ! i)] ! j) else bs[i := g i (bs ! i)] ! j) [0..<n])"
    using Cons.prems by (intro Cons.IH) auto
  also have "map (\<lambda>j. if j \<in> set is then g j (bs[i := g i (bs ! i)] ! j) else bs[i := g i (bs ! i)] ! j) [0..<n]
      = map (\<lambda>j. if j \<in> set (i # is) then g j (bs ! j) else bs ! j) [0..<n]"
  proof (rule map_cong [OF HOL.refl])
    fix j
    show "(if j \<in> set is then g j (bs[i := g i (bs ! i)] ! j) else bs[i := g i (bs ! i)] ! j)
        = (if j \<in> set (i # is) then g j (bs ! j) else bs ! j)" if "j \<in> set [0..<n]"
      using Cons.prems that by (cases "j = i") simp_all
  qed
  finally show ?case using Cons.prems by simp
qed

lemma eligible_indices_eq:
  "get_eligible_validator_indices s = map of_nat (filter (\<lambda>i. is_eligible_for_rewards (bs_validators s ! i) (get_previous_epoch s))
     [0..<length (bs_validators s)])"
  by (simp add: get_eligible_validator_indices_def Let_def enumerate_filter_map)

lemma try_fold_update_pair:
  assumes "\<And>i bs cs. i \<in> set is \<Longrightarrow> length bs = n \<Longrightarrow> length cs = n \<Longrightarrow>
      f (bs, cs) i = Inr (bs[i := g i (bs ! i)], cs[i := h i (cs ! i)])"
    and "distinct is" and "length bs = n" and "length cs = n"
  shows "try_fold f (bs, cs) is = Inr (map (\<lambda>i. if i \<in> set is then g i (bs ! i) else bs ! i) [0..<n],
    map (\<lambda>i. if i \<in> set is then h i (cs ! i) else cs ! i) [0..<n])"
proof -
  have "try_fold f (bs, cs) is = and_then (try_fold (\<lambda>bs i. Inr (bs[i := g i (bs ! i)])) bs is) (\<lambda>bs.
      and_then (try_fold (\<lambda>cs i. Inr (cs[i := h i (cs ! i)])) cs is) (\<lambda>cs. Inr (bs, cs)))"
    using assms(1,3,4)
  proof (induction "is" arbitrary: bs cs)
    case (Cons i "is")
    have "f (bs, cs) i = Inr (bs[i := g i (bs ! i)], cs[i := h i (cs ! i)])" using Cons.prems by simp
    then show ?case using Cons.IH [of "bs[i := g i (bs ! i)]" "cs[i := h i (cs ! i)]"] Cons.prems by simp
  qed simp
  then show ?thesis using assms(2-4) by (simp add: try_fold_update [where n = n])
qed

definition eligible :: "beacon_state \<Rightarrow> nat \<Rightarrow> bool" where
  "eligible s i \<longleftrightarrow> is_eligible_for_rewards (bs_validators s ! i) (get_previous_epoch s)"

lemma flag_deltas_eq:
  assumes "compute_epoch_rewards s = Inr er" and "rewards_ok s er" and "beacon_wf s" and "f < 3"
  shows "get_flag_index_deltas s (of_nat f) =
    Inr (map (\<lambda>i. if eligible s i then fst (flag_delta s er f i) else 0) [0..<length (bs_validators s)],
         map (\<lambda>i. if eligible s i then snd (flag_delta s er f i) else 0) [0..<length (bs_validators s)])"
proof -
  let ?n = "length (bs_validators s)" and ?is = "filter (eligible s) [0..<length (bs_validators s)]"
  have n: "?n \<le> ValidatorRegistryLimit" using assms(3) by (simp add: beacon_wf_def)
  have u: "unat (of_nat i :: u64) = i" if "i \<in> set ?is" for i using that n by (auto intro: unat_of_nat_index)
  have f: "unat (of_nat f :: byte) = f" using assms(4) by (intro unat_of_nat_small) simp
  have "get_flag_index_deltas s (of_nat f) = try_fold (\<lambda>(rewards, penalties) index.
         and_then (flag_index_delta s er (unat (of_nat index :: u64)) f) (\<lambda>(reward, penalty).
         Inr (rewards[unat (of_nat index :: u64) := rewards ! unat (of_nat index :: u64) + reward],
              penalties[unat (of_nat index :: u64) := penalties ! unat (of_nat index :: u64) + penalty])))
       (replicate ?n 0, replicate ?n 0) ?is"
    using assms(1) f
    by (simp add: get_flag_index_deltas_def eligible_indices_eq try_fold_map eligible_def [abs_def] case_prod_unfold)
  also have "\<dots> = Inr (map (\<lambda>i. if i \<in> set ?is then replicate ?n 0 ! i + fst (flag_delta s er f i) else replicate ?n 0 ! i) [0..<?n],
      map (\<lambda>i. if i \<in> set ?is then replicate ?n 0 ! i + snd (flag_delta s er f i) else replicate ?n 0 ! i) [0..<?n])"
    by (rule try_fold_update_pair) (auto simp: u flag_index_delta_eq [OF assms(2) _ assms(4)] split: prod.split)
  finally show ?thesis by (simp cong: map_cong)
qed

lemma inactivity_deltas_eq:
  assumes "compute_epoch_rewards s = Inr er" and "rewards_ok s er" and "beacon_wf s"
  shows "get_inactivity_penalty_deltas s =
    Inr (replicate (length (bs_validators s)) 0,
         map (\<lambda>i. if eligible s i then inactivity_delta s er i else 0) [0..<length (bs_validators s)])"
proof -
  let ?n = "length (bs_validators s)" and ?is = "filter (eligible s) [0..<length (bs_validators s)]"
  have n: "?n \<le> ValidatorRegistryLimit" "length (bs_inactivity_scores s) = ?n" using assms(3) by (simp_all add: beacon_wf_def)
  have u: "unat (of_nat i :: u64) = i" if "i \<in> set ?is" for i using that n by (auto intro: unat_of_nat_index)
  have "try_fold (\<lambda>penalties index. and_then (inactivity_penalty s er (unat (of_nat index :: u64))) (\<lambda>penalty.
         Inr (penalties[unat (of_nat index :: u64) := penalties ! unat (of_nat index :: u64) + penalty]))) (replicate ?n 0) ?is
    = Inr (map (\<lambda>i. if i \<in> set ?is then replicate ?n 0 ! i + inactivity_delta s er i else replicate ?n 0 ! i) [0..<?n])"
    by (rule try_fold_update) (auto simp: u inactivity_penalty_eq [OF assms(2) _ n(2)])
  then show ?thesis
    using assms(1)
    by (simp add: get_inactivity_penalty_deltas_def eligible_indices_eq try_fold_map eligible_def [abs_def] cong: map_cong)
qed

text \<open>Applying one list of rewards and one of penalties to all balances.\<close>

definition apply_deltas :: "u64 list \<Rightarrow> u64 list \<times> u64 list \<Rightarrow> u64 list" where
  "apply_deltas bs = (\<lambda>(rewards, penalties).
     map (\<lambda>i. saturating_sub (bs ! i + rewards ! i) (penalties ! i)) [0..<length bs])"

definition balance_delta :: "u64 \<Rightarrow> u64 \<times> u64 \<Rightarrow> u64" where
  "balance_delta b d = saturating_sub (b + fst d) (snd d)"

lemma balance_delta_0 [simp]: "balance_delta b (0, 0) = b"
  by (simp add: balance_delta_def saturating_sub_def)

lemma apply_deltas_map:
  "apply_deltas (map g [0..<n]) (map r [0..<n], map p [0..<n]) = map (\<lambda>i. balance_delta (g i) (r i, p i)) [0..<n]"
  by (simp add: apply_deltas_def balance_delta_def cong: map_cong)

text \<open>The balance of an eligible validator after its four deltas.\<close>

definition rewarded :: "beacon_state \<Rightarrow> epoch_rewards \<Rightarrow> nat \<Rightarrow> u64 \<Rightarrow> u64" where
  "rewarded s er i b =
     balance_delta (balance_delta (balance_delta (balance_delta b (flag_delta s er 0 i)) (flag_delta s er 1 i))
       (flag_delta s er 2 i)) (0, inactivity_delta s er i)"

lemma reward_validator_eq:
  assumes "rewards_ok s er" and "beacon_wf s" and "i < length (bs_validators s)" and "length bs = length (bs_validators s)"
  shows "reward_validator s er bs i = Inr (bs[i := if eligible s i then rewarded s er i (bs ! i) else bs ! i])"
proof (cases "eligible s i")
  case True
  have scores: "length (bs_inactivity_scores s) = length (bs_validators s)" using assms(2) by (simp add: beacon_wf_def)
  have w: "[0..<length PARTICIPATION_FLAG_WEIGHTS] = [0, 1, 2]"
    by (simp add: PARTICIPATION_FLAG_WEIGHTS_def upt_rec)
  show ?thesis
    using True assms(3,4) flag_index_delta_eq [OF assms(1,3)] inactivity_penalty_eq [OF assms(1,3) scores]
    by (simp add: reward_validator_def eligible_def w case_prod_unfold rewarded_def balance_delta_def)
next
  case False
  then show ?thesis using assms(3,4) by (simp add: reward_validator_def eligible_def)
qed

text \<open>C25. Rewards and penalties are applied in one pass over the registry, each validator with its three
  flags and its inactivity penalty at once. On a well-formed state after genesis this never fails and
  gives exactly the balances of the specification, which computes four pairs of lists and applies them
  one after the other to all validators, with balances that stop at zero in between.\<close>

theorem rewards_one_pass:
  assumes "beacon_wf s" and "get_current_epoch s \<noteq> GENESIS_EPOCH"
  shows "\<exists>d0 d1 d2 d3.
    get_flag_index_deltas s TIMELY_SOURCE_FLAG_INDEX = Inr d0 \<and>
    get_flag_index_deltas s TIMELY_TARGET_FLAG_INDEX = Inr d1 \<and>
    get_flag_index_deltas s TIMELY_HEAD_FLAG_INDEX = Inr d2 \<and>
    get_inactivity_penalty_deltas s = Inr d3 \<and>
    process_rewards_and_penalties s =
      Inr (s\<lparr> bs_balances := foldl apply_deltas (bs_balances s) [d0, d1, d2, d3] \<rparr>)"
proof -
  let ?n = "length (bs_validators s)"
  obtain er where er: "compute_epoch_rewards s = Inr er" "rewards_ok s er" using epoch_rewards_exist [OF assms(1)] .
  have n: "length (bs_balances s) = ?n" using assms(1) by (simp add: beacon_wf_def)
  note flags = flag_deltas_eq [OF er assms(1), of 0] flag_deltas_eq [OF er assms(1), of 1] flag_deltas_eq [OF er assms(1), of 2]
  note inactivity = inactivity_deltas_eq [OF er assms(1)]
  have "try_fold (reward_validator s er) (bs_balances s) [0..<?n]
      = Inr (map (\<lambda>i. if i \<in> set [0..<?n] then (if eligible s i then rewarded s er i (bs_balances s ! i) else bs_balances s ! i)
          else bs_balances s ! i) [0..<?n])"
    by (rule try_fold_update) (simp_all add: n reward_validator_eq [OF er(2) assms(1)])
  then have "process_rewards_and_penalties s = Inr (s\<lparr> bs_balances :=
      map (\<lambda>i. if eligible s i then rewarded s er i (bs_balances s ! i) else bs_balances s ! i) [0..<?n] \<rparr>)"
    using assms(2) er(1) n by (simp add: process_rewards_and_penalties_def cong: map_cong)
  moreover have "map (\<lambda>i. if eligible s i then rewarded s er i (bs_balances s ! i) else bs_balances s ! i) [0..<?n]
    = foldl apply_deltas (map ((!) (bs_balances s)) [0..<?n])
       [(map (\<lambda>i. if eligible s i then fst (flag_delta s er 0 i) else 0) [0..<?n], map (\<lambda>i. if eligible s i then snd (flag_delta s er 0 i) else 0) [0..<?n]),
        (map (\<lambda>i. if eligible s i then fst (flag_delta s er 1 i) else 0) [0..<?n], map (\<lambda>i. if eligible s i then snd (flag_delta s er 1 i) else 0) [0..<?n]),
        (map (\<lambda>i. if eligible s i then fst (flag_delta s er 2 i) else 0) [0..<?n], map (\<lambda>i. if eligible s i then snd (flag_delta s er 2 i) else 0) [0..<?n]),
        (map (\<lambda>_. 0) [0..<?n], map (\<lambda>i. if eligible s i then inactivity_delta s er i else 0) [0..<?n])]"
    by (simp add: apply_deltas_map rewarded_def)
  moreover have "map ((!) (bs_balances s)) [0..<?n] = bs_balances s" using n by (metis map_nth)
  ultimately show ?thesis
    using flags inactivity
    by (auto simp: TIMELY_SOURCE_FLAG_INDEX_def TIMELY_TARGET_FLAG_INDEX_def TIMELY_HEAD_FLAG_INDEX_def map_replicate_trivial)
qed

theorem rewards_one_pass_witness:
  "\<exists>t. process_rewards_and_penalties demo_bvoted = Inr t \<and> length (bs_balances t) = 2"
proof -
  have "beacon_wf demo_bvoted" using demo_bvoted_end by (simp add: at_epoch_end_def)
  moreover have "get_current_epoch demo_bvoted \<noteq> GENESIS_EPOCH"
    by (simp add: demo_bvoted_def epoch_defs beacon_consts)
  moreover have "length (bs_balances demo_bvoted) = 2" by (simp add: demo_bvoted_def demo_bwide_def demo_bstate_def)
  ultimately show ?thesis
    using rewards_one_pass [of demo_bvoted] by (auto simp: apply_deltas_def split: prod.split)
qed

end
