(* ===== verification/Beacon_Queues.thy ===== *)
theory Beacon_Queues
  imports Beacon_Finality
begin

text \<open>
  The queues of the Beacon chain: pending deposits, the activation queue and the exit queue. The
  optimised loops are shown to do what the plain ones do.
\<close>

section \<open>Pending deposits\<close>

text \<open>The plain loop looks every public key up in the registry of the moment.\<close>

definition look_up :: "pending_deposit \<Rightarrow> deposit_loop \<Rightarrow> deposit_loop" where
  "look_up d l = l\<lparr> dl_indices :=
     (case first_index (bs_validators (dl_state l)) (pd_public_key d) of Some i \<Rightarrow> [(pd_public_key d, i)] | None \<Rightarrow> []) \<rparr>"

fun plain_deposit_steps ::
  "beacon_env \<Rightarrow> bool \<Rightarrow> u64 \<Rightarrow> u64 \<Rightarrow> u64 \<Rightarrow> pending_deposit list \<Rightarrow> deposit_loop \<Rightarrow> beacon_error + deposit_loop" where
  "plain_deposit_steps E bridge finalized_slot next_epoch available [] l = Inr l"
| "plain_deposit_steps E bridge finalized_slot next_epoch available (d # ds) l =
     (if deposit_stops_at bridge finalized_slot d then Inr l
      else if dl_next_deposit_index l \<ge> MAX_PENDING_DEPOSITS_PER_EPOCH then Inr l
      else and_then (handle_deposit E next_epoch available d (look_up d l)) (\<lambda>r.
           case r of None \<Rightarrow> Inr (l\<lparr> dl_churn_limit_reached := True \<rparr>)
           | Some l' \<Rightarrow> plain_deposit_steps E bridge finalized_slot next_epoch available ds l'))"

definition plain_pending_deposits :: "beacon_env \<Rightarrow> beacon_state \<Rightarrow> beacon_error + beacon_state" where
  "plain_pending_deposits E s =
     (let next_epoch = get_current_epoch s + 1 in
      and_then (get_activation_exit_churn_limit s) (\<lambda>limit.
      let available = bs_deposit_balance_to_consume s + limit;
          finalized_slot = compute_start_slot_at_epoch (cp_epoch (bs_finalized_checkpoint s));
          bridge = (bs_pending_deposits s \<noteq> [] \<and> bs_eth1_deposit_index s < bs_deposit_requests_start_index s
            \<and> get_current_epoch s < fulu_fork_epoch E)
      in
      and_then (plain_deposit_steps E bridge finalized_slot next_epoch available (bs_pending_deposits s)
        \<lparr> dl_state = s, dl_indices = [], dl_processed_amount = 0, dl_next_deposit_index = 0, dl_postponed = [],
          dl_churn_limit_reached = False \<rparr>) (\<lambda>l.
      and_then (push_all E PENDING_DEPOSITS_CAPACITY ''Failed to push deposit to pending deposits''
        (drop (unat (dl_next_deposit_index l)) (bs_pending_deposits (dl_state l)) @ dl_postponed l)) (\<lambda>pending.
      Inr ((dl_state l)\<lparr> bs_pending_deposits := pending,
            bs_deposit_balance_to_consume :=
              (if dl_churn_limit_reached l then available - dl_processed_amount l else 0) \<rparr>)))))"

text \<open>The loops are compared up to the table of indices.\<close>

definition forget :: "deposit_loop \<Rightarrow> deposit_loop" where
  "forget l = l\<lparr> dl_indices := [] \<rparr>"

definition knows :: "deposit_loop \<Rightarrow> bls_public_key \<Rightarrow> bool" where
  "knows l key \<longleftrightarrow> map_of (dl_indices l) key = first_index (bs_validators (dl_state l)) key"

lemma apply_pending_deposit_to_cases:
  assumes "apply_pending_deposit_to E d i s = Inr (added, t)"
  shows "(added = None \<and> bs_validators t = bs_validators s)
    \<or> (i = None \<and> added = Some (length (bs_validators s)) \<and>
       (\<exists>v. v_public_key v = pd_public_key d \<and> bs_validators t = bs_validators s @ [v]))"
  using assms
  by (auto simp: apply_pending_deposit_to_def increase_balance_def add_validator_to_registry_def Let_def result_simps
      get_validator_from_deposit_def split: option.splits if_splits)

lemma knows_look_up: "knows (look_up d l) (pd_public_key d)"
  by (simp add: knows_def look_up_def split: option.split)

lemma forget_simps [simp]:
  "dl_state (forget l) = dl_state l" "dl_postponed (forget l) = dl_postponed l"
  "dl_processed_amount (forget l) = dl_processed_amount l" "dl_next_deposit_index (forget l) = dl_next_deposit_index l"
  "dl_churn_limit_reached (forget l) = dl_churn_limit_reached l" "forget (look_up d l) = forget l"
  "forget (l\<lparr> dl_churn_limit_reached := b \<rparr>) = (forget l)\<lparr> dl_churn_limit_reached := b \<rparr>"
  by (simp_all add: forget_def look_up_def)

lemma forget_eqD: "forget l = forget m \<Longrightarrow> l = m\<lparr> dl_indices := dl_indices l \<rparr>"
  by (cases l, cases m) (simp add: forget_def)

lemma map_sum_and_then: "map_sum id f (and_then r g) = and_then r (\<lambda>x. map_sum id f (g x))"
  by (cases r) simp_all

lemma handle_deposit_forget:
  assumes "forget l = forget m" and "knows l (pd_public_key d)" and "knows m (pd_public_key d)"
  shows "map_sum id (map_option forget) (handle_deposit E e a d l) = map_sum id (map_option forget) (handle_deposit E e a d m)"
proof -
  obtain xs where l: "l = m\<lparr> dl_indices := xs \<rparr>" using forget_eqD [OF assms(1)] by blast
  have eq: "map_of xs (pd_public_key d) = map_of (dl_indices m) (pd_public_key d)"
    using assms(2,3) by (simp add: knows_def l)
  show ?thesis
    by (simp add: map_sum_and_then l handle_deposit_def Let_def eq case_prod_unfold forget_def if_distrib [of "map_sum id (map_option _)"])
qed

lemma handle_deposit_knows:
  assumes "handle_deposit E e a d l = Inr (Some l')" and "knows l (pd_public_key d)" and "knows l key"
  shows "knows l' key" and "dl_next_deposit_index l' = dl_next_deposit_index l + 1"
proof -
  let ?i = "map_of (dl_indices l) (pd_public_key d)" and ?s = "dl_state l"
  obtain ex wd where pair: "(case Option.bind ?i (list_get (bs_validators ?s)) of
      Some v \<Rightarrow> (exit_epoch v < FAR_FUTURE_EPOCH, withdrawable_epoch v < e) | None \<Rightarrow> (False, False)) = (ex, wd)"
    by fastforce
  then have wd: "wd \<Longrightarrow> ?i \<noteq> None" by (cases ?i) simp_all
  have "knows l' key \<and> dl_next_deposit_index l' = dl_next_deposit_index l + 1"
  proof (cases wd)
    case True
    then obtain added t where t: "apply_pending_deposit_to E d ?i ?s = Inr (added, t)"
      "l' = l\<lparr> dl_state := t, dl_next_deposit_index := dl_next_deposit_index l + 1 \<rparr>"
      using assms(1) by (auto simp: handle_deposit_def pair result_simps)
    with assms(3) apply_pending_deposit_to_cases [OF t(1)] wd [OF True] show ?thesis by (auto simp: knows_def)
  next
    case False
    show ?thesis
    proof (cases ex)
      case True
      with False assms(1,3) show ?thesis by (auto simp: handle_deposit_def pair knows_def)
    next
      case ex: False
      have "\<not> dl_processed_amount l + pd_amount d > a"
        using False ex assms(1) by (auto simp: handle_deposit_def pair)
      then obtain added t where t: "apply_pending_deposit_to E d ?i ?s = Inr (added, t)"
        "dl_state l' = t" "dl_next_deposit_index l' = dl_next_deposit_index l + 1"
        "dl_indices l' = (case added of
           Some i \<Rightarrow> (pd_public_key d, i) # filter (\<lambda>(k, _). k \<noteq> pd_public_key d) (dl_indices l) | None \<Rightarrow> dl_indices l)"
        using False ex assms(1) by (auto simp: handle_deposit_def pair result_simps)
      have "map_of (filter (\<lambda>(k, _). k \<noteq> pd_public_key d) xs) key = map_of xs key" if "key \<noteq> pd_public_key d"
        for xs :: "(bls_public_key \<times> nat) list" using that by (induction xs) auto
      with t(2-4) apply_pending_deposit_to_cases [OF t(1)] assms(2,3) show ?thesis
        by (auto simp: knows_def first_index_append split: option.split)
    qed
  qed
  then show "knows l' key" "dl_next_deposit_index l' = dl_next_deposit_index l + 1" by simp_all
qed

text \<open>The deposits that the loop may still reach.\<close>

definition reachable_deposits :: "bool \<Rightarrow> u64 \<Rightarrow> u64 \<Rightarrow> pending_deposit list \<Rightarrow> pending_deposit list" where
  "reachable_deposits bridge finalized_slot n ds =
     take (unat MAX_PENDING_DEPOSITS_PER_EPOCH - unat n) (takeWhile (\<lambda>d. \<not> deposit_stops_at bridge finalized_slot d) ds)"

lemma reachable_deposits_Cons:
  assumes "\<not> deposit_stops_at bridge fs d" and "n < MAX_PENDING_DEPOSITS_PER_EPOCH"
  shows "reachable_deposits bridge fs n (d # ds) = d # reachable_deposits bridge fs (n + 1) ds"
proof -
  have "unat (n + 1) = unat n + 1" using assms(2) by (rule unat_add_one)
  moreover have "unat MAX_PENDING_DEPOSITS_PER_EPOCH - unat n = Suc (unat MAX_PENDING_DEPOSITS_PER_EPOCH - (unat n + 1))"
    using assms(2) by (simp add: word_less_nat_alt)
  ultimately show ?thesis using assms(1) by (simp add: reachable_deposits_def)
qed

lemma deposit_steps_plain:
  assumes "forget l = forget m"
    and "\<And>d. d \<in> set (reachable_deposits bridge fs (dl_next_deposit_index l) ds) \<Longrightarrow> knows l (pd_public_key d)"
  shows "map_sum id forget (deposit_steps E bridge fs e a ds l) = map_sum id forget (plain_deposit_steps E bridge fs e a ds m)"
  using assms
proof (induction ds arbitrary: l m)
  case Nil
  then show ?case by simp
next
  case (Cons d ds)
  have n: "dl_next_deposit_index l = dl_next_deposit_index m" using Cons.prems(1) by (metis forget_simps(4))
  show ?case
  proof (cases "deposit_stops_at bridge fs d \<or> MAX_PENDING_DEPOSITS_PER_EPOCH \<le> dl_next_deposit_index l")
    case True
    then show ?thesis using Cons.prems(1) n by auto
  next
    case False
    then have reach: "reachable_deposits bridge fs (dl_next_deposit_index l) (d # ds)
        = d # reachable_deposits bridge fs (dl_next_deposit_index l + 1) ds"
      by (intro reachable_deposits_Cons) (simp_all add: not_le)
    have kl: "knows l (pd_public_key d)" using Cons.prems(2) reach by simp
    have eq: "map_sum id (map_option forget) (handle_deposit E e a d l)
        = map_sum id (map_option forget) (handle_deposit E e a d (look_up d m))"
      using Cons.prems(1) kl by (intro handle_deposit_forget knows_look_up) simp_all
    show ?thesis
    proof (cases "handle_deposit E e a d l")
      case (Inl err)
      with eq have "handle_deposit E e a d (look_up d m) = Inl err"
        by (cases "handle_deposit E e a d (look_up d m)") simp_all
      with Inl False n show ?thesis by simp
    next
      case (Inr r)
      with eq obtain q where q: "handle_deposit E e a d (look_up d m) = Inr q" "map_option forget r = map_option forget q"
        by (cases "handle_deposit E e a d (look_up d m)") simp_all
      show ?thesis
      proof (cases r)
        case None
        with q(2) have "q = None" by simp
        with None Inr q(1) False n Cons.prems(1) show ?thesis by simp
      next
        case (Some l')
        with q(2) obtain m' where m': "q = Some m'" "forget l' = forget m'" by (cases q) auto
        have "map_sum id forget (deposit_steps E bridge fs e a ds l') = map_sum id forget (plain_deposit_steps E bridge fs e a ds m')"
        proof (rule Cons.IH [OF m'(2)])
          fix d' assume "d' \<in> set (reachable_deposits bridge fs (dl_next_deposit_index l') ds)"
          moreover have "dl_next_deposit_index l' = dl_next_deposit_index l + 1"
            using Inr Some handle_deposit_knows(2) [OF _ kl kl] by simp
          ultimately have "knows l (pd_public_key d')" using Cons.prems(2) reach by simp
          then show "knows l' (pd_public_key d')" using Inr Some handle_deposit_knows(1) [OF _ kl] by simp
        qed
        with Some Inr q(1) m'(1) False n show ?thesis by (simp add: id_def)
      qed
    qed
  qed
qed

lemma and_then_forget:
  assumes "map_sum id forget r = map_sum id forget q" and "\<And>l. f l = f (forget l)"
  shows "and_then r f = and_then q f"
proof (cases r)
  case (Inl err)
  with assms(1) show ?thesis by (cases q) simp_all
next
  case (Inr x)
  with assms(1) obtain y where y: "q = Inr y" "forget x = forget y" by (cases q) simp_all
  have "f x = f y" using assms(2) y(2) by metis
  with Inr y(1) show ?thesis by simp
qed

text \<open>C27. Pending deposits are applied with one scan of the registry for the keys of the whole batch, and
  a table that is updated as validators are added. For any number of threads the result, errors
  included, is that of the plain loop, which looks the key of every deposit up in the registry as it
  is at that moment.\<close>

theorem pending_deposits_batched:
  assumes "beacon_env_ok E"
  shows "process_pending_deposits E s = plain_pending_deposits E s"
proof -
  let ?l = "\<lambda>batch. \<lparr> dl_state = s, dl_indices = find_validator_indices E (bs_validators s) batch,
      dl_processed_amount = 0, dl_next_deposit_index = 0, dl_postponed = [], dl_churn_limit_reached = False \<rparr>"
  let ?m = "\<lparr> dl_state = s, dl_indices = [], dl_processed_amount = 0, dl_next_deposit_index = 0, dl_postponed = [],
      dl_churn_limit_reached = False \<rparr>"
  let ?batch = "\<lambda>bridge fs. map pd_public_key (take (unat MAX_PENDING_DEPOSITS_PER_EPOCH)
      (takeWhile (\<lambda>d. \<not> deposit_stops_at bridge fs d) (bs_pending_deposits s)))"
  have steps: "map_sum id forget (deposit_steps E bridge fs e a (bs_pending_deposits s) (?l (?batch bridge fs)))
      = map_sum id forget (plain_deposit_steps E bridge fs e a (bs_pending_deposits s) ?m)" for bridge fs e a
  proof (rule deposit_steps_plain)
    fix d assume "d \<in> set (reachable_deposits bridge fs (dl_next_deposit_index (?l (?batch bridge fs))) (bs_pending_deposits s))"
    then have "pd_public_key d \<in> set (?batch bridge fs)" by (simp add: reachable_deposits_def)
    then show "knows (?l (?batch bridge fs)) (pd_public_key d)"
      by (simp only: knows_def find_validator_indices_lookup [OF assms] deposit_loop.select_convs if_P)
  qed (simp add: forget_def)
  have loops: "and_then (deposit_steps E bridge fs e a (bs_pending_deposits s) (?l (?batch bridge fs))) (\<lambda>l.
        and_then (push_all E PENDING_DEPOSITS_CAPACITY msg
          (drop (unat (dl_next_deposit_index l)) (bs_pending_deposits (dl_state l)) @ dl_postponed l)) (\<lambda>pending.
        Inr ((dl_state l)\<lparr> bs_pending_deposits := pending,
          bs_deposit_balance_to_consume := (if dl_churn_limit_reached l then a - dl_processed_amount l else 0) \<rparr>)))
      = and_then (plain_deposit_steps E bridge fs e a (bs_pending_deposits s) ?m) (\<lambda>l.
        and_then (push_all E PENDING_DEPOSITS_CAPACITY msg
          (drop (unat (dl_next_deposit_index l)) (bs_pending_deposits (dl_state l)) @ dl_postponed l)) (\<lambda>pending.
        Inr ((dl_state l)\<lparr> bs_pending_deposits := pending,
          bs_deposit_balance_to_consume := (if dl_churn_limit_reached l then a - dl_processed_amount l else 0) \<rparr>)))"
    for bridge fs e a msg
    by (rule and_then_forget [OF steps]) (simp only: forget_simps)
  show ?thesis
    unfolding process_pending_deposits_def plain_pending_deposits_def Let_def loops by (rule HOL.refl)
qed

theorem pending_deposits_batched_witness:
  "process_pending_deposits demo_benv demo_bvoted = plain_pending_deposits demo_benv demo_bvoted"
  by (rule pending_deposits_batched [OF demo_benv_ok])

end
