(* ===== verification/Beacon_Registry_Updates.thy ===== *)
theory Beacon_Registry_Updates
  imports Beacon_Finality
begin

text \<open>
  The registry updates of an epoch. The code collects the validators first and applies the three kinds
  of update one after the other; the plain loop handles one validator after the other. Both are shown
  to agree, because queueing and activation do not change the balance that limits the exits.
\<close>

definition plain_registry_step :: "beacon_state \<Rightarrow> nat \<Rightarrow> beacon_error + beacon_state" where
  "plain_registry_step s i =
     (let v = bs_validators s ! i; epoch = get_current_epoch s in
      if is_eligible_for_activation_queue v
      then Inr (update_validator i (\<lambda>v. v\<lparr> activation_eligibility_epoch := epoch + 1 \<rparr>) s)
      else if is_active_validator v epoch \<and> effective_balance v \<le> EJECTION_BALANCE
      then initiate_validator_exit (of_nat i) s
      else if is_eligible_for_activation (cp_epoch (bs_finalized_checkpoint s)) v
      then Inr (update_validator i (\<lambda>v. v\<lparr> activation_epoch := compute_activation_exit_epoch epoch \<rparr>) s)
      else Inr s)"

definition plain_registry_updates :: "beacon_state \<Rightarrow> beacon_error + beacon_state" where
  "plain_registry_updates s = try_fold plain_registry_step s [0..<length (bs_validators s)]"

section \<open>Updates that do not touch the active balance\<close>

definition each_validator :: "(nat \<Rightarrow> beacon_validator \<Rightarrow> beacon_validator) \<Rightarrow> beacon_state \<Rightarrow> beacon_state" where
  "each_validator h s =
     s\<lparr> bs_validators := map (\<lambda>j. h j (bs_validators s ! j)) [0..<length (bs_validators s)] \<rparr>"

definition same_stake :: "u64 \<Rightarrow> beacon_validator \<Rightarrow> beacon_validator \<Rightarrow> bool" where
  "same_stake epoch v w \<longleftrightarrow>
     effective_balance w = effective_balance v \<and> is_active_validator w epoch = is_active_validator v epoch"

lemma active_balance_each:
  assumes "length (bs_validators s) \<le> ValidatorRegistryLimit"
    and "\<And>j. j < length (bs_validators s) \<Longrightarrow> same_stake (get_current_epoch s) (bs_validators s ! j) (h j (bs_validators s ! j))"
  shows "get_total_active_balance (each_validator h s) = get_total_active_balance s"
proof -
  let ?vs = "bs_validators s" and ?act = "\<lambda>v. is_active_validator v (get_current_epoch s)"
  have "filter (\<lambda>j. ?act (h j (?vs ! j))) [0..<length ?vs] = filter (\<lambda>j. ?act (?vs ! j)) [0..<length ?vs]"
    using assms(2) by (intro filter_cong) (simp_all add: same_stake_def)
  moreover have "effective_balance (h j (?vs ! j)) = effective_balance (?vs ! j)" if "j < length ?vs" for j
    using assms(2) [OF that] by (simp add: same_stake_def)
  ultimately have "map effective_balance (filter ?act (map (\<lambda>j. h j (?vs ! j)) [0..<length ?vs]))
      = map effective_balance (filter ?act (map ((!) ?vs) [0..<length ?vs]))"
    by (auto simp: filter_map comp_def)
  then show ?thesis
    using assms(1) by (simp add: total_active_balance_eq each_validator_def map_nth epoch_defs)
qed

lemma exit_churn_each:
  assumes "get_total_active_balance (each_validator h s) = get_total_active_balance s"
  shows "compute_exit_epoch_and_update_churn b (each_validator h s) =
    and_then (compute_exit_epoch_and_update_churn b s) (\<lambda>(e, t). Inr (e, each_validator h t))"
proof -
  have "get_activation_exit_churn_limit (each_validator h s) = get_activation_exit_churn_limit s"
    using assms by (simp add: get_activation_exit_churn_limit_def get_balance_churn_limit_def)
  then show ?thesis
    by (cases "get_activation_exit_churn_limit s")
      (auto simp: compute_exit_epoch_and_update_churn_def Let_def each_validator_def epoch_defs div_u64_def)
qed

lemma initiate_exit_each:
  assumes "length (bs_validators s) \<le> ValidatorRegistryLimit" and "i < length (bs_validators s)" and "h i = id"
    and "\<And>j. j < length (bs_validators s) \<Longrightarrow> same_stake (get_current_epoch s) (bs_validators s ! j) (h j (bs_validators s ! j))"
  shows "initiate_validator_exit (of_nat i) (each_validator h s) =
    and_then (initiate_validator_exit (of_nat i) s) (\<lambda>t. Inr (each_validator h t))"
proof -
  have u: "unat (of_nat i :: u64) = i" using assms(1,2) by (intro unat_of_nat_index)
  have at: "bs_validators (each_validator h s) ! i = bs_validators s ! i" "length (bs_validators (each_validator h s)) = length (bs_validators s)"
    using assms(2,3) by (simp_all add: each_validator_def)
  have upd: "update_validator i f (each_validator h t) = each_validator h (update_validator i f t)" for f t
  proof -
    have "(map (\<lambda>j. h j (vs ! j)) [0..<length vs])[i := f (map (\<lambda>j. h j (vs ! j)) [0..<length vs] ! i)]
        = map (\<lambda>j. h j (vs[i := f (vs ! i)] ! j)) [0..<length vs]" for vs
    proof (rule nth_equalityI)
      fix k assume "k < length ((map (\<lambda>j. h j (vs ! j)) [0..<length vs])[i := f (map (\<lambda>j. h j (vs ! j)) [0..<length vs] ! i)])"
      then show "(map (\<lambda>j. h j (vs ! j)) [0..<length vs])[i := f (map (\<lambda>j. h j (vs ! j)) [0..<length vs] ! i)] ! k
          = map (\<lambda>j. h j (vs[i := f (vs ! i)] ! j)) [0..<length vs] ! k"
        by (cases "k = i") (simp_all add: assms(3))
    qed simp
    then show ?thesis by (simp add: update_validator_def each_validator_def)
  qed
  show ?thesis
    using exit_churn_each [OF active_balance_each [where h = h, OF assms(1,4)]] assms(2) u at
    by (cases "compute_exit_epoch_and_update_churn (effective_balance (bs_validators s ! i)) s")
      (auto simp: initiate_validator_exit_def upd and_then_assoc)
qed

section \<open>Three phases and one loop\<close>

text \<open>The update of queueing and activation together, restricted to some validators.\<close>

definition settle :: "beacon_state \<Rightarrow> nat list \<Rightarrow> nat \<Rightarrow> beacon_validator \<Rightarrow> beacon_validator" where
  "settle s is j v =
     (if j \<notin> set is then v
      else if is_eligible_for_activation_queue v then v\<lparr> activation_eligibility_epoch := get_current_epoch s + 1 \<rparr>
      else if is_activated (get_current_epoch s) (cp_epoch (bs_finalized_checkpoint s)) v
      then v\<lparr> activation_epoch := compute_activation_exit_epoch (get_current_epoch s) \<rparr>
      else v)"

lemma current_epoch_small: "unat (get_current_epoch s) + 6 < 2 ^ 64"
  using unat_less_u64 [of "bs_slot s"] by (simp add: epoch_unat)

lemma settle_same_stake: "same_stake (get_current_epoch s) v (settle s is j v)"
proof -
  let ?e = "get_current_epoch s"
  have "unat (compute_activation_exit_epoch ?e) = unat ?e + 5"
    using current_epoch_small [of s]
    by (simp add: compute_activation_exit_epoch_def MAX_SEED_LOOKAHEAD_def unat_word_ariths add.assoc)
  then have "\<not> compute_activation_exit_epoch ?e \<le> ?e" by (simp add: word_le_nat_alt)
  moreover have "\<not> FAR_FUTURE_EPOCH \<le> ?e"
    using current_epoch_small [of s] by (simp add: FAR_FUTURE_EPOCH_def word_le_nat_alt)
  ultimately show ?thesis
    by (auto simp: same_stake_def settle_def is_activated_def is_eligible_for_activation_def is_active_validator_def)
qed

lemma each_settle_Nil: "each_validator (settle s []) t = t"
  by (simp add: each_validator_def settle_def map_nth)

lemma settle_cong: "bs_slot t = bs_slot s \<Longrightarrow> bs_finalized_checkpoint t = bs_finalized_checkpoint s \<Longrightarrow> settle t = settle s"
  by (simp add: fun_eq_iff settle_def get_current_epoch_def)

lemma initiate_exit_one:
  assumes "initiate_validator_exit i s = Inr t"
  shows "\<exists>w. bs_validators t = (bs_validators s)[unat i := w]" and "bs_slot t = bs_slot s"
    and "bs_finalized_checkpoint t = bs_finalized_checkpoint s"
proof -
  show "\<exists>w. bs_validators t = (bs_validators s)[unat i := w]"
    using assms exit_churn_validators [of s]
    by (auto simp: initiate_validator_exit_def update_validator_def result_simps yields_def split: if_splits)
      (metis list_update_id)
  show "bs_slot t = bs_slot s" "bs_finalized_checkpoint t = bs_finalized_checkpoint s"
    using yieldsD [OF initiate_exit_evolves assms] by (simp_all add: evolves_def)
qed

text \<open>Settling one validator first and the others later.\<close>

lemma settle_step:
  assumes "i \<notin> set is" and "i < length (bs_validators s)"
    and "t = s\<lparr> bs_validators := (bs_validators s)[i := settle s [i] i (bs_validators s ! i)] \<rparr>"
  shows "each_validator (settle t is) t = each_validator (settle s (i # is)) s"
proof -
  have "settle t = settle s" using assms(3) by (intro settle_cong) simp_all
  moreover have "settle s is j ((bs_validators s)[i := settle s [i] i (bs_validators s ! i)] ! j)
      = settle s (i # is) j (bs_validators s ! j)" if "j < length (bs_validators s)" for j
    using assms(1,2) that by (cases "j = i") (simp_all add: settle_def)
  ultimately show ?thesis by (simp add: each_validator_def assms(3) cong: map_cong)
qed

lemma plain_step_settles:
  assumes "\<not> is_ejected (get_current_epoch s) (bs_validators s ! i)"
  shows "plain_registry_step s i = Inr (s\<lparr> bs_validators := (bs_validators s)[i := settle s [i] i (bs_validators s ! i)] \<rparr>)"
  using assms by (auto simp: plain_registry_step_def Let_def is_ejected_def settle_def is_activated_def update_validator_def)

text \<open>The plain loop over some validators: the exits run on the settled registry.\<close>

lemma plain_steps:
  assumes "distinct is" and "set is \<subseteq> {..<length (bs_validators s)}" and "length (bs_validators s) \<le> ValidatorRegistryLimit"
  shows "try_fold plain_registry_step s is =
    try_fold (\<lambda>t i. initiate_validator_exit (of_nat i) t) (each_validator (settle s is) s)
      (filter (\<lambda>i. is_ejected (get_current_epoch s) (bs_validators s ! i)) is)"
  using assms
proof (induction "is" arbitrary: s)
  case Nil
  then show ?case by (simp add: each_settle_Nil)
next
  case (Cons i "is")
  let ?v = "bs_validators s ! i" and ?e = "get_current_epoch s"
  have i: "i \<notin> set is" "i < length (bs_validators s)" using Cons.prems by auto
  have later: "filter (\<lambda>j. is_ejected (get_current_epoch t) (bs_validators t ! j)) is
      = filter (\<lambda>j. is_ejected ?e (bs_validators s ! j)) is"
    if "bs_validators t = (bs_validators s)[i := w]" "bs_slot t = bs_slot s" for t w
  proof (rule filter_cong [OF HOL.refl])
    fix j assume "j \<in> set is"
    with i(1) have "i \<noteq> j" by auto
    then show "is_ejected (get_current_epoch t) (bs_validators t ! j) = is_ejected ?e (bs_validators s ! j)"
      using that by (simp add: get_current_epoch_def)
  qed
  show ?case
  proof (cases "is_ejected ?e ?v")
    case False
    let ?t = "s\<lparr> bs_validators := (bs_validators s)[i := settle s [i] i ?v] \<rparr>"
    have "try_fold plain_registry_step ?t is = try_fold (\<lambda>t i. initiate_validator_exit (of_nat i) t)
        (each_validator (settle ?t is) ?t) (filter (\<lambda>i. is_ejected (get_current_epoch ?t) (bs_validators ?t ! i)) is)"
      using Cons.prems by (intro Cons.IH) simp_all
    then show ?thesis
      using False settle_step [OF i HOL.refl] later [of ?t] by (simp add: plain_step_settles)
  next
    case True
    then have step: "plain_registry_step s i = initiate_validator_exit (of_nat i) s"
      by (simp add: plain_registry_step_def is_ejected_def Let_def)
    have "each_validator (settle s (i # is)) s = each_validator (settle s is) s"
      using settle_step [OF i HOL.refl] True by (simp add: settle_def is_ejected_def is_activated_def)
    moreover have "initiate_validator_exit (of_nat i) (each_validator (settle s is) s) =
        and_then (initiate_validator_exit (of_nat i) s) (\<lambda>t. Inr (each_validator (settle s is) t))"
      using Cons.prems i by (intro initiate_exit_each settle_same_stake) (auto simp: settle_def)
    ultimately show ?thesis
    proof (cases "initiate_validator_exit (of_nat i) s")
      case (Inr t)
      have u: "unat (of_nat i :: u64) = i" using Cons.prems by (auto intro: unat_of_nat_index)
      obtain w where w: "bs_validators t = (bs_validators s)[i := w]" using initiate_exit_one(1) [OF Inr] u by auto
      note t = initiate_exit_one(2,3) [OF Inr]
      have "try_fold plain_registry_step t is = try_fold (\<lambda>t i. initiate_validator_exit (of_nat i) t)
          (each_validator (settle s is) t) (filter (\<lambda>i. is_ejected ?e (bs_validators s ! i)) is)"
        using Cons.IH [of t] Cons.prems w later [OF w t(1)] settle_cong [OF t] by simp
      then show ?thesis
        using True step Inr \<open>each_validator (settle s (i # is)) s = _\<close>
          \<open>initiate_validator_exit (of_nat i) (each_validator (settle s is) s) = _\<close> by simp
    qed (use True step in simp)
  qed
qed

text \<open>C28. Updating the registry in three phases, first queueing and activating validators and then
  initiating the exits of the ejected ones, gives on every well-formed state the result of the
  specification's single loop over the validators, errors and exit epochs included.\<close>

theorem registry_updates_one_loop:
  assumes "beacon_wf s"
  shows "process_registry_updates s = plain_registry_updates s"
proof -
  let ?e = "get_current_epoch s" and ?f = "cp_epoch (bs_finalized_checkpoint s)" and ?vs = "bs_validators s"
  have len: "length ?vs \<le> ValidatorRegistryLimit" using assms by (simp add: beacon_wf_def)
  have "checked_add ?e 1 = Some (?e + 1)" using current_epoch_small [of s] by (simp add: checked_add_def)
  moreover have "indices_where P ?vs = filter (\<lambda>i. P (?vs ! i)) [0..<length ?vs]" for P
    using enumerate_filter_map [of id P ?vs] by (simp add: indices_where_def case_prod_unfold)
  moreover have "fold (\<lambda>i. update_validator i (\<lambda>v. v\<lparr> activation_epoch := compute_activation_exit_epoch ?e \<rparr>))
      (indices_where (is_activated ?e ?f) ?vs)
      (fold (\<lambda>i. update_validator i (\<lambda>v. v\<lparr> activation_eligibility_epoch := ?e + 1 \<rparr>))
        (indices_where is_eligible_for_activation_queue ?vs) s)
      = each_validator (settle s [0..<length ?vs]) s"
    by (auto simp: fold_update_validator each_validator_def set_indices_where settle_def is_activated_def
        intro!: arg_cong [where f = "\<lambda>x. s\<lparr> bs_validators := x \<rparr>"] map_cong)
  ultimately show ?thesis
    using plain_steps [of "[0..<length ?vs]" s] len
    by (simp add: process_registry_updates_def plain_registry_updates_def Let_def try_fold_map lessThan_atLeast0)
qed

theorem registry_updates_one_loop_witness:
  "process_registry_updates demo_bvoted = plain_registry_updates demo_bvoted"
proof -
  have "beacon_wf demo_bvoted" using demo_bvoted_end by (simp add: at_epoch_end_def)
  then show ?thesis by (rule registry_updates_one_loop)
qed

end
