(* ===== verification/Beacon_Withdrawals.thy ===== *)
theory Beacon_Withdrawals
  imports Beacon_Finality
begin

text \<open>
  Withdrawals take from a validator what the payload says and never more than it has. The invariant of
  the two loops that list the withdrawals bounds what is taken from each validator by its balance.
\<close>

definition taken :: "withdrawal list \<Rightarrow> u64 \<Rightarrow> nat" where
  "taken ws i = (\<Sum>w\<leftarrow>filter (\<lambda>w. wd_validator_index w = i) ws. unat (wd_amount w))"

lemma taken_Nil [simp]: "taken [] i = 0"
  by (simp add: taken_def)

lemma taken_append [simp]: "taken (ws @ vs) i = taken ws i + taken vs i"
  by (simp add: taken_def)

lemma taken_Cons [simp]: "taken (w # ws) i = (if wd_validator_index w = i then unat (wd_amount w) else 0) + taken ws i"
  by (simp add: taken_def)

lemma withdrawn_from_taken: "taken ws i < 2 ^ 64 \<Longrightarrow> unat (withdrawn_from ws i) = taken ws i"
  unfolding withdrawn_from_def taken_def by (subst unat_sum_list) (simp_all add: comp_def)

text \<open>What is listed so far leaves every validator a balance, and one that is not withdrawable yet the
  minimum to stay active.\<close>

definition covered :: "beacon_state \<Rightarrow> withdrawal list \<Rightarrow> bool" where
  "covered s ws \<longleftrightarrow> (\<forall>i. unat i < length (bs_balances s) \<longrightarrow>
     taken ws i \<le> unat (bs_balances s ! unat i)
     \<and> (0 < taken ws i \<and> get_current_epoch s < withdrawable_epoch (bs_validators s ! unat i) \<longrightarrow>
          taken ws i + unat MIN_ACTIVATION_BALANCE \<le> unat (bs_balances s ! unat i)))"

lemma covered_balance:
  assumes "covered s ws" and "unat i < length (bs_balances s)"
  shows "unat (bs_balances s ! unat i - withdrawn_from ws i) = unat (bs_balances s ! unat i) - taken ws i"
proof -
  have le: "taken ws i \<le> unat (bs_balances s ! unat i)" using assms by (simp add: covered_def)
  then have "unat (withdrawn_from ws i) = taken ws i"
    using unat_less_u64 [of "bs_balances s ! unat i"] by (intro withdrawn_from_taken) simp
  with le show ?thesis by (simp add: unat_sub word_le_nat_alt)
qed

lemma covered_snoc:
  assumes "covered s ws" and "unat (wd_validator_index w) < length (bs_balances s)"
    and "unat (wd_amount w) \<le> unat (bs_balances s ! unat (wd_validator_index w)) - taken ws (wd_validator_index w)"
    and "get_current_epoch s < withdrawable_epoch (bs_validators s ! unat (wd_validator_index w)) \<Longrightarrow>
      unat (wd_amount w) + unat MIN_ACTIVATION_BALANCE
        \<le> unat (bs_balances s ! unat (wd_validator_index w)) - taken ws (wd_validator_index w)"
  shows "covered s (ws @ [w])"
  unfolding covered_def
proof (intro allI impI)
  fix i :: u64
  assume i: "unat i < length (bs_balances s)"
  have old: "taken ws i \<le> unat (bs_balances s ! unat i)"
    "0 < taken ws i \<Longrightarrow> get_current_epoch s < withdrawable_epoch (bs_validators s ! unat i) \<Longrightarrow>
      taken ws i + unat MIN_ACTIVATION_BALANCE \<le> unat (bs_balances s ! unat i)"
    using assms(1) i by (auto simp: covered_def)
  show "taken (ws @ [w]) i \<le> unat (bs_balances s ! unat i) \<and>
    (0 < taken (ws @ [w]) i \<and> get_current_epoch s < withdrawable_epoch (bs_validators s ! unat i) \<longrightarrow>
      taken (ws @ [w]) i + unat MIN_ACTIVATION_BALANCE \<le> unat (bs_balances s ! unat i))"
  proof (cases "wd_validator_index w = i")
    case True
    then show ?thesis using old(1) assms(3,4) by auto
  next
    case False
    then show ?thesis using old by simp
  qed
qed

lemma partial_steps_covered:
  "covered s ws \<Longrightarrow> length ws \<le> 8 \<Longrightarrow>
   yields (\<lambda>r. covered s (fst r) \<and> length (fst r) \<le> 8) (partial_withdrawal_steps s (get_current_epoch s) ps ws n p)"
proof (induction ps arbitrary: ws n p)
  case (Cons pw ps)
  let ?i = "pw_validator_index pw" and ?v = "bs_validators s ! unat (pw_validator_index pw)"
  let ?b = "bs_balances s ! unat (pw_validator_index pw) - withdrawn_from ws (pw_validator_index pw)"
  let ?w = "\<lparr> wd_index = n, wd_validator_index = ?i, wd_address = credential_address (withdrawal_credentials ?v),
    wd_amount = min (?b - MIN_ACTIVATION_BALANCE) (pw_amount pw) \<rparr>"
  have new: "covered s (ws @ [?w])" if "unat ?i < length (bs_balances s)" "MIN_ACTIVATION_BALANCE < ?b"
  proof (rule covered_snoc [OF Cons.prems(1)])
    note b = covered_balance [OF Cons.prems(1) that(1)]
    have "unat (min (?b - MIN_ACTIVATION_BALANCE) (pw_amount pw)) \<le> unat (?b - MIN_ACTIVATION_BALANCE)"
      by (simp add: word_le_nat_alt [symmetric])
    also have "\<dots> = unat ?b - unat MIN_ACTIVATION_BALANCE" using that(2) by (simp add: unat_sub word_less_nat_alt word_le_nat_alt)
    finally have "unat (wd_amount ?w) + unat MIN_ACTIVATION_BALANCE \<le> unat ?b"
      using that(2) by (simp add: word_less_nat_alt)
    then show "unat (wd_amount ?w) \<le> unat (bs_balances s ! unat (wd_validator_index ?w)) - taken ws (wd_validator_index ?w)"
      "unat (wd_amount ?w) + unat MIN_ACTIVATION_BALANCE
        \<le> unat (bs_balances s ! unat (wd_validator_index ?w)) - taken ws (wd_validator_index ?w)"
      using b by simp_all
  qed (use that in simp)
  show ?case
  proof (cases "pw_withdrawable_epoch pw > get_current_epoch s \<or> of_nat (length ws) = MAX_PENDING_PARTIALS_PER_WITHDRAWALS_SWEEP")
    case True
    then show ?thesis using Cons.prems by simp
  next
    case False
    then have "length ws \<noteq> 8" by (auto simp: MAX_PENDING_PARTIALS_PER_WITHDRAWALS_SWEEP_def)
    with Cons.prems have len: "length (ws @ [?w]) \<le> 8" by simp
    show ?thesis
      unfolding partial_withdrawal_steps.simps if_not_P [OF False]
    proof (intro yields_and_then_eq)
      fix v b
      assume v: "get_or (bs_validators s) (unat ?i) ''Validator index out of bounds'' = Inr v"
        and b: "get_or (bs_balances s) (unat ?i) ''Balance index out of bounds'' = Inr b"
      have "v = ?v" "b = bs_balances s ! unat ?i" "unat ?i < length (bs_balances s)" using v b by (simp_all add: result_simps)
      then show "yields (\<lambda>r. covered s (fst r) \<and> length (fst r) \<le> 8)
        (let balance = b - withdrawn_from ws ?i in
          if exit_epoch v = FAR_FUTURE_EPOCH \<and> effective_balance v \<ge> MIN_ACTIVATION_BALANCE \<and> balance > MIN_ACTIVATION_BALANCE
          then let withdrawable_balance = min (balance - MIN_ACTIVATION_BALANCE) (pw_amount pw);
                 w = \<lparr> wd_index = n, wd_validator_index = ?i, wd_address = credential_address (withdrawal_credentials v),
                       wd_amount = withdrawable_balance \<rparr>
               in partial_withdrawal_steps s (get_current_epoch s) ps (ws @ [w]) (n + 1) (p + 1)
          else partial_withdrawal_steps s (get_current_epoch s) ps ws n (p + 1))"
        using new Cons.IH [OF _ len] Cons.IH [OF Cons.prems] by (simp add: Let_def)
    qed
  qed
qed simp

lemma sweep_covered:
  "covered s ws \<Longrightarrow> length ws < 16 \<Longrightarrow>
   yields (\<lambda>ws'. covered s ws' \<and> length ws' \<le> 16) (withdrawal_sweep s (get_current_epoch s) bound i ws n)"
proof (induction bound arbitrary: i ws n)
  case (Suc bound)
  let ?v = "bs_validators s ! unat i" and ?e = "get_current_epoch s"
  let ?b = "bs_balances s ! unat i - withdrawn_from ws i"
  let ?new = "\<lambda>a. \<lparr> wd_index = n, wd_validator_index = i, wd_address = credential_address (withdrawal_credentials ?v), wd_amount = a \<rparr>"
  have full: "covered s (ws @ [?new ?b])" if "unat i < length (bs_balances s)" "is_fully_withdrawable_validator ?v ?b ?e"
    using covered_balance [OF Suc.prems(1) that(1)] that
    by (intro covered_snoc [OF Suc.prems(1)]) (auto simp: is_fully_withdrawable_validator_def)
  have part: "covered s (ws @ [?new (?b - get_max_effective_balance ?v)])"
    if "unat i < length (bs_balances s)" "is_partially_withdrawable_validator ?v ?b"
  proof (rule covered_snoc [OF Suc.prems(1)])
    have less: "get_max_effective_balance ?v < ?b" using that(2) by (simp add: is_partially_withdrawable_validator_def Let_def)
    have "unat MIN_ACTIVATION_BALANCE \<le> unat (get_max_effective_balance ?v)"
      by (simp add: get_max_effective_balance_def MIN_ACTIVATION_BALANCE_def MAX_EFFECTIVE_BALANCE_ELECTRA_def)
    moreover have "unat (?b - get_max_effective_balance ?v) = unat ?b - unat (get_max_effective_balance ?v)"
      using less by (simp add: unat_sub word_less_nat_alt word_le_nat_alt)
    ultimately have "unat (?b - get_max_effective_balance ?v) + unat MIN_ACTIVATION_BALANCE \<le> unat ?b"
      using less by (simp add: word_less_nat_alt)
    then show "unat (wd_amount (?new (?b - get_max_effective_balance ?v)))
        \<le> unat (bs_balances s ! unat (wd_validator_index (?new (?b - get_max_effective_balance ?v))))
          - taken ws (wd_validator_index (?new (?b - get_max_effective_balance ?v)))"
      "unat (wd_amount (?new (?b - get_max_effective_balance ?v))) + unat MIN_ACTIVATION_BALANCE
        \<le> unat (bs_balances s ! unat (wd_validator_index (?new (?b - get_max_effective_balance ?v))))
          - taken ws (wd_validator_index (?new (?b - get_max_effective_balance ?v)))"
      using covered_balance [OF Suc.prems(1) that(1)] by simp_all
  qed (use that in simp)
  have rest: "yields (\<lambda>ws'. covered s ws' \<and> length ws' \<le> 16)
      (if length ws' = unat MAX_WITHDRAWALS_PER_PAYLOAD then Inr ws'
       else and_then (mod_u64 (i + 1) m) (\<lambda>next. withdrawal_sweep s ?e bound next ws' n'))"
    if "covered s ws'" "length ws' \<le> 16" for ws' n' m
    using that Suc.IH [of ws'] by (auto simp: MAX_WITHDRAWALS_PER_PAYLOAD_def intro!: yields_read)
  let ?r = "if is_fully_withdrawable_validator ?v ?b ?e then (ws @ [?new ?b], n + 1)
    else if is_partially_withdrawable_validator ?v ?b then (ws @ [?new (?b - get_max_effective_balance ?v)], n + 1) else (ws, n)"
  show ?case
  proof (cases "unat i < length (bs_validators s) \<and> unat i < length (bs_balances s)")
    case True
    then have "covered s (fst ?r)" "length (fst ?r) \<le> 16" using full part Suc.prems by simp_all
    from rest [OF this, of "of_nat (length (bs_validators s))" "snd ?r"] True show ?thesis
      by (simp add: Let_def case_prod_unfold)
  next
    case False
    then show ?thesis by (cases "unat i < length (bs_validators s)") simp_all
  qed
qed simp

text \<open>Taking the listed amounts from balances that cover them.\<close>

lemma decrease_fold:
  "try_fold (\<lambda>st w. decrease_balance (wd_validator_index w) (wd_amount w) st) s ws = Inr t \<Longrightarrow>
   (\<And>i. unat i < length (bs_balances s) \<Longrightarrow> taken ws i \<le> unat (bs_balances s ! unat i)) \<Longrightarrow>
   length (bs_balances t) = length (bs_balances s) \<and>
   (\<forall>i. unat i < length (bs_balances s) \<longrightarrow> unat (bs_balances t ! unat i) + taken ws i = unat (bs_balances s ! unat i))"
proof (induction ws arbitrary: s)
  case (Cons w ws)
  let ?j = "wd_validator_index w" and ?a = "wd_amount w"
  from Cons.prems(1) obtain u where j: "unat ?j < length (bs_balances s)"
    and u: "u = s\<lparr> bs_balances := (bs_balances s)[unat ?j := saturating_sub (bs_balances s ! unat ?j) ?a] \<rparr>"
    and t: "try_fold (\<lambda>st w. decrease_balance (wd_validator_index w) (wd_amount w) st) u ws = Inr t"
    by (auto simp: decrease_balance_def result_simps)
  have "unat ?a \<le> unat (bs_balances s ! unat ?j)" using Cons.prems(2) [OF j] by simp
  then have sub: "unat (saturating_sub (bs_balances s ! unat ?j) ?a) = unat (bs_balances s ! unat ?j) - unat ?a"
    by (simp add: saturating_sub_def word_le_nat_alt unat_sub)
  have new: "unat (bs_balances u ! unat i) = unat (bs_balances s ! unat i) - (if ?j = i then unat ?a else 0)"
    if "unat i < length (bs_balances s)" for i
    using that sub by (cases "?j = i") (simp_all add: u nth_list_update word_unat_eq_iff)
  have "length (bs_balances t) = length (bs_balances u) \<and>
   (\<forall>i. unat i < length (bs_balances u) \<longrightarrow> unat (bs_balances t ! unat i) + taken ws i = unat (bs_balances u ! unat i))"
  proof (rule Cons.IH [OF t])
    fix i :: u64 assume "unat i < length (bs_balances u)"
    then show "taken ws i \<le> unat (bs_balances u ! unat i)"
      using Cons.prems(2) [of i] new [of i] by (auto simp: u)
  qed
  note IH = this
  have "unat (bs_balances t ! unat i) + taken (w # ws) i = unat (bs_balances s ! unat i)"
    if "unat i < length (bs_balances s)" for i
  proof -
    have "unat (bs_balances t ! unat i) + taken ws i = unat (bs_balances u ! unat i)" using IH that by (simp add: u)
    then show ?thesis using new [OF that] Cons.prems(2) [OF that] by simp
  qed
  then show ?case using IH by (simp add: u)
qed simp

text \<open>C26. Withdrawals are exact. After the withdrawals of a block every validator has lost precisely what
  the payload lists for it, nothing is cut off at zero, so nobody is paid more than their balance;
  the payload lists at most sixteen withdrawals; and a validator that is not withdrawable yet keeps at
  least the minimum balance to stay active.\<close>

theorem withdrawals_exact:
  assumes "process_withdrawals E payload s = Inr t" and "unat i < length (bs_balances s)"
  shows "unat (bs_balances t ! unat i) + taken (ep_withdrawals payload) i = unat (bs_balances s ! unat i)
    \<and> length (ep_withdrawals payload) \<le> 16
    \<and> (0 < taken (ep_withdrawals payload) i \<and> get_current_epoch s < withdrawable_epoch (bs_validators s ! unat i)
       \<longrightarrow> MIN_ACTIVATION_BALANCE \<le> bs_balances t ! unat i)"
proof -
  let ?ws = "ep_withdrawals payload"
  obtain p u where expected: "get_expected_withdrawals s = Inr (?ws, p)"
    and fold: "try_fold (\<lambda>st w. decrease_balance (wd_validator_index w) (wd_amount w) st) s ?ws = Inr u"
    and t: "bs_balances t = bs_balances u"
    using assms(1) by (auto simp: process_withdrawals_def result_simps Let_def)
  have "yields (\<lambda>r. covered s (fst r) \<and> length (fst r) \<le> 16) (get_expected_withdrawals s)"
    unfolding get_expected_withdrawals_def Let_def
    by (rule yields_and_then [OF partial_steps_covered])
      (auto simp: covered_def intro!: yields_and_then [OF sweep_covered])
  from yieldsD [OF this expected] have ws: "covered s ?ws" "length ?ws \<le> 16" by simp_all
  have le: "taken ?ws j \<le> unat (bs_balances s ! unat j)" if "unat j < length (bs_balances s)" for j
    using ws(1) that by (simp add: covered_def)
  have eq: "unat (bs_balances t ! unat i) + taken ?ws i = unat (bs_balances s ! unat i)"
    using decrease_fold [OF fold le] assms(2) t by simp
  then have "0 < taken ?ws i \<and> get_current_epoch s < withdrawable_epoch (bs_validators s ! unat i)
      \<longrightarrow> MIN_ACTIVATION_BALANCE \<le> bs_balances t ! unat i"
    using ws(1) assms(2) by (auto simp: covered_def word_le_nat_alt)
  with eq ws(2) show ?thesis by blast
qed

text \<open>A validator with an execution credential and one coin more than it can use.\<close>

definition demo_bricher :: beacon_state where
  "demo_bricher = demo_bstate\<lparr> bs_balances := [33000000000, 32000000000],
     bs_validators := [(demo_bvalidator 1)\<lparr> withdrawal_credentials := push_bit 248 1 \<rparr>, demo_bvalidator 2] \<rparr>"

definition demo_paying :: execution_payload where
  "demo_paying = demo_payload\<lparr> ep_withdrawals :=
     [\<lparr> wd_index = 0, wd_validator_index = 0, wd_address = credential_address (push_bit 248 1), wd_amount = 1000000000 \<rparr>] \<rparr>"

theorem withdrawals_exact_witness:
  "\<exists>t. process_withdrawals demo_benv demo_paying demo_bricher = Inr t \<and> unat (bs_balances t ! 0) = 32000000000"
proof -
  obtain t where "process_withdrawals demo_benv demo_paying demo_bricher = Inr t"
    by (simp add: process_withdrawals_def get_expected_withdrawals_def demo_bricher_def demo_paying_def demo_bdefs
      epoch_defs beacon_consts withdrawal_sweep_numeral withdrawn_from_def is_fully_withdrawable_validator_def
      is_partially_withdrawable_validator_def has_execution_withdrawal_credential_def has_eth1_withdrawal_credential_def
      has_compounding_withdrawal_credential_def is_compounding_withdrawal_credential_def credential_prefix_def b256_bytes_def
      get_max_effective_balance_def mod_u64_def push_all_def decrease_balance_def saturating_sub_def Let_def)
  moreover have "bs_balances demo_bricher = [33000000000, 32000000000]"
    "taken (ep_withdrawals demo_paying) 0 = 1000000000" by (simp_all add: demo_bricher_def demo_paying_def taken_def)
  ultimately show ?thesis using withdrawals_exact [of demo_benv demo_paying demo_bricher t 0] by auto
qed

end
