(* ===== verification/Beacon_Fork_Tree.thy ===== *)
theory Beacon_Fork_Tree
  imports Beacon_Accessors "HOL-Library.Product_Lexorder"
begin

text \<open>
  The in-memory tree of the Beacon fork choice (\<open>fork_choice/beacon/src/fork_choice_tree.rs\<close>): blocks
  after the finalized one, each with the weight of its subtree, whether the subtree has a viable leaf,
  and the head reached from it. Every operation updates these caches along one chain of ancestors.

  \<open>HashMap\<close>s are tables. The order in which a map of weight changes is iterated is unspecified in the
  source; it is the parameter \<open>order\<close>, and the theorems hold for every permutation. A walk along parent
  links has the number of nodes as fuel and gives \<open>Hangs\<close> when it runs out: it then has met a cycle.
  Weight changes are of type \<open>i128\<close> in the source and integers here; fewer than $2^{63}$ balances of 64
  bits do not leave that range. The assertion of \<open>apply_signed\<close> is not compiled into release builds.
\<close>

section \<open>Data\<close>

record fork_choice_block =
  fb_root :: b256
  fb_parent_root :: b256
  fb_slot :: u64
  fb_justified_checkpoint :: beacon_checkpoint
  fb_unrealized_justified_checkpoint :: beacon_checkpoint

record viability_context =
  vc_justified_checkpoint :: beacon_checkpoint
  vc_finalized_checkpoint :: beacon_checkpoint
  vc_current_epoch :: u64

record fork_choice_node =
  fn_parent :: "b256 option"
  fn_slot :: u64
  fn_children :: "b256 list"
  fn_justified_checkpoint :: beacon_checkpoint
  fn_unrealized_justified_checkpoint :: beacon_checkpoint
  fn_weight :: u64
  fn_viable :: bool
  fn_best_descendant :: b256

type_synonym fork_choice_nodes = "(b256, fork_choice_node) table"

record applied_vote =
  av_root :: b256
  av_balance :: u64

record fork_choice_tree =
  ft_root :: b256
  ft_nodes :: fork_choice_nodes
  ft_context :: viability_context
  ft_balances :: "u64 list"
  ft_balances_checkpoint :: "beacon_checkpoint option"
  ft_proposer_score :: u64
  ft_votes :: "(u64, applied_vote) table"
  ft_pending_weight :: "(b256, u64) table"
  ft_equivocating :: "u64 set"
  ft_boost :: "(b256 \<times> u64) option"

type_synonym weight_deltas = "(b256, int) table"

section \<open>Reading the tree\<close>

text \<open>\<open>ancestor\<close>: the loop follows parent links until a block at or before the slot.\<close>

fun ancestor_loop :: "nat \<Rightarrow> fork_choice_nodes \<Rightarrow> b256 \<Rightarrow> u64 \<Rightarrow> beacon_error + b256 option" where
  "ancestor_loop 0 nodes root slot = Inl Hangs"
| "ancestor_loop (Suc fuel) nodes root slot =
     (case tbl_get nodes root of
        None \<Rightarrow> Inr None
      | Some node \<Rightarrow>
          if fn_slot node \<le> slot then Inr (Some root)
          else (case fn_parent node of
                  None \<Rightarrow> Inr None
                | Some parent \<Rightarrow> ancestor_loop fuel nodes parent slot))"

definition tree_ancestor :: "fork_choice_tree \<Rightarrow> b256 \<Rightarrow> u64 \<Rightarrow> beacon_error + b256 option" where
  "tree_ancestor t root slot = ancestor_loop (Suc (length (ft_nodes t))) (ft_nodes t) root slot"

definition tree_contains :: "fork_choice_tree \<Rightarrow> b256 \<Rightarrow> bool" where
  "tree_contains t root \<longleftrightarrow> tbl_get (ft_nodes t) root \<noteq> None"

definition tree_weight :: "fork_choice_tree \<Rightarrow> b256 \<Rightarrow> u64 option" where
  "tree_weight t root = map_option fn_weight (tbl_get (ft_nodes t) root)"

definition tree_head :: "fork_choice_tree \<Rightarrow> b256" where
  "tree_head t =
     (let justified_root = bcp_root (vc_justified_checkpoint (ft_context t))
      in case tbl_get (ft_nodes t) justified_root of
           None \<Rightarrow> justified_root
         | Some node \<Rightarrow> fn_best_descendant node)"

section \<open>Viability and the best descendant of a node\<close>

text \<open>Ancestor at or before a slot, stopping at the root of the tree.\<close>

fun checkpoint_block_loop :: "nat \<Rightarrow> fork_choice_nodes \<Rightarrow> b256 \<Rightarrow> u64 \<Rightarrow> beacon_error + b256" where
  "checkpoint_block_loop 0 nodes root slot = Inl Hangs"
| "checkpoint_block_loop (Suc fuel) nodes root slot =
     (case tbl_get nodes root of
        None \<Rightarrow> Inr root
      | Some node \<Rightarrow>
          if fn_slot node \<le> slot then Inr root
          else (case fn_parent node of
                  None \<Rightarrow> Inr root
                | Some parent \<Rightarrow> checkpoint_block_loop fuel nodes parent slot))"

definition checkpoint_block :: "fork_choice_nodes \<Rightarrow> b256 \<Rightarrow> u64 \<Rightarrow> beacon_error + b256" where
  "checkpoint_block nodes root slot = checkpoint_block_loop (Suc (length nodes)) nodes root slot"

definition voting_source :: "viability_context \<Rightarrow> fork_choice_node \<Rightarrow> beacon_checkpoint" where
  "voting_source context node =
     (if vc_current_epoch context > compute_epoch_at_slot (fn_slot node)
      then fn_unrealized_justified_checkpoint node else fn_justified_checkpoint node)"

definition correct_justified :: "viability_context \<Rightarrow> beacon_checkpoint \<Rightarrow> bool" where
  "correct_justified context source \<longleftrightarrow>
     cp_epoch (vc_justified_checkpoint context) = GENESIS_EPOCH
     \<or> cp_epoch source = cp_epoch (vc_justified_checkpoint context)
     \<or> cp_epoch source + 2 \<ge> vc_current_epoch context"

definition is_leaf_viable ::
  "viability_context \<Rightarrow> fork_choice_nodes \<Rightarrow> b256 \<Rightarrow> fork_choice_node \<Rightarrow> beacon_error + bool" where
  "is_leaf_viable context nodes root node =
     (let justified_ok = correct_justified context (voting_source context node);
          finalized = vc_finalized_checkpoint context
      in and_then
           (if cp_epoch finalized = GENESIS_EPOCH then Inr True
            else and_then (checkpoint_block nodes root (compute_start_slot_at_epoch (cp_epoch finalized)))
                   (\<lambda>ancestor. Inr (ancestor = bcp_root finalized)))
           (\<lambda>finalized_ok. Inr (justified_ok \<and> finalized_ok)))"

text \<open>\<open>Iterator::max_by_key\<close>: of several largest elements the last.\<close>

definition max_by_key :: "('x \<Rightarrow> 'k::linorder) \<Rightarrow> 'x list \<Rightarrow> 'x option" where
  "max_by_key key xs =
     foldl (\<lambda>best x. case best of None \<Rightarrow> Some x | Some b \<Rightarrow> if key b \<le> key x then Some x else Some b)
       None xs"

definition viable_children :: "fork_choice_nodes \<Rightarrow> b256 list \<Rightarrow> (b256 \<times> fork_choice_node) list" where
  "viable_children nodes children =
     filter (\<lambda>(_, child_node). fn_viable child_node)
       (List.map_filter (\<lambda>child. map_option (Pair child) (tbl_get nodes child)) children)"

definition best_child :: "fork_choice_nodes \<Rightarrow> b256 list \<Rightarrow> b256 option" where
  "best_child nodes children =
     map_option (\<lambda>(_, child_node). fn_best_descendant child_node)
       (max_by_key (\<lambda>(child_root, child_node). (fn_weight child_node, child_root))
         (viable_children nodes children))"

definition node_outcome ::
  "viability_context \<Rightarrow> fork_choice_nodes \<Rightarrow> b256 \<Rightarrow> fork_choice_node \<Rightarrow> beacon_error + bool \<times> b256" where
  "node_outcome context nodes root node =
     (if fn_children node = [] then
        and_then (is_leaf_viable context nodes root node) (\<lambda>viable. Inr (viable, root))
      else (case best_child nodes (fn_children node) of
              Some best \<Rightarrow> Inr (True, best)
            | None \<Rightarrow> Inr (False, root)))"

definition update_node :: "b256 \<Rightarrow> fork_choice_tree \<Rightarrow> beacon_error + fork_choice_tree" where
  "update_node root t =
     (case tbl_get (ft_nodes t) root of
        None \<Rightarrow> Inr t
      | Some node \<Rightarrow>
          and_then (node_outcome (ft_context t) (ft_nodes t) root node) (\<lambda>(viable, best_descendant).
          Inr (t\<lparr> ft_nodes := tbl_insert root
            (node\<lparr> fn_viable := viable, fn_best_descendant := best_descendant \<rparr>) (ft_nodes t) \<rparr>)))"

definition update_nodes :: "b256 list \<Rightarrow> fork_choice_tree \<Rightarrow> beacon_error + fork_choice_tree" where
  "update_nodes roots t = try_fold (\<lambda>t root. update_node root t) t roots"

fun ancestors_loop :: "nat \<Rightarrow> b256 option \<Rightarrow> fork_choice_tree \<Rightarrow> beacon_error + fork_choice_tree" where
  "ancestors_loop 0 cursor t = Inl Hangs"
| "ancestors_loop (Suc fuel) cursor t =
     (case cursor of
        None \<Rightarrow> Inr t
      | Some current \<Rightarrow>
          let cursor = Option.bind (tbl_get (ft_nodes t) current) fn_parent
          in and_then (update_node current t) (ancestors_loop fuel cursor))"

definition update_ancestors :: "b256 \<Rightarrow> fork_choice_tree \<Rightarrow> beacon_error + fork_choice_tree" where
  "update_ancestors from t = ancestors_loop (length (ft_nodes t) + 2) (Some from) t"

definition recompute_all :: "fork_choice_tree \<Rightarrow> beacon_error + fork_choice_tree" where
  "recompute_all t =
     (let order = rev (sort (map (\<lambda>(root, node). (fn_slot node, root)) (ft_nodes t)))
      in update_nodes (map snd order) t)"

definition tree_new :: "fork_choice_block \<Rightarrow> viability_context \<Rightarrow> beacon_error + fork_choice_tree" where
  "tree_new anchor context =
     update_node (fb_root anchor)
       \<lparr> ft_root = fb_root anchor,
         ft_nodes = [(fb_root anchor,
           \<lparr> fn_parent = None, fn_slot = fb_slot anchor, fn_children = [],
             fn_justified_checkpoint = fb_justified_checkpoint anchor,
             fn_unrealized_justified_checkpoint = fb_unrealized_justified_checkpoint anchor,
             fn_weight = 0, fn_viable = False, fn_best_descendant = fb_root anchor \<rparr>)],
         ft_context = context, ft_balances = [], ft_balances_checkpoint = None, ft_proposer_score = 0,
         ft_votes = [], ft_pending_weight = [], ft_equivocating = {}, ft_boost = None \<rparr>"

section \<open>Weights\<close>

definition apply_signed :: "u64 \<Rightarrow> int \<Rightarrow> u64" where
  "apply_signed value delta =
     (let updated = max (uint value + delta) 0
      in if updated < 2 ^ 64 then word_of_int updated else - 1)"

fun weight_walk ::
  "nat \<Rightarrow> int \<Rightarrow> b256 option \<Rightarrow> b256 list \<Rightarrow> fork_choice_nodes \<Rightarrow> beacon_error + b256 list \<times> fork_choice_nodes" where
  "weight_walk 0 delta cursor chain nodes = Inl Hangs"
| "weight_walk (Suc fuel) delta cursor chain nodes =
     (case cursor of
        None \<Rightarrow> Inr (chain, nodes)
      | Some current \<Rightarrow>
          (case tbl_get nodes current of
             None \<Rightarrow> Inr (chain, nodes)
           | Some node \<Rightarrow>
               weight_walk fuel delta (fn_parent node) (chain @ [current])
                 (tbl_insert current (node\<lparr> fn_weight := apply_signed (fn_weight node) delta \<rparr>) nodes)))"

definition apply_weight_delta :: "b256 \<Rightarrow> int \<Rightarrow> fork_choice_tree \<Rightarrow> beacon_error + fork_choice_tree" where
  "apply_weight_delta root delta t =
     (if delta = 0 then Inr t
      else and_then (weight_walk (length (ft_nodes t) + 2) delta (Some root) [] (ft_nodes t)) (\<lambda>(chain, nodes).
           update_nodes chain (t\<lparr> ft_nodes := nodes \<rparr>)))"

definition adjust_pending_weight :: "b256 \<Rightarrow> int \<Rightarrow> fork_choice_tree \<Rightarrow> fork_choice_tree" where
  "adjust_pending_weight root delta t =
     (if delta = 0 then t
      else let current = (case tbl_get (ft_pending_weight t) root of None \<Rightarrow> 0 | Some w \<Rightarrow> w);
               updated = apply_signed current delta
           in if updated = 0
              then t\<lparr> ft_pending_weight := tbl_remove root (ft_pending_weight t) \<rparr>
              else t\<lparr> ft_pending_weight := tbl_insert root updated (ft_pending_weight t) \<rparr>)"

definition apply_vote_delta :: "fork_choice_tree \<Rightarrow> b256 \<times> int \<Rightarrow> beacon_error + fork_choice_tree" where
  "apply_vote_delta t = (\<lambda>(root, delta).
     if tree_contains t root then apply_weight_delta root delta t
     else Inr (adjust_pending_weight root delta t))"

type_synonym delta_order = "(b256 \<times> int) list \<Rightarrow> (b256 \<times> int) list"

definition tree_apply_deltas ::
  "delta_order \<Rightarrow> weight_deltas \<Rightarrow> fork_choice_tree \<Rightarrow> beacon_error + fork_choice_tree" where
  "tree_apply_deltas order deltas t = try_fold apply_vote_delta t (order deltas)"

text \<open>\<open>*deltas.entry(root).or_default() += delta\<close>\<close>

definition add_delta :: "b256 \<Rightarrow> int \<Rightarrow> weight_deltas \<Rightarrow> weight_deltas" where
  "add_delta root delta deltas =
     tbl_insert root ((case tbl_get deltas root of None \<Rightarrow> 0 | Some d \<Rightarrow> d) + delta) deltas"

definition tree_balance_of :: "fork_choice_tree \<Rightarrow> u64 \<Rightarrow> u64" where
  "tree_balance_of t validator_index =
     (if validator_index \<in> ft_equivocating t then 0
      else case list_get (ft_balances t) (unat validator_index) of None \<Rightarrow> 0 | Some b \<Rightarrow> b)"

definition record_vote ::
  "u64 \<times> b256 \<Rightarrow> fork_choice_tree \<times> weight_deltas \<Rightarrow> fork_choice_tree \<times> weight_deltas" where
  "record_vote = (\<lambda>(validator_index, root) (t, deltas).
     if validator_index \<in> ft_equivocating t then (t, deltas)
     else let balance = tree_balance_of t validator_index;
              deltas = (case tbl_get (ft_votes t) validator_index of
                          Some previous \<Rightarrow> add_delta (av_root previous) (- uint (av_balance previous)) deltas
                        | None \<Rightarrow> deltas);
              deltas = add_delta root (uint balance) deltas
          in (t\<lparr> ft_votes := tbl_insert validator_index \<lparr> av_root = root, av_balance = balance \<rparr> (ft_votes t) \<rparr>,
              deltas))"

definition process_votes ::
  "delta_order \<Rightarrow> (u64 \<times> b256) list \<Rightarrow> fork_choice_tree \<Rightarrow> beacon_error + fork_choice_tree" where
  "process_votes order updates t =
     (let (t, deltas) = fold record_vote updates (t, []) in tree_apply_deltas order deltas t)"

definition mark_one :: "u64 \<Rightarrow> fork_choice_tree \<times> weight_deltas \<Rightarrow> fork_choice_tree \<times> weight_deltas" where
  "mark_one validator_index = (\<lambda>(t, deltas).
     if validator_index \<in> ft_equivocating t then (t, deltas)
     else let t = t\<lparr> ft_equivocating := insert validator_index (ft_equivocating t) \<rparr>
          in case tbl_get (ft_votes t) validator_index of
               None \<Rightarrow> (t, deltas)
             | Some vote \<Rightarrow>
                 (t\<lparr> ft_votes := tbl_insert validator_index (vote\<lparr> av_balance := 0 \<rparr>) (ft_votes t) \<rparr>,
                  add_delta (av_root vote) (- uint (av_balance vote)) deltas))"

definition mark_equivocating :: "delta_order \<Rightarrow> u64 list \<Rightarrow> fork_choice_tree \<Rightarrow> beacon_error + fork_choice_tree" where
  "mark_equivocating order indices t =
     (let (t, deltas) = fold mark_one indices (t, []) in tree_apply_deltas order deltas t)"

definition set_proposer_boost_root :: "b256 option \<Rightarrow> fork_choice_tree \<Rightarrow> beacon_error + fork_choice_tree" where
  "set_proposer_boost_root root t =
     (let desired = map_option (\<lambda>root. (root, ft_proposer_score t)) root
      in if desired = ft_boost t then Inr t
         else and_then (case ft_boost t of
                          None \<Rightarrow> Inr t
                        | Some (old_root, old_score) \<Rightarrow>
                            apply_weight_delta old_root (- uint old_score) (t\<lparr> ft_boost := None \<rparr>)) (\<lambda>t.
              and_then (case desired of
                          None \<Rightarrow> Inr t
                        | Some (new_root, score) \<Rightarrow> apply_weight_delta new_root (uint score) t) (\<lambda>t.
              Inr (t\<lparr> ft_boost := desired \<rparr>))))"

definition reweigh_vote ::
  "u64 \<times> applied_vote \<Rightarrow> fork_choice_tree \<times> weight_deltas \<Rightarrow> fork_choice_tree \<times> weight_deltas" where
  "reweigh_vote = (\<lambda>(validator_index, vote) (t, deltas).
     let balance = tree_balance_of t validator_index
     in if balance \<noteq> av_balance vote
        then (t\<lparr> ft_votes := tbl_insert validator_index (vote\<lparr> av_balance := balance \<rparr>) (ft_votes t) \<rparr>,
              add_delta (av_root vote) (uint balance - uint (av_balance vote)) deltas)
        else (t, deltas))"

definition set_balances ::
  "delta_order \<Rightarrow> beacon_checkpoint \<Rightarrow> u64 list \<Rightarrow> u64 \<Rightarrow> fork_choice_tree \<Rightarrow> beacon_error + fork_choice_tree" where
  "set_balances order checkpoint balances proposer_score t =
     (let t = t\<lparr> ft_balances := balances, ft_balances_checkpoint := Some checkpoint \<rparr>;
          (t, deltas) = fold reweigh_vote (ft_votes t) (t, [])
      in and_then (tree_apply_deltas order deltas t) (\<lambda>t.
         let boost_root = map_option fst (ft_boost t)
         in set_proposer_boost_root boost_root (t\<lparr> ft_proposer_score := proposer_score \<rparr>)))"

section \<open>Blocks\<close>

definition tree_insert :: "fork_choice_block \<Rightarrow> fork_choice_tree \<Rightarrow> beacon_error + fork_choice_tree" where
  "tree_insert block t =
     (if tree_contains t (fb_root block) then Inr t
      else
        and_then (ok_or (tbl_get (ft_nodes t) (fb_parent_root block)) (Anyhow ''parent is not in the tree'')) (\<lambda>parent.
        and_then (require (fb_slot block > fn_slot parent) ''block slot is not above parent slot'') (\<lambda>_.
        let parent = parent\<lparr> fn_children := fn_children parent @ [fb_root block] \<rparr>;
            node = \<lparr> fn_parent = Some (fb_parent_root block), fn_slot = fb_slot block, fn_children = [],
              fn_justified_checkpoint = fb_justified_checkpoint block,
              fn_unrealized_justified_checkpoint = fb_unrealized_justified_checkpoint block,
              fn_weight = 0, fn_viable = False, fn_best_descendant = fb_root block \<rparr>;
            t = t\<lparr> ft_nodes := tbl_insert (fb_root block) node (tbl_insert (fb_parent_root block) parent (ft_nodes t)) \<rparr>
        in and_then (update_node (fb_root block) t) (\<lambda>t.
           and_then (update_ancestors (fb_parent_root block) t) (\<lambda>t.
           let carried_weight = (case tbl_get (ft_pending_weight t) (fb_root block) of None \<Rightarrow> 0 | Some w \<Rightarrow> w);
               t = t\<lparr> ft_pending_weight := tbl_remove (fb_root block) (ft_pending_weight t) \<rparr>
           in if carried_weight > 0 then apply_weight_delta (fb_root block) (uint carried_weight) t
              else Inr t)))))"

definition update_context :: "viability_context \<Rightarrow> fork_choice_tree \<Rightarrow> beacon_error + fork_choice_tree" where
  "update_context context t =
     (if context = ft_context t then Inr t else recompute_all (t\<lparr> ft_context := context \<rparr>))"

text \<open>The stack of \<open>prune\<close>, its top at the end of the list.\<close>

function prune_loop ::
  "fork_choice_nodes \<Rightarrow> b256 list \<Rightarrow> fork_choice_nodes \<Rightarrow> fork_choice_nodes" where
  "prune_loop nodes pending retained =
     (if pending = [] then retained
      else let current = last pending; pending = butlast pending
           in case tbl_get nodes current of
                None \<Rightarrow> prune_loop nodes pending retained
              | Some node \<Rightarrow>
                  prune_loop (tbl_remove current nodes) (pending @ fn_children node)
                    (tbl_insert current node retained))"
  by pat_completeness auto

lemma length_tbl_remove: "tbl_get t k = Some v \<Longrightarrow> length (tbl_remove k t) < length t"
  unfolding tbl_remove_def tbl_retain_def
  by (rule length_filter_less [of "(k, v)"]) (auto dest: map_of_SomeD)

termination prune_loop
  by (relation "measures [\<lambda>(nodes, _, _). length nodes, \<lambda>(_, pending, _). length pending]")
    (auto simp: length_tbl_remove)

declare prune_loop.simps [simp del]

text \<open>The votes for blocks outside the tree, summed up per block with the addition of \<open>u64\<close>.\<close>

definition rebuild_pending_weight :: "fork_choice_tree \<Rightarrow> fork_choice_tree" where
  "rebuild_pending_weight t =
     t\<lparr> ft_pending_weight :=
       fold (\<lambda>(_, vote) pending.
          if av_balance vote > 0 \<and> \<not> tree_contains t (av_root vote)
          then tbl_insert (av_root vote)
            ((case tbl_get pending (av_root vote) of None \<Rightarrow> 0 | Some w \<Rightarrow> w) + av_balance vote) pending
          else pending) (ft_votes t) [] \<rparr>"

definition tree_prune :: "b256 \<Rightarrow> fork_choice_tree \<Rightarrow> beacon_error + fork_choice_tree" where
  "tree_prune new_root t =
     (if new_root = ft_root t then Inr t
      else
        and_then (require (tree_contains t new_root) ''new finalized root is not in the tree'') (\<lambda>_.
        let retained = prune_loop (ft_nodes t) [new_root] [];
            retained = (case tbl_get retained new_root of
                          Some node \<Rightarrow> tbl_insert new_root (node\<lparr> fn_parent := None \<rparr>) retained
                        | None \<Rightarrow> retained);
            t = rebuild_pending_weight (t\<lparr> ft_nodes := retained, ft_root := new_root \<rparr>);
            t = (case ft_boost t of
                   Some (root, _) \<Rightarrow> if tree_contains t root then t else t\<lparr> ft_boost := None \<rparr>
                 | None \<Rightarrow> t)
        in recompute_all t))"

end
