(* ===== verification/Beacon_Fork_Spec.thy ===== *)
theory Beacon_Fork_Spec
  imports Beacon_Fork_Tree Yields
begin

text \<open>
  The fork choice rule of the Beacon chain without caches. A state holds the blocks with their parents,
  the latest vote of every validator, the balances and the boosted block; weights, viability and the head
  are computed from scratch. The operations only record what they are given. The tree of
  \<open>Beacon_Fork_Tree\<close> refines this specification.
\<close>

section \<open>States\<close>

record spec_block =
  sk_parent :: "b256 option"
  sk_slot :: u64
  sk_justified :: beacon_checkpoint
  sk_unrealized :: beacon_checkpoint

type_synonym spec_blocks = "b256 \<Rightarrow> spec_block option"

record fork_choice_spec =
  sp_root :: b256
  sp_blocks :: spec_blocks
  sp_context :: viability_context
  sp_balances :: "u64 list"
  sp_score :: u64
  sp_votes :: "u64 \<Rightarrow> b256 option"
  sp_equivocating :: "u64 set"
  sp_boost :: "b256 option"

section \<open>The block tree\<close>

text \<open>\<open>descends B r x\<close>: the block \<open>x\<close> is \<open>r\<close> or one of its descendants.\<close>

inductive descends :: "spec_blocks \<Rightarrow> b256 \<Rightarrow> b256 \<Rightarrow> bool" for B where
  self: "B r = Some b \<Longrightarrow> descends B r r"
| step: "B x = Some b \<Longrightarrow> sk_parent b = Some p \<Longrightarrow> descends B r p \<Longrightarrow> descends B r x"

definition is_child :: "spec_blocks \<Rightarrow> b256 \<Rightarrow> b256 \<Rightarrow> bool" where
  "is_child B r c \<longleftrightarrow> (\<exists>b. B c = Some b \<and> sk_parent b = Some r)"

text \<open>The last block of the chain of \<open>r\<close> at or before a slot, or the first block there is.\<close>

inductive ancestor_at :: "spec_blocks \<Rightarrow> u64 \<Rightarrow> b256 \<Rightarrow> b256 \<Rightarrow> bool" for B slot where
  stop: "B r = Some b \<Longrightarrow> sk_slot b \<le> slot \<or> sk_parent b = None \<Longrightarrow> ancestor_at B slot r r"
| up: "B r = Some b \<Longrightarrow> slot < sk_slot b \<Longrightarrow> sk_parent b = Some p \<Longrightarrow> ancestor_at B slot p a
    \<Longrightarrow> ancestor_at B slot r a"

text \<open>Blocks form a tree below the root, with growing slots.\<close>

definition linked :: "spec_blocks \<Rightarrow> b256 \<Rightarrow> bool" where
  "linked B root \<longleftrightarrow>
     (\<exists>b. B root = Some b \<and> sk_parent b = None) \<and>
     (\<forall>x b. B x = Some b \<longrightarrow> x \<noteq> root \<longrightarrow>
        (\<exists>p c. sk_parent b = Some p \<and> B p = Some c \<and> sk_slot c < sk_slot b))"

section \<open>The fork choice rule\<close>

definition spec_source :: "viability_context \<Rightarrow> spec_block \<Rightarrow> beacon_checkpoint" where
  "spec_source context b =
     (if compute_epoch_at_slot (sk_slot b) < vc_current_epoch context then sk_unrealized b else sk_justified b)"

definition leaf_viable :: "viability_context \<Rightarrow> spec_blocks \<Rightarrow> b256 \<Rightarrow> bool" where
  "leaf_viable context B r \<longleftrightarrow>
     (\<exists>b. B r = Some b \<and> correct_justified context (spec_source context b)) \<and>
     (cp_epoch (vc_finalized_checkpoint context) = GENESIS_EPOCH \<or>
      ancestor_at B (compute_start_slot_at_epoch (cp_epoch (vc_finalized_checkpoint context))) r
        (bcp_root (vc_finalized_checkpoint context)))"

inductive viable :: "viability_context \<Rightarrow> spec_blocks \<Rightarrow> b256 \<Rightarrow> bool" for ctx B where
  leaf: "(\<And>c. \<not> is_child B r c) \<Longrightarrow> leaf_viable ctx B r \<Longrightarrow> viable ctx B r"
| child: "is_child B r c \<Longrightarrow> viable ctx B c \<Longrightarrow> viable ctx B r"

definition spec_balance :: "fork_choice_spec \<Rightarrow> u64 \<Rightarrow> nat" where
  "spec_balance S v =
     (if v \<in> sp_equivocating S then 0
      else case list_get (sp_balances S) (unat v) of None \<Rightarrow> 0 | Some b \<Rightarrow> unat b)"

definition spec_weight :: "fork_choice_spec \<Rightarrow> b256 \<Rightarrow> nat" where
  "spec_weight S r =
     (\<Sum>v | \<exists>x. sp_votes S v = Some x \<and> descends (sp_blocks S) r x. spec_balance S v)
     + (case sp_boost S of None \<Rightarrow> 0
        | Some x \<Rightarrow> if descends (sp_blocks S) r x then unat (sp_score S) else 0)"

text \<open>From a block the walk moves to the viable child with the most weight, ties towards the larger
  root, until no child is viable.\<close>

inductive ghost :: "viability_context \<Rightarrow> spec_blocks \<Rightarrow> (b256 \<Rightarrow> nat) \<Rightarrow> b256 \<Rightarrow> b256 \<Rightarrow> bool"
  for ctx B weight where
  stop: "(\<And>c. is_child B r c \<Longrightarrow> \<not> viable ctx B c) \<Longrightarrow> ghost ctx B weight r r"
| step: "is_child B r c \<Longrightarrow> viable ctx B c \<Longrightarrow>
    (\<And>d. is_child B r d \<Longrightarrow> viable ctx B d \<Longrightarrow> (weight d, d) \<le> (weight c, c)) \<Longrightarrow>
    ghost ctx B weight c h \<Longrightarrow> ghost ctx B weight r h"

definition spec_head :: "fork_choice_spec \<Rightarrow> b256 \<Rightarrow> bool" where
  "spec_head S = ghost (sp_context S) (sp_blocks S) (spec_weight S)
     (bcp_root (vc_justified_checkpoint (sp_context S)))"

lemma ghost_unique: "ghost ctx B w r h \<Longrightarrow> ghost ctx B w r k \<Longrightarrow> k = h"
proof (induction arbitrary: k rule: ghost.induct)
  case (stop r)
  then show ?case by (auto elim: ghost.cases)
next
  case (step r c h)
  from step.prems show ?case
  proof (cases rule: ghost.cases)
    case stop
    with step.hyps show ?thesis by blast
  next
    case (step d)
    have "(w d, d) \<le> (w c, c)" by (rule step.hyps(3) [OF step(1) step(2)])
    moreover have "(w c, c) \<le> (w d, d)" by (rule step(3) [OF step.hyps(1) step.hyps(2)])
    ultimately have "(w d, d) = (w c, c)" by (rule antisym)
    then have "d = c" by simp
    with step(4) step.IH show ?thesis by blast
  qed
qed

section \<open>Operations\<close>

datatype tree_op =
    Insert fork_choice_block
  | Votes "(u64 \<times> b256) list"
  | Equivocating "u64 list"
  | Balances beacon_checkpoint "u64 list" u64
  | Boost "b256 option"
  | Context viability_context
  | Prune b256

definition spec_insert :: "fork_choice_block \<Rightarrow> fork_choice_spec \<Rightarrow> beacon_error + fork_choice_spec" where
  "spec_insert b S =
     (if sp_blocks S (fb_root b) \<noteq> None then Inr S
      else case sp_blocks S (fb_parent_root b) of
        None \<Rightarrow> Inl (Anyhow ''parent is not in the tree'')
      | Some p \<Rightarrow>
          if sk_slot p < fb_slot b
          then Inr (S\<lparr> sp_blocks := (sp_blocks S)(fb_root b \<mapsto>
            \<lparr> sk_parent = Some (fb_parent_root b), sk_slot = fb_slot b, sk_justified = fb_justified_checkpoint b,
              sk_unrealized = fb_unrealized_justified_checkpoint b \<rparr>) \<rparr>)
          else Inl (Anyhow ''block slot is not above parent slot''))"

definition spec_vote :: "u64 \<times> b256 \<Rightarrow> fork_choice_spec \<Rightarrow> fork_choice_spec" where
  "spec_vote = (\<lambda>(v, x) S. if v \<in> sp_equivocating S then S else S\<lparr> sp_votes := (sp_votes S)(v \<mapsto> x) \<rparr>)"

definition spec_prune :: "b256 \<Rightarrow> fork_choice_spec \<Rightarrow> beacon_error + fork_choice_spec" where
  "spec_prune r S =
     (if r = sp_root S then Inr S
      else if sp_blocks S r = None then Inl (Anyhow ''new finalized root is not in the tree'')
      else Inr (S\<lparr> sp_root := r,
        sp_blocks := (\<lambda>x. if descends (sp_blocks S) r x
          then map_option (\<lambda>b. if x = r then b\<lparr> sk_parent := None \<rparr> else b) (sp_blocks S x) else None),
        sp_boost := (case sp_boost S of
          Some x \<Rightarrow> if descends (sp_blocks S) r x then Some x else None | None \<Rightarrow> None) \<rparr>))"

fun spec_op :: "tree_op \<Rightarrow> fork_choice_spec \<Rightarrow> beacon_error + fork_choice_spec" where
  "spec_op (Insert b) S = spec_insert b S"
| "spec_op (Votes vs) S = Inr (fold spec_vote vs S)"
| "spec_op (Equivocating ix) S = Inr (S\<lparr> sp_equivocating := sp_equivocating S \<union> set ix \<rparr>)"
| "spec_op (Balances cp bs score) S = Inr (S\<lparr> sp_balances := bs, sp_score := score \<rparr>)"
| "spec_op (Boost r) S = Inr (S\<lparr> sp_boost := r \<rparr>)"
| "spec_op (Context c) S = Inr (S\<lparr> sp_context := c \<rparr>)"
| "spec_op (Prune r) S = spec_prune r S"

definition spec_new :: "fork_choice_block \<Rightarrow> viability_context \<Rightarrow> fork_choice_spec" where
  "spec_new anchor context =
     \<lparr> sp_root = fb_root anchor,
       sp_blocks = [fb_root anchor \<mapsto> \<lparr> sk_parent = None, sk_slot = fb_slot anchor,
         sk_justified = fb_justified_checkpoint anchor,
         sk_unrealized = fb_unrealized_justified_checkpoint anchor \<rparr>],
       sp_context = context, sp_balances = [], sp_score = 0, sp_votes = Map.empty, sp_equivocating = {},
       sp_boost = None \<rparr>"

text \<open>The same operations of the tree, for an iteration order of the maps of weight changes.\<close>

fun run_op :: "delta_order \<Rightarrow> tree_op \<Rightarrow> fork_choice_tree \<Rightarrow> beacon_error + fork_choice_tree" where
  "run_op order (Insert b) t = tree_insert b t"
| "run_op order (Votes vs) t = process_votes order vs t"
| "run_op order (Equivocating ix) t = mark_equivocating order ix t"
| "run_op order (Balances cp bs score) t = set_balances order cp bs score t"
| "run_op order (Boost r) t = set_proposer_boost_root r t"
| "run_op order (Context c) t = update_context c t"
| "run_op order (Prune r) t = tree_prune r t"

text \<open>What the caller has to respect: the balances and the score together are below $2^{63}$, and a block
  is inserted before it is boosted.\<close>

fun op_allowed :: "fork_choice_spec \<Rightarrow> tree_op \<Rightarrow> bool" where
  "op_allowed S (Balances cp bs score) \<longleftrightarrow> sum_list (map unat bs) + unat score < 2 ^ 63"
| "op_allowed S (Insert b) \<longleftrightarrow> sp_blocks S (fb_root b) \<noteq> None \<or> sp_boost S \<noteq> Some (fb_root b)"
| "op_allowed S _ \<longleftrightarrow> True"

section \<open>Chains of ancestors\<close>

inductive chain :: "spec_blocks \<Rightarrow> b256 \<Rightarrow> b256 list \<Rightarrow> bool" for B where
  top: "B x = Some b \<Longrightarrow> sk_parent b = None \<Longrightarrow> chain B x [x]"
| up: "B x = Some b \<Longrightarrow> sk_parent b = Some p \<Longrightarrow> chain B p ps \<Longrightarrow> chain B x (x # ps)"

lemma linked_parent:
  "linked B root \<Longrightarrow> B x = Some b \<Longrightarrow> sk_parent b = Some p \<Longrightarrow> \<exists>c. B p = Some c \<and> sk_slot c < sk_slot b"
  unfolding linked_def by (metis option.inject option.simps(3))

lemma linked_top: "linked B root \<Longrightarrow> B x = Some b \<Longrightarrow> sk_parent b = None \<longleftrightarrow> x = root"
  unfolding linked_def by (metis option.inject option.simps(3))

lemma chain_exists:
  assumes "linked B root" and "B x = Some b"
  shows "\<exists>ps. chain B x ps"
  using assms(2)
proof (induction "unat (sk_slot b)" arbitrary: x b rule: less_induct)
  case less
  show ?case
  proof (cases "sk_parent b")
    case None
    with less.prems show ?thesis by (blast intro: chain.top)
  next
    case (Some p)
    with linked_parent [OF assms(1) less.prems] obtain c where c: "B p = Some c" "sk_slot c < sk_slot b"
      by blast
    with less.hyps [of c p] obtain ps where "chain B p ps" by (auto simp: word_less_nat_alt)
    with less.prems Some show ?thesis by (blast intro: chain.up)
  qed
qed

lemma descends_dom: "descends B r x \<Longrightarrow> B x \<noteq> None"
  by (induction rule: descends.induct) auto

lemma descends_dom_root: "descends B r x \<Longrightarrow> B r \<noteq> None"
  by (induction rule: descends.induct) auto

lemma descends_trans: "descends B x y \<Longrightarrow> descends B r x \<Longrightarrow> descends B r y"
  by (induction rule: descends.induct) (auto intro: descends.step)

lemma descends_child: "is_child B r c \<Longrightarrow> B r \<noteq> None \<Longrightarrow> descends B r c"
  unfolding is_child_def by (blast intro: descends.intros)

lemma chain_set: "chain B x ps \<Longrightarrow> set ps = {r. descends B r x}"
proof (induction rule: chain.induct)
  case (top x b)
  then have "descends B r x \<longleftrightarrow> r = x" for r
    by (auto intro: descends.self elim: descends.cases)
  then show ?case by simp
next
  case (up x b p ps)
  then have "descends B r x \<longleftrightarrow> r = x \<or> descends B r p" for r
    by (auto intro: descends.self descends.step elim: descends.cases)
  with up.IH show ?case by auto
qed

lemma descends_slot:
  assumes "linked B root" and "descends B r x" and "B r = Some b" and "B x = Some c"
  shows "r = x \<or> sk_slot b < sk_slot c"
  using assms(2,3,4)
proof (induction arbitrary: c rule: descends.induct)
  case (step x b' p r)
  then have [simp]: "b' = c" by simp
  obtain d where d: "B p = Some d" "sk_slot d < sk_slot c"
    using linked_parent [OF assms(1) step.prems(2)] step.hyps by auto
  with step.IH [OF step.prems(1) d(1)] step.prems(1) show ?case by auto
qed simp

lemma descends_antisym:
  assumes "linked B root" and "descends B r x" and "descends B x r"
  shows "r = x"
proof -
  obtain b c where "B r = Some b" "B x = Some c"
    using descends_dom [OF assms(2)] descends_dom_root [OF assms(2)] by auto
  with descends_slot [OF assms(1,2)] descends_slot [OF assms(1,3)] show ?thesis by force
qed

lemma descends_to_root: "linked B root \<Longrightarrow> descends B r root \<Longrightarrow> r = root"
  by (erule descends.cases) (auto simp: linked_def)

lemma chain_head: "chain B x ps \<Longrightarrow> \<exists>qs. ps = x # qs"
  by (erule chain.cases) auto

lemma chain_parent: "chain B x ps \<Longrightarrow> B x = Some b \<Longrightarrow> sk_parent b = Some p \<Longrightarrow> p \<in> set ps"
  by (erule chain.cases) (auto dest: chain_head)

lemma chain_distinct:
  assumes "linked B root" and "chain B x ps"
  shows "distinct ps"
  using assms(2)
proof (induction rule: chain.induct)
  case (up x b p ps)
  obtain c where c: "B p = Some c" "sk_slot c < sk_slot b"
    using linked_parent [OF assms(1) up.hyps(1,2)] by blast
  have "\<not> descends B x p"
    using descends_slot [OF assms(1) _ up.hyps(1) c(1)] up.hyps(1) c by auto
  with up.IH chain_set [OF up.hyps(3)] show ?case by simp
qed simp

lemma chain_dom: "chain B x ps \<Longrightarrow> set ps \<subseteq> dom B"
  by (auto simp: chain_set dest: descends_dom_root)

lemma chain_length:
  assumes "linked B root" and "chain B x ps"
  shows "length ps \<le> card (dom B)"
proof -
  have "length ps = card (set ps)" using chain_distinct [OF assms] by (simp add: distinct_card)
  also have "\<dots> \<le> card (dom B)" by (rule card_mono [OF finite chain_dom [OF assms(2)]])
  finally show ?thesis .
qed

lemma ancestor_at_unique: "ancestor_at B slot r a \<Longrightarrow> ancestor_at B slot r a' \<Longrightarrow> a' = a"
proof (induction arbitrary: a' rule: ancestor_at.induct)
  case (stop r b)
  then show ?case by (auto elim: ancestor_at.cases)
next
  case (up r b p a)
  from up.prems show ?case
    by (cases rule: ancestor_at.cases) (use up in \<open>auto simp: not_le\<close>)
qed

end
