(* ===== verification/Beacon_Fork_Caches.thy ===== *)
theory Beacon_Fork_Caches
  imports Beacon_Fork_Spec
begin

text \<open>
  The cached fields of the nodes: under which condition a node is up to date, and that updating nodes
  from the leaves towards the root brings a whole tree up to date. In such a tree the cached fields are
  the viability and the head of the specification.
\<close>

section \<open>The blocks of a tree\<close>

definition skeleton :: "fork_choice_node \<Rightarrow> spec_block" where
  "skeleton n = \<lparr> sk_parent = fn_parent n, sk_slot = fn_slot n, sk_justified = fn_justified_checkpoint n,
     sk_unrealized = fn_unrealized_justified_checkpoint n \<rparr>"

definition blocks_of :: "fork_choice_nodes \<Rightarrow> spec_blocks" where
  "blocks_of N x = map_option skeleton (tbl_get N x)"

lemma skeleton_simps [simp]:
  "sk_parent (skeleton n) = fn_parent n" "sk_slot (skeleton n) = fn_slot n"
  "sk_justified (skeleton n) = fn_justified_checkpoint n"
  "sk_unrealized (skeleton n) = fn_unrealized_justified_checkpoint n"
  by (simp_all add: skeleton_def)

lemma skeleton_updates [simp]:
  "skeleton (n\<lparr> fn_viable := v \<rparr>) = skeleton n" "skeleton (n\<lparr> fn_best_descendant := d \<rparr>) = skeleton n"
  "skeleton (n\<lparr> fn_weight := w \<rparr>) = skeleton n" "skeleton (n\<lparr> fn_children := cs \<rparr>) = skeleton n"
  by (simp_all add: skeleton_def)

lemma blocks_of_Some: "blocks_of N x = Some b \<longleftrightarrow> (\<exists>n. tbl_get N x = Some n \<and> b = skeleton n)"
  by (auto simp: blocks_of_def)

lemma blocks_of_None [simp]: "blocks_of N x = None \<longleftrightarrow> tbl_get N x = None"
  by (simp add: blocks_of_def)

lemma blocks_of_insert:
  "blocks_of (tbl_insert x n N) = (blocks_of N)(x \<mapsto> skeleton n)"
  by (auto simp: blocks_of_def table_simps)

lemma blocks_of_insert_same:
  "tbl_get N x = Some m \<Longrightarrow> skeleton n = skeleton m \<Longrightarrow> blocks_of (tbl_insert x n N) = blocks_of N"
  by (auto simp: blocks_of_def table_simps)

lemma length_nodes: "tbl_wf N \<Longrightarrow> length N = card (dom (blocks_of N))"
proof -
  assume "tbl_wf N"
  then have "length N = card (fst ` set N)"
    using tbl_wf_distinct distinct_card [of "map fst N"] by fastforce
  moreover have "dom (blocks_of N) = fst ` set N"
    by (rule set_eqI) (metis blocks_of_None domIff tbl_get_keys)
  ultimately show ?thesis by simp
qed

definition children_ok :: "fork_choice_nodes \<Rightarrow> bool" where
  "children_ok N \<longleftrightarrow> (\<forall>r n. tbl_get N r = Some n \<longrightarrow>
     distinct (fn_children n) \<and> (\<forall>c. c \<in> set (fn_children n) \<longleftrightarrow> is_child (blocks_of N) r c))"

definition base :: "fork_choice_tree \<Rightarrow> bool" where
  "base t \<longleftrightarrow> tbl_wf (ft_nodes t) \<and> linked (blocks_of (ft_nodes t)) (ft_root t) \<and> children_ok (ft_nodes t)"

lemma base_children:
  "base t \<Longrightarrow> tbl_get (ft_nodes t) r = Some n \<Longrightarrow>
   c \<in> set (fn_children n) \<longleftrightarrow> is_child (blocks_of (ft_nodes t)) r c"
  unfolding base_def children_ok_def by blast

lemma base_children_distinct: "base t \<Longrightarrow> tbl_get (ft_nodes t) r = Some n \<Longrightarrow> distinct (fn_children n)"
  unfolding base_def children_ok_def by blast

lemma base_chain:
  assumes "base t" and "tbl_get (ft_nodes t) x = Some n"
  obtains ps where "chain (blocks_of (ft_nodes t)) x ps" "length ps \<le> length (ft_nodes t)" "distinct ps"
proof -
  have linked: "linked (blocks_of (ft_nodes t)) (ft_root t)" and wf: "tbl_wf (ft_nodes t)"
    using assms(1) by (auto simp: base_def)
  obtain ps where ps: "chain (blocks_of (ft_nodes t)) x ps"
    using chain_exists [OF linked] assms(2) by (auto simp: blocks_of_Some)
  show thesis
    by (rule that [OF ps]) (use chain_length [OF linked ps] chain_distinct [OF linked ps] length_nodes [OF wf] in auto)
qed

section \<open>Walks\<close>

lemma checkpoint_block_loop_correct:
  "chain (blocks_of N) x ps \<Longrightarrow> length ps \<le> fuel \<Longrightarrow>
   \<exists>a. checkpoint_block_loop fuel N x slot = Inr a \<and> ancestor_at (blocks_of N) slot x a"
proof (induction arbitrary: fuel rule: chain.induct)
  case (top x b)
  then obtain n k where "tbl_get N x = Some n" "b = skeleton n" "fuel = Suc k"
    by (cases fuel) (auto simp: blocks_of_Some)
  with top show ?case by (auto intro: ancestor_at.stop)
next
  case (up x b p ps)
  then obtain n k where n: "tbl_get N x = Some n" "b = skeleton n" "fuel = Suc k"
    by (cases fuel) (auto simp: blocks_of_Some)
  show ?case
  proof (cases "fn_slot n \<le> slot")
    case True
    with up n show ?thesis by (auto intro: ancestor_at.stop)
  next
    case False
    from up.IH [of k] up.prems n obtain a
      where "checkpoint_block_loop k N p slot = Inr a" "ancestor_at (blocks_of N) slot p a" by auto
    with up.hyps n False show ?thesis by (auto intro: ancestor_at.up)
  qed
qed

lemma checkpoint_block_correct:
  assumes "base t" and "tbl_get (ft_nodes t) x = Some n"
  shows "\<exists>a. checkpoint_block (ft_nodes t) x slot = Inr a \<and> ancestor_at (blocks_of (ft_nodes t)) slot x a"
proof -
  obtain ps where "chain (blocks_of (ft_nodes t)) x ps" "length ps \<le> length (ft_nodes t)"
    using base_chain [OF assms] .
  then show ?thesis
    unfolding checkpoint_block_def by (intro checkpoint_block_loop_correct) auto
qed

lemma ancestor_loop_correct:
  "chain (blocks_of N) x ps \<Longrightarrow> length ps \<le> fuel \<Longrightarrow>
   \<exists>a b. ancestor_at (blocks_of N) slot x a \<and> blocks_of N a = Some b \<and>
     ancestor_loop fuel N x slot = Inr (if sk_slot b \<le> slot then Some a else None)"
proof (induction arbitrary: fuel rule: chain.induct)
  case (top x b)
  then obtain n k where "tbl_get N x = Some n" "b = skeleton n" "fuel = Suc k"
    by (cases fuel) (auto simp: blocks_of_Some)
  with top show ?case by (intro exI [of _ x] exI [of _ b]) (auto intro: ancestor_at.stop)
next
  case (up x b p ps)
  then obtain n k where n: "tbl_get N x = Some n" "b = skeleton n" "fuel = Suc k"
    by (cases fuel) (auto simp: blocks_of_Some)
  show ?case
  proof (cases "fn_slot n \<le> slot")
    case True
    with up n show ?thesis by (intro exI [of _ x] exI [of _ b]) (auto intro: ancestor_at.stop)
  next
    case False
    from up.IH [of k] up.prems n obtain a c where "ancestor_at (blocks_of N) slot p a" "blocks_of N a = Some c"
      "ancestor_loop k N p slot = Inr (if sk_slot c \<le> slot then Some a else None)" by auto
    with up.hyps n False show ?thesis
      by (intro exI [of _ a] exI [of _ c]) (auto intro: ancestor_at.up)
  qed
qed

text \<open>The lookup of an ancestor gives the last block of the chain at or before the slot, if the tree has one.\<close>

lemma tree_ancestor_correct:
  assumes "base t"
  shows "\<exists>a. tree_ancestor t x slot = Inr a \<and> (\<forall>r. a = Some r \<longleftrightarrow>
    ancestor_at (blocks_of (ft_nodes t)) slot x r \<and> (\<exists>b. blocks_of (ft_nodes t) r = Some b \<and> sk_slot b \<le> slot))"
proof (cases "tbl_get (ft_nodes t) x")
  case None
  then show ?thesis
    by (auto simp: tree_ancestor_def blocks_of_def elim: ancestor_at.cases)
next
  case (Some n)
  let ?B = "blocks_of (ft_nodes t)"
  obtain ps where ps: "chain ?B x ps" "length ps \<le> length (ft_nodes t)"
    using base_chain [OF assms Some] .
  from ancestor_loop_correct [OF ps(1), of "Suc (length (ft_nodes t))" slot] ps(2) obtain a b where
    a: "ancestor_at ?B slot x a" "?B a = Some b"
      "tree_ancestor t x slot = Inr (if sk_slot b \<le> slot then Some a else None)"
    unfolding tree_ancestor_def by auto
  have "ancestor_at ?B slot x y \<longleftrightarrow> y = a" for y using a(1) ancestor_at_unique by blast
  with a(2,3) show ?thesis by auto
qed

lemma is_leaf_viable_eq:
  assumes "base t" and "tbl_get (ft_nodes t) x = Some n"
  shows "is_leaf_viable ctx (ft_nodes t) x n = Inr (leaf_viable ctx (blocks_of (ft_nodes t)) x)"
proof -
  let ?slot = "compute_start_slot_at_epoch (cp_epoch (vc_finalized_checkpoint ctx))"
  obtain a where a: "checkpoint_block (ft_nodes t) x ?slot = Inr a" "ancestor_at (blocks_of (ft_nodes t)) ?slot x a"
    using checkpoint_block_correct [OF assms] by blast
  have "ancestor_at (blocks_of (ft_nodes t)) ?slot x y \<longleftrightarrow> y = a" for y
    using a(2) ancestor_at_unique by blast
  moreover have "voting_source ctx n = spec_source ctx (skeleton n)"
    by (simp add: voting_source_def spec_source_def)
  ultimately show ?thesis
    using a(1) assms(2) by (auto simp: is_leaf_viable_def leaf_viable_def blocks_of_Some Let_def)
qed

section \<open>Nodes that are up to date\<close>

definition outcome :: "viability_context \<Rightarrow> fork_choice_nodes \<Rightarrow> b256 \<Rightarrow> fork_choice_node \<Rightarrow> bool \<times> b256" where
  "outcome ctx N r n =
     (if fn_children n = [] then (leaf_viable ctx (blocks_of N) r, r)
      else case best_child N (fn_children n) of Some best \<Rightarrow> (True, best) | None \<Rightarrow> (False, r))"

lemma node_outcome_eq:
  "base t \<Longrightarrow> tbl_get (ft_nodes t) r = Some n \<Longrightarrow>
   node_outcome ctx (ft_nodes t) r n = Inr (outcome ctx (ft_nodes t) r n)"
  by (auto simp: node_outcome_def outcome_def is_leaf_viable_eq split: option.split)

lemma best_child_cong:
  assumes "\<And>c. c \<in> set cs \<Longrightarrow> tbl_get N c = tbl_get N' c"
  shows "best_child N cs = best_child N' cs"
proof -
  have "List.map_filter (\<lambda>child. map_option (Pair child) (tbl_get N child)) cs
      = List.map_filter (\<lambda>child. map_option (Pair child) (tbl_get N' child)) cs"
    using assms by (induction cs) (simp_all add: List.map_filter_simps split: option.split)
  then show ?thesis by (simp add: best_child_def viable_children_def)
qed

lemma outcome_cong:
  "blocks_of N = blocks_of N' \<Longrightarrow> (\<And>c. c \<in> set (fn_children n) \<Longrightarrow> tbl_get N c = tbl_get N' c)
   \<Longrightarrow> outcome ctx N r n = outcome ctx N' r n"
  unfolding outcome_def using best_child_cong [of "fn_children n" N N'] by simp

lemma outcome_rest:
  "outcome ctx N r (n\<lparr> fn_viable := v, fn_best_descendant := d \<rparr>) = outcome ctx N r n"
  "outcome ctx N r (n\<lparr> fn_weight := w \<rparr>) = outcome ctx N r n"
  by (simp_all add: outcome_def)

definition unsettled :: "fork_choice_tree \<Rightarrow> b256 set" where
  "unsettled t = {r. \<exists>n. tbl_get (ft_nodes t) r = Some n
     \<and> (fn_viable n, fn_best_descendant n) \<noteq> outcome (ft_context t) (ft_nodes t) r n}"

text \<open>Changes that leave the links, and those that leave the weights as well.\<close>

definition relinked :: "fork_choice_nodes \<Rightarrow> fork_choice_nodes \<Rightarrow> bool" where
  "relinked N N' \<longleftrightarrow> tbl_wf N' \<and>
     (\<forall>x. map_option (\<lambda>n. (skeleton n, fn_children n)) (tbl_get N' x)
        = map_option (\<lambda>n. (skeleton n, fn_children n)) (tbl_get N x))"

definition same_links :: "fork_choice_tree \<Rightarrow> fork_choice_tree \<Rightarrow> bool" where
  "same_links t t' \<longleftrightarrow> (\<exists>N. relinked (ft_nodes t) N \<and> t' = t\<lparr> ft_nodes := N \<rparr>)"

definition recached :: "fork_choice_tree \<Rightarrow> fork_choice_tree \<Rightarrow> bool" where
  "recached t t' \<longleftrightarrow> same_links t t' \<and>
     (\<forall>x. map_option fn_weight (tbl_get (ft_nodes t') x) = map_option fn_weight (tbl_get (ft_nodes t) x))"

lemma same_linksI: "relinked (ft_nodes t) N \<Longrightarrow> same_links t (t\<lparr> ft_nodes := N \<rparr>)"
  by (auto simp: same_links_def)

lemma same_links_refl: "base t \<Longrightarrow> same_links t t"
  unfolding same_links_def by (rule exI [of _ "ft_nodes t"]) (simp add: relinked_def base_def)

lemma same_links_trans: "same_links t u \<Longrightarrow> same_links u v \<Longrightarrow> same_links t v"
  unfolding same_links_def relinked_def by fastforce

lemma recached_refl: "base t \<Longrightarrow> recached t t"
  by (simp add: recached_def same_links_refl)

lemma recached_trans: "recached t u \<Longrightarrow> recached u v \<Longrightarrow> recached t v"
  unfolding recached_def using same_links_trans by metis

lemma same_links_wf: "same_links t t' \<Longrightarrow> tbl_wf (ft_nodes t')"
  by (auto simp: same_links_def relinked_def)

lemma same_links_get:
  "same_links t t' \<Longrightarrow> map_option (\<lambda>n. (skeleton n, fn_children n)) (tbl_get (ft_nodes t') x)
     = map_option (\<lambda>n. (skeleton n, fn_children n)) (tbl_get (ft_nodes t) x)"
  by (auto simp: same_links_def relinked_def)

lemma same_links_node:
  assumes "same_links t t'" and "tbl_get (ft_nodes t) x = Some n"
  obtains m where "tbl_get (ft_nodes t') x = Some m" "skeleton m = skeleton n" "fn_children m = fn_children n"
proof -
  have "map_option (\<lambda>n. (skeleton n, fn_children n)) (tbl_get (ft_nodes t') x) = Some (skeleton n, fn_children n)"
    using same_links_get [OF assms(1), of x] assms(2) by simp
  then show thesis using that by auto
qed

lemma same_links_blocks: "same_links t t' \<Longrightarrow> blocks_of (ft_nodes t') = blocks_of (ft_nodes t)"
proof
  fix x
  assume links: "same_links t t'"
  have "map_option fst (map_option (\<lambda>n. (skeleton n, fn_children n)) (tbl_get (ft_nodes t') x))
      = map_option fst (map_option (\<lambda>n. (skeleton n, fn_children n)) (tbl_get (ft_nodes t) x))"
    by (simp only: same_links_get [OF links])
  then show "blocks_of (ft_nodes t') x = blocks_of (ft_nodes t) x"
    by (simp add: blocks_of_def option.map_comp comp_def)
qed

lemma same_links_fields:
  assumes "same_links t t'"
  shows "ft_root t' = ft_root t" "ft_context t' = ft_context t" "ft_balances t' = ft_balances t"
    "ft_proposer_score t' = ft_proposer_score t" "ft_votes t' = ft_votes t"
    "ft_pending_weight t' = ft_pending_weight t" "ft_equivocating t' = ft_equivocating t" "ft_boost t' = ft_boost t"
  using assms by (auto simp: same_links_def)

lemma same_links_base:
  assumes "same_links t t'" and "base t"
  shows "base t'"
proof -
  have "children_ok (ft_nodes t')"
    unfolding children_ok_def
  proof (intro allI impI)
    fix r n assume n: "tbl_get (ft_nodes t') r = Some n"
    have "map_option (\<lambda>n. (skeleton n, fn_children n)) (tbl_get (ft_nodes t) r) = Some (skeleton n, fn_children n)"
      using same_links_get [OF assms(1), of r] n by simp
    then obtain m where m: "tbl_get (ft_nodes t) r = Some m" "fn_children m = fn_children n" by auto
    show "distinct (fn_children n) \<and> (\<forall>c. c \<in> set (fn_children n) \<longleftrightarrow> is_child (blocks_of (ft_nodes t')) r c)"
      using base_children [OF assms(2) m(1)] base_children_distinct [OF assms(2) m(1)] m(2)
        same_links_blocks [OF assms(1)] by simp
  qed
  with assms(2) same_links_wf [OF assms(1)] same_links_blocks [OF assms(1)] same_links_fields(1) [OF assms(1)]
  show ?thesis by (simp add: base_def)
qed

section \<open>Updating nodes\<close>

lemma update_node_settles:
  assumes "base t" and n: "tbl_get (ft_nodes t) r = Some n"
  shows "\<exists>t'. update_node r t = Inr t' \<and> recached t t' \<and>
    unsettled t' \<subseteq> unsettled t - {r} \<union> {p. fn_parent n = Some p}"
proof -
  obtain v d where out: "outcome (ft_context t) (ft_nodes t) r n = (v, d)" by force
  let ?n = "n\<lparr> fn_viable := v, fn_best_descendant := d \<rparr>"
  let ?N = "tbl_insert r ?n (ft_nodes t)"
  let ?t = "t\<lparr> ft_nodes := ?N \<rparr>"
  have blocks: "blocks_of ?N = blocks_of (ft_nodes t)"
    by (rule blocks_of_insert_same [OF n]) simp
  have upd: "update_node r t = Inr ?t"
    by (simp add: update_node_def n node_outcome_eq [OF assms] out)
  have "same_links t ?t"
    by (rule same_linksI) (use assms in \<open>auto simp: relinked_def base_def table_simps\<close>)
  then have "recached t ?t"
    using n by (auto simp: recached_def table_simps)
  moreover have "unsettled ?t \<subseteq> unsettled t - {r} \<union> {p. fn_parent n = Some p}"
  proof
    fix q assume "q \<in> unsettled ?t"
    then obtain m where m: "tbl_get ?N q = Some m"
      and bad: "(fn_viable m, fn_best_descendant m) \<noteq> outcome (ft_context t) ?N q m"
      by (auto simp: unsettled_def)
    obtain m' where m': "tbl_get (ft_nodes t) q = Some m'" "fn_children m' = fn_children m"
      using m n by (auto simp: table_simps split: if_splits)
    have kids: "c \<in> set (fn_children m) \<longleftrightarrow> is_child (blocks_of (ft_nodes t)) q c" for c
      using base_children [OF assms(1) m'(1)] m'(2) by simp
    show "q \<in> unsettled t - {r} \<union> {p. fn_parent n = Some p}"
    proof (cases "r \<in> set (fn_children m)")
      case True
      then have "fn_parent n = Some q" using kids [of r] n by (auto simp: is_child_def blocks_of_Some)
      then show ?thesis by simp
    next
      case False
      have same: "outcome (ft_context t) ?N q m = outcome (ft_context t) (ft_nodes t) q m"
        by (rule outcome_cong) (use False blocks in \<open>auto simp: table_simps\<close>)
      have "q \<noteq> r"
        using bad same out m by (auto simp: table_simps outcome_rest)
      with m bad same show ?thesis by (auto simp: unsettled_def table_simps)
    qed
  qed
  ultimately show ?thesis using upd by blast
qed

text \<open>Nodes listed so that the parent of each comes later, or is none.\<close>

fun upwards :: "spec_blocks \<Rightarrow> b256 list \<Rightarrow> bool" where
  "upwards B [] = True"
| "upwards B (x # xs) \<longleftrightarrow> (\<exists>b. B x = Some b \<and> (\<forall>p. sk_parent b = Some p \<longrightarrow> p \<in> set xs)) \<and> upwards B xs"

lemma chain_upwards: "chain B x ps \<Longrightarrow> upwards B ps"
  by (induction rule: chain.induct) (auto dest: chain_head)

lemma update_nodes_settle:
  assumes "base t" and "upwards (blocks_of (ft_nodes t)) rs" and "unsettled t \<subseteq> set rs"
  shows "\<exists>t'. update_nodes rs t = Inr t' \<and> recached t t' \<and> unsettled t' = {}"
  using assms
proof (induction rs arbitrary: t)
  case Nil
  then show ?case by (auto simp: update_nodes_def recached_refl)
next
  case (Cons r rs)
  then obtain n where n: "tbl_get (ft_nodes t) r = Some n" and up: "\<forall>p. fn_parent n = Some p \<longrightarrow> p \<in> set rs"
    by (auto simp: blocks_of_Some)
  obtain u where u: "update_node r t = Inr u" "recached t u"
    and un: "unsettled u \<subseteq> unsettled t - {r} \<union> {p. fn_parent n = Some p}"
    using update_node_settles [OF Cons.prems(1) n] by blast
  have links: "same_links t u" using u(2) by (simp add: recached_def)
  have "\<exists>t'. update_nodes rs u = Inr t' \<and> recached u t' \<and> unsettled t' = {}"
    by (rule Cons.IH)
      (use Cons.prems un up same_links_base [OF links] same_links_blocks [OF links] in auto)
  with u show ?case by (auto simp: update_nodes_def intro: recached_trans)
qed

lemma ancestors_loop_eq:
  "chain (blocks_of (ft_nodes t)) x ps \<Longrightarrow> base t \<Longrightarrow> length ps < fuel \<Longrightarrow>
   ancestors_loop fuel (Some x) t = update_nodes ps t"
proof (induction ps arbitrary: x t fuel)
  case Nil
  then show ?case by (auto dest: chain_head)
next
  case (Cons q ps)
  then have q: "q = x" by (auto dest: chain_head)
  obtain k where fuel: "fuel = Suc k" using Cons.prems(3) by (cases fuel) auto
  from Cons.prems(1) show ?case
  proof (cases rule: chain.cases)
    case (top b)
    then obtain n where "tbl_get (ft_nodes t) x = Some n" "fn_parent n = None" by (auto simp: blocks_of_Some)
    moreover obtain j where "k = Suc j" using Cons.prems(3) fuel by (cases k) auto
    ultimately show ?thesis
      using top fuel by (auto simp: update_nodes_def and_then_def split: sum.splits)
  next
    case (up b p)
    then obtain n where n: "tbl_get (ft_nodes t) x = Some n" "fn_parent n = Some p" by (auto simp: blocks_of_Some)
    obtain u where u: "update_node x t = Inr u" "recached t u"
      using update_node_settles [OF Cons.prems(2) n(1)] by blast
    then have links: "same_links t u" by (simp add: recached_def)
    have "ancestors_loop k (Some p) u = update_nodes ps u"
      by (rule Cons.IH)
        (use up Cons.prems fuel same_links_blocks [OF links] same_links_base [OF links] in auto)
    with u n q fuel show ?thesis by (simp add: update_nodes_def)
  qed
qed

lemma update_ancestors_settles:
  assumes "base t" and "chain (blocks_of (ft_nodes t)) x ps" and "unsettled t \<subseteq> set ps"
  shows "\<exists>t'. update_ancestors x t = Inr t' \<and> recached t t' \<and> unsettled t' = {}"
proof -
  have "length ps \<le> length (ft_nodes t)"
    using chain_length [OF _ assms(2)] assms(1) length_nodes by (auto simp: base_def)
  then have "update_ancestors x t = update_nodes ps t"
    unfolding update_ancestors_def by (intro ancestors_loop_eq) (use assms in auto)
  then show ?thesis
    using update_nodes_settle [OF assms(1) chain_upwards [OF assms(2)] assms(3)] by simp
qed

lemma descending_upwards:
  assumes "linked B root" and "sorted_wrt (\<lambda>p q. q < p) ps"
    and "\<And>s r. (s, r) \<in> set ps \<Longrightarrow> \<exists>b. B r = Some b \<and> s = sk_slot b"
    and "\<And>s r b p c. (s, r) \<in> set ps \<Longrightarrow> B r = Some b \<Longrightarrow> sk_parent b = Some p \<Longrightarrow> B p = Some c
      \<Longrightarrow> (sk_slot c, p) \<in> set ps"
  shows "upwards B (map snd ps)"
proof -
  have "upwards B (map snd qs)"
    if "sorted_wrt (\<lambda>p q. q < p) qs" "\<And>s r. (s, r) \<in> set qs \<Longrightarrow> \<exists>b. B r = Some b \<and> s = sk_slot b"
      "\<And>s r b p c. (s, r) \<in> set qs \<Longrightarrow> B r = Some b \<Longrightarrow> sk_parent b = Some p \<Longrightarrow> B p = Some c
        \<Longrightarrow> (sk_slot c, p) \<in> set qs" for qs
    using that
  proof (induction qs)
    case (Cons a qs)
    obtain s r where a: "a = (s, r)" by force
    obtain b where b: "B r = Some b" "s = sk_slot b" using Cons.prems(2) [of s r] a by auto
    have "p \<in> snd ` set qs" if parent: "sk_parent b = Some p" for p
    proof -
      obtain c where c: "B p = Some c" "sk_slot c < sk_slot b"
        using linked_parent [OF assms(1) b(1) parent] by blast
      have "(sk_slot c, p) \<in> set (a # qs)" by (rule Cons.prems(3) [of s r, OF _ b(1) parent c(1)]) (simp add: a)
      with c a b have "(sk_slot c, p) \<in> set qs" by auto
      then show ?thesis by force
    qed
    moreover have "upwards B (map snd qs)"
    proof (rule Cons.IH)
      fix s' r' b' p c
      assume *: "(s', r') \<in> set qs" "B r' = Some b'" "sk_parent b' = Some p" "B p = Some c"
      have "(sk_slot c, p) \<in> set (a # qs)" by (rule Cons.prems(3) [of s' r', OF _ *(2-4)]) (use *(1) in simp)
      moreover have "(sk_slot c, p) \<noteq> a"
      proof
        assume "(sk_slot c, p) = a"
        then have "(s', r') < (sk_slot c, p)" using Cons.prems(1) *(1) by auto
        moreover have "s' = sk_slot b'" using Cons.prems(2) [of s' r'] * by auto
        moreover have "sk_slot c < sk_slot b'" using linked_parent [OF assms(1) *(2,3)] *(4) by auto
        ultimately show False by auto
      qed
      ultimately show "(sk_slot c, p) \<in> set qs" by auto
    qed (use Cons.prems in auto)
    ultimately show ?case using b a by auto
  qed simp
  then show ?thesis using assms by blast
qed

lemma recompute_all_settles:
  assumes "base t"
  shows "\<exists>t'. recompute_all t = Inr t' \<and> recached t t' \<and> unsettled t' = {}"
proof -
  let ?keys = "map (\<lambda>(r, n). (fn_slot n, r)) (ft_nodes t)"
  have wf: "tbl_wf (ft_nodes t)" and linked: "linked (blocks_of (ft_nodes t)) (ft_root t)"
    using assms by (auto simp: base_def)
  have dist: "distinct (map fst (ft_nodes t))" using wf by (rule tbl_wf_distinct)
  have "map snd ?keys = map fst (ft_nodes t)" by (simp add: case_prod_beta)
  with dist have "distinct ?keys" by (metis distinct_map)
  then have "sorted_wrt (<) (sort ?keys)"
    by (simp add: strict_sorted_iff)
  then have order: "sorted_wrt (\<lambda>p q. q < p) (rev (sort ?keys))"
    by (simp add: sorted_wrt_rev)
  have mem: "(s, r) \<in> set (rev (sort ?keys)) \<longleftrightarrow> (\<exists>n. tbl_get (ft_nodes t) r = Some n \<and> s = fn_slot n)" for s r
    by (simp add: map_of_eq_Some_iff [OF dist] image_iff Bex_def)
  have "upwards (blocks_of (ft_nodes t)) (map snd (rev (sort ?keys)))"
    by (rule descending_upwards [OF linked order]) (unfold mem blocks_of_Some, auto)
  moreover have "unsettled t \<subseteq> set (map snd (rev (sort ?keys)))"
  proof
    fix r assume "r \<in> unsettled t"
    then obtain n where "tbl_get (ft_nodes t) r = Some n" by (auto simp: unsettled_def)
    with mem have "(fn_slot n, r) \<in> set (rev (sort ?keys))" by blast
    then show "r \<in> set (map snd (rev (sort ?keys)))" by force
  qed
  ultimately show ?thesis
    unfolding recompute_all_def Let_def by (rule update_nodes_settle [OF assms])
qed

section \<open>The caches of a settled tree\<close>

lemma max_by_key_Nil [simp]: "max_by_key key [] = None"
  by (simp add: max_by_key_def)

lemma max_by_key_fold:
  fixes key :: "'x \<Rightarrow> 'k::linorder"
  shows "\<exists>x. foldl (\<lambda>best x. case best of None \<Rightarrow> Some x | Some b \<Rightarrow> if key b \<le> key x then Some x else Some b) (Some b) xs
     = Some x \<and> x \<in> insert b (set xs) \<and> (\<forall>y \<in> insert b (set xs). key y \<le> key x)"
proof (induction xs arbitrary: b)
  case (Cons a xs)
  show ?case
  proof (cases "key b \<le> key a")
    case True
    from Cons [of a] obtain x where x: "foldl (\<lambda>best x. case best of None \<Rightarrow> Some x
        | Some b \<Rightarrow> if key b \<le> key x then Some x else Some b) (Some a) xs = Some x"
      "x \<in> insert a (set xs)" "\<forall>y \<in> insert a (set xs). key y \<le> key x" by blast
    moreover have "key b \<le> key x" by (rule order_trans [OF True]) (use x(3) in simp)
    ultimately show ?thesis using True by auto
  next
    case False
    from Cons [of b] obtain x where x: "foldl (\<lambda>best x. case best of None \<Rightarrow> Some x
        | Some b \<Rightarrow> if key b \<le> key x then Some x else Some b) (Some b) xs = Some x"
      "x \<in> insert b (set xs)" "\<forall>y \<in> insert b (set xs). key y \<le> key x" by blast
    moreover have "key a \<le> key x" by (rule order_trans [of _ "key b"]) (use False x(3) in auto)
    ultimately show ?thesis using False by auto
  qed
qed simp

lemma max_by_key_max:
  assumes "xs \<noteq> []"
  shows "\<exists>x. max_by_key key xs = Some x \<and> x \<in> set xs \<and> (\<forall>y \<in> set xs. key y \<le> key x)"
proof (cases xs)
  case (Cons a as)
  with max_by_key_fold [of key a as] show ?thesis by (simp add: max_by_key_def)
qed (use assms in simp)

lemma set_viable_children:
  "(c, m) \<in> set (viable_children N cs) \<longleftrightarrow> c \<in> set cs \<and> tbl_get N c = Some m \<and> fn_viable m"
  by (induction cs) (auto simp: viable_children_def List.map_filter_simps split: option.split)

definition node_weight :: "fork_choice_nodes \<Rightarrow> b256 \<Rightarrow> nat" where
  "node_weight N x = (case tbl_get N x of None \<Rightarrow> 0 | Some n \<Rightarrow> unat (fn_weight n))"

lemma settled_node:
  assumes "base t" and "unsettled t = {}" and "tbl_get (ft_nodes t) r = Some n"
  shows "(fn_viable n, fn_best_descendant n) = outcome (ft_context t) (ft_nodes t) r n"
  using assms by (auto simp: unsettled_def)

lemma settled_caches:
  assumes "base t" and "unsettled t = {}" and "tbl_get (ft_nodes t) r = Some n"
  shows "(fn_viable n \<longleftrightarrow> viable (ft_context t) (blocks_of (ft_nodes t)) r)
    \<and> ghost (ft_context t) (blocks_of (ft_nodes t)) (node_weight (ft_nodes t)) r (fn_best_descendant n)"
  using assms(3)
proof (induction "2 ^ 64 - unat (fn_slot n)" arbitrary: r n rule: less_induct)
  case less
  let ?B = "blocks_of (ft_nodes t)" and ?N = "ft_nodes t" and ?w = "node_weight (ft_nodes t)"
  have out: "(fn_viable n, fn_best_descendant n) = outcome (ft_context t) ?N r n"
    by (rule settled_node [OF assms(1,2) less.prems])
  have kids: "c \<in> set (fn_children n) \<longleftrightarrow> is_child ?B r c" for c
    by (rule base_children [OF assms(1) less.prems])
  have IH: "(fn_viable m \<longleftrightarrow> viable (ft_context t) ?B c) \<and> ghost (ft_context t) ?B ?w c (fn_best_descendant m)"
    if child: "is_child ?B r c" and m: "tbl_get ?N c = Some m" for c m
  proof (rule less.hyps [OF _ m])
    have "fn_parent m = Some r" using child m by (auto simp: is_child_def blocks_of_Some)
    moreover have "linked ?B (ft_root t)" using assms(1) by (simp add: base_def)
    ultimately have "fn_slot n < fn_slot m"
      using linked_parent [of ?B "ft_root t" c "skeleton m" r] less.prems m by (auto simp: blocks_of_Some)
    then have "unat (fn_slot n) < unat (fn_slot m)" by (simp add: word_less_nat_alt)
    with unat_bound [of "fn_slot m"] show "2 ^ 64 - unat (fn_slot m) < 2 ^ 64 - unat (fn_slot n)" by simp
  qed
  have node: "\<exists>m. tbl_get ?N c = Some m" if "is_child ?B r c" for c
    using that by (auto simp: is_child_def blocks_of_Some)
  have listed: "(\<exists>m. (c, m) \<in> set (viable_children ?N (fn_children n))) \<longleftrightarrow>
      is_child ?B r c \<and> viable (ft_context t) ?B c" for c
    unfolding set_viable_children kids using IH [of c] node [of c] by (cases "is_child ?B r c") auto
  show ?case
  proof (cases "fn_children n = []")
    case True
    then have none: "\<not> is_child ?B r c" for c using kids [of c] by simp
    then have "viable (ft_context t) ?B r \<longleftrightarrow> leaf_viable (ft_context t) ?B r"
      by (subst viable.simps) simp
    moreover have "ghost (ft_context t) ?B ?w r r" by (rule ghost.stop) (simp add: none)
    ultimately show ?thesis using out True by (simp add: outcome_def)
  next
    case False
    show ?thesis
    proof (cases "viable_children ?N (fn_children n) = []")
      case True
      then have none: "\<not> viable (ft_context t) ?B c" if "is_child ?B r c" for c
        using listed [of c] that by simp
      have "\<not> viable (ft_context t) ?B r"
      proof
        assume "viable (ft_context t) ?B r"
        then show False
        proof (cases rule: viable.cases)
          case leaf
          obtain c where "c \<in> set (fn_children n)" using False by (cases "fn_children n") auto
          with kids [of c] leaf(1) [of c] show False by simp
        next
          case (child c)
          with none [of c] show False by simp
        qed
      qed
      moreover have "ghost (ft_context t) ?B ?w r r" by (rule ghost.stop) (rule none)
      moreover have "outcome (ft_context t) ?N r n = (False, r)"
        using True False by (simp add: outcome_def best_child_def)
      ultimately show ?thesis using out by simp
    next
      case some: False
      let ?key = "\<lambda>(c, m). (fn_weight m, c)"
      obtain x where x: "max_by_key ?key (viable_children ?N (fn_children n)) = Some x"
        "x \<in> set (viable_children ?N (fn_children n))"
        "\<forall>y \<in> set (viable_children ?N (fn_children n)). ?key y \<le> ?key x"
        using max_by_key_max [OF some, of ?key] by (elim exE conjE)
      obtain c m where cm: "x = (c, m)" by force
      have best: "max_by_key ?key (viable_children ?N (fn_children n)) = Some (c, m)"
        and mem: "(c, m) \<in> set (viable_children ?N (fn_children n))"
        using x(1,2) by (simp_all add: cm)
      have mx: "(fn_weight k, d) \<le> (fn_weight m, c)" if "(d, k) \<in> set (viable_children ?N (fn_children n))" for d k
        using bspec [OF x(3) that] by (simp only: cm prod.case)
      have c: "is_child ?B r c" "viable (ft_context t) ?B c" "tbl_get ?N c = Some m"
        using mem listed [of c] by (auto simp only: set_viable_children)
      have le: "(?w d, d) \<le> (?w c, c)" if d: "is_child ?B r d" "viable (ft_context t) ?B d" for d
      proof -
        obtain k where k: "(d, k) \<in> set (viable_children ?N (fn_children n))"
          using listed [of d] d by blast
        have "tbl_get ?N d = Some k" using k by (simp only: set_viable_children)
        with mx [OF k] c(3) show ?thesis
          by (auto simp: node_weight_def word_le_nat_alt word_less_nat_alt)
      qed
      have "ghost (ft_context t) ?B ?w r (fn_best_descendant m)"
        by (rule ghost.step [OF c(1,2) _ conjunct2 [OF IH [OF c(1,3)]]]) (rule le)
      moreover have "viable (ft_context t) ?B r" by (rule viable.child [OF c(1,2)])
      moreover have "outcome (ft_context t) ?N r n = (True, fn_best_descendant m)"
        using False best by (simp add: outcome_def best_child_def)
      ultimately show ?thesis using out by simp
    qed
  qed
qed

end
