(* ===== verification/Beacon_Fork_Weights.thy ===== *)
theory Beacon_Fork_Weights
  imports Beacon_Fork_Caches
begin

text \<open>
  Weights. Every block has a share, the balances of the votes for it and the proposer boost; the weight
  of a node is the sum of the shares of its subtree. Shares of blocks that are not in the tree are parked
  aside. Applying a map of changes, in any order, moves the weights from one function of shares to
  another.
\<close>

section \<open>Changing the share of a block\<close>

definition carries :: "fork_choice_tree \<Rightarrow> (b256 \<Rightarrow> nat) \<Rightarrow> bool" where
  "carries t f \<longleftrightarrow> (\<forall>r n. tbl_get (ft_nodes t) r = Some n \<longrightarrow>
     unat (fn_weight n) = (\<Sum>x | descends (blocks_of (ft_nodes t)) r x. f x))"

lemma carries_recached:
  assumes "recached t t'" and "carries t f"
  shows "carries t' f"
  unfolding carries_def
proof (intro allI impI)
  fix r n assume n: "tbl_get (ft_nodes t') r = Some n"
  have "map_option fn_weight (tbl_get (ft_nodes t') r) = map_option fn_weight (tbl_get (ft_nodes t) r)"
    using assms(1) unfolding recached_def by blast
  with n obtain m where m: "tbl_get (ft_nodes t) r = Some m" "fn_weight m = fn_weight n"
    by (cases "tbl_get (ft_nodes t) r") auto
  have "blocks_of (ft_nodes t') = blocks_of (ft_nodes t)"
    using assms(1) by (intro same_links_blocks) (simp add: recached_def)
  with assms(2) m show "unat (fn_weight n) = (\<Sum>x | descends (blocks_of (ft_nodes t')) r x. f x)"
    unfolding carries_def by metis
qed

lemma unat_apply_signed:
  assumes "0 \<le> uint v + d" and "uint v + d < 2 ^ 64"
  shows "int (unat (apply_signed v d)) = uint v + d"
proof -
  have "apply_signed v d = word_of_int (uint v + d)"
    using assms by (simp only: apply_signed_def Let_def max.absorb1 if_True)
  then have "uint (apply_signed v d) = (uint v + d) mod 2 ^ 64"
    by (simp only: uint_word_of_int) (simp add: take_bit_eq_mod)
  with assms have "uint (apply_signed v d) = uint v + d" by (simp only: mod_pos_pos_trivial)
  then show ?thesis by (simp only: uint_nat)
qed

lemma weight_walk_eq:
  assumes "tbl_wf N" and "chain (blocks_of N) x ps" and "distinct ps" and "length ps < fuel"
  shows "\<exists>N'. weight_walk fuel d (Some x) acc N = Inr (acc @ ps, N') \<and> tbl_wf N' \<and>
    (\<forall>r. tbl_get N' r = (if r \<in> set ps
      then map_option (\<lambda>n. n\<lparr> fn_weight := apply_signed (fn_weight n) d \<rparr>) (tbl_get N r) else tbl_get N r))"
  using assms
proof (induction ps arbitrary: x N fuel acc)
  case Nil
  then show ?case by (auto dest: chain_head)
next
  case (Cons q ps)
  then have [simp]: "q = x" by (auto dest: chain_head)
  obtain k where fuel: "fuel = Suc k" using Cons.prems(4) by (cases fuel) auto
  from Cons.prems(2) obtain n where n: "tbl_get N x = Some n" by cases (auto simp: blocks_of_Some)
  let ?N = "tbl_insert x (n\<lparr> fn_weight := apply_signed (fn_weight n) d \<rparr>) N"
  have walk: "weight_walk fuel d (Some x) acc N = weight_walk k d (fn_parent n) (acc @ [x]) ?N"
    using n by (simp add: fuel)
  have blocks: "blocks_of ?N = blocks_of N" by (rule blocks_of_insert_same [OF n]) simp
  from Cons.prems(2) show ?case
  proof (cases rule: chain.cases)
    case (top b)
    then have "fn_parent n = None" "ps = []" using n by (auto simp: blocks_of_Some)
    moreover obtain j where "k = Suc j" using Cons.prems(4) fuel by (cases k) auto
    ultimately show ?thesis using walk n Cons.prems(1) by (auto simp: table_simps)
  next
    case (up b p)
    then have p: "fn_parent n = Some p" using n by (auto simp: blocks_of_Some)
    have "\<exists>N'. weight_walk k d (Some p) (acc @ [x]) ?N = Inr ((acc @ [x]) @ ps, N') \<and> tbl_wf N' \<and>
      (\<forall>r. tbl_get N' r = (if r \<in> set ps
        then map_option (\<lambda>n. n\<lparr> fn_weight := apply_signed (fn_weight n) d \<rparr>) (tbl_get ?N r) else tbl_get ?N r))"
      by (rule Cons.IH) (use up blocks Cons.prems fuel in auto)
    then obtain N' where N': "weight_walk k d (Some p) (acc @ [x]) ?N = Inr (acc @ x # ps, N')" "tbl_wf N'"
      "\<And>r. tbl_get N' r = (if r \<in> set ps
        then map_option (\<lambda>n. n\<lparr> fn_weight := apply_signed (fn_weight n) d \<rparr>) (tbl_get ?N r) else tbl_get ?N r)"
      by auto
    have "x \<notin> set ps" using Cons.prems(3) by simp
    with N' walk p n show ?thesis by (auto simp: table_simps)
  qed
qed

lemma sum_change_share:
  fixes f :: "b256 \<Rightarrow> nat"
  assumes "x \<in> A" and "0 \<le> int (f x) + d"
  shows "int (\<Sum>y \<in> A. (f(x := nat (int (f x) + d))) y) = int (\<Sum>y \<in> A. f y) + d"
proof -
  have "(\<Sum>y \<in> A. (f(x := nat (int (f x) + d))) y) = nat (int (f x) + d) + (\<Sum>y \<in> A - {x}. f y)"
    by (subst sum.remove [OF finite assms(1)]) (auto intro: sum.cong)
  moreover have "(\<Sum>y \<in> A. f y) = f x + (\<Sum>y \<in> A - {x}. f y)"
    by (rule sum.remove [OF finite assms(1)])
  ultimately show ?thesis using assms(2) by simp
qed

lemma sum_other_share: "x \<notin> A \<Longrightarrow> (\<Sum>y \<in> A. (f(x := v)) y) = (\<Sum>y \<in> A. f y)"
  by (auto intro: sum.cong)

lemma reweighted_chain:
  assumes base: "base t" and settled: "unsettled t = {}" and carries: "carries t f"
    and ps: "chain (blocks_of (ft_nodes t)) x ps"
    and low: "0 \<le> int (f x) + d" and high: "int (\<Sum>y \<in> UNIV. f y) + d < 2 ^ 64"
    and wf: "tbl_wf N"
    and N: "\<And>r. tbl_get N r = (if r \<in> set ps
      then map_option (\<lambda>n. n\<lparr> fn_weight := apply_signed (fn_weight n) d \<rparr>) (tbl_get (ft_nodes t) r)
      else tbl_get (ft_nodes t) r)"
  shows "same_links t (t\<lparr> ft_nodes := N \<rparr>)" "unsettled (t\<lparr> ft_nodes := N \<rparr>) \<subseteq> set ps"
    "carries (t\<lparr> ft_nodes := N \<rparr>) (f(x := nat (int (f x) + d)))"
proof -
  let ?B = "blocks_of (ft_nodes t)" and ?t = "t\<lparr> ft_nodes := N \<rparr>"
  have set: "r \<in> set ps \<longleftrightarrow> descends ?B r x" for r using chain_set [OF ps] by simp
  show links: "same_links t ?t"
    by (rule same_linksI) (use wf in \<open>simp add: relinked_def N option.map_comp comp_def\<close>)
  have blocks: "blocks_of N = ?B" using same_links_blocks [OF links] by simp
  show "unsettled ?t \<subseteq> set ps"
  proof
    fix q assume "q \<in> unsettled ?t"
    then obtain m where m: "tbl_get N q = Some m"
      and bad: "(fn_viable m, fn_best_descendant m) \<noteq> outcome (ft_context t) N q m"
      by (auto simp: unsettled_def)
    show "q \<in> set ps"
    proof (rule ccontr)
      assume q: "q \<notin> set ps"
      with m N have m': "tbl_get (ft_nodes t) q = Some m" by simp
      have "outcome (ft_context t) N q m = outcome (ft_context t) (ft_nodes t) q m"
      proof (rule outcome_cong [OF blocks])
        fix c assume "c \<in> set (fn_children m)"
        then have "is_child ?B q c" using base_children [OF base m'] by simp
        then have "descends ?B q c" by (rule descends_child) (simp add: m')
        with q set descends_trans have "c \<notin> set ps" by blast
        then show "tbl_get N c = tbl_get (ft_nodes t) c" using N by simp
      qed
      with bad settled_node [OF base settled m'] show False by simp
    qed
  qed
  show "carries ?t (f(x := nat (int (f x) + d)))"
    unfolding carries_def
  proof (intro allI impI)
    fix r n assume "tbl_get (ft_nodes ?t) r = Some n"
    then have n: "tbl_get N r = Some n" by simp
    let ?A = "{y. descends ?B r y}" and ?f = "f(x := nat (int (f x) + d))"
    define W where "W = (\<Sum>y \<in> ?A. f y)"
    define V where "V = (\<Sum>y \<in> ?A. ?f y)"
    have "W \<le> (\<Sum>y \<in> UNIV. f y)" unfolding W_def by (rule sum_mono2) auto
    with high have bound: "int W + d < 2 ^ 64" by linarith
    have "unat (fn_weight n) = V"
    proof (cases "descends ?B r x")
      case True
      then obtain m where m: "tbl_get (ft_nodes t) r = Some m" "n = m\<lparr> fn_weight := apply_signed (fn_weight m) d \<rparr>"
        using n N set by auto
      have w: "unat (fn_weight m) = W" using carries m(1) by (simp add: carries_def W_def)
      have sum: "int V = int W + d"
        unfolding V_def W_def by (rule sum_change_share) (use True low in auto)
      have u: "uint (fn_weight m) = int W" by (simp only: uint_nat w)
      have "int (unat (apply_signed (fn_weight m) d)) = uint (fn_weight m) + d"
        by (rule unat_apply_signed) (use sum bound u in simp_all)
      then have "int (unat (fn_weight n)) = int V" using m(2) u sum by simp
      then show ?thesis by (simp only: of_nat_eq_iff)
    next
      case False
      then have "tbl_get (ft_nodes t) r = Some n" using n N set by simp
      with carries have "unat (fn_weight n) = W" by (simp add: carries_def W_def)
      also have "W = V" unfolding V_def W_def by (rule sum_other_share [symmetric]) (use False in simp)
      finally show ?thesis .
    qed
    then show "unat (fn_weight n) = (\<Sum>y | descends (blocks_of (ft_nodes ?t)) r y. ?f y)"
      by (simp add: blocks V_def)
  qed
qed

lemma apply_weight_delta_share:
  assumes base: "base t" and settled: "unsettled t = {}" and carries: "carries t f"
    and x: "tree_contains t x"
    and low: "0 \<le> int (f x) + d" and high: "int (\<Sum>y \<in> UNIV. f y) + d < 2 ^ 64"
  shows "\<exists>t'. apply_weight_delta x d t = Inr t' \<and> same_links t t' \<and> unsettled t' = {} \<and>
    carries t' (f(x := nat (int (f x) + d)))"
proof (cases "d = 0")
  case True
  then have "f(x := nat (int (f x) + d)) = f" by simp
  with True assms show ?thesis by (simp add: apply_weight_delta_def same_links_refl)
next
  case False
  obtain n where n: "tbl_get (ft_nodes t) x = Some n" using x by (auto simp: tree_contains_def)
  obtain ps where ps: "chain (blocks_of (ft_nodes t)) x ps" "length ps \<le> length (ft_nodes t)" "distinct ps"
    using base_chain [OF base n] .
  have "tbl_wf (ft_nodes t)" using base by (simp add: base_def)
  from weight_walk_eq [OF this ps(1,3), of "length (ft_nodes t) + 2" d "[]"] ps(2)
  obtain N where N: "weight_walk (length (ft_nodes t) + 2) d (Some x) [] (ft_nodes t) = Inr (ps, N)" "tbl_wf N"
    "\<And>r. tbl_get N r = (if r \<in> set ps
      then map_option (\<lambda>n. n\<lparr> fn_weight := apply_signed (fn_weight n) d \<rparr>) (tbl_get (ft_nodes t) r)
      else tbl_get (ft_nodes t) r)"
    by auto
  note r = reweighted_chain [OF base settled carries ps(1) low high N(2,3)]
  let ?t = "t\<lparr> ft_nodes := N \<rparr>"
  obtain t' where t': "update_nodes ps ?t = Inr t'" "recached ?t t'" "unsettled t' = {}"
    using update_nodes_settle [OF same_links_base [OF r(1) base] _ r(2)] chain_upwards [OF ps(1)]
      same_links_blocks [OF r(1)] by auto
  have "same_links t t'" using r(1) t'(2) by (auto simp: recached_def intro: same_links_trans)
  moreover have "carries t' (f(x := nat (int (f x) + d)))" by (rule carries_recached [OF t'(2) r(3)])
  ultimately show ?thesis using False N(1) t' by (simp add: apply_weight_delta_def)
qed

lemma apply_weight_delta_outside:
  "\<not> tree_contains t x \<Longrightarrow> apply_weight_delta x d t = Inr t"
  by (simp add: apply_weight_delta_def tree_contains_def update_nodes_def)

section \<open>Parked shares\<close>

definition parked :: "fork_choice_tree \<Rightarrow> (b256 \<Rightarrow> nat) \<Rightarrow> bool" where
  "parked t f \<longleftrightarrow> tbl_wf (ft_pending_weight t) \<and>
     (\<forall>x. tbl_get (ft_pending_weight t) x =
        (if tree_contains t x \<or> f x = 0 then None else Some (of_nat (f x))))"

text \<open>\<open>f\<close> are the shares by votes, \<open>b\<close> those by the boost.\<close>

definition counted :: "fork_choice_tree \<Rightarrow> (b256 \<Rightarrow> nat) \<Rightarrow> (b256 \<Rightarrow> nat) \<Rightarrow> bool" where
  "counted t f b \<longleftrightarrow> base t \<and> unsettled t = {} \<and> carries t (\<lambda>x. f x + b x) \<and> parked t f"

definition revalued :: "fork_choice_tree \<Rightarrow> fork_choice_tree \<Rightarrow> bool" where
  "revalued t t' \<longleftrightarrow> same_links (t\<lparr> ft_pending_weight := ft_pending_weight t' \<rparr>) t'"

lemma same_links_revalued: "same_links t t' \<Longrightarrow> revalued t t'"
  using same_links_fields(6) [of t t'] by (simp add: revalued_def)

lemma same_links_contains: "same_links t t' \<Longrightarrow> tree_contains t' x \<longleftrightarrow> tree_contains t x"
  using fun_cong [OF same_links_blocks, of t t' x] by (metis blocks_of_None tree_contains_def)

lemma tree_contains_pending [simp]: "tree_contains (t\<lparr> ft_pending_weight := w \<rparr>) x = tree_contains t x"
  by (simp add: tree_contains_def)

lemma base_pending [simp]: "base (t\<lparr> ft_pending_weight := w \<rparr>) = base t"
  by (simp add: base_def)

lemma unsettled_pending [simp]: "unsettled (t\<lparr> ft_pending_weight := w \<rparr>) = unsettled t"
  by (simp add: unsettled_def)

lemma carries_pending [simp]: "carries (t\<lparr> ft_pending_weight := w \<rparr>) f = carries t f"
  by (simp add: carries_def)

lemma same_links_pending:
  "same_links t t' \<Longrightarrow> same_links (t\<lparr> ft_pending_weight := w \<rparr>) (t'\<lparr> ft_pending_weight := w \<rparr>)"
  unfolding same_links_def by auto

lemma revalued_refl: "base t \<Longrightarrow> revalued t t"
  by (simp add: revalued_def same_links_refl)

lemma revalued_trans:
  assumes "revalued t u" and "revalued u v"
  shows "revalued t v"
proof -
  have "same_links (t\<lparr> ft_pending_weight := ft_pending_weight v \<rparr>) (u\<lparr> ft_pending_weight := ft_pending_weight v \<rparr>)"
    using same_links_pending [OF assms(1) [unfolded revalued_def], of "ft_pending_weight v"] by simp
  with assms(2) show ?thesis unfolding revalued_def by (rule same_links_trans [rotated])
qed

lemma parked_contains: "parked t f \<Longrightarrow> tree_contains t x \<Longrightarrow> parked t (f(x := v))"
  by (auto simp: parked_def)

lemma adjust_pending_weight_parked:
  assumes "parked t f" and x: "\<not> tree_contains t x"
    and low: "0 \<le> int (f x) + d" and high: "int (f x) + d < 2 ^ 64" and fx: "f x < 2 ^ 64"
  shows "parked (adjust_pending_weight x d t) (f(x := nat (int (f x) + d)))"
proof (cases "d = 0")
  case True
  then show ?thesis using assms(1) by (simp add: adjust_pending_weight_def)
next
  case False
  let ?w = "case tbl_get (ft_pending_weight t) x of None \<Rightarrow> 0 | Some w \<Rightarrow> w"
  have "?w = of_nat (f x)" using assms(1) x by (simp add: parked_def)
  then have w: "uint ?w = int (f x)" using fx by (simp add: uint_nat unat_of_nat_small)
  have v: "int (unat (apply_signed ?w d)) = int (f x) + d"
    using unat_apply_signed [of ?w d] w low high by simp
  then have u: "unat (apply_signed ?w d) = nat (int (f x) + d)" by (metis nat_int)
  have eq: "apply_signed ?w d = of_nat (nat (int (f x) + d))"
    unfolding word_unat_eq_iff u by (rule unat_of_nat_small [symmetric]) (use high low in auto)
  have zero: "apply_signed ?w d = 0 \<longleftrightarrow> nat (int (f x) + d) = 0"
    using u by (metis unat_eq_zero)
  show ?thesis
    using False assms(1) x eq zero by (auto simp: parked_def adjust_pending_weight_def Let_def table_simps)
qed

lemma adjust_pending_weight_fields:
  "\<exists>w. adjust_pending_weight x d t = t\<lparr> ft_pending_weight := w \<rparr>"
  by (auto simp: adjust_pending_weight_def Let_def intro: exI [of _ "ft_pending_weight t"])

section \<open>Applying a map of changes\<close>

lemma apply_vote_delta_counted:
  assumes "counted t f b" and low: "0 \<le> int (f x) + d"
    and high: "int ((\<Sum>y \<in> UNIV. f y) + (\<Sum>y \<in> UNIV. b y)) + d < 2 ^ 64"
    and small: "(\<Sum>y \<in> UNIV. f y) < 2 ^ 64"
  shows "\<exists>t'. apply_vote_delta t (x, d) = Inr t' \<and> revalued t t' \<and> counted t' (f(x := nat (int (f x) + d))) b"
proof (cases "tree_contains t x")
  case True
  let ?g = "\<lambda>y. f y + b y"
  have c: "base t" "unsettled t = {}" "carries t ?g" "parked t f" using assms(1) by (auto simp: counted_def)
  have "\<exists>t'. apply_weight_delta x d t = Inr t' \<and> same_links t t' \<and> unsettled t' = {} \<and>
      carries t' (?g(x := nat (int (?g x) + d)))"
    by (rule apply_weight_delta_share [OF c(1-3) True]) (use low high in \<open>auto simp: sum.distrib\<close>)
  then obtain t' where t': "apply_weight_delta x d t = Inr t'" "same_links t t'" "unsettled t' = {}"
    "carries t' (?g(x := nat (int (?g x) + d)))" by blast
  have "?g(x := nat (int (?g x) + d)) = (\<lambda>y. (f(x := nat (int (f x) + d))) y + b y)"
    using low by (auto simp: fun_eq_iff nat_add_distrib)
  moreover have "parked t' (f(x := nat (int (f x) + d)))"
    using parked_contains [OF c(4) True] same_links_contains [OF t'(2)] same_links_fields(6) [OF t'(2)]
    by (simp add: parked_def)
  ultimately have "counted t' (f(x := nat (int (f x) + d))) b"
    using t' same_links_base [OF t'(2) c(1)] by (simp add: counted_def)
  with t' True show ?thesis by (auto simp: apply_vote_delta_def same_links_revalued)
next
  case False
  let ?f = "f(x := nat (int (f x) + d))"
  let ?t = "adjust_pending_weight x d t"
  obtain w where w: "?t = t\<lparr> ft_pending_weight := w \<rparr>" using adjust_pending_weight_fields by blast
  have c: "base t" "unsettled t = {}" "carries t (\<lambda>y. f y + b y)" "parked t f" using assms(1) by (auto simp: counted_def)
  have fx: "f x \<le> (\<Sum>y \<in> UNIV. f y)" by (rule member_le_sum) auto
  have "parked ?t ?f"
    by (rule adjust_pending_weight_parked [OF c(4) False low]) (use high small fx in linarith)+
  moreover have "carries t (\<lambda>y. ?f y + b y)"
    unfolding carries_def
  proof (intro allI impI)
    fix r n assume n: "tbl_get (ft_nodes t) r = Some n"
    have "descends (blocks_of (ft_nodes t)) r y \<Longrightarrow> y \<noteq> x" for y
      using False descends_dom [of "blocks_of (ft_nodes t)" r y] by (auto simp: tree_contains_def simp del: not_None_eq)
    then have "(\<Sum>y | descends (blocks_of (ft_nodes t)) r y. ?f y + b y)
        = (\<Sum>y | descends (blocks_of (ft_nodes t)) r y. f y + b y)" by (intro sum.cong) auto
    with c(3) n show "unat (fn_weight n) = (\<Sum>y | descends (blocks_of (ft_nodes t)) r y. ?f y + b y)"
      by (simp add: carries_def)
  qed
  moreover have "revalued t ?t" using same_links_refl [OF c(1)] by (simp add: revalued_def w c(1) same_links_refl)
  ultimately show ?thesis using False c w by (simp add: apply_vote_delta_def counted_def)
qed

lemma apply_deltas_counted:
  assumes "counted t f b" and "distinct (map fst ds)"
    and "\<And>x d. (x, d) \<in> set ds \<Longrightarrow> int (g x) = int (f x) + d"
    and "\<And>x. x \<notin> fst ` set ds \<Longrightarrow> g x = f x"
    and "(\<Sum>x \<in> UNIV. max (f x) (g x)) + (\<Sum>x \<in> UNIV. b x) < 2 ^ 64"
  shows "\<exists>t'. try_fold apply_vote_delta t ds = Inr t' \<and> revalued t t' \<and> counted t' g b"
  using assms
proof (induction ds arbitrary: t f)
  case Nil
  then have "g = f" by (simp add: fun_eq_iff)
  with Nil show ?case by (auto simp: counted_def revalued_refl)
next
  case (Cons p ds)
  obtain x d where p: "p = (x, d)" by force
  have gx: "int (g x) = int (f x) + d" using Cons.prems(3) [of x d] p by simp
  let ?f = "f(x := nat (int (f x) + d))"
  have fx: "?f x = g x" using gx by simp
  define M where "M = (\<Sum>y \<in> UNIV. max (f y) (g y))"
  define F where "F = (\<Sum>y \<in> UNIV. f y)"
  define F' where "F' = (\<Sum>y \<in> UNIV. ?f y)"
  define S where "S = (\<Sum>y \<in> UNIV. b y)"
  have "F' \<le> M" unfolding F'_def M_def by (rule sum_mono) (use fx in auto)
  moreover have "F \<le> M" unfolding F_def M_def by (rule sum_mono) auto
  moreover have "int F' = int F + d"
    unfolding F'_def F_def by (rule sum_change_share) (use gx in auto)
  moreover have "M + S < 2 ^ 64" using Cons.prems(5) by (simp add: M_def S_def)
  ultimately have "int (F + S) + d < 2 ^ 64" "F < 2 ^ 64" by simp_all
  then have high: "int ((\<Sum>y \<in> UNIV. f y) + (\<Sum>y \<in> UNIV. b y)) + d < 2 ^ 64" and "(\<Sum>y \<in> UNIV. f y) < 2 ^ 64"
    by (simp_all only: F_def S_def)
  then have "\<exists>u. apply_vote_delta t (x, d) = Inr u \<and> revalued t u \<and> counted u ?f b"
    by (intro apply_vote_delta_counted [OF Cons.prems(1) _ high]) (use gx in linarith)
  then obtain u where u: "apply_vote_delta t (x, d) = Inr u" "revalued t u" "counted u ?f b" by blast
  have "\<exists>t'. try_fold apply_vote_delta u ds = Inr t' \<and> revalued u t' \<and> counted t' g b"
  proof (rule Cons.IH [OF u(3)])
    show "distinct (map fst ds)" using Cons.prems(2) by simp
    have other: "y \<noteq> x" if "(y, e) \<in> set ds" for y e using Cons.prems(2) p that by force
    show "int (g y) = int (?f y) + e" if "(y, e) \<in> set ds" for y e
      using Cons.prems(3) [of y e] other [OF that] that by simp
    show "g y = ?f y" if "y \<notin> fst ` set ds" for y
      using Cons.prems(4) [of y] that fx p by (cases "y = x") auto
    have "(\<Sum>y \<in> UNIV. max (?f y) (g y)) \<le> (\<Sum>y \<in> UNIV. max (f y) (g y))"
      by (rule sum_mono) (use fx in auto)
    with Cons.prems(5) show "(\<Sum>y \<in> UNIV. max (?f y) (g y)) + (\<Sum>x \<in> UNIV. b x) < 2 ^ 64" by linarith
  qed
  with u p show ?case by (auto intro: revalued_trans)
qed

end
