(* ===== verification/Beacon_Fork_Votes.thy ===== *)
theory Beacon_Fork_Votes
  imports Beacon_Fork_Weights
begin

text \<open>
  The invariant of the tree and its abstraction to the specification, and the two operations on votes:
  new votes and equivocations keep the invariant and refine the operations of the specification.
\<close>

section \<open>Shares by votes\<close>

definition vote_value :: "b256 \<Rightarrow> applied_vote option \<Rightarrow> nat" where
  "vote_value x w = (case w of None \<Rightarrow> 0 | Some w \<Rightarrow> if av_root w = x then unat (av_balance w) else 0)"

definition votes_for :: "(u64, applied_vote) table \<Rightarrow> b256 \<Rightarrow> nat" where
  "votes_for V x = (\<Sum>v \<in> UNIV. vote_value x (tbl_get V v))"

definition boost_for :: "(b256 \<times> u64) option \<Rightarrow> b256 \<Rightarrow> nat" where
  "boost_for boost x = (case boost of None \<Rightarrow> 0 | Some (r, s) \<Rightarrow> if r = x then unat s else 0)"

definition votes_ok :: "fork_choice_tree \<Rightarrow> bool" where
  "votes_ok t \<longleftrightarrow> tbl_wf (ft_votes t) \<and>
     (\<forall>v w. tbl_get (ft_votes t) v = Some w \<longrightarrow> av_balance w = tree_balance_of t v)"

text \<open>The invariant of the tree.\<close>

definition tree_ok :: "fork_choice_tree \<Rightarrow> bool" where
  "tree_ok t \<longleftrightarrow> counted t (votes_for (ft_votes t)) (boost_for (ft_boost t)) \<and> votes_ok t
     \<and> (\<forall>r s. ft_boost t = Some (r, s) \<longrightarrow> s = ft_proposer_score t)
     \<and> sum_list (map unat (ft_balances t)) + unat (ft_proposer_score t) < 2 ^ 63"

definition tree_abs :: "fork_choice_tree \<Rightarrow> fork_choice_spec" where
  "tree_abs t = \<lparr> sp_root = ft_root t, sp_blocks = blocks_of (ft_nodes t), sp_context = ft_context t,
     sp_balances = ft_balances t, sp_score = ft_proposer_score t,
     sp_votes = (\<lambda>v. map_option av_root (tbl_get (ft_votes t) v)),
     sp_equivocating = ft_equivocating t, sp_boost = map_option fst (ft_boost t) \<rparr>"

lemma votes_for_insert:
  "votes_for (tbl_insert v w V) x + vote_value x (tbl_get V v) = votes_for V x + vote_value x (Some w)"
proof -
  let ?g = "\<lambda>m u. vote_value x (m u)"
  have "(\<Sum>u \<in> UNIV. ?g ((tbl_get V)(v \<mapsto> w)) u) = vote_value x (Some w) + (\<Sum>u \<in> UNIV - {v}. ?g (tbl_get V) u)"
    by (subst sum.remove [of _ v]) (auto intro: sum.cong)
  moreover have "(\<Sum>u \<in> UNIV. ?g (tbl_get V) u) = ?g (tbl_get V) v + (\<Sum>u \<in> UNIV - {v}. ?g (tbl_get V) u)"
    by (rule sum.remove) auto
  ultimately show ?thesis by (simp add: votes_for_def table_simps)
qed

lemma sum_balances:
  "(\<Sum>v \<in> (UNIV :: u64 set). case list_get xs (unat v) of None \<Rightarrow> 0 | Some b \<Rightarrow> unat b) \<le> sum_list (map unat xs)"
proof -
  let ?A = "{v :: u64. unat v < length xs}"
  have "(\<Sum>v \<in> (UNIV :: u64 set). case list_get xs (unat v) of None \<Rightarrow> 0 | Some b \<Rightarrow> unat b)
      = (\<Sum>v \<in> ?A. unat (xs ! unat v))"
    by (rule sum.mono_neutral_cong_right) (auto simp: list_get_def)
  also have "\<dots> = (\<Sum>i \<in> unat ` ?A. unat (xs ! i))"
    by (rule sum.reindex_cong [symmetric, where l = unat]) (auto simp: inj_on_def word_unat_eq_iff)
  also have "\<dots> \<le> (\<Sum>i < length xs. unat (xs ! i))"
    by (rule sum_mono2) auto
  also have "\<dots> = sum_list (map unat xs)"
    by (simp add: sum_list_sum_nth atLeast0LessThan)
  finally show ?thesis .
qed

lemma sum_votes_for:
  assumes "votes_ok t"
  shows "(\<Sum>x \<in> UNIV. votes_for (ft_votes t) x) \<le> sum_list (map unat (ft_balances t))"
proof -
  have "(\<Sum>x \<in> UNIV. votes_for (ft_votes t) x) = (\<Sum>v \<in> UNIV. \<Sum>x \<in> UNIV. vote_value x (tbl_get (ft_votes t) v))"
    unfolding votes_for_def by (rule sum.swap)
  also have "\<dots> \<le> (\<Sum>v \<in> (UNIV :: u64 set). case list_get (ft_balances t) (unat v) of None \<Rightarrow> 0 | Some b \<Rightarrow> unat b)"
  proof (rule sum_mono)
    fix v :: u64
    show "(\<Sum>x \<in> UNIV. vote_value x (tbl_get (ft_votes t) v))
        \<le> (case list_get (ft_balances t) (unat v) of None \<Rightarrow> 0 | Some b \<Rightarrow> unat b)"
    proof (cases "tbl_get (ft_votes t) v")
      case None
      then show ?thesis by (simp add: vote_value_def)
    next
      case (Some w)
      then have "(\<Sum>x \<in> UNIV. vote_value x (tbl_get (ft_votes t) v)) = unat (av_balance w)"
        by (simp add: vote_value_def)
      also have "av_balance w = tree_balance_of t v" using assms Some by (simp add: votes_ok_def)
      finally show ?thesis by (simp add: tree_balance_of_def split: option.split)
    qed
  qed
  also have "\<dots> \<le> sum_list (map unat (ft_balances t))" by (rule sum_balances)
  finally show ?thesis .
qed

lemma sum_boost_for: "(\<Sum>x \<in> UNIV. boost_for boost x) = (case boost of None \<Rightarrow> 0 | Some (r, s) \<Rightarrow> unat s)"
  by (simp add: boost_for_def split: option.split)

section \<open>Fields that do not matter\<close>

lemma counted_fields [simp]:
  "counted (t\<lparr> ft_votes := V \<rparr>) f b = counted t f b"
  "counted (t\<lparr> ft_equivocating := S \<rparr>) f b = counted t f b"
  "counted (t\<lparr> ft_balances := bs \<rparr>) f b = counted t f b"
  "counted (t\<lparr> ft_balances_checkpoint := c \<rparr>) f b = counted t f b"
  "counted (t\<lparr> ft_proposer_score := p \<rparr>) f b = counted t f b"
  "counted (t\<lparr> ft_boost := q \<rparr>) f b = counted t f b"
  by (simp_all add: counted_def base_def unsettled_def carries_def parked_def tree_contains_def)

lemma counted_base: "counted t f b \<Longrightarrow> base t"
  by (simp add: counted_def)

lemma revalued_fields:
  assumes "revalued t t'"
  shows "ft_root t' = ft_root t" "ft_context t' = ft_context t" "ft_balances t' = ft_balances t"
    "ft_proposer_score t' = ft_proposer_score t" "ft_votes t' = ft_votes t"
    "ft_equivocating t' = ft_equivocating t" "ft_boost t' = ft_boost t"
    "blocks_of (ft_nodes t') = blocks_of (ft_nodes t)"
  using same_links_fields [OF assms [unfolded revalued_def]] same_links_blocks [OF assms [unfolded revalued_def]]
  by simp_all

lemma revalued_abs: "revalued t t' \<Longrightarrow> tree_abs t' = tree_abs t"
  by (simp add: tree_abs_def revalued_fields)

lemma revalued_votes_ok: "revalued t t' \<Longrightarrow> votes_ok t' = votes_ok t"
  by (simp add: votes_ok_def tree_balance_of_def revalued_fields)

section \<open>Collecting changes\<close>

definition delta_at :: "weight_deltas \<Rightarrow> b256 \<Rightarrow> int" where
  "delta_at ds x = (case tbl_get ds x of None \<Rightarrow> 0 | Some d \<Rightarrow> d)"

lemma delta_at_add: "delta_at (add_delta r d ds) x = delta_at ds x + (if x = r then d else 0)"
  by (simp add: delta_at_def add_delta_def table_simps)

lemma add_delta_wf [simp]: "tbl_wf ds \<Longrightarrow> tbl_wf (add_delta r d ds)"
  by (simp add: add_delta_def)

text \<open>The changes collected so far account for the difference of the votes to those at the start.\<close>

definition accounts :: "(b256 \<Rightarrow> nat) \<Rightarrow> fork_choice_tree \<times> weight_deltas \<Rightarrow> bool" where
  "accounts f = (\<lambda>(t, ds). tbl_wf ds \<and> (\<forall>x. int (votes_for (ft_votes t) x) = int (f x) + delta_at ds x))"

lemma int_vote_value:
  "int (vote_value x (Some w)) = (if x = av_root w then uint (av_balance w) else 0)"
  by (simp add: vote_value_def)

lemma accounts_replace:
  assumes "accounts f (t, ds)" and "ft_votes t' = tbl_insert v w (ft_votes t)" and "tbl_wf ds'"
    and "\<And>x. delta_at ds' x = delta_at ds x + int (vote_value x (Some w)) - int (vote_value x (tbl_get (ft_votes t) v))"
  shows "accounts f (t', ds')"
proof -
  have "int (votes_for (ft_votes t') x) = int (f x) + delta_at ds' x" for x
  proof -
    have "int (votes_for (ft_votes t) x) = int (f x) + delta_at ds x"
      using assms(1) by (simp add: accounts_def)
    with votes_for_insert [of v w "ft_votes t" x] assms(4) [of x] show ?thesis unfolding assms(2) by linarith
  qed
  with assms(3) show ?thesis by (simp add: accounts_def)
qed

lemma tree_apply_deltas_counted:
  assumes "counted t f b" and "accounts f (t, ds)" and order: "mset (order ds) = mset ds"
    and "(\<Sum>x \<in> UNIV. f x) + (\<Sum>x \<in> UNIV. votes_for (ft_votes t) x) + (\<Sum>x \<in> UNIV. b x) < 2 ^ 64"
  shows "\<exists>t'. tree_apply_deltas order ds t = Inr t' \<and> revalued t t' \<and> counted t' (votes_for (ft_votes t')) b"
proof -
  let ?g = "votes_for (ft_votes t)"
  have wf: "tbl_wf ds" and g: "\<And>x. int (?g x) = int (f x) + delta_at ds x"
    using assms(2) by (auto simp: accounts_def)
  have dist: "distinct (map fst ds)" using wf by (rule tbl_wf_distinct)
  have set: "set (order ds) = set ds" using order by (rule mset_eq_setD)
  have "mset (map fst (order ds)) = mset (map fst ds)" using order by (metis mset_map)
  then have dist': "distinct (map fst (order ds))" using dist by (metis mset_eq_imp_distinct_iff)
  have "(\<Sum>x \<in> UNIV. max (f x) (?g x)) \<le> (\<Sum>x \<in> UNIV. f x + ?g x)" by (rule sum_mono) auto
  then have bound: "(\<Sum>x \<in> UNIV. max (f x) (?g x)) + (\<Sum>x \<in> UNIV. b x) < 2 ^ 64"
    using assms(4) by (simp only: sum.distrib)
  have "\<exists>t'. try_fold apply_vote_delta t (order ds) = Inr t' \<and> revalued t t' \<and> counted t' ?g b"
  proof (rule apply_deltas_counted [OF assms(1) dist' _ _ bound])
    show "int (?g x) = int (f x) + d" if "(x, d) \<in> set (order ds)" for x d
      using g [of x] that set dist by (simp add: delta_at_def)
    show "?g x = f x" if "x \<notin> fst ` set (order ds)" for x
      using g [of x] that set map_of_eq_None_iff [of ds x] by (simp add: delta_at_def)
  qed
  then show ?thesis using revalued_fields(5) by (auto simp: tree_apply_deltas_def)
qed

section \<open>Votes\<close>

lemma record_vote_step:
  assumes "votes_ok t" and "accounts f (t, ds)"
  obtains V ds' where "record_vote (v, x) (t, ds) = (t\<lparr> ft_votes := V \<rparr>, ds')"
    "votes_ok (t\<lparr> ft_votes := V \<rparr>)" "accounts f (t\<lparr> ft_votes := V \<rparr>, ds')"
    "tree_abs (t\<lparr> ft_votes := V \<rparr>) = spec_vote (v, x) (tree_abs t)"
proof (cases "v \<in> ft_equivocating t")
  case True
  then show thesis
    using that [of "ft_votes t" ds] assms by (simp add: record_vote_def spec_vote_def tree_abs_def)
next
  case False
  let ?w = "\<lparr> av_root = x, av_balance = tree_balance_of t v \<rparr>"
  let ?V = "tbl_insert v ?w (ft_votes t)"
  let ?ds = "add_delta x (uint (tree_balance_of t v)) (case tbl_get (ft_votes t) v of
    Some p \<Rightarrow> add_delta (av_root p) (- uint (av_balance p)) ds | None \<Rightarrow> ds)"
  have wf: "tbl_wf (ft_votes t)" using assms(1) by (simp add: votes_ok_def)
  show thesis
  proof (rule that)
    show "record_vote (v, x) (t, ds) = (t\<lparr> ft_votes := ?V \<rparr>, ?ds)"
      using False by (simp add: record_vote_def Let_def split: option.split)
    show "votes_ok (t\<lparr> ft_votes := ?V \<rparr>)"
      using assms(1) by (auto simp: votes_ok_def tree_balance_of_def table_simps)
    show "accounts f (t\<lparr> ft_votes := ?V \<rparr>, ?ds)"
    proof (rule accounts_replace [OF assms(2)])
      show "tbl_wf ?ds" using assms(2) by (auto simp: accounts_def split: option.split)
      show "delta_at ?ds y = delta_at ds y + int (vote_value y (Some ?w)) - int (vote_value y (tbl_get (ft_votes t) v))" for y
        by (auto simp: delta_at_add int_vote_value split: option.split) (simp_all add: vote_value_def)
    qed simp
    show "tree_abs (t\<lparr> ft_votes := ?V \<rparr>) = spec_vote (v, x) (tree_abs t)"
      using False by (auto simp: tree_abs_def spec_vote_def table_simps)
  qed
qed

lemma record_votes:
  assumes "votes_ok t" and "accounts f (t, ds)"
  shows "\<exists>V ds'. fold record_vote us (t, ds) = (t\<lparr> ft_votes := V \<rparr>, ds') \<and> votes_ok (t\<lparr> ft_votes := V \<rparr>)
    \<and> accounts f (t\<lparr> ft_votes := V \<rparr>, ds') \<and> tree_abs (t\<lparr> ft_votes := V \<rparr>) = fold spec_vote us (tree_abs t)"
  using assms
proof (induction us arbitrary: t ds)
  case Nil
  then show ?case by (auto intro!: exI [of _ "ft_votes t"])
next
  case (Cons u us)
  obtain v x where u: "u = (v, x)" by force
  obtain V ds' where step: "record_vote (v, x) (t, ds) = (t\<lparr> ft_votes := V \<rparr>, ds')"
    "votes_ok (t\<lparr> ft_votes := V \<rparr>)" "accounts f (t\<lparr> ft_votes := V \<rparr>, ds')"
    "tree_abs (t\<lparr> ft_votes := V \<rparr>) = spec_vote (v, x) (tree_abs t)"
    using record_vote_step [OF Cons.prems] .
  from Cons.IH [OF step(2,3)] step u show ?case by auto
qed

lemma tree_okD:
  assumes "tree_ok t"
  shows "counted t (votes_for (ft_votes t)) (boost_for (ft_boost t))" "votes_ok t"
    "\<And>r s. ft_boost t = Some (r, s) \<Longrightarrow> s = ft_proposer_score t"
    "sum_list (map unat (ft_balances t)) + unat (ft_proposer_score t) < 2 ^ 63"
  using assms by (auto simp: tree_ok_def)

lemma accounts_start: "accounts (votes_for (ft_votes t)) (t, [])"
  by (simp add: accounts_def delta_at_def)

lemma tree_ok_boost_le: "tree_ok t \<Longrightarrow> (\<Sum>x \<in> UNIV. boost_for (ft_boost t) x) \<le> unat (ft_proposer_score t)"
  using tree_okD(3) [of t] by (auto simp: sum_boost_for split: option.split)

text \<open>Changes of votes that keep balances and blocks, applied in any order.\<close>

lemma changes_applied:
  assumes ok: "tree_ok t" and order: "\<And>ds. mset (order ds) = mset ds"
    and u: "u = t\<lparr> ft_votes := V, ft_equivocating := S \<rparr>"
    and votes: "votes_ok u" and acc: "accounts (votes_for (ft_votes t)) (u, ds)"
  shows "\<exists>t'. tree_apply_deltas order ds u = Inr t' \<and> tree_ok t' \<and> tree_abs t' = tree_abs u"
proof -
  define F where "F = (\<Sum>x \<in> UNIV. votes_for (ft_votes t) x)"
  define G where "G = (\<Sum>x \<in> UNIV. votes_for (ft_votes u) x)"
  define B where "B = (\<Sum>x \<in> UNIV. boost_for (ft_boost t) x)"
  define T where "T = sum_list (map unat (ft_balances t))"
  have "F \<le> T" unfolding F_def T_def by (rule sum_votes_for [OF tree_okD(2) [OF ok]])
  moreover have "G \<le> T" using sum_votes_for [OF votes] by (simp add: u G_def T_def)
  moreover have "B \<le> unat (ft_proposer_score t)" unfolding B_def by (rule tree_ok_boost_le [OF ok])
  moreover have "T + unat (ft_proposer_score t) < 2 ^ 63" unfolding T_def by (rule tree_okD(4) [OF ok])
  ultimately have "F + G + B < 2 ^ 64" by simp
  then have bound: "(\<Sum>x \<in> UNIV. votes_for (ft_votes t) x) + (\<Sum>x \<in> UNIV. votes_for (ft_votes u) x)
      + (\<Sum>x \<in> UNIV. boost_for (ft_boost t) x) < 2 ^ 64" by (simp only: F_def G_def B_def)
  have "counted u (votes_for (ft_votes t)) (boost_for (ft_boost t))"
    using tree_okD(1) [OF ok] by (simp add: u)
  from tree_apply_deltas_counted [where order = order and ds = ds, OF this acc order bound] obtain t'
    where t': "tree_apply_deltas order ds u = Inr t'" "revalued u t'"
      "counted t' (votes_for (ft_votes t')) (boost_for (ft_boost t))" by blast
  have "tree_ok t'"
    using t'(3) votes tree_okD(3,4) [OF ok] unfolding tree_ok_def
    by (simp add: revalued_fields [OF t'(2)] revalued_votes_ok [OF t'(2)]) (simp add: u)
  with t' show ?thesis by (auto simp: revalued_abs)
qed

lemma process_votes_refines:
  assumes ok: "tree_ok t" and order: "\<And>ds. mset (order ds) = mset ds"
  shows "\<exists>t'. process_votes order us t = Inr t' \<and> tree_ok t' \<and> tree_abs t' = fold spec_vote us (tree_abs t)"
proof -
  obtain V ds where f: "fold record_vote us (t, []) = (t\<lparr> ft_votes := V \<rparr>, ds)" "votes_ok (t\<lparr> ft_votes := V \<rparr>)"
    "accounts (votes_for (ft_votes t)) (t\<lparr> ft_votes := V \<rparr>, ds)"
    "tree_abs (t\<lparr> ft_votes := V \<rparr>) = fold spec_vote us (tree_abs t)"
    using record_votes [OF tree_okD(2) [OF ok] accounts_start] by blast
  have "\<exists>t'. tree_apply_deltas order ds (t\<lparr> ft_votes := V \<rparr>) = Inr t' \<and> tree_ok t' \<and> tree_abs t' = tree_abs (t\<lparr> ft_votes := V \<rparr>)"
    by (rule changes_applied [OF ok order, where V = V and S = "ft_equivocating t"]) (use f in auto)
  with f show ?thesis by (simp add: process_votes_def)
qed

section \<open>Equivocations\<close>

lemma mark_one_step:
  assumes "votes_ok t" and "accounts f (t, ds)"
  obtains V ds' where
    "mark_one v (t, ds) = (t\<lparr> ft_votes := V, ft_equivocating := insert v (ft_equivocating t) \<rparr>, ds')"
    "votes_ok (t\<lparr> ft_votes := V, ft_equivocating := insert v (ft_equivocating t) \<rparr>)"
    "accounts f (t\<lparr> ft_votes := V, ft_equivocating := insert v (ft_equivocating t) \<rparr>, ds')"
    "\<forall>u. map_option av_root (tbl_get V u) = map_option av_root (tbl_get (ft_votes t) u)"
proof (cases "v \<in> ft_equivocating t")
  case True
  then have "insert v (ft_equivocating t) = ft_equivocating t" by (rule insert_absorb)
  with True that [of "ft_votes t" ds] assms show thesis by (simp add: mark_one_def)
next
  case new: False
  show thesis
  proof (cases "tbl_get (ft_votes t) v")
    case None
    show thesis
    proof (rule that)
      show "mark_one v (t, ds) = (t\<lparr> ft_votes := ft_votes t, ft_equivocating := insert v (ft_equivocating t) \<rparr>, ds)"
        using new None by (simp add: mark_one_def)
      show "votes_ok (t\<lparr> ft_votes := ft_votes t, ft_equivocating := insert v (ft_equivocating t) \<rparr>)"
        using assms(1) None by (auto simp: votes_ok_def tree_balance_of_def)
      show "accounts f (t\<lparr> ft_votes := ft_votes t, ft_equivocating := insert v (ft_equivocating t) \<rparr>, ds)"
        using assms(2) by (simp add: accounts_def)
    qed simp
  next
    case (Some w)
    let ?V = "tbl_insert v (w\<lparr> av_balance := 0 \<rparr>) (ft_votes t)"
    let ?t = "t\<lparr> ft_votes := ?V, ft_equivocating := insert v (ft_equivocating t) \<rparr>"
    show thesis
    proof (rule that)
      show "mark_one v (t, ds) = (?t, add_delta (av_root w) (- uint (av_balance w)) ds)"
        using new Some by (simp add: mark_one_def)
      show "votes_ok ?t"
        using assms(1) Some by (auto simp: votes_ok_def tree_balance_of_def table_simps)
      show "accounts f (?t, add_delta (av_root w) (- uint (av_balance w)) ds)"
      proof (rule accounts_replace [OF assms(2)])
        show "ft_votes ?t = ?V" by simp
        show "tbl_wf (add_delta (av_root w) (- uint (av_balance w)) ds)" using assms(2) by (simp add: accounts_def)
        show "delta_at (add_delta (av_root w) (- uint (av_balance w)) ds) x = delta_at ds x
            + int (vote_value x (Some (w\<lparr> av_balance := 0 \<rparr>))) - int (vote_value x (tbl_get (ft_votes t) v))" for x
          unfolding Some int_vote_value delta_at_add by simp
      qed
      show "\<forall>u. map_option av_root (tbl_get ?V u) = map_option av_root (tbl_get (ft_votes t) u)"
        using Some by (simp add: table_simps)
    qed
  qed
qed

lemma mark_all:
  assumes "votes_ok t" and "accounts f (t, ds)"
  shows "\<exists>V ds'. fold mark_one vs (t, ds) = (t\<lparr> ft_votes := V, ft_equivocating := ft_equivocating t \<union> set vs \<rparr>, ds')
    \<and> votes_ok (t\<lparr> ft_votes := V, ft_equivocating := ft_equivocating t \<union> set vs \<rparr>)
    \<and> accounts f (t\<lparr> ft_votes := V, ft_equivocating := ft_equivocating t \<union> set vs \<rparr>, ds')
    \<and> (\<forall>v. map_option av_root (tbl_get V v) = map_option av_root (tbl_get (ft_votes t) v))"
  using assms
proof (induction vs arbitrary: t ds)
  case Nil
  then show ?case by (intro exI [of _ "ft_votes t"] exI [of _ ds]) simp
next
  case (Cons v vs)
  let ?t = "\<lambda>V. t\<lparr> ft_votes := V, ft_equivocating := insert v (ft_equivocating t) \<rparr>"
  obtain V ds' where step: "mark_one v (t, ds) = (?t V, ds')" "votes_ok (?t V)" "accounts f (?t V, ds')"
    "\<forall>u. map_option av_root (tbl_get V u) = map_option av_root (tbl_get (ft_votes t) u)"
    using mark_one_step [OF Cons.prems] .
  from Cons.IH [OF step(2,3)] obtain W es where
    W: "fold mark_one vs (?t V, ds') = (t\<lparr> ft_votes := W, ft_equivocating := ft_equivocating t \<union> set (v # vs) \<rparr>, es)"
      "votes_ok (t\<lparr> ft_votes := W, ft_equivocating := ft_equivocating t \<union> set (v # vs) \<rparr>)"
      "accounts f (t\<lparr> ft_votes := W, ft_equivocating := ft_equivocating t \<union> set (v # vs) \<rparr>, es)"
      "\<forall>u. map_option av_root (tbl_get W u) = map_option av_root (tbl_get V u)"
    by (simp del: fold_simps) blast
  have "\<forall>u. map_option av_root (tbl_get W u) = map_option av_root (tbl_get (ft_votes t) u)"
    using W(4) step(4) by simp
  with W step(1) show ?case by (intro exI [of _ W] exI [of _ es]) simp
qed

lemma mark_equivocating_refines:
  assumes ok: "tree_ok t" and order: "\<And>ds. mset (order ds) = mset ds"
  shows "\<exists>t'. mark_equivocating order vs t = Inr t' \<and> tree_ok t' \<and>
    tree_abs t' = (tree_abs t)\<lparr> sp_equivocating := sp_equivocating (tree_abs t) \<union> set vs \<rparr>"
proof -
  let ?S = "ft_equivocating t \<union> set vs"
  obtain V ds where f: "fold mark_one vs (t, []) = (t\<lparr> ft_votes := V, ft_equivocating := ?S \<rparr>, ds)"
    "votes_ok (t\<lparr> ft_votes := V, ft_equivocating := ?S \<rparr>)"
    "accounts (votes_for (ft_votes t)) (t\<lparr> ft_votes := V, ft_equivocating := ?S \<rparr>, ds)"
    "\<forall>v. map_option av_root (tbl_get V v) = map_option av_root (tbl_get (ft_votes t) v)"
    using mark_all [OF tree_okD(2) [OF ok] accounts_start, of vs] by (elim exE conjE)
  have "\<exists>t'. tree_apply_deltas order ds (t\<lparr> ft_votes := V, ft_equivocating := ?S \<rparr>) = Inr t' \<and> tree_ok t'
      \<and> tree_abs t' = tree_abs (t\<lparr> ft_votes := V, ft_equivocating := ?S \<rparr>)"
    by (rule changes_applied [OF ok order refl f(2,3)])
  moreover have "tree_abs (t\<lparr> ft_votes := V, ft_equivocating := ?S \<rparr>)
      = (tree_abs t)\<lparr> sp_equivocating := sp_equivocating (tree_abs t) \<union> set vs \<rparr>"
    using f(4) by (simp add: tree_abs_def)
  ultimately show ?thesis using f(1) by (simp add: mark_equivocating_def)
qed

end
