(* ===== verification/Beacon_Fork_Balances.thy ===== *)
theory Beacon_Fork_Balances
  imports Beacon_Fork_Votes
begin

text \<open>
  The proposer boost and the balances: moving the boost from one block to another, and reweighing every
  vote when the justified checkpoint gives new balances.
\<close>

section \<open>The boost\<close>

lemma carries_outside:
  assumes "\<not> tree_contains t x"
  shows "carries t (g(x := v)) = carries t g"
proof -
  have "(\<Sum>y | descends (blocks_of (ft_nodes t)) r y. (g(x := v)) y)
      = (\<Sum>y | descends (blocks_of (ft_nodes t)) r y. g y)" for r
  proof (rule sum_other_share)
    show "x \<notin> {y. descends (blocks_of (ft_nodes t)) r y}"
      using assms descends_dom [of "blocks_of (ft_nodes t)" r x] by (auto simp: tree_contains_def simp del: not_None_eq)
  qed
  then show ?thesis by (simp only: carries_def)
qed

lemma apply_weight_delta_any:
  assumes base: "base t" and settled: "unsettled t = {}" and carries: "carries t g"
    and low: "0 \<le> int (g x) + d" and high: "int (\<Sum>y \<in> UNIV. g y) + d < 2 ^ 64"
  shows "\<exists>t'. apply_weight_delta x d t = Inr t' \<and> same_links t t' \<and> unsettled t' = {} \<and>
    carries t' (g(x := nat (int (g x) + d)))"
proof (cases "tree_contains t x")
  case True
  then show ?thesis by (rule apply_weight_delta_share [OF base settled carries _ low high])
next
  case False
  then show ?thesis
    using assms by (simp add: apply_weight_delta_outside carries_outside same_links_refl)
qed

lemma boost_for_None [simp]: "boost_for None x = 0"
  by (simp add: boost_for_def)

lemma sum_with_boost:
  "(\<Sum>x \<in> UNIV. f x + boost_for (Some (r, s)) x) = (\<Sum>x \<in> UNIV. f x) + unat s"
  by (simp only: sum.distrib sum_boost_for option.case prod.case)

lemma clear_boost:
  assumes "base t" and "unsettled t = {}" and "carries t (\<lambda>x. f x + boost_for (Some (r, s)) x)"
    and "(\<Sum>x \<in> UNIV. f x) < 2 ^ 63"
  shows "\<exists>t'. apply_weight_delta r (- uint s) t = Inr t' \<and> same_links t t' \<and> unsettled t' = {} \<and> carries t' f"
proof -
  let ?g = "\<lambda>x. f x + boost_for (Some (r, s)) x"
  have gr: "?g r = f r + unat s" by (simp add: boost_for_def)
  have "?g(r := nat (int (?g r) + - uint s)) = f"
    unfolding gr by (auto simp: fun_eq_iff boost_for_def)
  moreover have "\<exists>t'. apply_weight_delta r (- uint s) t = Inr t' \<and> same_links t t' \<and> unsettled t' = {} \<and>
      carries t' (?g(r := nat (int (?g r) + - uint s)))"
  proof (rule apply_weight_delta_any [OF assms(1-3)])
    show "0 \<le> int (?g r) + - uint s" unfolding gr by simp
    define F where "F = (\<Sum>y \<in> UNIV. f y)"
    have "int (F + unat s) + - uint s < 2 ^ 64" using assms(4) by (simp add: F_def [symmetric])
    then show "int (\<Sum>y \<in> UNIV. ?g y) + - uint s < 2 ^ 64" by (simp only: sum_with_boost F_def)
  qed
  ultimately show ?thesis by simp
qed

lemma add_boost:
  assumes "base t" and "unsettled t = {}" and "carries t f"
    and "(\<Sum>x \<in> UNIV. f x) < 2 ^ 63" and "unat s < 2 ^ 63"
  shows "\<exists>t'. apply_weight_delta r (uint s) t = Inr t' \<and> same_links t t' \<and> unsettled t' = {} \<and>
    carries t' (\<lambda>x. f x + boost_for (Some (r, s)) x)"
proof -
  have "f(r := nat (int (f r) + uint s)) = (\<lambda>x. f x + boost_for (Some (r, s)) x)"
    by (auto simp: fun_eq_iff boost_for_def nat_add_distrib)
  moreover have "\<exists>t'. apply_weight_delta r (uint s) t = Inr t' \<and> same_links t t' \<and> unsettled t' = {} \<and>
      carries t' (f(r := nat (int (f r) + uint s)))"
  proof (rule apply_weight_delta_any [OF assms(1-3)])
    show "0 \<le> int (f r) + uint s" by simp
    define F where "F = (\<Sum>y \<in> UNIV. f y)"
    define U where "U = unat s"
    have "int F + int U < 2 ^ 64" using assms(4,5) by (simp add: F_def [symmetric] U_def [symmetric])
    then show "int (\<Sum>y \<in> UNIV. f y) + uint s < 2 ^ 64" by (simp only: F_def U_def uint_nat)
  qed
  ultimately show ?thesis by simp
qed

text \<open>Moving the boost, whatever its old score.\<close>

lemma parked_same_links: "same_links t t' \<Longrightarrow> parked t' f = parked t f"
  by (simp add: parked_def same_links_fields same_links_contains)

lemma set_boost:
  assumes "counted t f (boost_for (ft_boost t))" and "(\<Sum>x \<in> UNIV. f x) < 2 ^ 63"
    and "unat (ft_proposer_score t) < 2 ^ 63"
  shows "\<exists>t'. set_proposer_boost_root root t = Inr t'
    \<and> same_links (t\<lparr> ft_boost := map_option (\<lambda>r. (r, ft_proposer_score t)) root \<rparr>) t'
    \<and> counted t' f (boost_for (ft_boost t'))"
proof -
  let ?d = "map_option (\<lambda>r. (r, ft_proposer_score t)) root"
  show ?thesis
  proof (cases "?d = ft_boost t")
    case True
    then show ?thesis
      using assms(1) same_links_refl [OF counted_base [OF assms(1)]]
      by (simp add: set_proposer_boost_root_def)
  next
    case False
    have c: "base t" "unsettled t = {}" "carries t (\<lambda>x. f x + boost_for (ft_boost t) x)" "parked t f"
      using assms(1) by (auto simp: counted_def)
    let ?t = "t\<lparr> ft_boost := None \<rparr>"
    have n: "base ?t" "unsettled ?t = {}" "\<And>g. carries ?t g = carries t g"
      using c by (auto simp: base_def unsettled_def carries_def)
    obtain u where u: "(case ft_boost t of None \<Rightarrow> Inr t | Some (r, s) \<Rightarrow> apply_weight_delta r (- uint s) ?t) = Inr u"
      "same_links ?t u" "unsettled u = {}" "carries u f"
    proof (cases "ft_boost t")
      case None
      then have "?t = t" by simp
      with None c that [of t] same_links_refl show thesis by auto
    next
      case (Some p)
      obtain r s where "p = (r, s)" by force
      with Some clear_boost [OF n(1,2), of f r s] n(3) c(3) assms(2) that show thesis by auto
    qed
    have u': "base u" "ft_proposer_score u = ft_proposer_score t"
      using same_links_base [OF u(2) n(1)] same_links_fields(4) [OF u(2)] by auto
    obtain v where v: "(case ?d of None \<Rightarrow> Inr u | Some (r, s) \<Rightarrow> apply_weight_delta r (uint s) u) = Inr v"
      "same_links u v" "unsettled v = {}" "carries v (\<lambda>x. f x + boost_for ?d x)"
    proof (cases root)
      case None
      then show thesis using u u' that [of u] same_links_refl by simp
    next
      case (Some r)
      then show thesis using add_boost [OF u'(1) u(3,4) assms(2,3), of r] that by auto
    qed
    let ?v = "v\<lparr> ft_boost := ?d \<rparr>"
    have links: "same_links ?t v" using u(2) v(2) by (rule same_links_trans)
    then have "same_links (t\<lparr> ft_boost := ?d \<rparr>) ?v" by (auto simp: same_links_def)
    moreover have "counted v f (boost_for ?d)"
      using v same_links_base [OF links n(1)] parked_same_links [OF links] c(4)
      by (simp add: counted_def parked_def tree_contains_def)
    moreover have "set_proposer_boost_root root t = Inr ?v"
      using False u(1) v(1) by (simp add: set_proposer_boost_root_def Let_def)
    ultimately show ?thesis by simp
  qed
qed

lemma set_proposer_boost_root_refines:
  assumes ok: "tree_ok t"
  shows "\<exists>t'. set_proposer_boost_root root t = Inr t' \<and> tree_ok t' \<and> tree_abs t' = (tree_abs t)\<lparr> sp_boost := root \<rparr>"
proof -
  define F where "F = (\<Sum>x \<in> UNIV. votes_for (ft_votes t) x)"
  have F: "F \<le> sum_list (map unat (ft_balances t))" unfolding F_def by (rule sum_votes_for [OF tree_okD(2) [OF ok]])
  then have "F < 2 ^ 63" and s: "unat (ft_proposer_score t) < 2 ^ 63" using tree_okD(4) [OF ok] by simp_all
  then have "(\<Sum>x \<in> UNIV. votes_for (ft_votes t) x) < 2 ^ 63" by (simp only: F_def)
  from set_boost [OF tree_okD(1) [OF ok] this s] obtain t' where t': "set_proposer_boost_root root t = Inr t'"
    "same_links (t\<lparr> ft_boost := map_option (\<lambda>r. (r, ft_proposer_score t)) root \<rparr>) t'"
    "counted t' (votes_for (ft_votes t)) (boost_for (ft_boost t'))" by blast
  note fields = same_links_fields [OF t'(2)] same_links_blocks [OF t'(2)]
  have "tree_ok t'"
    using t'(3) tree_okD(2-4) [OF ok] fields by (auto simp: tree_ok_def votes_ok_def tree_balance_of_def)
  moreover have "tree_abs t' = (tree_abs t)\<lparr> sp_boost := root \<rparr>"
    using fields by (simp add: tree_abs_def option.map_comp comp_def option.map_ident)
  ultimately show ?thesis using t'(1) by blast
qed

section \<open>Balances\<close>

definition reweighed :: "fork_choice_tree \<Rightarrow> (u64, applied_vote) table \<Rightarrow> bool" where
  "reweighed t L \<longleftrightarrow> tbl_wf (ft_votes t) \<and> (\<forall>v w. (v, w) \<in> set L \<longrightarrow> tbl_get (ft_votes t) v = Some w) \<and>
     (\<forall>v w. tbl_get (ft_votes t) v = Some w \<longrightarrow> v \<in> fst ` set L \<or> av_balance w = tree_balance_of t v)"

lemma tree_balance_of_votes [simp]: "tree_balance_of (t\<lparr> ft_votes := V \<rparr>) v = tree_balance_of t v"
  by (simp add: tree_balance_of_def)

lemma reweigh_vote_step:
  assumes "reweighed t ((v, w) # L)" and "distinct (v # map fst L)" and "accounts f (t, ds)"
  obtains V ds' where "reweigh_vote (v, w) (t, ds) = (t\<lparr> ft_votes := V \<rparr>, ds')"
    "reweighed (t\<lparr> ft_votes := V \<rparr>) L" "accounts f (t\<lparr> ft_votes := V \<rparr>, ds')"
    "\<forall>u. map_option av_root (tbl_get V u) = map_option av_root (tbl_get (ft_votes t) u)"
proof -
  have w: "tbl_get (ft_votes t) v = Some w" using assms(1) by (simp add: reweighed_def)
  show thesis
  proof (cases "tree_balance_of t v = av_balance w")
    case True
    show thesis
    proof (rule that)
      show "reweigh_vote (v, w) (t, ds) = (t\<lparr> ft_votes := ft_votes t \<rparr>, ds)"
        using True by (simp add: reweigh_vote_def Let_def)
      show "reweighed (t\<lparr> ft_votes := ft_votes t \<rparr>) L"
        using assms(1) True w unfolding reweighed_def by simp (metis option.inject)
    qed (use assms(3) in simp_all)
  next
    case False
    let ?w = "w\<lparr> av_balance := tree_balance_of t v \<rparr>"
    let ?V = "tbl_insert v ?w (ft_votes t)"
    let ?ds = "add_delta (av_root w) (uint (tree_balance_of t v) - uint (av_balance w)) ds"
    have other: "v \<noteq> u" if "(u, m) \<in> set L" for u m using assms(2) that by force
    show thesis
    proof (rule that)
      show "reweigh_vote (v, w) (t, ds) = (t\<lparr> ft_votes := ?V \<rparr>, ?ds)"
        using False by (simp add: reweigh_vote_def Let_def)
      show "reweighed (t\<lparr> ft_votes := ?V \<rparr>) L"
        using assms(1) other unfolding reweighed_def by (auto simp: table_simps)
      show "accounts f (t\<lparr> ft_votes := ?V \<rparr>, ?ds)"
      proof (rule accounts_replace [OF assms(3)])
        show "ft_votes (t\<lparr> ft_votes := ?V \<rparr>) = ?V" by simp
        show "tbl_wf ?ds" using assms(3) by (simp add: accounts_def)
        show "delta_at ?ds x = delta_at ds x + int (vote_value x (Some ?w)) - int (vote_value x (tbl_get (ft_votes t) v))" for x
          unfolding w int_vote_value delta_at_add by simp
      qed
      show "\<forall>u. map_option av_root (tbl_get ?V u) = map_option av_root (tbl_get (ft_votes t) u)"
        using w by (simp add: table_simps)
    qed
  qed
qed

lemma reweigh_votes:
  assumes "reweighed t L" and "distinct (map fst L)" and "accounts f (t, ds)"
  shows "\<exists>V ds'. fold reweigh_vote L (t, ds) = (t\<lparr> ft_votes := V \<rparr>, ds') \<and> reweighed (t\<lparr> ft_votes := V \<rparr>) []
    \<and> accounts f (t\<lparr> ft_votes := V \<rparr>, ds')
    \<and> (\<forall>v. map_option av_root (tbl_get V v) = map_option av_root (tbl_get (ft_votes t) v))"
  using assms
proof (induction L arbitrary: t ds)
  case Nil
  then show ?case by (intro exI [of _ "ft_votes t"] exI [of _ ds]) simp
next
  case (Cons p L)
  obtain v w where p: "p = (v, w)" by force
  have "reweighed t ((v, w) # L)" "distinct (v # map fst L)" using Cons.prems p by simp_all
  then obtain V ds' where step: "reweigh_vote (v, w) (t, ds) = (t\<lparr> ft_votes := V \<rparr>, ds')"
    "reweighed (t\<lparr> ft_votes := V \<rparr>) L" "accounts f (t\<lparr> ft_votes := V \<rparr>, ds')"
    "\<forall>u. map_option av_root (tbl_get V u) = map_option av_root (tbl_get (ft_votes t) u)"
    using reweigh_vote_step [OF _ _ Cons.prems(3)] by metis
  have "distinct (map fst L)" using Cons.prems(2) by simp
  from Cons.IH [OF step(2) this step(3)] obtain W es where W:
    "fold reweigh_vote L (t\<lparr> ft_votes := V \<rparr>, ds') = (t\<lparr> ft_votes := W \<rparr>, es)" "reweighed (t\<lparr> ft_votes := W \<rparr>) []"
    "accounts f (t\<lparr> ft_votes := W \<rparr>, es)"
    "\<forall>u. map_option av_root (tbl_get W u) = map_option av_root (tbl_get V u)"
    by (simp del: fold_simps) blast
  have "\<forall>u. map_option av_root (tbl_get W u) = map_option av_root (tbl_get (ft_votes t) u)"
    using W(4) step(4) by simp
  with W step(1) p show ?case by (intro exI [of _ W] exI [of _ es]) simp
qed

lemma set_balances_refines:
  assumes ok: "tree_ok t" and order: "\<And>ds. mset (order ds) = mset ds"
    and small: "sum_list (map unat bs) + unat score < 2 ^ 63"
  shows "\<exists>t'. set_balances order cp bs score t = Inr t' \<and> tree_ok t' \<and>
    tree_abs t' = (tree_abs t)\<lparr> sp_balances := bs, sp_score := score \<rparr>"
proof -
  let ?t = "t\<lparr> ft_balances := bs, ft_balances_checkpoint := Some cp \<rparr>"
  have votes: "votes_ok t" by (rule tree_okD(2) [OF ok])
  then have wf: "tbl_wf (ft_votes t)" and dist: "distinct (map fst (ft_votes t))"
    by (auto simp: votes_ok_def tbl_wf_distinct)
  have start: "reweighed ?t (ft_votes t)"
    using wf dist by (auto simp: reweighed_def map_of_eq_Some_iff intro: rev_image_eqI)
  have acc: "accounts (votes_for (ft_votes t)) (?t, [])" by (simp add: accounts_def delta_at_def)
  obtain V ds where f: "fold reweigh_vote (ft_votes t) (?t, []) = (?t\<lparr> ft_votes := V \<rparr>, ds)"
    "reweighed (?t\<lparr> ft_votes := V \<rparr>) []" "accounts (votes_for (ft_votes t)) (?t\<lparr> ft_votes := V \<rparr>, ds)"
    "\<forall>v. map_option av_root (tbl_get V v) = map_option av_root (tbl_get (ft_votes t) v)"
    using reweigh_votes [OF start dist acc] by (auto simp del: fold_simps)
  let ?u = "?t\<lparr> ft_votes := V \<rparr>"
  have votes': "votes_ok ?u" using f(2) by (simp add: reweighed_def votes_ok_def)
  define F where "F = (\<Sum>x \<in> UNIV. votes_for (ft_votes t) x)"
  define G where "G = (\<Sum>x \<in> UNIV. votes_for (ft_votes ?u) x)"
  define B where "B = (\<Sum>x \<in> UNIV. boost_for (ft_boost t) x)"
  have "F \<le> sum_list (map unat (ft_balances t))" unfolding F_def by (rule sum_votes_for [OF votes])
  moreover have G: "G \<le> sum_list (map unat bs)" using sum_votes_for [OF votes'] by (simp add: G_def)
  moreover have "B \<le> unat (ft_proposer_score t)" unfolding B_def by (rule tree_ok_boost_le [OF ok])
  moreover note tree_okD(4) [OF ok] small
  ultimately have "F + G + B < 2 ^ 64" by simp
  then have bound: "(\<Sum>x \<in> UNIV. votes_for (ft_votes t) x) + (\<Sum>x \<in> UNIV. votes_for (ft_votes ?u) x)
      + (\<Sum>x \<in> UNIV. boost_for (ft_boost t) x) < 2 ^ 64" by (simp only: F_def G_def B_def)
  have "counted ?u (votes_for (ft_votes t)) (boost_for (ft_boost t))"
    using tree_okD(1) [OF ok] by simp
  from tree_apply_deltas_counted [where order = order and ds = ds, OF this f(3) order bound] obtain u
    where u: "tree_apply_deltas order ds ?u = Inr u" "revalued ?u u"
      "counted u (votes_for (ft_votes u)) (boost_for (ft_boost t))" by blast
  note rf = revalued_fields [OF u(2)]
  let ?v = "u\<lparr> ft_proposer_score := score \<rparr>"
  have "counted ?v (votes_for V) (boost_for (ft_boost ?v))"
    using u(3) rf by simp
  moreover have "(\<Sum>x \<in> UNIV. votes_for V x) < 2 ^ 63"
  proof -
    have "G < 2 ^ 63" using G small by simp
    then show ?thesis by (simp only: G_def fork_choice_tree.select_convs fork_choice_tree.update_convs) simp
  qed
  moreover have "unat (ft_proposer_score ?v) < 2 ^ 63" using small by simp
  ultimately obtain t' where t': "set_proposer_boost_root (map_option fst (ft_boost u)) ?v = Inr t'"
    "same_links (?v\<lparr> ft_boost := map_option (\<lambda>r. (r, ft_proposer_score ?v)) (map_option fst (ft_boost u)) \<rparr>) t'"
    "counted t' (votes_for V) (boost_for (ft_boost t'))"
    using set_boost [of ?v "votes_for V" "map_option fst (ft_boost u)"] by blast
  note fields = same_links_fields [OF t'(2)] same_links_blocks [OF t'(2)]
  have "set_balances order cp bs score t = Inr t'"
    using f(1) u(1) t'(1) by (simp add: set_balances_def Let_def)
  moreover have "tree_ok t'"
    using t'(3) votes' small fields rf by (auto simp: tree_ok_def votes_ok_def tree_balance_of_def)
  moreover have "tree_abs t' = (tree_abs t)\<lparr> sp_balances := bs, sp_score := score \<rparr>"
    using fields rf f(4) by (simp add: tree_abs_def option.map_comp comp_def option.map_ident)
  ultimately show ?thesis by blast
qed

end
