(* ===== verification/Beacon_Fork_Blocks.thy ===== *)
theory Beacon_Fork_Blocks
  imports Beacon_Fork_Balances
begin

text \<open>
  Blocks: a new tree, a change of the viability context, and inserting a block with the votes that
  arrived before it.
\<close>

section \<open>A new tree and a new context\<close>

lemma recached_counted:
  assumes "recached t t'" and "unsettled t' = {}" and "base t" and "carries t (\<lambda>x. f x + b x)" and "parked t f"
  shows "counted t' f b"
proof -
  have links: "same_links t t'" using assms(1) by (simp add: recached_def)
  show ?thesis
    using assms same_links_base [OF links] carries_recached [OF assms(1,4)] parked_same_links [OF links]
    by (simp add: counted_def)
qed

lemma same_links_abs: "same_links t t' \<Longrightarrow> tree_abs t' = tree_abs t"
  by (simp add: tree_abs_def same_links_fields same_links_blocks)

lemma same_links_tree_ok:
  assumes "same_links t t'" and "counted t' (votes_for (ft_votes t)) (boost_for (ft_boost t))" and "votes_ok t"
    and "\<And>r s. ft_boost t = Some (r, s) \<Longrightarrow> s = ft_proposer_score t"
    and "sum_list (map unat (ft_balances t)) + unat (ft_proposer_score t) < 2 ^ 63"
  shows "tree_ok t'"
  using assms same_links_fields [OF assms(1)] by (auto simp: tree_ok_def votes_ok_def tree_balance_of_def)

lemma tree_new_refines:
  "\<exists>t. tree_new anchor ctx = Inr t \<and> tree_ok t \<and> tree_abs t = spec_new anchor ctx"
proof -
  let ?n = "\<lparr> fn_parent = None, fn_slot = fb_slot anchor, fn_children = [],
             fn_justified_checkpoint = fb_justified_checkpoint anchor,
             fn_unrealized_justified_checkpoint = fb_unrealized_justified_checkpoint anchor,
             fn_weight = 0, fn_viable = False, fn_best_descendant = fb_root anchor \<rparr>"
  let ?t = "\<lparr> ft_root = fb_root anchor, ft_nodes = [(fb_root anchor, ?n)],
         ft_context = ctx, ft_balances = [], ft_balances_checkpoint = None, ft_proposer_score = 0,
         ft_votes = [], ft_pending_weight = [], ft_equivocating = {}, ft_boost = None \<rparr>"
  have blocks: "blocks_of [(fb_root anchor, ?n)] = [fb_root anchor \<mapsto> skeleton ?n]"
    by (auto simp: blocks_of_def)
  have "linked (blocks_of [(fb_root anchor, ?n)]) (fb_root anchor)"
    unfolding blocks by (auto simp: linked_def)
  moreover have "children_ok [(fb_root anchor, ?n)]"
    unfolding children_ok_def blocks by (auto simp: is_child_def split: if_splits)
  ultimately have base: "base ?t" by (simp add: base_def tbl_wf_def)
  have zero: "votes_for [] x = 0" for x by (simp add: votes_for_def vote_value_def)
  have "carries ?t (\<lambda>x. votes_for [] x + boost_for None x)" by (simp add: carries_def zero)
  moreover have "parked ?t (votes_for [])" by (simp add: parked_def zero)
  moreover obtain t' where t': "update_node (fb_root anchor) ?t = Inr t'" "recached ?t t'"
    "unsettled t' \<subseteq> unsettled ?t - {fb_root anchor} \<union> {p. fn_parent ?n = Some p}"
    using update_node_settles [OF base, of "fb_root anchor" ?n] by auto
  moreover have "unsettled ?t \<subseteq> {fb_root anchor}" by (auto simp: unsettled_def)
  ultimately have "counted t' (votes_for []) (boost_for None)"
    using base by (intro recached_counted [OF t'(2)]) auto
  moreover have links: "same_links ?t t'" using t'(2) by (simp add: recached_def)
  ultimately have "tree_ok t'" by (intro same_links_tree_ok [OF links]) (auto simp: votes_ok_def)
  moreover have "tree_abs t' = spec_new anchor ctx"
    using same_links_abs [OF links] by (simp add: tree_abs_def spec_new_def blocks skeleton_def)
  moreover have "tree_new anchor ctx = Inr t'" using t'(1) by (simp add: tree_new_def)
  ultimately show ?thesis by blast
qed

lemma update_context_refines:
  assumes ok: "tree_ok t"
  shows "\<exists>t'. update_context ctx t = Inr t' \<and> tree_ok t' \<and> tree_abs t' = (tree_abs t)\<lparr> sp_context := ctx \<rparr>"
proof (cases "ctx = ft_context t")
  case True
  with ok show ?thesis by (simp add: update_context_def tree_abs_def)
next
  case False
  let ?t = "t\<lparr> ft_context := ctx \<rparr>"
  have c: "base t" "carries t (\<lambda>x. votes_for (ft_votes t) x + boost_for (ft_boost t) x)" "parked t (votes_for (ft_votes t))"
    using tree_okD(1) [OF ok] by (auto simp: counted_def)
  then have n: "base ?t" "carries ?t (\<lambda>x. votes_for (ft_votes t) x + boost_for (ft_boost t) x)"
    "parked ?t (votes_for (ft_votes t))"
    by (simp_all add: base_def carries_def parked_def tree_contains_def)
  obtain t' where t': "recompute_all ?t = Inr t'" "recached ?t t'" "unsettled t' = {}"
    using recompute_all_settles [OF n(1)] by blast
  have links: "same_links ?t t'" using t'(2) by (simp add: recached_def)
  have "tree_ok t'"
    by (rule same_links_tree_ok [OF links])
      (use recached_counted [OF t'(2,3) n] tree_okD(2-4) [OF ok] in \<open>auto simp: votes_ok_def tree_balance_of_def\<close>)
  moreover have "tree_abs t' = (tree_abs t)\<lparr> sp_context := ctx \<rparr>"
    using same_links_abs [OF links] by (simp add: tree_abs_def)
  ultimately show ?thesis using t' False by (simp add: update_context_def)
qed

section \<open>Inserting a block\<close>

lemma descends_extend:
  assumes "linked B root" and new: "B x = None" and p: "B p = Some c" and k: "sk_parent k = Some p"
  shows "descends (B(x \<mapsto> k)) r y \<longleftrightarrow> (if y = x then r = x \<or> descends B r p else descends B r y)"
proof -
  have par: "q \<noteq> x" if "B y = Some b" "sk_parent b = Some q" for y b q
    using linked_parent [OF assms(1) that] new by auto
  have fwd: "descends (B(x \<mapsto> k)) r y \<Longrightarrow> (if y = x then r = x \<or> descends B r p else descends B r y)" for r y
  proof (induction rule: descends.induct)
    case (self r b)
    then show ?case by (auto split: if_splits intro: descends.self)
  next
    case (step y b q r)
    show ?case
    proof (cases "y = x")
      case True
      with step k p new show ?thesis by (auto split: if_splits)
    next
      case False
      with step have "B y = Some b" by simp
      with step False par show ?thesis by (auto split: if_splits intro: descends.step)
    qed
  qed
  have mono: "descends B r y \<Longrightarrow> descends (B(x \<mapsto> k)) r y" for r y
  proof (induction rule: descends.induct)
    case (self r b)
    with new show ?case by (intro descends.self [of "B(x \<mapsto> k)" r b]) auto
  next
    case (step y b q r)
    with new have "y \<noteq> x" by auto
    with step.hyps(1) have "(B(x \<mapsto> k)) y = Some b" by simp
    from descends.step [of "B(x \<mapsto> k)", OF this step.hyps(2) step.IH] show ?case .
  qed
  show ?thesis
    using fwd [of r y] mono [of r y] mono [of r p] k
    by (auto split: if_splits intro: descends.self [of "B(x \<mapsto> k)" x k] descends.step [of "B(x \<mapsto> k)" x k p])
qed

lemma ancestor_at_extend:
  assumes "linked B root" and new: "B x = None" and y: "B y \<noteq> None"
  shows "ancestor_at (B(x \<mapsto> k)) slot y a \<longleftrightarrow> ancestor_at B slot y a"
proof
  assume "ancestor_at (B(x \<mapsto> k)) slot y a"
  then show "ancestor_at B slot y a"
    using y
  proof (induction rule: ancestor_at.induct)
    case (stop r b)
    with new show ?case by (auto split: if_splits intro: ancestor_at.stop)
  next
    case (up r b p a)
    with new have r: "B r = Some b" by (auto split: if_splits)
    have "B p \<noteq> None" using linked_parent [OF assms(1) r up.hyps(3)] by auto
    with up r show ?case by (auto intro: ancestor_at.up)
  qed
next
  assume "ancestor_at B slot y a"
  then show "ancestor_at (B(x \<mapsto> k)) slot y a"
  proof (induction rule: ancestor_at.induct)
    case (stop r b)
    with new have "r \<noteq> x" by auto
    with stop show ?case by (intro ancestor_at.stop [of _ r b]) auto
  next
    case (up r b p a)
    with new have "r \<noteq> x" by auto
    with up.hyps(1) have "(B(x \<mapsto> k)) r = Some b" by simp
    from ancestor_at.up [of "B(x \<mapsto> k)", OF this up.hyps(2,3) up.IH] show ?case .
  qed
qed

lemma leaf_viable_extend:
  assumes "linked B root" and "B x = None" and "B y \<noteq> None"
  shows "leaf_viable ctx (B(x \<mapsto> k)) y \<longleftrightarrow> leaf_viable ctx B y"
proof -
  have "y \<noteq> x" using assms by auto
  then show ?thesis by (simp add: leaf_viable_def ancestor_at_extend [OF assms])
qed

lemma linked_extend:
  assumes "linked B root" and "B x = None" and "B p = Some c" and "sk_parent k = Some p" and "sk_slot c < sk_slot k"
  shows "linked (B(x \<mapsto> k)) root"
proof -
  have "root \<noteq> x" "p \<noteq> x" using assms by (auto simp: linked_def)
  moreover have "q \<noteq> x" if "B y = Some b" "sk_parent b = Some q" for y b q
    using linked_parent [OF assms(1) that] assms(2) by auto
  ultimately show ?thesis
    using assms unfolding linked_def by (auto split: if_splits) metis
qed

text \<open>The cached fields of the children are all that the best descendant depends on.\<close>

lemma max_by_key_map:
  assumes "\<And>x. key' (p x) = key x"
  shows "max_by_key key' (map p xs) = map_option p (max_by_key key xs)"
proof -
  let ?F = "\<lambda>key best x. case best of None \<Rightarrow> Some x | Some b \<Rightarrow> if key b \<le> key x then Some x else Some b"
  have step: "?F key' (map_option p acc) (p x) = map_option p (?F key acc x)" for acc x
    by (cases acc) (simp_all add: assms)
  have "foldl (?F key') (map_option p acc) (map p xs) = map_option p (foldl (?F key) acc xs)" for acc
  proof (induction xs arbitrary: acc)
    case (Cons x xs)
    have "foldl (?F key') (map_option p acc) (map p (x # xs))
        = foldl (?F key') (?F key' (map_option p acc) (p x)) (map p xs)" by simp
    also have "\<dots> = foldl (?F key') (map_option p (?F key acc x)) (map p xs)" by (simp only: step)
    also have "\<dots> = map_option p (foldl (?F key) (?F key acc x) xs)" by (rule Cons.IH)
    finally show ?case by simp
  qed simp
  from this [of None] show ?thesis by (simp add: max_by_key_def)
qed

lemma best_child_caches:
  assumes "\<And>c. c \<in> set cs \<Longrightarrow> map_option (\<lambda>n. (fn_viable n, fn_weight n, fn_best_descendant n)) (tbl_get N c)
      = map_option (\<lambda>n. (fn_viable n, fn_weight n, fn_best_descendant n)) (tbl_get N' c)"
  shows "best_child N cs = best_child N' cs"
proof -
  let ?p = "\<lambda>(c, n). (c, fn_weight n, fn_best_descendant n)"
  have best: "best_child M cs = map_option (\<lambda>(c, w, d). d)
      (max_by_key (\<lambda>(c, w, d). (w, c)) (map ?p (viable_children M cs)))" for M
    by (subst max_by_key_map [where key = "\<lambda>(c, n). (fn_weight n, c)"])
      (simp_all add: best_child_def option.map_comp comp_def case_prod_unfold)
  have "map ?p (viable_children N cs) = map ?p (viable_children N' cs)"
    using assms
  proof (induction cs)
    case (Cons c cs)
    then have "map ?p (viable_children N cs) = map ?p (viable_children N' cs)" by simp
    with Cons.prems [of c] show ?case
      by (cases "tbl_get N c"; cases "tbl_get N' c") (auto simp: viable_children_def List.map_filter_simps)
  qed (simp add: viable_children_def List.map_filter_simps)
  then show ?thesis by (simp add: best)
qed

text \<open>The tree right after the block is linked in, before its caches are computed.\<close>

definition new_node :: "fork_choice_block \<Rightarrow> fork_choice_node" where
  "new_node b = \<lparr> fn_parent = Some (fb_parent_root b), fn_slot = fb_slot b, fn_children = [],
     fn_justified_checkpoint = fb_justified_checkpoint b,
     fn_unrealized_justified_checkpoint = fb_unrealized_justified_checkpoint b,
     fn_weight = 0, fn_viable = False, fn_best_descendant = fb_root b \<rparr>"

definition grown_nodes :: "fork_choice_block \<Rightarrow> fork_choice_node \<Rightarrow> fork_choice_nodes \<Rightarrow> fork_choice_nodes" where
  "grown_nodes b p N = tbl_insert (fb_root b) (new_node b)
     (tbl_insert (fb_parent_root b) (p\<lparr> fn_children := fn_children p @ [fb_root b] \<rparr>) N)"

lemma new_node_simps [simp]:
  "fn_parent (new_node b) = Some (fb_parent_root b)" "fn_slot (new_node b) = fb_slot b"
  "fn_children (new_node b) = []" "fn_weight (new_node b) = 0"
  by (simp_all add: new_node_def)

lemma grown_get:
  "tbl_get (grown_nodes b p N) r = (if r = fb_root b then Some (new_node b)
     else if r = fb_parent_root b then Some (p\<lparr> fn_children := fn_children p @ [fb_root b] \<rparr>) else tbl_get N r)"
  by (simp add: grown_nodes_def table_simps)

lemma grown_blocks:
  "tbl_get N (fb_parent_root b) = Some p \<Longrightarrow> blocks_of (grown_nodes b p N) = (blocks_of N)(fb_root b \<mapsto> skeleton (new_node b))"
  by (auto simp: blocks_of_def grown_get fun_eq_iff)

lemma grown_base:
  assumes base: "base t" and p: "tbl_get (ft_nodes t) (fb_parent_root b) = Some p"
    and new: "tbl_get (ft_nodes t) (fb_root b) = None" and slot: "fn_slot p < fb_slot b"
  shows "base (t\<lparr> ft_nodes := grown_nodes b p (ft_nodes t) \<rparr>)"
proof -
  let ?N = "ft_nodes t" and ?x = "fb_root b" and ?p = "fb_parent_root b" and ?k = "skeleton (new_node b)"
  let ?B = "blocks_of ?N"
  have linked: "linked ?B (ft_root t)" and wf: "tbl_wf ?N" using base by (auto simp: base_def)
  have px: "?p \<noteq> ?x" using p new by auto
  have blocks: "blocks_of (grown_nodes b p ?N) = ?B(?x \<mapsto> ?k)" by (rule grown_blocks [OF p])
  have child: "is_child (?B(?x \<mapsto> ?k)) r c \<longleftrightarrow> (if c = ?x then r = ?p else is_child ?B r c)" for r c
    by (auto simp: is_child_def)
  have nochild: "\<not> is_child ?B ?x c" for c
  proof
    assume "is_child ?B ?x c"
    then obtain k where "?B c = Some k" "sk_parent k = Some ?x" by (auto simp: is_child_def)
    from linked_parent [OF linked this] new show False by (auto simp: blocks_of_Some)
  qed
  have newchild: "\<not> is_child ?B r ?x" for r using new by (simp add: is_child_def blocks_of_Some)
  have "children_ok (grown_nodes b p ?N)"
    unfolding children_ok_def blocks
  proof (intro allI impI)
    fix r n assume n: "tbl_get (grown_nodes b p ?N) r = Some n"
    consider "r = ?x" "n = new_node b" | "r \<noteq> ?x" "r = ?p" "n = p\<lparr> fn_children := fn_children p @ [?x] \<rparr>"
      | "r \<noteq> ?x" "r \<noteq> ?p" "tbl_get ?N r = Some n"
      using n by (auto simp: grown_get split: if_splits)
    then show "distinct (fn_children n) \<and> (\<forall>c. c \<in> set (fn_children n) \<longleftrightarrow> is_child (?B(?x \<mapsto> ?k)) r c)"
    proof cases
      case 1
      then show ?thesis using nochild px by (auto simp: child)
    next
      case 2
      then show ?thesis
        using base_children [OF base p] base_children_distinct [OF base p] newchild [of ?p] by (auto simp: child)
    next
      case 3
      then show ?thesis
        using base_children [OF base 3(3)] base_children_distinct [OF base 3(3)] newchild [of r] by (auto simp: child)
    qed
  qed
  moreover have "linked (?B(?x \<mapsto> ?k)) (ft_root t)"
    by (rule linked_extend [OF linked, of ?x ?p "skeleton p"]) (use p new slot in \<open>auto simp: blocks_of_Some\<close>)
  ultimately show ?thesis using wf by (simp add: base_def blocks grown_nodes_def [symmetric]) (simp add: grown_nodes_def)
qed

lemma grown_unsettled:
  assumes base: "base t" and settled: "unsettled t = {}" and p: "tbl_get (ft_nodes t) (fb_parent_root b) = Some p"
    and new: "tbl_get (ft_nodes t) (fb_root b) = None"
  shows "unsettled (t\<lparr> ft_nodes := grown_nodes b p (ft_nodes t) \<rparr>) \<subseteq> {fb_root b, fb_parent_root b}"
proof
  let ?N = "ft_nodes t" and ?x = "fb_root b" and ?p = "fb_parent_root b" and ?M = "grown_nodes b p (ft_nodes t)"
  have linked: "linked (blocks_of ?N) (ft_root t)" using base by (auto simp: base_def)
  fix q assume "q \<in> unsettled (t\<lparr> ft_nodes := ?M \<rparr>)"
  then obtain m where m: "tbl_get ?M q = Some m"
    and bad: "(fn_viable m, fn_best_descendant m) \<noteq> outcome (ft_context t) ?M q m"
    by (auto simp: unsettled_def)
  show "q \<in> {?x, ?p}"
  proof (rule ccontr)
    assume q: "q \<notin> {?x, ?p}"
    then have m': "tbl_get ?N q = Some m" using m by (simp add: grown_get)
    have leaf: "leaf_viable (ft_context t) (blocks_of ?M) q = leaf_viable (ft_context t) (blocks_of ?N) q"
      unfolding grown_blocks [OF p] by (rule leaf_viable_extend [OF linked]) (use new m' in simp_all)
    have "best_child ?M (fn_children m) = best_child ?N (fn_children m)"
    proof (rule best_child_caches)
      fix c assume "c \<in> set (fn_children m)"
      then have "is_child (blocks_of ?N) q c" using base_children [OF base m'] by simp
      then have "c \<noteq> ?x" using new by (auto simp: is_child_def blocks_of_Some)
      then show "map_option (\<lambda>n. (fn_viable n, fn_weight n, fn_best_descendant n)) (tbl_get ?M c)
          = map_option (\<lambda>n. (fn_viable n, fn_weight n, fn_best_descendant n)) (tbl_get ?N c)"
        using p by (simp add: grown_get)
    qed
    with leaf have "outcome (ft_context t) ?M q m = outcome (ft_context t) ?N q m" by (simp add: outcome_def)
    with bad settled_node [OF base settled m'] show False by simp
  qed
qed

lemma grown_carries:
  assumes base: "base t" and carries: "carries t g" and p: "tbl_get (ft_nodes t) (fb_parent_root b) = Some p"
    and new: "tbl_get (ft_nodes t) (fb_root b) = None"
  shows "carries (t\<lparr> ft_nodes := grown_nodes b p (ft_nodes t) \<rparr>) (g(fb_root b := 0))"
  unfolding carries_def
proof (intro allI impI)
  let ?N = "ft_nodes t" and ?x = "fb_root b" and ?p = "fb_parent_root b" and ?M = "grown_nodes b p (ft_nodes t)"
  let ?B = "blocks_of ?N"
  have linked: "linked ?B (ft_root t)" using base by (auto simp: base_def)
  fix r n assume "tbl_get (ft_nodes (t\<lparr> ft_nodes := ?M \<rparr>)) r = Some n"
  then have n: "tbl_get ?M r = Some n" by simp
  have desc: "descends (blocks_of ?M) r y \<longleftrightarrow> (if y = ?x then r = ?x \<or> descends ?B r ?p else descends ?B r y)" for y
    unfolding grown_blocks [OF p]
    by (rule descends_extend [OF linked, of _ _ "skeleton p"]) (use p new in \<open>auto simp: blocks_of_Some\<close>)
  have none: "\<not> descends ?B r ?x" using descends_dom [of ?B r ?x] new by auto
  have "(\<Sum>y | descends (blocks_of ?M) r y. (g(?x := 0)) y) = (\<Sum>y | descends ?B r y. g y)"
    by (rule sum.mono_neutral_cong_right) (use desc none in \<open>auto split: if_splits\<close>)
  moreover have "unat (fn_weight n) = (\<Sum>y | descends ?B r y. g y)"
  proof (cases "r = ?x")
    case True
    then have "\<not> descends ?B r y" for y using descends_dom_root [of ?B r y] new by auto
    moreover have "n = new_node b" using n True by (simp add: grown_get)
    ultimately show ?thesis by simp
  next
    case False
    then obtain m where m: "tbl_get ?N r = Some m" "fn_weight n = fn_weight m"
      using n p by (auto simp: grown_get split: if_splits)
    then show ?thesis using carries unfolding carries_def by metis
  qed
  ultimately show "unat (fn_weight n) = (\<Sum>y | descends (blocks_of (ft_nodes (t\<lparr> ft_nodes := ?M \<rparr>))) r y. (g(?x := 0)) y)"
    by simp
qed

lemma parked_value:
  assumes "parked t f" and "\<not> tree_contains t x" and "f x < 2 ^ 64"
  shows "unat (case tbl_get (ft_pending_weight t) x of None \<Rightarrow> 0 | Some w \<Rightarrow> w) = f x"
  using assms by (simp add: parked_def unat_of_nat_small)

lemma grown_settled:
  assumes ok: "tree_ok t" and p: "tbl_get (ft_nodes t) (fb_parent_root b) = Some p"
    and new: "tbl_get (ft_nodes t) (fb_root b) = None" and slot: "fn_slot p < fb_slot b"
  shows "\<exists>u v. update_node (fb_root b) (t\<lparr> ft_nodes := grown_nodes b p (ft_nodes t) \<rparr>) = Inr u
    \<and> update_ancestors (fb_parent_root b) u = Inr v
    \<and> same_links (t\<lparr> ft_nodes := grown_nodes b p (ft_nodes t) \<rparr>) v \<and> unsettled v = {}
    \<and> carries v ((\<lambda>x. votes_for (ft_votes t) x + boost_for (ft_boost t) x)(fb_root b := 0))"
proof -
  let ?x = "fb_root b" and ?p = "fb_parent_root b" and ?t = "t\<lparr> ft_nodes := grown_nodes b p (ft_nodes t) \<rparr>"
  let ?g = "\<lambda>x. votes_for (ft_votes t) x + boost_for (ft_boost t) x"
  have c: "base t" "unsettled t = {}" "carries t ?g" using tree_okD(1) [OF ok] by (auto simp: counted_def)
  have base: "base ?t" by (rule grown_base [OF c(1) p new slot])
  have nodes: "tbl_get (ft_nodes ?t) ?x = Some (new_node b)" by (simp add: grown_get)
  have px: "?p \<noteq> ?x" using p new by auto
  obtain u where u: "update_node ?x ?t = Inr u" "recached ?t u" "unsettled u \<subseteq> unsettled ?t - {?x} \<union> {?p}"
    using update_node_settles [OF base nodes] by auto
  have links: "same_links ?t u" using u(2) by (simp add: recached_def)
  have baseu: "base u" by (rule same_links_base [OF links base])
  obtain m where m: "tbl_get (ft_nodes u) ?p = Some m"
    using same_links_node [OF links, of ?p "p\<lparr> fn_children := fn_children p @ [?x] \<rparr>"] px by (auto simp: grown_get)
  obtain ps where ps: "chain (blocks_of (ft_nodes u)) ?p ps" using base_chain [OF baseu m] .
  have "?p \<in> set ps" using chain_head [OF ps] by auto
  moreover have "unsettled u \<subseteq> {?p}" using u(3) grown_unsettled [OF c(1,2) p new] by auto
  ultimately obtain v where v: "update_ancestors ?p u = Inr v" "recached u v" "unsettled v = {}"
    using update_ancestors_settles [OF baseu ps] by blast
  have "carries v (?g(?x := 0))"
    by (rule carries_recached [OF v(2) carries_recached [OF u(2) grown_carries [OF c(1,3) p new]]])
  moreover have "same_links ?t v" using links v(2) by (auto simp: recached_def intro: same_links_trans)
  ultimately show ?thesis using u(1) v by blast
qed

lemma tree_insert_eq:
  assumes "tbl_get (ft_nodes t) (fb_root b) = None" and p: "tbl_get (ft_nodes t) (fb_parent_root b) = Some p"
    and "fn_slot p < fb_slot b"
    and "update_node (fb_root b) (t\<lparr> ft_nodes := grown_nodes b p (ft_nodes t) \<rparr>) = Inr u"
    and "update_ancestors (fb_parent_root b) u = Inr v"
    and "w = (case tbl_get (ft_pending_weight v) (fb_root b) of None \<Rightarrow> 0 | Some w \<Rightarrow> w)"
    and "v' = v\<lparr> ft_pending_weight := tbl_remove (fb_root b) (ft_pending_weight v) \<rparr>"
  shows "tree_insert b t = (if w > 0 then apply_weight_delta (fb_root b) (uint w) v' else Inr v')"
  using assms by (simp add: tree_insert_def tree_contains_def require_def grown_nodes_def new_node_def Let_def)

lemma grown_parked:
  assumes "parked t f" and "same_links (t\<lparr> ft_nodes := grown_nodes b p (ft_nodes t) \<rparr>) v"
    and "tbl_get (ft_nodes t) (fb_parent_root b) = Some p"
  shows "parked (v\<lparr> ft_pending_weight := tbl_remove (fb_root b) (ft_pending_weight v) \<rparr>) f"
proof -
  have "tree_contains v y \<longleftrightarrow> y = fb_root b \<or> tree_contains t y" for y
    using same_links_contains [OF assms(2), of y] assms(3) by (auto simp: tree_contains_def grown_get split: if_splits)
  moreover have "ft_pending_weight v = ft_pending_weight t" using same_links_fields(6) [OF assms(2)] by simp
  ultimately show ?thesis using assms(1) by (auto simp: parked_def table_simps)
qed

lemma tree_insert_refines:
  assumes ok: "tree_ok t" and p: "tbl_get (ft_nodes t) (fb_parent_root b) = Some p"
    and new: "tbl_get (ft_nodes t) (fb_root b) = None" and slot: "fn_slot p < fb_slot b"
    and boost: "map_option fst (ft_boost t) \<noteq> Some (fb_root b)"
  shows "\<exists>t'. tree_insert b t = Inr t' \<and> tree_ok t' \<and>
    tree_abs t' = (tree_abs t)\<lparr> sp_blocks := (sp_blocks (tree_abs t))(fb_root b \<mapsto> skeleton (new_node b)) \<rparr>"
proof -
  let ?x = "fb_root b" and ?t = "t\<lparr> ft_nodes := grown_nodes b p (ft_nodes t) \<rparr>"
  let ?f = "votes_for (ft_votes t)" and ?b = "boost_for (ft_boost t)"
  let ?g = "\<lambda>x. ?f x + ?b x"
  obtain u v where uv: "update_node ?x ?t = Inr u" "update_ancestors (fb_parent_root b) u = Inr v"
    "same_links ?t v" "unsettled v = {}" "carries v (?g(?x := 0))"
    using grown_settled [OF ok p new slot] by blast
  have base: "base v" by (rule same_links_base [OF uv(3) grown_base [OF counted_base [OF tree_okD(1) [OF ok]] p new slot]])
  define w where "w = (case tbl_get (ft_pending_weight v) ?x of None \<Rightarrow> 0 | Some w \<Rightarrow> w)"
  define v' where "v' = v\<lparr> ft_pending_weight := tbl_remove ?x (ft_pending_weight v) \<rparr>"
  have park: "parked t ?f" using tree_okD(1) [OF ok] by (simp add: counted_def)
  have bx: "?b ?x = 0" using boost by (auto simp: boost_for_def split: option.split)
  define F where "F = (\<Sum>y \<in> UNIV. ?g y)"
  have F: "F < 2 ^ 63"
    using sum_votes_for [OF tree_okD(2) [OF ok]] tree_ok_boost_le [OF ok] tree_okD(4) [OF ok]
    unfolding F_def sum.distrib by linarith
  have fx: "?f ?x \<le> F"
  proof -
    have "?g ?x \<le> F" unfolding F_def by (rule member_le_sum) auto
    then show ?thesis by simp
  qed
  have w: "unat w = ?f ?x"
    using parked_value [OF park, of ?x] new fx F same_links_fields(6) [OF uv(3)]
    by (simp add: w_def tree_contains_def)
  have restore: "(?g(?x := 0))(?x := nat (int ((?g(?x := 0)) ?x) + uint w)) = ?g"
  proof -
    have "nat (uint w) = ?f ?x" using w by simp
    then show ?thesis using bx by (auto simp: fun_eq_iff)
  qed
  have ready: "base v'" "unsettled v' = {}" "carries v' (?g(?x := 0))" "parked v' ?f"
    using base uv grown_parked [OF park uv(3) p] by (auto simp: v'_def)
  have eq: "tree_insert b t = (if w > 0 then apply_weight_delta ?x (uint w) v' else Inr v')"
    by (rule tree_insert_eq [OF new p slot uv(1,2) w_def v'_def])
  have "\<exists>t'. tree_insert b t = Inr t' \<and> same_links v' t' \<and> unsettled t' = {} \<and> carries t' ?g"
  proof (cases "w > 0")
    case True
    define G where "G = (\<Sum>y \<in> UNIV. (?g(?x := 0)) y)"
    have "G \<le> F" unfolding F_def G_def by (rule sum_mono) auto
    then have "int G + int (?f ?x) < 2 ^ 64" using fx F by simp
    then have "int (\<Sum>y \<in> UNIV. (?g(?x := 0)) y) + uint w < 2 ^ 64" by (simp only: G_def uint_nat w)
    from apply_weight_delta_any [OF ready(1-3) _ this, of ?x, unfolded restore] show ?thesis
      using True eq by simp
  next
    case False
    then have "uint w = 0" by (simp add: word_gt_0)
    then have "?g(?x := 0) = ?g" using restore by simp
    with False eq ready same_links_refl [OF ready(1)] show ?thesis by auto
  qed
  then obtain t' where t': "tree_insert b t = Inr t'" "same_links v' t'" "unsettled t' = {}" "carries t' ?g" by blast
  have "counted t' ?f ?b"
    using t' same_links_base [OF t'(2) ready(1)] parked_same_links [OF t'(2)] ready(4) by (simp add: counted_def)
  moreover note fields = same_links_fields [OF t'(2)] same_links_blocks [OF t'(2)]
    same_links_fields [OF uv(3)] same_links_blocks [OF uv(3)]
  ultimately have "tree_ok t'"
    using tree_okD(2-4) [OF ok] by (auto simp: tree_ok_def votes_ok_def tree_balance_of_def v'_def)
  moreover have "tree_abs t' = (tree_abs t)\<lparr> sp_blocks := (sp_blocks (tree_abs t))(?x \<mapsto> skeleton (new_node b)) \<rparr>"
    using fields by (simp add: tree_abs_def v'_def grown_blocks [OF p])
  ultimately show ?thesis using t'(1) by blast
qed

end
