(* ===== verification/Beacon_Fork_Prune.thy ===== *)
theory Beacon_Fork_Prune
  imports Beacon_Fork_Blocks
begin

text \<open>Pruning: the descendants of the new root stay, with their weights; the votes for the blocks that go
  are parked.\<close>

section \<open>The blocks that stay\<close>

text \<open>The state of the worklist: what is retained and what is left make up all nodes, and the children of
  retained nodes are retained or still waiting.\<close>

definition pruning :: "fork_choice_nodes \<Rightarrow> b256 \<Rightarrow> fork_choice_nodes \<Rightarrow> b256 list \<Rightarrow> fork_choice_nodes \<Rightarrow> bool" where
  "pruning N r left pending retained \<longleftrightarrow> tbl_wf left \<and> tbl_wf retained \<and>
     (\<forall>x. tbl_get N x = (case tbl_get retained x of Some n \<Rightarrow> Some n | None \<Rightarrow> tbl_get left x)) \<and>
     (\<forall>x. tbl_get retained x \<noteq> None \<longrightarrow> tbl_get left x = None) \<and>
     (\<forall>x. tbl_get retained x \<noteq> None \<or> x \<in> set pending \<longrightarrow> descends (blocks_of N) r x) \<and>
     (\<forall>x n c. tbl_get retained x = Some n \<longrightarrow> c \<in> set (fn_children n) \<longrightarrow> tbl_get retained c \<noteq> None \<or> c \<in> set pending) \<and>
     (tbl_get retained r \<noteq> None \<or> r \<in> set pending)"

lemma pruningD:
  assumes "pruning N r left pending retained"
  shows "tbl_wf left" "tbl_wf retained"
    "tbl_get N x = (case tbl_get retained x of Some n \<Rightarrow> Some n | None \<Rightarrow> tbl_get left x)"
    "tbl_get retained x \<noteq> None \<Longrightarrow> tbl_get left x = None"
    "tbl_get retained x \<noteq> None \<or> x \<in> set pending \<Longrightarrow> descends (blocks_of N) r x"
    "tbl_get retained x = Some n \<Longrightarrow> d \<in> set (fn_children n) \<Longrightarrow> tbl_get retained d \<noteq> None \<or> d \<in> set pending"
    "tbl_get retained r \<noteq> None \<or> r \<in> set pending"
  using assms unfolding pruning_def by blast+

lemma pruningI:
  assumes "tbl_wf left" and "tbl_wf retained"
    and "\<And>x. tbl_get N x = (case tbl_get retained x of Some n \<Rightarrow> Some n | None \<Rightarrow> tbl_get left x)"
    and "\<And>x. tbl_get retained x \<noteq> None \<Longrightarrow> tbl_get left x = None"
    and "\<And>x. tbl_get retained x \<noteq> None \<or> x \<in> set pending \<Longrightarrow> descends (blocks_of N) r x"
    and "\<And>x n d. tbl_get retained x = Some n \<Longrightarrow> d \<in> set (fn_children n) \<Longrightarrow> tbl_get retained d \<noteq> None \<or> d \<in> set pending"
    and "tbl_get retained r \<noteq> None \<or> r \<in> set pending"
  shows "pruning N r left pending retained"
  unfolding pruning_def using assms by blast

lemma pruning_skip:
  assumes "pruning N r left (pending @ [c]) retained" and none: "tbl_get left c = None"
  shows "pruning N r left pending retained"
proof -
  note p = pruningD [OF assms(1)]
  have "descends (blocks_of N) r c" by (rule p(5)) simp
  then have "tbl_get N c \<noteq> None" using descends_dom [of "blocks_of N" r c] by simp
  then have c: "tbl_get retained c \<noteq> None"
    using p(3) [of c] none by (cases "tbl_get retained c") auto
  show ?thesis
  proof (rule pruningI [OF p(1-4)])
    show "tbl_get retained x \<noteq> None \<or> x \<in> set pending \<Longrightarrow> descends (blocks_of N) r x" for x
      using p(5) [of x] by auto
    show "tbl_get retained d \<noteq> None \<or> d \<in> set pending" if "tbl_get retained x = Some n" "d \<in> set (fn_children n)" for x n d
      using p(6) [OF that] c by (cases "d = c") auto
    show "tbl_get retained r \<noteq> None \<or> r \<in> set pending" using p(7) c by (cases "r = c") auto
  qed
qed

lemma pruning_take:
  assumes "pruning N r left (pending @ [c]) retained" and n: "tbl_get left c = Some n"
    and children: "\<And>d. d \<in> set (fn_children n) \<Longrightarrow> is_child (blocks_of N) c d"
  shows "pruning N r (tbl_remove c left) (pending @ fn_children n) (tbl_insert c n retained)"
proof -
  note p = pruningD [OF assms(1)]
  have c: "descends (blocks_of N) r c" using p(5) [of c] by simp
  have kids: "descends (blocks_of N) r d" if "d \<in> set (fn_children n)" for d
    using descends_trans [OF descends_child [OF children [OF that]] c] descends_dom [OF c] by simp
  have none: "tbl_get retained c = None" using p(4) [of c] n by (cases "tbl_get retained c") auto
  show ?thesis
  proof (rule pruningI)
    fix x
    show "tbl_get N x = (case tbl_get (tbl_insert c n retained) x of Some n \<Rightarrow> Some n | None \<Rightarrow> tbl_get (tbl_remove c left) x)"
      using p(3) [of x] none n by (auto simp: table_simps split: option.split)
    show "tbl_get (tbl_remove c left) x = None" if "tbl_get (tbl_insert c n retained) x \<noteq> None"
      using p(4) [of x] that by (auto simp: table_simps split: if_splits)
    show "descends (blocks_of N) r x"
      if "tbl_get (tbl_insert c n retained) x \<noteq> None \<or> x \<in> set (pending @ fn_children n)"
      using that p(5) [of x] c kids by (auto simp: table_simps split: if_splits)
  next
    fix x m d
    assume "tbl_get (tbl_insert c n retained) x = Some m" "d \<in> set (fn_children m)"
    then show "tbl_get (tbl_insert c n retained) d \<noteq> None \<or> d \<in> set (pending @ fn_children n)"
      using p(6) [of x m d] by (auto simp: table_simps split: if_splits)
  qed (use p(1,2,7) in \<open>auto simp: table_simps\<close>)
qed

lemma prune_loop_Nil: "prune_loop left [] retained = retained"
  by (simp add: prune_loop.simps)

lemma prune_loop_snoc:
  "prune_loop left (qs @ [c]) retained =
     (case tbl_get left c of
        None \<Rightarrow> prune_loop left qs retained
      | Some n \<Rightarrow> prune_loop (tbl_remove c left) (qs @ fn_children n) (tbl_insert c n retained))"
  by (subst prune_loop.simps) simp

lemma prune_loop_pruning:
  assumes "pruning N r left pending retained"
    and children: "\<And>x n c. tbl_get N x = Some n \<Longrightarrow> c \<in> set (fn_children n) \<Longrightarrow> is_child (blocks_of N) x c"
  shows "\<exists>left'. pruning N r left' [] (prune_loop left pending retained)"
  using assms(1)
proof (induction left pending retained rule: prune_loop.induct)
  case (1 left pending retained)
  show ?case
  proof (cases pending rule: rev_cases)
    case Nil
    then show ?thesis using 1(3) by (auto simp: prune_loop_Nil)
  next
    case (snoc qs c)
    then have q: "pending \<noteq> []" "last pending = c" "butlast pending = qs" by simp_all
    show ?thesis
    proof (cases "tbl_get left c")
      case None
      have "pruning N r left qs retained" by (rule pruning_skip [OF _ None]) (use 1(3) snoc in simp)
      with 1(1) [OF q(1) q(2) [symmetric] q(3) [symmetric] None]
      have "\<exists>left'. pruning N r left' [] (prune_loop left qs retained)" by blast
      with None show ?thesis by (simp add: snoc prune_loop_snoc)
    next
      case (Some n)
      have "tbl_get retained c = None"
        using pruningD(4) [OF 1(3), of c] Some by (cases "tbl_get retained c") auto
      then have n: "tbl_get N c = Some n" using pruningD(3) [OF 1(3), of c] Some by simp
      have "pruning N r (tbl_remove c left) (qs @ fn_children n) (tbl_insert c n retained)"
        by (rule pruning_take [OF _ Some children [OF n]]) (use 1(3) snoc in simp)
      with 1(2) [OF q(1) q(2) [symmetric] q(3) [symmetric] Some]
      have "\<exists>left'. pruning N r left' [] (prune_loop (tbl_remove c left) (qs @ fn_children n) (tbl_insert c n retained))"
        by blast
      with Some show ?thesis by (simp add: snoc prune_loop_snoc)
    qed
  qed
qed

lemma prune_loop_retains:
  assumes "base t" and r: "tbl_get (ft_nodes t) r \<noteq> None"
  shows "tbl_wf (prune_loop (ft_nodes t) [r] [])"
    "tbl_get (prune_loop (ft_nodes t) [r] []) x = (if descends (blocks_of (ft_nodes t)) r x then tbl_get (ft_nodes t) x else None)"
proof -
  let ?N = "ft_nodes t" and ?R = "prune_loop (ft_nodes t) [r] []"
  let ?B = "blocks_of ?N"
  obtain n where n: "tbl_get ?N r = Some n" using r by auto
  have "pruning ?N r ?N [r] []"
    by (rule pruningI) (use assms(1) n in \<open>auto simp: base_def blocks_of_Some intro: descends.self\<close>)
  then obtain left' where "pruning ?N r left' [] ?R"
    using prune_loop_pruning [of ?N r ?N "[r]" "[]"] base_children [OF assms(1)] by blast
  note p = pruningD [OF this]
  show "tbl_wf ?R" by (rule p(2))
  have get: "tbl_get ?N y = Some m" if "tbl_get ?R y = Some m" for y m
    using p(3) [of y] that by simp
  have closed: "tbl_get ?R c \<noteq> None" if "tbl_get ?R y = Some m" "c \<in> set (fn_children m)" for y m c
    using p(6) [OF that] by simp
  have "descends ?B q y \<Longrightarrow> tbl_get ?R q \<noteq> None \<Longrightarrow> tbl_get ?R y \<noteq> None" for q y
  proof (induction rule: descends.induct)
    case (step y b q r')
    then obtain m where m: "tbl_get ?R q = Some m" by auto
    have "y \<in> set (fn_children m)"
      using base_children [OF assms(1) get [OF m]] step.hyps(1,2) by (auto simp: is_child_def)
    with closed m show ?case by blast
  qed
  then have keep: "descends ?B r y \<Longrightarrow> tbl_get ?R y \<noteq> None" for y using p(7) by simp
  show "tbl_get ?R x = (if descends ?B r x then tbl_get ?N x else None)"
    using keep [of x] get [of x] p(5) [of x] by (cases "tbl_get ?R x") auto
qed

section \<open>The tree below a block\<close>

definition subtree :: "b256 \<Rightarrow> spec_blocks \<Rightarrow> spec_blocks" where
  "subtree r B x = (if descends B r x
     then map_option (\<lambda>b. if x = r then b\<lparr> sk_parent := None \<rparr> else b) (B x) else None)"

lemma descends_step_back:
  assumes "descends B r x" and "x \<noteq> r" and "B x = Some b" and "sk_parent b = Some p"
  shows "descends B r p"
  using assms by (auto elim: descends.cases)

lemma linked_subtree:
  assumes "linked B root" and "B r \<noteq> None"
  shows "linked (subtree r B) r"
  unfolding linked_def
proof (intro conjI allI impI)
  obtain b where b: "B r = Some b" using assms(2) by auto
  then show "\<exists>b. subtree r B r = Some b \<and> sk_parent b = None" by (auto simp: subtree_def intro: descends.self)
  fix x k assume x: "subtree r B x = Some k" "x \<noteq> r"
  then have d: "descends B r x" "B x = Some k" by (auto simp: subtree_def split: if_splits)
  with x(2) obtain p where p: "sk_parent k = Some p" by (auto elim: descends.cases)
  obtain c where c: "B p = Some c" "sk_slot c < sk_slot k" using linked_parent [OF assms(1) d(2) p] by blast
  have "descends B r p" by (rule descends_step_back [OF d(1) x(2) d(2) p])
  then have "\<exists>c'. subtree r B p = Some c' \<and> sk_slot c' < sk_slot k" using c by (auto simp: subtree_def)
  with p show "\<exists>p c. sk_parent k = Some p \<and> subtree r B p = Some c \<and> sk_slot c < sk_slot k" by blast
qed

lemma descends_subtree:
  assumes "linked B root" and q: "descends B r q"
  shows "descends (subtree r B) q y \<longleftrightarrow> descends B q y"
proof
  show "descends (subtree r B) q y \<Longrightarrow> descends B q y"
  proof (induction rule: descends.induct)
    case (self q b)
    then show ?case by (auto simp: subtree_def split: if_splits intro: descends.self)
  next
    case (step y b p q)
    then obtain c where "B y = Some c" "sk_parent c = Some p" by (auto simp: subtree_def split: if_splits)
    with step.IH show ?case by (auto intro: descends.step)
  qed
  have "descends B q y \<Longrightarrow> descends B r q \<Longrightarrow> descends (subtree r B) q y"
  proof (induction rule: descends.induct)
    case (self q b)
    then show ?case by (intro descends.self) (auto simp: subtree_def)
  next
    case (step y b p q)
    have y: "descends B q y" by (rule descends.step [OF step.hyps])
    have d: "descends B r y" by (rule descends_trans [OF y step.prems])
    show ?case
    proof (cases "y = r")
      case True
      then have "q = y" using descends_antisym [OF assms(1) y] step.prems by simp
      moreover have "\<exists>k. subtree r B y = Some k" using step.hyps(1) d by (simp add: subtree_def)
      ultimately show ?thesis by (auto intro: descends.self)
    next
      case False
      then have "subtree r B y = Some b" using d step.hyps(1) by (simp add: subtree_def)
      then show ?thesis by (rule descends.step [OF _ step.hyps(2) step.IH [OF step.prems]])
    qed
  qed
  then show "descends B q y \<Longrightarrow> descends (subtree r B) q y" using q by blast
qed

lemma is_child_subtree:
  assumes "linked B root" and q: "descends B r q"
  shows "is_child (subtree r B) q c \<longleftrightarrow> is_child B q c"
proof
  show "is_child (subtree r B) q c \<Longrightarrow> is_child B q c"
    by (auto simp: is_child_def subtree_def split: if_splits)
  assume child: "is_child B q c"
  then obtain b where b: "B c = Some b" "sk_parent b = Some q" by (auto simp: is_child_def)
  have "B q \<noteq> None" by (rule descends_dom [OF q])
  have c: "descends B q c" by (rule descends_child [OF child]) fact
  have "c \<noteq> r"
  proof
    assume "c = r"
    then have "c = q" using descends_antisym [OF assms(1) c] q by simp
    with linked_parent [OF assms(1) b] b(1) show False by auto
  qed
  with b descends_trans [OF c q] show "is_child (subtree r B) q c" by (simp add: is_child_def subtree_def)
qed

section \<open>Pruning the tree\<close>

definition pruned_nodes :: "b256 \<Rightarrow> fork_choice_tree \<Rightarrow> fork_choice_nodes" where
  "pruned_nodes r t =
     (let retained = prune_loop (ft_nodes t) [r] []
      in case tbl_get retained r of
           Some node \<Rightarrow> tbl_insert r (node\<lparr> fn_parent := None \<rparr>) retained | None \<Rightarrow> retained)"

lemma pruned_get:
  assumes "base t" and "tree_contains t r"
  shows "tbl_wf (pruned_nodes r t)"
    "tbl_get (pruned_nodes r t) x = (if descends (blocks_of (ft_nodes t)) r x
      then map_option (\<lambda>n. if x = r then n\<lparr> fn_parent := None \<rparr> else n) (tbl_get (ft_nodes t) x) else None)"
proof -
  obtain n where n: "tbl_get (ft_nodes t) r = Some n" using assms(2) by (auto simp: tree_contains_def)
  then have self: "descends (blocks_of (ft_nodes t)) r r" by (intro descends.self) (simp add: blocks_of_Some)
  have r: "tbl_get (ft_nodes t) r \<noteq> None" using n by simp
  note ret = prune_loop_retains [OF assms(1) r]
  have eq: "pruned_nodes r t = tbl_insert r (n\<lparr> fn_parent := None \<rparr>) (prune_loop (ft_nodes t) [r] [])"
    using ret(2) [of r] n self by (simp add: pruned_nodes_def Let_def)
  show "tbl_wf (pruned_nodes r t)" unfolding eq using ret(1) by simp
  show "tbl_get (pruned_nodes r t) x = (if descends (blocks_of (ft_nodes t)) r x
      then map_option (\<lambda>n. if x = r then n\<lparr> fn_parent := None \<rparr> else n) (tbl_get (ft_nodes t) x) else None)"
    unfolding eq using ret(2) [of x] n self by (auto simp: table_simps option.map_ident)
qed

lemma pruned_blocks:
  assumes "base t" and "tree_contains t r"
  shows "blocks_of (pruned_nodes r t) = subtree r (blocks_of (ft_nodes t))"
proof
  fix x
  show "blocks_of (pruned_nodes r t) x = subtree r (blocks_of (ft_nodes t)) x"
    unfolding subtree_def blocks_of_def pruned_get(2) [OF assms, unfolded blocks_of_def]
    by (cases "x = r") (simp_all add: option.map_comp comp_def skeleton_def option.map_ident)
qed

lemma pruned_base:
  assumes "base t" and r: "tree_contains t r"
  shows "base (t\<lparr> ft_nodes := pruned_nodes r t, ft_root := r \<rparr>)"
proof -
  let ?B = "blocks_of (ft_nodes t)"
  have linked: "linked ?B (ft_root t)" using assms(1) by (simp add: base_def)
  have dom: "?B r \<noteq> None" using r by (simp add: tree_contains_def)
  have "children_ok (pruned_nodes r t)"
    unfolding children_ok_def pruned_blocks [OF assms]
  proof (intro allI impI)
    fix q n assume "tbl_get (pruned_nodes r t) q = Some n"
    then obtain m where m: "descends ?B r q" "tbl_get (ft_nodes t) q = Some m" "fn_children n = fn_children m"
      by (auto simp: pruned_get(2) [OF assms] split: if_splits)
    show "distinct (fn_children n) \<and> (\<forall>c. c \<in> set (fn_children n) \<longleftrightarrow> is_child (subtree r ?B) q c)"
      using base_children [OF assms(1) m(2)] base_children_distinct [OF assms(1) m(2)] m(3)
        is_child_subtree [OF linked m(1)] by simp
  qed
  with linked_subtree [OF linked dom] pruned_get(1) [OF assms] pruned_blocks [OF assms]
  show ?thesis by (simp add: base_def)
qed

lemma pruned_carries:
  assumes "base t" and r: "tree_contains t r" and carries: "carries t g"
  shows "carries (t\<lparr> ft_nodes := pruned_nodes r t, ft_root := r \<rparr>) g"
  unfolding carries_def
proof (intro allI impI)
  let ?B = "blocks_of (ft_nodes t)" and ?t = "t\<lparr> ft_nodes := pruned_nodes r t, ft_root := r \<rparr>"
  have linked: "linked ?B (ft_root t)" using assms(1) by (simp add: base_def)
  fix q n assume "tbl_get (ft_nodes ?t) q = Some n"
  then obtain m where m: "descends ?B r q" "tbl_get (ft_nodes t) q = Some m" "fn_weight n = fn_weight m"
    by (auto simp: pruned_get(2) [OF assms(1,2)] split: if_splits)
  have "unat (fn_weight m) = (\<Sum>y | descends ?B q y. g y)" using carries m(2) by (simp add: carries_def)
  then show "unat (fn_weight n) = (\<Sum>y | descends (blocks_of (ft_nodes ?t)) q y. g y)"
    using m(3) by (simp add: pruned_blocks [OF assms(1,2)] descends_subtree [OF linked m(1)])
qed

section \<open>Parking the votes for the blocks that go\<close>

lemma votes_for_list:
  "distinct (map fst V) \<Longrightarrow> votes_for V x = (\<Sum>(v, w) \<leftarrow> V. vote_value x (Some w))"
proof (induction V)
  case Nil
  then show ?case by (simp add: votes_for_def vote_value_def)
next
  case (Cons p V)
  obtain v w where p: "p = (v, w)" by force
  have none: "tbl_get V v = None" using Cons.prems p by (simp add: map_of_eq_None_iff)
  have "votes_for ((v, w) # V) x = vote_value x (Some w) + (\<Sum>u \<in> UNIV - {v}. vote_value x (tbl_get V u))"
    unfolding votes_for_def by (subst sum.remove [of _ v]) (auto intro: sum.cong)
  also have "(\<Sum>u \<in> UNIV - {v}. vote_value x (tbl_get V u)) = votes_for V x"
    unfolding votes_for_def by (subst (2) sum.remove [of _ v]) (auto simp: none vote_value_def)
  finally show ?case using Cons p by simp
qed

lemma rebuild_fold:
  fixes inside :: "b256 \<Rightarrow> bool"
  assumes "tbl_wf P" and "\<And>x. tbl_get P x = (if inside x \<or> f x = 0 then None else Some (of_nat (f x)))"
  defines "step \<equiv> \<lambda>(_ :: u64, vote) pending.
      if av_balance vote > 0 \<and> \<not> inside (av_root vote)
      then tbl_insert (av_root vote)
        ((case tbl_get pending (av_root vote) of None \<Rightarrow> 0 | Some w \<Rightarrow> w) + av_balance vote) pending
      else pending"
  shows "tbl_wf (fold step V P) \<and> (\<forall>x. tbl_get (fold step V P) x =
    (let s = f x + (\<Sum>(v, w) \<leftarrow> V. vote_value x (Some w)) in if inside x \<or> s = 0 then None else Some (of_nat s)))"
  using assms(1,2)
proof (induction V arbitrary: P f)
  case Nil
  then show ?case by simp
next
  case (Cons p V)
  obtain v w where p: "p = (v, w)" by force
  let ?f = "\<lambda>x. f x + vote_value x (Some w)"
  have "tbl_wf (step (v, w) P)" using Cons.prems(1) by (simp add: step_def)
  moreover have "tbl_get (step (v, w) P) x = (if inside x \<or> ?f x = 0 then None else Some (of_nat (?f x)))" for x
    using Cons.prems(2) [of x] by (auto simp: step_def vote_value_def table_simps word_gt_0 unat_eq_zero)
  ultimately show ?case
    using Cons.IH [of "step (v, w) P" ?f] by (simp add: p Let_def add.assoc)
qed

lemma rebuild_parked:
  assumes "tbl_wf (ft_votes t)"
  shows "parked (rebuild_pending_weight t) (votes_for (ft_votes t))"
proof -
  have "votes_for (ft_votes t) x = (\<Sum>(v, w) \<leftarrow> ft_votes t. vote_value x (Some w))" for x
    by (rule votes_for_list [OF tbl_wf_distinct [OF assms]])
  then show ?thesis
    using rebuild_fold [of "[]" "tree_contains t" "\<lambda>_. 0" "ft_votes t"]
    by (simp add: parked_def rebuild_pending_weight_def Let_def)
qed

section \<open>Refinement\<close>

lemma tree_prune_eq:
  assumes "r \<noteq> ft_root t" and "tree_contains t r"
    and "u = rebuild_pending_weight (t\<lparr> ft_nodes := pruned_nodes r t, ft_root := r \<rparr>)"
  shows "tree_prune r t = recompute_all (case ft_boost u of
    Some (x, _) \<Rightarrow> if tree_contains u x then u else u\<lparr> ft_boost := None \<rparr> | None \<Rightarrow> u)"
  unfolding assms(3) pruned_nodes_def tree_prune_def Let_def using assms(1,2) by (simp add: require_def)

lemma tree_prune_refines:
  assumes ok: "tree_ok t" and r: "r \<noteq> ft_root t" "tree_contains t r"
  shows "\<exists>t'. tree_prune r t = Inr t' \<and> tree_ok t' \<and>
    tree_abs t' = (tree_abs t)\<lparr> sp_root := r, sp_blocks := subtree r (sp_blocks (tree_abs t)),
      sp_boost := (case sp_boost (tree_abs t) of
        Some x \<Rightarrow> if descends (sp_blocks (tree_abs t)) r x then Some x else None | None \<Rightarrow> None) \<rparr>"
proof -
  let ?B = "blocks_of (ft_nodes t)" and ?f = "votes_for (ft_votes t)"
  let ?t = "t\<lparr> ft_nodes := pruned_nodes r t, ft_root := r \<rparr>"
  define u where "u = rebuild_pending_weight ?t"
  define v where "v = (case ft_boost u of
    Some (x, _) \<Rightarrow> if tree_contains u x then u else u\<lparr> ft_boost := None \<rparr> | None \<Rightarrow> u)"
  have c: "base t" "carries t (\<lambda>x. ?f x + boost_for (ft_boost t) x)" using tree_okD(1) [OF ok] by (auto simp: counted_def)
  have inside: "tree_contains ?t x \<longleftrightarrow> descends ?B r x" for x
    using descends_dom [of ?B r x] by (auto simp: tree_contains_def pruned_get(2) [OF c(1) r(2)] simp del: not_None_eq)
  have wf: "tbl_wf (ft_votes t)" using tree_okD(2) [OF ok] by (simp add: votes_ok_def)
  obtain w where w: "u = ?t\<lparr> ft_pending_weight := w \<rparr>" by (auto simp: u_def rebuild_pending_weight_def)
  have u: "base u" "carries u (\<lambda>x. ?f x + boost_for (ft_boost t) x)" "parked u ?f"
    using pruned_base [OF c(1) r(2)] pruned_carries [OF c(1) r(2) c(2)] rebuild_parked [of ?t] wf w
    by (simp_all add: u_def)
  have v: "v = u\<lparr> ft_boost := ft_boost v \<rparr>" and boost: "ft_boost v = (case ft_boost t of
      Some (x, s) \<Rightarrow> if descends ?B r x then Some (x, s) else None | None \<Rightarrow> None)"
    using inside by (auto simp: v_def w split: option.split)
  have carries: "carries u (\<lambda>x. ?f x + boost_for (ft_boost v) x)"
  proof (cases "ft_boost v = ft_boost t")
    case True
    with u(2) show ?thesis by simp
  next
    case False
    then obtain x s where x: "ft_boost t = Some (x, s)" "\<not> tree_contains u x" "ft_boost v = None"
      using inside by (auto simp: boost w split: option.splits if_splits)
    have "(\<lambda>y. ?f y + boost_for (ft_boost t) y)(x := ?f x) = (\<lambda>y. ?f y + boost_for (ft_boost v) y)"
      using x by (auto simp: fun_eq_iff boost_for_def)
    with carries_outside [OF x(2), of "\<lambda>y. ?f y + boost_for (ft_boost t) y" "?f x"] u(2) show ?thesis by simp
  qed
  have vb: "base v" "carries v (\<lambda>x. ?f x + boost_for (ft_boost v) x)" "parked v ?f"
    by (subst v, use u carries in \<open>simp add: base_def carries_def parked_def tree_contains_def\<close>)+
  obtain t' where t': "recompute_all v = Inr t'" "recached v t'" "unsettled t' = {}"
    using recompute_all_settles [OF vb(1)] by blast
  have links: "same_links v t'" using t'(2) by (simp add: recached_def)
  have fields: "ft_votes v = ft_votes t" "ft_balances v = ft_balances t" "ft_proposer_score v = ft_proposer_score t"
    "ft_equivocating v = ft_equivocating t" "ft_root v = r" "ft_context v = ft_context t"
    "ft_nodes v = pruned_nodes r t"
    by (subst v, simp add: w)+
  have "tree_ok t'"
  proof (rule same_links_tree_ok [OF links])
    show "counted t' (votes_for (ft_votes v)) (boost_for (ft_boost v))"
      using recached_counted [OF t'(2,3) vb] by (simp add: fields)
    show "votes_ok v" using tree_okD(2) [OF ok] by (simp add: votes_ok_def tree_balance_of_def fields)
    show "s = ft_proposer_score v" if "ft_boost v = Some (x, s)" for x s
      using that tree_okD(3) [OF ok] by (auto simp: boost fields split: option.splits if_splits)
    show "sum_list (map unat (ft_balances v)) + unat (ft_proposer_score v) < 2 ^ 63"
      using tree_okD(4) [OF ok] by (simp add: fields)
  qed
  moreover have "tree_prune r t = Inr t'"
    using tree_prune_eq [OF r u_def] t'(1) by (simp add: v_def)
  moreover have "map_option fst (ft_boost v) = (case map_option fst (ft_boost t) of
      Some x \<Rightarrow> if descends ?B r x then Some x else None | None \<Rightarrow> None)"
    by (simp add: boost split: option.split)
  moreover have "sp_blocks (tree_abs t) = ?B" "sp_boost (tree_abs t) = map_option fst (ft_boost t)"
    by (simp_all add: tree_abs_def)
  moreover have "tree_abs v = (tree_abs t)\<lparr> sp_root := r, sp_blocks := subtree r ?B, sp_boost := map_option fst (ft_boost v) \<rparr>"
    by (simp add: tree_abs_def fields pruned_blocks [OF c(1) r(2)])
  ultimately show ?thesis
    using same_links_abs [OF links] by (simp only: fork_choice_spec.simps) auto
qed

end
