(* ===== verification/Beacon_Fork_Theorems.thy ===== *)
theory Beacon_Fork_Theorems
  imports Beacon_Fork_Prune
begin

text \<open>
  The in-memory tree implements the fork choice rule. An operation that fails leaves the tree as it is;
  after any sequence of operations the cached weights, viability and head are those that the specification
  computes from scratch.
\<close>

section \<open>Refinement of an interface\<close>

text \<open>A failed operation leaves the state as it is.\<close>

definition attempt :: "('o \<Rightarrow> 's \<Rightarrow> 'e + 's) \<Rightarrow> 'o \<Rightarrow> 's \<Rightarrow> 's" where
  "attempt run op s = (case run op s of Inl _ \<Rightarrow> s | Inr s' \<Rightarrow> s')"

fun all_allowed :: "('o \<Rightarrow> 'a \<Rightarrow> 'e + 'a) \<Rightarrow> ('a \<Rightarrow> 'o \<Rightarrow> bool) \<Rightarrow> 'a \<Rightarrow> 'o list \<Rightarrow> bool" where
  "all_allowed spec allowed a [] \<longleftrightarrow> True"
| "all_allowed spec allowed a (op # ops) \<longleftrightarrow>
     allowed a op \<and> all_allowed spec allowed (attempt spec op a) ops"

locale refinement =
  fixes run :: "'o \<Rightarrow> 's \<Rightarrow> 'e + 's"
    and spec :: "'o \<Rightarrow> 'a \<Rightarrow> 'e + 'a"
    and invar :: "'s \<Rightarrow> bool"
    and abs :: "'s \<Rightarrow> 'a"
    and allowed :: "'a \<Rightarrow> 'o \<Rightarrow> bool"
  assumes simulates: "invar s \<Longrightarrow> allowed (abs s) op \<Longrightarrow>
      (case spec op (abs s) of
         Inl e \<Rightarrow> run op s = Inl e
       | Inr a \<Rightarrow> \<exists>s'. run op s = Inr s' \<and> invar s' \<and> abs s' = a)"
begin

lemma attempt_refines:
  "invar s \<Longrightarrow> allowed (abs s) op \<Longrightarrow> invar (attempt run op s) \<and> abs (attempt run op s) = attempt spec op (abs s)"
  using simulates [of s op] by (auto simp: attempt_def split: sum.splits)

lemma runs_refine:
  "invar s \<Longrightarrow> all_allowed spec allowed (abs s) ops \<Longrightarrow>
   invar (fold (attempt run) ops s) \<and> abs (fold (attempt run) ops s) = fold (attempt spec) ops (abs s)"
proof (induction ops arbitrary: s)
  case (Cons op ops)
  then show ?case using attempt_refines [of s op] by simp
qed simp

lemma same_errors: "invar s \<Longrightarrow> allowed (abs s) op \<Longrightarrow> run op s = Inl e \<Longrightarrow> spec op (abs s) = Inl e"
  using simulates [of s op] by (auto split: sum.splits)

end

section \<open>The tree\<close>

definition any_order :: "delta_order \<Rightarrow> bool" where
  "any_order order \<longleftrightarrow> (\<forall>ds. mset (order ds) = mset ds)"

lemma tree_abs_simps [simp]:
  "sp_root (tree_abs t) = ft_root t" "sp_blocks (tree_abs t) = blocks_of (ft_nodes t)"
  "sp_context (tree_abs t) = ft_context t" "sp_balances (tree_abs t) = ft_balances t"
  "sp_score (tree_abs t) = ft_proposer_score t"
  "sp_votes (tree_abs t) = (\<lambda>v. map_option av_root (tbl_get (ft_votes t) v))"
  "sp_equivocating (tree_abs t) = ft_equivocating t" "sp_boost (tree_abs t) = map_option fst (ft_boost t)"
  by (simp_all add: tree_abs_def)

lemma tree_insert_simulates:
  assumes "tree_ok t" and "op_allowed (tree_abs t) (Insert b)"
  shows "case spec_insert b (tree_abs t) of Inl e \<Rightarrow> tree_insert b t = Inl e
    | Inr S \<Rightarrow> \<exists>t'. tree_insert b t = Inr t' \<and> tree_ok t' \<and> tree_abs t' = S"
proof -
  show ?thesis
  proof (cases "tbl_get (ft_nodes t) (fb_root b)")
    case (Some n)
    then show ?thesis using assms(1) by (simp add: spec_insert_def tree_insert_def tree_contains_def)
  next
    case new: None
    show ?thesis
    proof (cases "tbl_get (ft_nodes t) (fb_parent_root b)")
      case None
      with new show ?thesis by (simp add: spec_insert_def tree_insert_def tree_contains_def blocks_of_def)
    next
      case (Some p)
      show ?thesis
      proof (cases "fn_slot p < fb_slot b")
        case True
        have "\<exists>t'. tree_insert b t = Inr t' \<and> tree_ok t' \<and>
            tree_abs t' = (tree_abs t)\<lparr> sp_blocks := (sp_blocks (tree_abs t))(fb_root b \<mapsto> skeleton (new_node b)) \<rparr>"
          by (rule tree_insert_refines [OF assms(1) Some new True]) (use assms(2) new in simp)
        with new Some True show ?thesis
          by (simp add: spec_insert_def blocks_of_def skeleton_def new_node_def)
      next
        case False
        with new Some show ?thesis
          by (simp add: spec_insert_def tree_insert_def tree_contains_def blocks_of_def require_def)
      qed
    qed
  qed
qed

lemma tree_prune_simulates:
  assumes "tree_ok t"
  shows "case spec_prune r (tree_abs t) of Inl e \<Rightarrow> tree_prune r t = Inl e
    | Inr S \<Rightarrow> \<exists>t'. tree_prune r t = Inr t' \<and> tree_ok t' \<and> tree_abs t' = S"
proof -
  show ?thesis
  proof (cases "r = ft_root t")
    case True
    then show ?thesis using assms by (simp add: spec_prune_def tree_prune_def)
  next
    case False
    show ?thesis
    proof (cases "tree_contains t r")
      case True
      have "subtree r (sp_blocks (tree_abs t)) = (\<lambda>x. if descends (sp_blocks (tree_abs t)) r x
          then map_option (\<lambda>b. if x = r then b\<lparr> sk_parent := None \<rparr> else b) (sp_blocks (tree_abs t) x) else None)"
        by (simp add: fun_eq_iff subtree_def)
      moreover have "sp_blocks (tree_abs t) r \<noteq> None" "r \<noteq> sp_root (tree_abs t)"
        using True False by (simp_all add: tree_contains_def)
      ultimately show ?thesis
        using tree_prune_refines [OF assms False True] by (simp only: spec_prune_def if_False sum.case)
    next
      case outside: False
      with False show ?thesis by (simp add: spec_prune_def tree_prune_def tree_contains_def require_def)
    qed
  qed
qed

lemma run_op_simulates:
  assumes "tree_ok t" and "any_order order" and "op_allowed (tree_abs t) op"
  shows "case spec_op op (tree_abs t) of Inl e \<Rightarrow> run_op order op t = Inl e
    | Inr S \<Rightarrow> \<exists>t'. run_op order op t = Inr t' \<and> tree_ok t' \<and> tree_abs t' = S"
proof -
  have order: "\<And>ds. mset (order ds) = mset ds" using assms(2) by (simp add: any_order_def)
  show ?thesis
  proof (cases op)
    case (Insert b)
    with tree_insert_simulates [of t b] assms(1,3) show ?thesis by (simp only: spec_op.simps run_op.simps)
  next
    case (Prune r)
    with tree_prune_simulates [OF assms(1)] show ?thesis by (simp only: spec_op.simps run_op.simps)
  qed (use assms process_votes_refines [OF assms(1) order] mark_equivocating_refines [OF assms(1) order]
      set_balances_refines [OF assms(1) order] set_proposer_boost_root_refines [OF assms(1)]
      update_context_refines [OF assms(1)] in simp_all)
qed

interpretation ft: refinement "run_op order" spec_op "\<lambda>t. any_order order \<and> tree_ok t" tree_abs op_allowed
  for order
proof
  fix t op
  assume "any_order order \<and> tree_ok t" "op_allowed (tree_abs t) op"
  then have "any_order order" "case spec_op op (tree_abs t) of Inl e \<Rightarrow> run_op order op t = Inl e
      | Inr S \<Rightarrow> \<exists>t'. run_op order op t = Inr t' \<and> tree_ok t' \<and> tree_abs t' = S"
    using run_op_simulates by auto
  then show "case spec_op op (tree_abs t) of Inl e \<Rightarrow> run_op order op t = Inl e
      | Inr S \<Rightarrow> \<exists>t'. run_op order op t = Inr t' \<and> (any_order order \<and> tree_ok t') \<and> tree_abs t' = S"
    by (simp split: sum.splits)
qed

section \<open>What the caches hold\<close>

lemma sum_votes_subtree:
  assumes "votes_ok t"
  shows "(\<Sum>x \<in> A. votes_for (ft_votes t) x)
    = (\<Sum>v | \<exists>x. sp_votes (tree_abs t) v = Some x \<and> x \<in> A. spec_balance (tree_abs t) v)"
proof -
  let ?V = "{v. \<exists>x. sp_votes (tree_abs t) v = Some x \<and> x \<in> A}"
  have "(\<Sum>x \<in> A. votes_for (ft_votes t) x) = (\<Sum>v \<in> UNIV. \<Sum>x \<in> A. vote_value x (tbl_get (ft_votes t) v))"
    unfolding votes_for_def by (rule sum.swap)
  also have "\<dots> = (\<Sum>v \<in> ?V. spec_balance (tree_abs t) v)"
  proof (rule sum.mono_neutral_cong_right)
    show "\<forall>v \<in> UNIV - ?V. (\<Sum>x \<in> A. vote_value x (tbl_get (ft_votes t) v)) = 0"
      by (auto simp: vote_value_def split: option.split)
    show "(\<Sum>x \<in> A. vote_value x (tbl_get (ft_votes t) v)) = spec_balance (tree_abs t) v" if "v \<in> ?V" for v
    proof -
      obtain w where w: "tbl_get (ft_votes t) v = Some w" "av_root w \<in> A" using \<open>v \<in> ?V\<close> by auto
      then have "(\<Sum>x \<in> A. vote_value x (tbl_get (ft_votes t) v)) = unat (av_balance w)"
        by (simp add: vote_value_def)
      also have "av_balance w = tree_balance_of t v" using assms w by (simp add: votes_ok_def)
      finally show ?thesis by (simp add: spec_balance_def tree_balance_of_def split: option.split)
    qed
  qed auto
  finally show ?thesis .
qed

lemma tree_weight_spec:
  assumes "tree_ok t" and "tbl_get (ft_nodes t) r = Some n"
  shows "unat (fn_weight n) = spec_weight (tree_abs t) r"
proof -
  let ?A = "{x. descends (blocks_of (ft_nodes t)) r x}"
  have "unat (fn_weight n) = (\<Sum>x \<in> ?A. votes_for (ft_votes t) x + boost_for (ft_boost t) x)"
    using tree_okD(1) [OF assms(1)] assms(2) by (simp add: counted_def carries_def)
  also have "\<dots> = (\<Sum>x \<in> ?A. votes_for (ft_votes t) x) + (\<Sum>x \<in> ?A. boost_for (ft_boost t) x)"
    by (rule sum.distrib)
  also have "(\<Sum>x \<in> ?A. boost_for (ft_boost t) x) = (case sp_boost (tree_abs t) of None \<Rightarrow> 0
      | Some x \<Rightarrow> if descends (sp_blocks (tree_abs t)) r x then unat (sp_score (tree_abs t)) else 0)"
    using tree_okD(3) [OF assms(1)] by (auto simp: boost_for_def split: option.split)
  finally show ?thesis
    using sum_votes_subtree [OF tree_okD(2) [OF assms(1)], of ?A] by (simp add: spec_weight_def)
qed

lemma ghost_weights:
  assumes "ghost ctx B w r h" and "\<And>c. B c \<noteq> None \<Longrightarrow> w c = w' c"
  shows "ghost ctx B w' r h"
  using assms(1)
proof (induction rule: ghost.induct)
  case (stop r)
  then show ?case by (rule ghost.stop)
next
  case (step r c h)
  have eq: "w' d = w d" if "is_child B r d" for d using that assms(2) by (auto simp: is_child_def)
  show ?case
    by (rule ghost.step [OF step.hyps(1,2) _ step.IH]) (use step.hyps(3) eq step.hyps(1) in auto)
qed

lemma tree_head_spec:
  assumes ok: "tree_ok t"
  shows "spec_head (tree_abs t) (tree_head t)"
proof -
  let ?N = "ft_nodes t" and ?r = "bcp_root (vc_justified_checkpoint (ft_context t))"
  have base: "base t" and settled: "unsettled t = {}" using tree_okD(1) [OF ok] by (auto simp: counted_def)
  have "ghost (ft_context t) (blocks_of ?N) (node_weight ?N) ?r (tree_head t)"
  proof (cases "tbl_get ?N ?r")
    case None
    have "linked (blocks_of ?N) (ft_root t)" using base by (simp add: base_def)
    then have "\<not> is_child (blocks_of ?N) ?r c" for c
      using linked_parent [of "blocks_of ?N" "ft_root t" c _ ?r] None by (force simp: is_child_def blocks_of_Some)
    then have "ghost (ft_context t) (blocks_of ?N) (node_weight ?N) ?r ?r" by (intro ghost.stop) simp
    with None show ?thesis by (simp add: tree_head_def Let_def)
  next
    case (Some n)
    then show ?thesis using settled_caches [OF base settled Some] by (simp add: tree_head_def Let_def)
  qed
  then have "ghost (ft_context t) (blocks_of ?N) (spec_weight (tree_abs t)) ?r (tree_head t)"
    by (rule ghost_weights) (auto simp: node_weight_def tree_weight_spec [OF ok] split: option.split)
  then show ?thesis by (simp add: spec_head_def)
qed

section \<open>Properties\<close>

definition tree_run ::
  "delta_order \<Rightarrow> fork_choice_block \<Rightarrow> viability_context \<Rightarrow> tree_op list \<Rightarrow> beacon_error + fork_choice_tree" where
  "tree_run order anchor ctx ops =
     and_then (tree_new anchor ctx) (\<lambda>t. Inr (fold (attempt (run_op order)) ops t))"

definition spec_run :: "fork_choice_block \<Rightarrow> viability_context \<Rightarrow> tree_op list \<Rightarrow> fork_choice_spec" where
  "spec_run anchor ctx ops = fold (attempt spec_op) ops (spec_new anchor ctx)"

lemma tree_run_ok:
  assumes "any_order order" and "all_allowed spec_op op_allowed (spec_new anchor ctx) ops"
  obtains t where "tree_run order anchor ctx ops = Inr t" "tree_ok t" "tree_abs t = spec_run anchor ctx ops"
proof -
  obtain t0 where t0: "tree_new anchor ctx = Inr t0" "tree_ok t0" "tree_abs t0 = spec_new anchor ctx"
    using tree_new_refines by blast
  with ft.runs_refine [of order t0 ops] assms that show thesis
    by (simp add: tree_run_def spec_run_def)
qed

definition demo_fcp :: beacon_checkpoint where
  "demo_fcp = \<lparr> cp_epoch = 0, bcp_root = 1 \<rparr>"

definition demo_fblock :: "b256 \<Rightarrow> b256 \<Rightarrow> u64 \<Rightarrow> fork_choice_block" where
  "demo_fblock r p s = \<lparr> fb_root = r, fb_parent_root = p, fb_slot = s, fb_justified_checkpoint = demo_fcp,
     fb_unrealized_justified_checkpoint = demo_fcp \<rparr>"

definition demo_fctx :: viability_context where
  "demo_fctx = \<lparr> vc_justified_checkpoint = demo_fcp, vc_finalized_checkpoint = demo_fcp, vc_current_epoch = 0 \<rparr>"

text \<open>Votes for a block that arrives later, a fork, an equivocation, a boost, and a block without parent.\<close>

definition demo_fops :: "tree_op list" where
  "demo_fops = [Balances demo_fcp [32, 32, 32, 32] 10, Votes [(0, 2)], Insert (demo_fblock 2 1 1), Insert (demo_fblock 3 1 1),
     Votes [(1, 3), (2, 3)], Insert (demo_fblock 4 3 2), Equivocating [1], Boost (Some 2), Insert (demo_fblock 6 5 3)]"

lemma demo_fops_allowed: "all_allowed spec_op op_allowed (spec_new (demo_fblock 1 0 0) demo_fctx) demo_fops"
  by (simp add: demo_fops_def spec_new_def attempt_def spec_insert_def spec_vote_def demo_fblock_def demo_fctx_def)

lemma any_order_rev: "any_order rev"
  by (simp add: any_order_def)

text \<open>C18. The fork choice tree of the Beacon chain is correct after any sequence of operations: blocks, votes
  (also for blocks not known yet), equivocations, new balances, proposer boost, a new context, pruning,
  each of which may fail. The weight cached for a block is the balance of the votes for it and its
  descendants, with the boost, and the head is the one block that the fork choice rule, computed from
  scratch, reaches from the justified block; whatever the order in which the hash maps of weight changes
  are iterated. The caller keeps the balances and the score below $2^{63}$ in sum and does not boost a block
  before it is inserted.\<close>

theorem fork_choice_tree_refines:
  assumes "any_order order" and "all_allowed spec_op op_allowed (spec_new anchor ctx) ops"
  shows "\<exists>t. tree_run order anchor ctx ops = Inr t \<and>
    (\<forall>h. spec_head (spec_run anchor ctx ops) h \<longleftrightarrow> h = tree_head t) \<and>
    (\<forall>r. map_option unat (tree_weight t r) =
       map_option (\<lambda>_. spec_weight (spec_run anchor ctx ops) r) (sp_blocks (spec_run anchor ctx ops) r))"
proof -
  from tree_run_ok [OF assms] obtain t where t: "tree_run order anchor ctx ops = Inr t" "tree_ok t"
    "tree_abs t = spec_run anchor ctx ops" .
  have "spec_head (spec_run anchor ctx ops) h \<longleftrightarrow> h = tree_head t" for h
    using tree_head_spec [OF t(2)] ghost_unique unfolding t(3) spec_head_def by blast
  moreover have "map_option unat (tree_weight t r) =
      map_option (\<lambda>_. spec_weight (spec_run anchor ctx ops) r) (sp_blocks (spec_run anchor ctx ops) r)" for r
    using tree_weight_spec [OF t(2), of r] unfolding t(3) [symmetric]
    by (cases "tbl_get (ft_nodes t) r") (simp_all add: tree_weight_def blocks_of_def)
  ultimately show ?thesis using t(1) by blast
qed

theorem fork_choice_tree_refines_witness:
  "\<exists>t. tree_run rev (demo_fblock 1 0 0) demo_fctx demo_fops = Inr t \<and>
     (\<forall>h. spec_head (spec_run (demo_fblock 1 0 0) demo_fctx demo_fops) h \<longleftrightarrow> h = tree_head t)"
  using fork_choice_tree_refines [OF any_order_rev demo_fops_allowed] by blast

text \<open>C30. No operation on such a tree hangs or panics, and it fails only where the source says so: a block
  is refused when its parent is unknown or not at an earlier slot, pruning when the new root is
  unknown; votes, equivocations, balances, boost and context always succeed. The lookup of an ancestor
  returns too, with the last block of the chain at or before the slot if the tree has one.\<close>

theorem fork_choice_tree_errors:
  assumes "any_order order" and "all_allowed spec_op op_allowed (spec_new anchor ctx) ops"
    and "tree_run order anchor ctx ops = Inr t" and "op_allowed (spec_run anchor ctx ops) op"
  shows "run_op order op t \<noteq> Inl Hangs \<and> run_op order op t \<noteq> Inl Panic \<and>
    ((\<exists>e. run_op order op t = Inl e) \<longleftrightarrow>
      (case op of
         Insert b \<Rightarrow> \<not> tree_contains t (fb_root b) \<and>
           (case tbl_get (ft_nodes t) (fb_parent_root b) of None \<Rightarrow> True | Some p \<Rightarrow> fb_slot b \<le> fn_slot p)
       | Prune r \<Rightarrow> \<not> tree_contains t r
       | _ \<Rightarrow> False)) \<and>
    (\<exists>a. tree_ancestor t x slot = Inr a \<and> (\<forall>r. a = Some r \<longleftrightarrow>
       ancestor_at (sp_blocks (spec_run anchor ctx ops)) slot x r \<and>
       (\<exists>b. sp_blocks (spec_run anchor ctx ops) r = Some b \<and> sk_slot b \<le> slot)))"
proof -
  from tree_run_ok [OF assms(1,2)] assms(3) have ok: "tree_ok t" and abs: "tree_abs t = spec_run anchor ctx ops"
    by auto
  have root: "tree_contains t (ft_root t)"
    using tree_okD(1) [OF ok] by (auto simp: counted_def base_def linked_def blocks_of_def tree_contains_def)
  have sim: "case spec_op op (tree_abs t) of Inl e \<Rightarrow> run_op order op t = Inl e
      | Inr S \<Rightarrow> \<exists>t'. run_op order op t = Inr t'"
    using run_op_simulates [OF ok assms(1), of op] assms(4) by (auto simp: abs split: sum.splits)
  have base: "base t" using tree_okD(1) [OF ok] by (simp add: counted_def)
  have "run_op order op t \<noteq> Inl Hangs \<and> run_op order op t \<noteq> Inl Panic \<and>
    ((\<exists>e. run_op order op t = Inl e) \<longleftrightarrow>
      (case op of
         Insert b \<Rightarrow> \<not> tree_contains t (fb_root b) \<and>
           (case tbl_get (ft_nodes t) (fb_parent_root b) of None \<Rightarrow> True | Some p \<Rightarrow> fb_slot b \<le> fn_slot p)
       | Prune r \<Rightarrow> \<not> tree_contains t r
       | _ \<Rightarrow> False))"
    using sim root
    by (cases op) (auto simp: spec_insert_def spec_prune_def tree_contains_def blocks_of_def skeleton_def not_less
        split: option.splits if_splits sum.splits)
  with tree_ancestor_correct [OF base, of x slot] show ?thesis by (simp add: abs [symmetric])
qed

theorem fork_choice_tree_errors_witness:
  "\<exists>t. tree_run rev (demo_fblock 1 0 0) demo_fctx demo_fops = Inr t \<and>
     run_op rev (Insert (demo_fblock 7 4 3)) t \<noteq> Inl Hangs"
proof -
  from tree_run_ok [OF any_order_rev demo_fops_allowed] obtain t where
    t: "tree_run rev (demo_fblock 1 0 0) demo_fctx demo_fops = Inr t" "tree_abs t = spec_run (demo_fblock 1 0 0) demo_fctx demo_fops" .
  have "op_allowed (spec_run (demo_fblock 1 0 0) demo_fctx demo_fops) (Insert (demo_fblock 7 4 3))"
    by (simp add: spec_run_def demo_fops_def spec_new_def attempt_def spec_insert_def spec_vote_def demo_fblock_def demo_fctx_def)
  from fork_choice_tree_errors [OF any_order_rev demo_fops_allowed t(1) this] t(1) show ?thesis by blast
qed

end
