(* ===== verification/Spec2Isabelle.thy ===== *)
theory Spec2Isabelle
  imports Lean_State_Theorems Lean_Store_Theorems Lean_Attestation_Theorems Lean_Vote_Theorems
    Lean_Production_Theorems
    Beacon_Rewards Beacon_Queues Beacon_Registry_Updates Beacon_Withdrawals Beacon_Fork_Theorems
begin

text \<open>
  Verification of Ream's consensus code: the Lean client and the Beacon chain.

  \<^bold>\<open>The program.\<close> Ream runs two chains. On the Lean chain a proposer extends the chain by one block per
  slot, validators attest to a head and to a link between two checkpoints, and two thirds of the
  registry justify and finalize checkpoints (the 3SF-mini rule). Four parts interact:

  \<^item> the state transition (\<open>crates/common/consensus/lean/src\<close>: \<open>state.rs\<close>, \<open>slot.rs\<close>, \<open>validator.rs\<close>,
    \<open>block.rs\<close>, \<open>attestation.rs\<close>) is a pure function from a state and a block to a state or an error;
  \<^item> the fork choice store (\<open>crates/common/fork_choice/lean/src/store.rs\<close>) keeps blocks, post-states and
    votes, moves the clock, chooses the head by LMD-GHOST, imports blocks, aggregates votes and builds
    blocks; it calls the transition for every block it imports or builds;
  \<^item> the database (\<open>crates/storage/src/tables\<close>, \<open>crates/storage/src/db/lean.rs\<close>) holds the store's data
    in ordered tables and single fields;
  \<^item> the signature wrappers (\<open>crates/crypto/post_quantum/src\<close>) call the aggregation library; blocks are
    verified (\<open>block.rs\<close>) and signed (\<open>crates/common/validator/lean/src/service.rs\<close>) through them.

  On the Beacon chain two parts are modelled:

  \<^item> the state transition of the Electra fork (\<open>crates/common/consensus/beacon/src/electra/beacon_state.rs\<close>),
    with the containers and helpers of \<open>crates/common/consensus/misc/src\<close>: slots, epochs and the
    operations of a block, each a function from a state to a state or an error, and the ways to replay a
    block without checking its signatures again;
  \<^item> the fork choice tree (\<open>crates/common/fork_choice/beacon/src/fork_choice_tree.rs\<close>): the blocks after the
    finalized one in memory, with cached weights, viability and best descendants that every operation
    updates along one chain of ancestors.

  \<^bold>\<open>The theories.\<close>

  \<^item> \<open>Prelude\<close>: machine integers (\<open>u64\<close> is \<open>64 word\<close>), saturating and checked subtraction, \<open>Result\<close> as a
    sum with \<open>and_then\<close>, \<open>ensure\<close>, \<open>try_fold\<close>; the ordered table with the contract \<open>kv_table\<close>; the program
    monad \<open>prog\<close> of the store's methods (a state and a result) with the contract \<open>store_frame\<close> of a
    relation every step keeps; \<open>fallible_loop\<close>, the contract of a loop that stops at its first error.
  \<^item> \<open>Lean_Slot\<close>, \<open>Lean_Types\<close>: \<open>slot.rs\<close>, the containers and the constants. Hashing and the bit and
    variable lists of the SSZ library are the fields of the record \<open>lean_env\<close>, with the laws \<open>ssz_ok\<close>.
  \<^item> \<open>Lean_State\<close>: \<open>state.rs\<close>, one definition per function and per loop body. \<open>Lean_State_Lemmas\<close>,
    \<open>Lean_Invariant\<close>, \<open>Lean_Transition\<close>, \<open>Lean_Abstract\<close>, \<open>Lean_Greedy\<close>: its lemmas, the invariant
    \<open>state_ok\<close>, the reachable states \<open>chain_state\<close> and the abstract finality machine over sets.
    \<open>Lean_State_Theorems\<close>: its properties.
  \<^item> \<open>Lean_Crypto\<close>, \<open>Lean_Block\<close>: \<open>lean_multisig/type_2.rs\<close>, \<open>SignedBlock::verify_signatures\<close>, \<open>sign_block\<close>
    and the genesis block. The aggregation library is the record \<open>pq_env\<close>, with the laws \<open>pq_ok\<close>.
  \<^item> \<open>Lean_Storage\<close>, \<open>Lean_Storage_Lemmas\<close>: the database as the record \<open>lean_db\<close>, the table methods, the
    cache in front of a table (the cache library is the record \<open>lru\<close>, with the laws \<open>lru_ok\<close>).
  \<^item> \<open>Lean_Fork_Choice\<close>, \<open>Lean_Attestation\<close>, \<open>Lean_Aggregation\<close>, \<open>Lean_Production\<close>: the methods of \<open>Store\<close>
    in the order of \<open>store.rs\<close>, as programs over \<open>lean_store\<close>: the database, the two checkpoints shared
    with the network and the production strategy.
  \<^item> \<open>Lean_Ghost\<close>: the locale \<open>block_tree\<close> of parent pointers with decreasing slots, and LMD-GHOST as a
    path of heaviest children; \<open>Lean_Store_Invariant\<close>, \<open>Lean_Store_Steps\<close>: the invariant \<open>store_ok\<close>, the
    events of the node and the reachable stores \<open>reachable_store\<close>; \<open>Lean_Store_Theorems\<close>,
    \<open>Lean_Attestation_Theorems\<close>, \<open>Lean_Vote_Theorems\<close>, \<open>Lean_Production_Theorems\<close>: their properties.
  \<^item> \<open>Beacon_Shuffling\<close>: the shuffling and the committees of \<open>crates/common/consensus/misc/src/misc.rs\<close>, with
    SHA-256 as an argument. \<open>Merkle\<close>: trees, branches and their verification
    (\<open>crates/crypto/merkle/src\<close>), with the hash of two nodes as an argument.
  \<^item> \<open>Beacon_Types\<close>: the containers and constants, the errors (an \<open>anyhow\<close> message, \<open>Panic\<close>, \<open>Hangs\<close>), and the
    record \<open>beacon_env\<close> of third-party code (SHA-256, tree hashing, BLS, bounded lists, the execution
    engine). \<open>Beacon_Accessors\<close>, \<open>Beacon_Mutators\<close>, \<open>Beacon_Epoch\<close>, \<open>Beacon_Registry\<close>, \<open>Beacon_Operations\<close>,
    \<open>Beacon_Requests\<close>, \<open>Beacon_Transition\<close>: \<open>beacon_state.rs\<close> in the order of its parts, one definition per
    function and per loop body.
  \<^item> \<open>Yields\<close>: what a computation establishes when it returns; \<open>Beacon_Frame\<close>: what the operations may change
    in a state; \<open>Beacon_Scan\<close>: the scans of the registry in parallel chunks; \<open>Beacon_Transition_Theorems\<close>,
    \<open>Beacon_Finality\<close>, \<open>Beacon_Rewards\<close>, \<open>Beacon_Queues\<close>, \<open>Beacon_Registry_Updates\<close>, \<open>Beacon_Withdrawals\<close>: the
    properties of the transition, with the contract \<open>transition_frame\<close> of a relation every slot, epoch
    and block keeps.
  \<^item> \<open>Beacon_Fork_Tree\<close>: \<open>fork_choice_tree.rs\<close>. \<open>Beacon_Fork_Spec\<close>: the fork choice rule without caches, and its
    operations. \<open>Beacon_Fork_Caches\<close>, \<open>Beacon_Fork_Weights\<close>, \<open>Beacon_Fork_Votes\<close>, \<open>Beacon_Fork_Balances\<close>,
    \<open>Beacon_Fork_Blocks\<close>, \<open>Beacon_Fork_Prune\<close>: the invariant of the tree and, operation by operation, its
    refinement; \<open>Beacon_Fork_Theorems\<close>: the contract \<open>refinement\<close> and the properties of whole runs.
  \<^item> \<open>Lean_Example\<close>, \<open>Lean_Store_Example\<close>, \<open>Beacon_Example\<close>: concrete instances of the libraries, a Lean
    chain of three blocks with the stores that import it, and a Beacon state with a block; the
    definitions are evaluated on them.

  \<^bold>\<open>What is shown.\<close>

  \<^item> State transition: every reachable state is well formed; an accepted block passed every check;
    processing attestations refines the abstract finality machine; no checkpoint is justified without
    two thirds of the registry, and none finalized while a justifiable slot lies between source and
    target; checkpoints never move backwards; the integer square root of \<open>is_justifiable_after\<close> decides
    exactly the rule; slots, tallies and proof selection do what their loops mean.
  \<^item> Signatures: a verified block is bound to its attestations and its proposer; a block signed over
    proofs that are valid and bound to their attestations is verified.
  \<^item> Store: every event, accepted or rejected, keeps the invariant; no handler diverges; blocks and
    states are never lost; the head is the LMD-GHOST head whatever the order of the votes; the clock
    reaches its target; validation, ancestry and acceptance of votes are characterised exactly; a
    validator never gets two votes for one slot from gossip.
  \<^item> Production: the built block passes the state transition, the selected proofs cover the votes, and
    the tiered selection takes the best candidate.
  \<^item> Storage: the cache is not observable.
  \<^item> Beacon transition: epochs refine a finality machine over sets of epochs; finality never reverts;
    reachable states stay well formed and validators move forward through their life cycle; a replayed
    block gives the imported state, and the variants of the transition agree; rewards in one pass, the
    batched deposits and the three-phase registry update give the results of the plain loops of the
    specification; withdrawals take exactly what the payload lists; the square root is exact.
  \<^item> Beacon fork choice tree: after any operations the cached weights and the head are those of the rule
    computed from scratch, whatever the iteration order of the hash maps; no operation hangs or panics,
    and errors occur exactly where the source raises them.
  \<^item> Shared code: the shuffling of a whole list agrees with the shuffling of each index, which is a
    permutation, and the committees of an epoch partition the active validators; the branch of a leaf
    verifies, and two branches that verify for different leaves exhibit a collision of the hash.
  \<^item> Where the code does not do what it means to: the proof of a gossiped aggregate is not compared
    with the attestation it comes with; a block with duplicate attestation data stays stored; data whose
    voters no single proof covers gives a block that nodes refuse; the slot check of attestations wraps
    around; the clock of a late anchor is in seconds; the round-based selection has no candidates; ties
    between blocks are broken by the hash alone, not by the slot first as a comment says.

  \<^bold>\<open>Bounds and fuel.\<close> Arithmetic on \<open>u64\<close> wraps, as it does in the release profile; \<open>usize\<close> is a natural
  number. A walk of the store along parent pointers gets one step more than there are entries in the
  index or the block table: slots decrease along the walk, so it meets every entry at most once, and
  running out (\<open>Diverges\<close>) is proved unreachable on reachable stores, for every handler and for the search
  of an attestation target. The tick loop gets one round more than the target interval; the rounds of
  \<open>select_round_based\<close> one more than there are candidates, because every round but the last adds one.
  \<open>process_slots\<close>, the greedy selection and the proof covering terminate by a measure, as do the slots of
  the Beacon chain, its square root and the pruning of the tree. The walks of the tree have one or two
  steps more than there are nodes, and running out (\<open>Hangs\<close>) is proved unreachable. The two loops of
  the Beacon chain that sample validators until a random value accepts one (the proposer and the sync
  committee) may run forever for some hash functions; they are partial functions whose undefined result
  is the error \<open>Hangs\<close>, and no property claims that they return. Weight changes of the tree are integers
  where the source has \<open>i128\<close>, which sums of 64-bit balances do not leave.

  \<^bold>\<open>Iteration order.\<close> Rust's hash maps iterate in an unspecified order. A map with ordered keys is a table
  in key order, a map keyed by attestation data lists its keys in the order of insertion; where the
  order could matter a lemma states that it does not (the order of votes for the head, the ordering
  key of the tiered selection); the tree of the Beacon chain takes the order of its weight changes as a
  parameter.

  \<^bold>\<open>Not modelled.\<close> The features are those of the default build (\<open>devnet5\<close>; no shadow integration). Metrics,
  timers and log lines change no state. Transactions of the database library, a failing disk and the
  removal of a block, which nests transactions, are not modelled. Locks and the asynchronous runtime are
  not modelled: a handler is one step. The caches of a Beacon state are derived data and not part of the
  model. The Beacon fork choice store around the tree, earlier forks of the Beacon chain, networking, HTTP
  interfaces, validator clients and the command line are left out.
\<close>

end
